(* ===== verification/Prelude.thy ===== *)
theory Prelude
  imports Main "HOL-Library.Word"
begin

text \<open>
  Shared vocabulary of the development: the error values every KernelLake exception
  becomes, the result type with its sequencing operators, decimal rendering of integers
  (\<open>std::to_string\<close>), the width predicates of the machine integers the engine uses, and
  the list lemmas the components share.
\<close>

section \<open>Errors as values\<close>

text \<open>
  One constructor per exception class of \<^verbatim>\<open>include/kernellake/common/errors.hpp\<close> that the
  modelled code throws, and one for the \<open>std::out_of_range\<close> that \<open>vector::at\<close> raises.
  The string is the constant leading part of the message.
\<close>

datatype kl_error =
    SqlError string
  | BindingError string
  | PlanningError string
  | ExecutionError string
  | StorageError string
  | StdOutOfRange

type_synonym 'a result = "kl_error + 'a"

definition bindR :: "'a result \<Rightarrow> ('a \<Rightarrow> 'b result) \<Rightarrow> 'b result" where
  "bindR r f = (case r of Inl e \<Rightarrow> Inl e | Inr x \<Rightarrow> f x)"

lemma bindR_simps [simp]:
  "bindR (Inl e) f = Inl e"
  "bindR (Inr x) f = f x"
  by (simp_all add: bindR_def)

lemma bindR_cong [fundef_cong]:
  "r = r' \<Longrightarrow> (\<And>x. r' = Inr x \<Longrightarrow> f x = g x) \<Longrightarrow> bindR r f = bindR r' g"
  by (cases r') simp_all

lemma bindR_eq_Inr: "bindR r f = Inr y \<longleftrightarrow> (\<exists>x. r = Inr x \<and> f x = Inr y)"
  by (cases r) simp_all

lemma bindR_eq_Inl: "bindR r f = Inl e \<longleftrightarrow> r = Inl e \<or> (\<exists>x. r = Inr x \<and> f x = Inl e)"
  by (cases r) auto

text \<open>A loop that pushes the result of each step and stops at the first exception.\<close>

fun mapR :: "('a \<Rightarrow> 'b result) \<Rightarrow> 'a list \<Rightarrow> 'b list result" where
  "mapR f [] = Inr []"
| "mapR f (x # xs) = bindR (f x) (\<lambda>y. bindR (mapR f xs) (\<lambda>ys. Inr (y # ys)))"

lemma mapR_cong [fundef_cong]:
  "xs = ys \<Longrightarrow> (\<And>x. x \<in> set ys \<Longrightarrow> f x = g x) \<Longrightarrow> mapR f xs = mapR g ys"
  by (induction ys arbitrary: xs) (auto intro!: bindR_cong)

lemma mapR_eq_Inr:
  "mapR f xs = Inr ys \<longleftrightarrow> list_all2 (\<lambda>x y. f x = Inr y) xs ys"
proof (induction xs arbitrary: ys)
  case Nil
  then show ?case by auto
next
  case (Cons x xs)
  then show ?case by (cases ys) (auto simp: bindR_eq_Inr)
qed

lemma mapR_total: "(\<And>x. x \<in> set xs \<Longrightarrow> f x = Inr (g x)) \<Longrightarrow> mapR f xs = Inr (map g xs)"
  by (induction xs) auto

lemma mapR_length: "mapR f xs = Inr ys \<Longrightarrow> length ys = length xs"
  by (auto simp: mapR_eq_Inr dest: list_all2_lengthD)

lemma mapR_mem: "mapR f xs = Inr ys \<Longrightarrow> x \<in> set xs \<Longrightarrow> \<exists>y. f x = Inr y"
  by (induction xs arbitrary: ys) (auto simp: bindR_eq_Inr)

lemma mapR_result_mem: "mapR f xs = Inr ys \<Longrightarrow> y \<in> set ys \<Longrightarrow> \<exists>x \<in> set xs. f x = Inr y"
  by (induction xs arbitrary: ys) (auto simp: bindR_eq_Inr)

lemma mapR_map_eq:
  "mapR f xs = Inr ys \<Longrightarrow> (\<And>x y. x \<in> set xs \<Longrightarrow> f x = Inr y \<Longrightarrow> h y = g x) \<Longrightarrow> map h ys = map g xs"
  by (induction xs arbitrary: ys) (auto simp: bindR_eq_Inr)

text \<open>\<open>vector::at\<close>: a checked read.\<close>

definition atR :: "'a list \<Rightarrow> nat \<Rightarrow> 'a result" where
  "atR xs i = (if i < length xs then Inr (xs ! i) else Inl StdOutOfRange)"

lemma atR_eq_Inr: "atR xs i = Inr x \<longleftrightarrow> i < length xs \<and> x = xs ! i"
  by (auto simp: atR_def)

lemma atR_in [simp]: "i < length xs \<Longrightarrow> atR xs i = Inr (xs ! i)"
  by (simp add: atR_def)

section \<open>Machine integers\<close>

definition int64_min :: int where "int64_min = - (2 ^ 63)"
definition int64_max :: int where "int64_max = 2 ^ 63 - 1"

definition in_int64 :: "int \<Rightarrow> bool" where
  "in_int64 i \<longleftrightarrow> int64_min \<le> i \<and> i \<le> int64_max"

definition in_int32 :: "int \<Rightarrow> bool" where
  "in_int32 i \<longleftrightarrow> - (2 ^ 31) \<le> i \<and> i < 2 ^ 31"

text \<open>Two's-complement wrap-around to 32 and 64 bits, and the unsigned 64-bit reading.\<close>

definition wrap32 :: "int \<Rightarrow> int" where
  "wrap32 i = (i + 2 ^ 31) mod 2 ^ 32 - 2 ^ 31"

definition wrap64 :: "int \<Rightarrow> int" where
  "wrap64 i = (i + 2 ^ 63) mod 2 ^ 64 - 2 ^ 63"

definition to_size_t :: "int \<Rightarrow> nat" where
  "to_size_t i = nat (i mod 2 ^ 64)"

lemma wrap32_id: "in_int32 i \<Longrightarrow> wrap32 i = i"
  by (simp add: wrap32_def in_int32_def)

lemma wrap64_id: "in_int64 i \<Longrightarrow> wrap64 i = i"
  by (simp add: wrap64_def in_int64_def int64_min_def int64_max_def)

lemma to_size_t_id: "0 \<le> i \<Longrightarrow> i < 2 ^ 64 \<Longrightarrow> to_size_t i = nat i"
  by (simp add: to_size_t_def)

lemma wrap32_range: "in_int32 (wrap32 i)"
  using pos_mod_bound[of "2 ^ 32" "i + 2 ^ 31"] pos_mod_sign[of "2 ^ 32" "i + 2 ^ 31"]
  by (simp add: wrap32_def in_int32_def)

lemma in_int32_int64: "in_int32 i \<Longrightarrow> in_int64 i"
  by (simp add: in_int32_def in_int64_def int64_min_def int64_max_def)

text \<open>C++ integer division truncates towards zero.\<close>

definition tdiv :: "int \<Rightarrow> int \<Rightarrow> int" where
  "tdiv a b = sgn a * sgn b * (\<bar>a\<bar> div \<bar>b\<bar>)"

definition tmod :: "int \<Rightarrow> int \<Rightarrow> int" where
  "tmod a b = a - b * tdiv a b"

section \<open>Decimal rendering\<close>

text \<open>The digits are computed on \<open>int\<close>, whose numerals are binary.\<close>

function nat_str :: "int \<Rightarrow> string" where
  "nat_str n =
     (if n < 10 then [char_of (48 + n)] else nat_str (n div 10) @ [char_of (48 + n mod 10)])"
  by pat_completeness auto
termination
  by (relation "measure nat") auto

declare nat_str.simps [simp del]

definition int_str :: "int \<Rightarrow> string" where
  "int_str i = (if i < 0 then CHR ''-'' # nat_str (- i) else nat_str i)"

text \<open>A value between single quotes, as messages name it.\<close>

definition quoted :: "string \<Rightarrow> string" where
  "quoted s = [CHR 0x27] @ s @ [CHR 0x27]"

definition digit_val :: "char \<Rightarrow> int" where
  "digit_val c = of_char c - 48"

text \<open>\<open>std::isdigit\<close> in the C locale.\<close>

definition is_digit :: "char \<Rightarrow> bool" where
  "is_digit c \<longleftrightarrow> 48 \<le> (of_char c :: int) \<and> (of_char c :: int) \<le> 57"

fun str_nat_acc :: "int \<Rightarrow> string \<Rightarrow> int" where
  "str_nat_acc a [] = a"
| "str_nat_acc a (c # cs) = str_nat_acc (10 * a + digit_val c) cs"

lemma str_nat_acc_append: "str_nat_acc a (xs @ ys) = str_nat_acc (str_nat_acc a xs) ys"
  by (induction xs arbitrary: a) simp_all

lemma digit_char_of:
  assumes "0 \<le> d" "d < 10"
  shows "digit_val (char_of (48 + d)) = d" "is_digit (char_of (48 + d))"
  using assms by (simp_all add: digit_val_def is_digit_def of_char_of)

lemma str_nat_acc_nat_str: "0 \<le> n \<Longrightarrow> str_nat_acc 0 (nat_str n) = n"
proof (induction n rule: nat_str.induct)
  case (1 n)
  show ?case
  proof (cases "n < 10")
    case True
    with 1 show ?thesis by (subst nat_str.simps) (simp add: digit_char_of)
  next
    case False
    with 1 show ?thesis by (subst nat_str.simps) (simp add: str_nat_acc_append digit_char_of)
  qed
qed

lemma nat_str_digits: "0 \<le> n \<Longrightarrow> \<forall>c \<in> set (nat_str n). is_digit c"
proof (induction n rule: nat_str.induct)
  case (1 n)
  then show ?case by (subst nat_str.simps) (auto simp: digit_char_of)
qed

lemma nat_str_nonempty [simp]: "nat_str n \<noteq> []"
  by (subst nat_str.simps) simp

lemma nat_str_inj: "0 \<le> m \<Longrightarrow> 0 \<le> n \<Longrightarrow> nat_str m = nat_str n \<longleftrightarrow> m = n"
  using str_nat_acc_nat_str by metis

section \<open>Lists\<close>

lemma filter_concat_map:
  "filter P (concat (map f xs)) = concat (map (\<lambda>x. filter P (f x)) xs)"
  by (induction xs) simp_all

lemma concat_map_filter:
  "concat (map f (filter P xs)) = concat (map (\<lambda>x. if P x then f x else []) xs)"
  by (induction xs) simp_all

end
