(* ===== verification/F64.thy ===== *)
theory F64
  imports Prelude
begin

text \<open>
  C++ \<open>double\<close> as its IEEE 754 binary64 bit pattern. Comparison, the conversions from and
  to \<open>std::int64_t\<close>, the four arithmetic operations and \<open>std::to_string\<close> are written out
  on the bit pattern, with exact integer fractions rounded to nearest, ties to even. A NaN
  result is the quiet NaN: no operation of the engine looks at a NaN's payload. The lemmas
  show that the conversion from \<open>std::int64_t\<close> is monotone on the whole type and exact up
  to magnitude $2^{53}$.
\<close>

type_synonym f64 = "64 word"

section \<open>Bit pattern\<close>

definition inf_mag :: int where "inf_mag = 2047 * 2 ^ 52"

definition f64_sign :: "f64 \<Rightarrow> bool" where "f64_sign w \<longleftrightarrow> 2 ^ 63 \<le> uint w"
definition f64_mag :: "f64 \<Rightarrow> int" where "f64_mag w = uint w mod 2 ^ 63"

definition f64_pack :: "bool \<Rightarrow> int \<Rightarrow> f64" where
  "f64_pack s m = word_of_int (m + (if s then 2 ^ 63 else 0))"

definition f64_nan :: f64 where "f64_nan = f64_pack False (inf_mag + 2 ^ 51)"
definition f64_is_nan :: "f64 \<Rightarrow> bool" where "f64_is_nan w \<longleftrightarrow> inf_mag < f64_mag w"
definition f64_is_inf :: "f64 \<Rightarrow> bool" where "f64_is_inf w \<longleftrightarrow> f64_mag w = inf_mag"
definition f64_is_zero :: "f64 \<Rightarrow> bool" where "f64_is_zero w \<longleftrightarrow> f64_mag w = 0"

lemma uint_f64_pack:
  "0 \<le> m \<Longrightarrow> m < 2 ^ 63 \<Longrightarrow> uint (f64_pack s m) = m + (if s then 2 ^ 63 else 0)"
  unfolding f64_pack_def by (simp only: uint_word_of_int) (rule mod_pos_pos_trivial, auto)

lemma f64_pack_mag [simp]: "0 \<le> m \<Longrightarrow> m < 2 ^ 63 \<Longrightarrow> f64_mag (f64_pack s m) = m"
  by (simp add: f64_mag_def uint_f64_pack)

lemma f64_pack_sign [simp]: "0 \<le> m \<Longrightarrow> m < 2 ^ 63 \<Longrightarrow> f64_sign (f64_pack s m) = s"
  by (simp add: f64_sign_def uint_f64_pack)

section \<open>Comparison\<close>

text \<open>On non-NaN values the order is that of the sign-magnitude reading of the pattern.\<close>

definition f64_key :: "f64 \<Rightarrow> int" where
  "f64_key w = (if f64_sign w then - f64_mag w else f64_mag w)"

definition f64_eq :: "f64 \<Rightarrow> f64 \<Rightarrow> bool" where
  "f64_eq a b \<longleftrightarrow> \<not> f64_is_nan a \<and> \<not> f64_is_nan b \<and> f64_key a = f64_key b"
definition f64_lt :: "f64 \<Rightarrow> f64 \<Rightarrow> bool" where
  "f64_lt a b \<longleftrightarrow> \<not> f64_is_nan a \<and> \<not> f64_is_nan b \<and> f64_key a < f64_key b"
definition f64_le :: "f64 \<Rightarrow> f64 \<Rightarrow> bool" where
  "f64_le a b \<longleftrightarrow> \<not> f64_is_nan a \<and> \<not> f64_is_nan b \<and> f64_key a \<le> f64_key b"

lemmas f64_cmp_defs = f64_eq_def f64_lt_def f64_le_def

section \<open>Rounding\<close>

text \<open>The number of binary digits of a non-negative integer.\<close>

function bitlen :: "int \<Rightarrow> nat" where
  "bitlen n = (if n \<le> 0 then 0 else Suc (bitlen (n div 2)))"
  by pat_completeness auto
termination
  by (relation "measure nat") auto

declare bitlen.simps [simp del]

text \<open>The fraction $n / d / 2^e$.\<close>

definition scaled :: "int \<Rightarrow> int \<Rightarrow> int \<Rightarrow> int \<times> int" where
  "scaled n d e = (if 0 \<le> e then (n, d * 2 ^ nat e) else (n * 2 ^ nat (- e), d))"

text \<open>The integer part of $\log_2 (n / d)$ and the nearest integer to $x / y$, ties to even.\<close>

definition ilog2 :: "int \<Rightarrow> int \<Rightarrow> int" where
  "ilog2 n d =
     (let b = int (bitlen n) - int (bitlen d)
      in if snd (scaled n d b) \<le> fst (scaled n d b) then b else b - 1)"

definition rne :: "int \<Rightarrow> int \<Rightarrow> int" where
  "rne x y =
     (let q = x div y; r = x mod y
      in if y < 2 * r \<or> (2 * r = y \<and> odd q) then q + 1 else q)"

text \<open>
  The magnitude bits of the double nearest to the positive fraction $n / d$: the unit in the
  last place is $2^e$ with \<open>e = max (-1074) (ilog2 n d - 52)\<close>, and the significand, with its
  leading bit, is added to the exponent field, so that a carry out of the significand and a
  subnormal result need no case of their own.
\<close>

definition round_mag :: "int \<Rightarrow> int \<Rightarrow> int" where
  "round_mag n d =
     (if n = 0 then 0
      else let e = max (- 1074) (ilog2 n d - 52)
           in min inf_mag ((e + 1074) * 2 ^ 52 + rne (fst (scaled n d e)) (snd (scaled n d e))))"

section \<open>Conversions and arithmetic\<close>

text \<open>\<open>static_cast<double>(std::int64_t)\<close>\<close>

definition f64_of_int :: "int \<Rightarrow> f64" where
  "f64_of_int i = f64_pack (i < 0) (round_mag \<bar>i\<bar> 1)"

text \<open>The finite value of a pattern as significand and binary exponent.\<close>

definition f64_sig :: "f64 \<Rightarrow> int" where
  "f64_sig w =
     (if f64_mag w div 2 ^ 52 = 0 then f64_mag w mod 2 ^ 52 else 2 ^ 52 + f64_mag w mod 2 ^ 52)"
definition f64_exp :: "f64 \<Rightarrow> int" where
  "f64_exp w = (if f64_mag w div 2 ^ 52 = 0 then - 1074 else f64_mag w div 2 ^ 52 - 1075)"

definition f64_num :: "f64 \<Rightarrow> int" where "f64_num w = f64_sig w * 2 ^ nat (f64_exp w)"
definition f64_den :: "f64 \<Rightarrow> int" where "f64_den w = 2 ^ nat (- f64_exp w)"

text \<open>
  \<open>static_cast<std::int64_t>(double)\<close> truncates; outside the range of \<open>std::int64_t\<close> the
  cast is undefined, and the model gives what \<open>cvttsd2si\<close> stores on x86-64.
\<close>

definition f64_to_int :: "f64 \<Rightarrow> int" where
  "f64_to_int w =
     (let m = f64_num w div f64_den w; i = (if f64_sign w then - m else m)
      in if f64_is_nan w \<or> f64_is_inf w \<or> \<not> in_int64 i then int64_min else i)"

definition f64_neg :: "f64 \<Rightarrow> f64" where
  "f64_neg w = f64_pack (\<not> f64_sign w) (f64_mag w)"

definition f64_add :: "f64 \<Rightarrow> f64 \<Rightarrow> f64" where
  "f64_add a b =
     (if f64_is_nan a \<or> f64_is_nan b then f64_nan
      else if f64_is_inf a \<and> f64_is_inf b then (if f64_sign a = f64_sign b then a else f64_nan)
      else if f64_is_inf a then a
      else if f64_is_inf b then b
      else
        let x = f64_num a * f64_den b; y = f64_num b * f64_den a;
            n = (if f64_sign a then - x else x) + (if f64_sign b then - y else y)
        in if n = 0 then f64_pack (f64_sign a \<and> f64_sign b) 0
           else f64_pack (n < 0) (round_mag \<bar>n\<bar> (f64_den a * f64_den b)))"

definition f64_sub :: "f64 \<Rightarrow> f64 \<Rightarrow> f64" where
  "f64_sub a b = f64_add a (f64_neg b)"

definition f64_mul :: "f64 \<Rightarrow> f64 \<Rightarrow> f64" where
  "f64_mul a b =
     (let s = (f64_sign a \<noteq> f64_sign b)
      in if f64_is_nan a \<or> f64_is_nan b then f64_nan
         else if f64_is_inf a \<or> f64_is_inf b
         then (if f64_is_zero a \<or> f64_is_zero b then f64_nan else f64_pack s inf_mag)
         else f64_pack s (round_mag (f64_num a * f64_num b) (f64_den a * f64_den b)))"

definition f64_div :: "f64 \<Rightarrow> f64 \<Rightarrow> f64" where
  "f64_div a b =
     (let s = (f64_sign a \<noteq> f64_sign b)
      in if f64_is_nan a \<or> f64_is_nan b then f64_nan
         else if f64_is_inf a then (if f64_is_inf b then f64_nan else f64_pack s inf_mag)
         else if f64_is_inf b then f64_pack s 0
         else if f64_is_zero b then (if f64_is_zero a then f64_nan else f64_pack s inf_mag)
         else f64_pack s (round_mag (f64_num a * f64_den b) (f64_den a * f64_num b)))"

text \<open>\<open>static_cast<float>(double)\<close>, kept as the double of the same value.\<close>

definition f64_to_f32 :: "f64 \<Rightarrow> f64" where
  "f64_to_f32 w =
     (if f64_is_nan w then f64_nan
      else if f64_is_inf w \<or> f64_is_zero w then w
      else let n = f64_num w; d = f64_den w; e = max (- 149) (ilog2 n d - 23);
               q = rne (fst (scaled n d e)) (snd (scaled n d e));
               m = round_mag (q * 2 ^ nat e) (2 ^ nat (- e))
           in f64_pack (f64_sign w) (if 1151 * 2 ^ 52 \<le> m then inf_mag else m))"

text \<open>\<open>std::to_string(double)\<close>, that is \<open>printf("%f")\<close>: six decimals.\<close>

definition pad6 :: "string \<Rightarrow> string" where
  "pad6 s = replicate (6 - length s) (CHR ''0'') @ s"

definition f64_str :: "f64 \<Rightarrow> string" where
  "f64_str w =
     (let sg = (if f64_sign w then ''-'' else [])
      in if f64_is_nan w then sg @ ''nan''
         else if f64_is_inf w then sg @ ''inf''
         else let k = rne (f64_num w * 10 ^ 6) (f64_den w)
              in sg @ int_str (k div 10 ^ 6) @ ''.'' @ pad6 (int_str (k mod 10 ^ 6)))"

section \<open>The conversion from \<open>std::int64_t\<close>\<close>

lemma bitlen_bounds: "0 < n \<Longrightarrow> 2 ^ (bitlen n - 1) \<le> n \<and> n < 2 ^ bitlen n \<and> 0 < bitlen n"
proof (induction n rule: bitlen.induct)
  case (1 n)
  show ?case
  proof (cases "n = 1")
    case True
    then show ?thesis by (simp add: bitlen.simps)
  next
    case False
    with 1 have IH: "2 ^ (bitlen (n div 2) - 1) \<le> n div 2" "n div 2 < 2 ^ bitlen (n div 2)"
      "0 < bitlen (n div 2)" by auto
    obtain k where k: "bitlen (n div 2) = Suc k" using IH(3) gr0_implies_Suc by blast
    have "bitlen n = Suc (Suc k)" using 1(2) k by (subst bitlen.simps) simp
    with IH k show ?thesis by auto
  qed
qed

lemma bitlen_mono: "m \<le> n \<Longrightarrow> 0 < m \<Longrightarrow> bitlen m \<le> bitlen n"
proof (rule ccontr)
  assume "m \<le> n" "0 < m" "\<not> bitlen m \<le> bitlen n"
  then have "(2::int) ^ bitlen n \<le> 2 ^ (bitlen m - 1)" by (intro power_increasing) auto
  with bitlen_bounds[of m] bitlen_bounds[of n] \<open>m \<le> n\<close> \<open>0 < m\<close> show False by linarith
qed

lemma rne_exact [simp]: "0 < y \<Longrightarrow> rne (c * y) y = c"
  by (simp add: rne_def)

lemma rne_1 [simp]: "rne x 1 = x"
  by (simp add: rne_def)

lemma rne_mono:
  assumes "0 < y" "x \<le> x'"
  shows "rne x y \<le> rne x' y"
proof (cases "x div y = x' div y")
  case True
  have "x mod y \<le> x' mod y"
    using assms True by (simp add: minus_div_mult_eq_mod[symmetric])
  with True show ?thesis by (auto simp: rne_def Let_def)
next
  case False
  have "x div y \<le> x' div y" using assms by (simp add: zdiv_mono1)
  with False show ?thesis by (auto simp: rne_def Let_def)
qed

lemma rne_le: "0 < y \<Longrightarrow> x \<le> c * y \<Longrightarrow> rne x y \<le> c"
  using rne_mono[of y x "c * y"] by simp

lemma rne_ge: "0 < y \<Longrightarrow> c * y \<le> x \<Longrightarrow> c \<le> rne x y"
  using rne_mono[of y "c * y" x] by simp

text \<open>The significand, with its leading bit, of the double nearest to a positive integer.\<close>

definition isig :: "int \<Rightarrow> int" where
  "isig n = rne (fst (scaled n 1 (int (bitlen n) - 53))) (snd (scaled n 1 (int (bitlen n) - 53)))"

lemma isig_bounds_aux:
  assumes "0 < n"
  shows "2 ^ 52 \<le> isig n \<and> isig n \<le> 2 ^ 53 \<and> (bitlen n \<le> 53 \<longrightarrow> isig n < 2 ^ 53)"
proof -
  let ?k = "bitlen n"
  have b: "2 ^ (?k - 1) \<le> n" "n < 2 ^ ?k" "0 < ?k" using bitlen_bounds[OF assms] by auto
  show ?thesis
  proof (cases "53 \<le> ?k")
    case True
    have p: "(2::int) ^ ?k = 2 ^ 53 * 2 ^ (?k - 53)" "(2::int) ^ (?k - 1) = 2 ^ 52 * 2 ^ (?k - 53)"
      using True power_add[of "2::int" 53 "?k - 53"] power_add[of "2::int" 52 "?k - 53"]
      by simp_all
    have e: "isig n = rne n (2 ^ (?k - 53))" using True by (simp add: isig_def scaled_def nat_diff_distrib)
    have "2 ^ 52 \<le> isig n" unfolding e using b p by (intro rne_ge) auto
    moreover have "isig n \<le> 2 ^ 53" unfolding e using b p by (intro rne_le) auto
    moreover have "?k \<le> 53 \<longrightarrow> isig n < 2 ^ 53" unfolding e using b True by auto
    ultimately show ?thesis by blast
  next
    case False
    have e: "isig n = n * 2 ^ (53 - ?k)"
      using False by (simp add: isig_def scaled_def nat_diff_distrib)
    have p: "(2::int) ^ 53 = 2 ^ ?k * 2 ^ (53 - ?k)" "(2::int) ^ 52 = 2 ^ (?k - 1) * 2 ^ (53 - ?k)"
      using False b(3) by (simp_all only: flip: power_add) simp_all
    have lo: "2 ^ 52 \<le> isig n" unfolding e p(2) using b(1) by (intro mult_right_mono) auto
    have hi: "isig n < 2 ^ 53" unfolding e p(1) using b(2) by (intro mult_strict_right_mono) auto
    from lo hi show ?thesis by auto
  qed
qed

lemma isig_bounds:
  assumes "0 < n"
  shows "2 ^ 52 \<le> isig n" "isig n \<le> 2 ^ 53" "bitlen n \<le> 53 \<Longrightarrow> isig n < 2 ^ 53"
  using isig_bounds_aux[OF assms] by auto

lemma isig_mono: "0 < m \<Longrightarrow> m \<le> n \<Longrightarrow> bitlen m = bitlen n \<Longrightarrow> isig m \<le> isig n"
  by (auto simp: isig_def scaled_def intro!: rne_mono)

lemma isig_strict_mono:
  assumes "0 < m" "m < n" "bitlen m = bitlen n" "bitlen n \<le> 53"
  shows "isig m < isig n"
  using assms by (auto simp: isig_def scaled_def)

lemma bitlen_1 [simp]: "bitlen 1 = 1"
  by (simp add: bitlen.simps)

lemma round_mag_int:
  assumes "0 < n" "bitlen n \<le> 64"
  shows "round_mag n 1 = (int (bitlen n) + 1021) * 2 ^ 52 + isig n"
proof -
  note b = bitlen_bounds[OF assms(1)]
  have l: "ilog2 n 1 = int (bitlen n) - 1"
    using b by (simp add: ilog2_def scaled_def nat_diff_distrib)
  have e: "max (- 1074) (ilog2 n 1 - 52) = int (bitlen n) - 53" by (simp add: l)
  have "(int (bitlen n) + 1021) * 2 ^ 52 + isig n \<le> (64 + 1021) * 2 ^ 52 + 2 ^ 53"
    using isig_bounds(2)[OF assms(1)] assms(2) by (intro add_mono mult_right_mono) auto
  then have "(int (bitlen n) + 1021) * 2 ^ 52 + isig n \<le> inf_mag" by (simp add: inf_mag_def)
  with assms(1) show ?thesis by (simp add: round_mag_def e Let_def isig_def min_def)
qed

lemma round_mag_int_mono:
  assumes "0 < m" "m \<le> n" "bitlen n \<le> 64"
  shows "round_mag m 1 \<le> round_mag n 1"
    and "m < n \<Longrightarrow> bitlen m \<le> 53 \<Longrightarrow> round_mag m 1 < round_mag n 1"
proof -
  have n: "0 < n" using assms by simp
  have k: "bitlen m \<le> bitlen n" using assms by (simp add: bitlen_mono)
  note eqs = round_mag_int[OF assms(1)] round_mag_int[OF n assms(3)]
  have step: "int (bitlen m) + 1 \<le> int (bitlen n) \<Longrightarrow>
      (int (bitlen m) + 1021) * 2 ^ 52 + 2 ^ 52 \<le> (int (bitlen n) + 1021) * 2 ^ 52"
    by simp
  show "round_mag m 1 \<le> round_mag n 1"
    using k step isig_mono[OF assms(1,2)] isig_bounds[OF assms(1)] isig_bounds[OF n] eqs assms(3)
    by (cases "bitlen m = bitlen n") auto
  show "round_mag m 1 < round_mag n 1" if "m < n" "bitlen m \<le> 53"
    using k step isig_strict_mono[OF assms(1) that(1)] isig_bounds[OF assms(1)] isig_bounds[OF n]
      eqs assms(3) that(2)
    by (cases "bitlen m = bitlen n") auto
qed

lemma bitlen_le: "0 < n \<Longrightarrow> n < 2 ^ k \<Longrightarrow> bitlen n \<le> k"
proof (rule ccontr)
  assume "0 < n" "n < 2 ^ k" "\<not> bitlen n \<le> k"
  then have "(2::int) ^ k \<le> 2 ^ (bitlen n - 1)" by (intro power_increasing) auto
  with bitlen_bounds[of n] \<open>0 < n\<close> \<open>n < 2 ^ k\<close> show False by linarith
qed

lemma round_mag_range:
  assumes "0 \<le> n" "n \<le> 2 ^ 63"
  shows "0 \<le> round_mag n 1" "round_mag n 1 < inf_mag" "round_mag n 1 < 2 ^ 63"
    and "0 < n \<Longrightarrow> 0 < round_mag n 1"
proof -
  have "0 \<le> round_mag n 1 \<and> round_mag n 1 \<le> 1085 * 2 ^ 52 + 2 ^ 53 \<and> (0 < n \<longrightarrow> 0 < round_mag n 1)"
  proof (cases "n = 0")
    case True
    then show ?thesis by (simp add: round_mag_def)
  next
    case False
    then have n: "0 < n" using assms by simp
    then have k: "bitlen n \<le> 64" using assms by (intro bitlen_le) auto
    then have "(int (bitlen n) + 1021) * 2 ^ 52 \<le> 1085 * 2 ^ 52" by (intro mult_right_mono) auto
    with isig_bounds[OF n] round_mag_int[OF n k] show ?thesis by simp
  qed
  then show "0 \<le> round_mag n 1" "round_mag n 1 < inf_mag" "round_mag n 1 < 2 ^ 63"
    "0 < n \<Longrightarrow> 0 < round_mag n 1"
    by (auto simp: inf_mag_def)
qed

lemma round_mag_0 [simp]: "round_mag 0 d = 0"
  by (simp add: round_mag_def)

lemma abs_int64: "in_int64 i \<Longrightarrow> \<bar>i\<bar> \<le> 2 ^ 63"
  by (auto simp: in_int64_def int64_min_def int64_max_def)

lemma f64_key_of_int:
  "in_int64 i \<Longrightarrow> f64_key (f64_of_int i) = sgn i * round_mag \<bar>i\<bar> 1"
  using round_mag_range(1,3)[of "\<bar>i\<bar>"] abs_int64[of i] round_mag_0
  by (cases "i = 0") (simp_all add: f64_key_def f64_of_int_def sgn_if)

lemma f64_of_int_not_nan [simp]: "in_int64 i \<Longrightarrow> \<not> f64_is_nan (f64_of_int i)"
  using round_mag_range[of "\<bar>i\<bar>"] abs_int64[of i]
  by (simp add: f64_is_nan_def f64_of_int_def)

text \<open>The conversion never reverses the order of two integers.\<close>

lemma f64_of_int_mono:
  assumes "in_int64 i" "in_int64 j" "i \<le> j"
  shows "f64_key (f64_of_int i) \<le> f64_key (f64_of_int j)"
proof -
  have bl: "0 < \<bar>x\<bar> \<Longrightarrow> bitlen \<bar>x\<bar> \<le> 64" if "in_int64 x" for x
    using abs_int64[OF that] by (intro bitlen_le) auto
  have pos: "0 \<le> round_mag \<bar>x\<bar> 1" if "in_int64 x" for x
    using round_mag_range(1)[of "\<bar>x\<bar>"] abs_int64[OF that] by simp
  consider "0 < i" | "j < 0" | "i \<le> 0" "0 \<le> j" by linarith
  then show ?thesis
  proof cases
    case 1
    then show ?thesis using round_mag_int_mono(1)[of i j] bl[OF assms(2)] assms
      by (simp add: f64_key_of_int)
  next
    case 2
    then show ?thesis using round_mag_int_mono(1)[of "- j" "- i"] bl[OF assms(1)] assms
      by (simp add: f64_key_of_int)
  next
    case 3
    then show ?thesis using pos[OF assms(1)] pos[OF assms(2)] assms
      by (auto simp: f64_key_of_int sgn_if)
  qed
qed

text \<open>Up to magnitude $2^{53}$ the conversion is exact, so that it also separates integers.\<close>

lemma f64_of_int_strict_mono:
  assumes "\<bar>i\<bar> \<le> 2 ^ 53" "\<bar>j\<bar> \<le> 2 ^ 53" "i < j"
  shows "f64_key (f64_of_int i) < f64_key (f64_of_int j)"
proof -
  have i64: "in_int64 i" "in_int64 j"
    using assms by (auto simp: in_int64_def int64_min_def int64_max_def)
  have bl: "0 < \<bar>x\<bar> \<Longrightarrow> bitlen \<bar>x\<bar> \<le> 64" if "in_int64 x" for x
    using abs_int64[OF that] by (intro bitlen_le) auto
  have pos: "0 \<le> round_mag \<bar>x\<bar> 1 \<and> (x \<noteq> 0 \<longrightarrow> 0 < round_mag \<bar>x\<bar> 1)" if "in_int64 x" for x
    using round_mag_range(1,4)[of "\<bar>x\<bar>"] abs_int64[OF that] by auto
  consider "0 < i" | "j < 0" | "i \<le> 0" "0 \<le> j" by linarith
  then show ?thesis
  proof cases
    case 1
    with assms have "bitlen i \<le> 53" by (intro bitlen_le) auto
    with 1 show ?thesis using round_mag_int_mono(2)[of i j] bl[OF i64(2)] assms i64
      by (simp add: f64_key_of_int)
  next
    case 2
    with assms have "bitlen (- j) \<le> 53" by (intro bitlen_le) auto
    with 2 show ?thesis using round_mag_int_mono(2)[of "- j" "- i"] bl[OF i64(1)] assms i64
      by (simp add: f64_key_of_int)
  next
    case 3
    then show ?thesis using pos[OF i64(1)] pos[OF i64(2)] assms i64
      by (auto simp: f64_key_of_int sgn_if)
  qed
qed

end
