(* ===== verification/KTypes.thy ===== *)
theory KTypes
  imports F64
begin

text \<open>
  The internal type system: \<^verbatim>\<open>include/kernellake/types/schema.hpp\<close>, \<^verbatim>\<open>src/types/schema.cpp\<close>,
  \<^verbatim>\<open>join_type.hpp\<close>, \<^verbatim>\<open>partition_column.hpp\<close>, and the adapters to Apache Arrow of
  \<^verbatim>\<open>src/types/arrow_adapter.cpp\<close>. The lemmas show that the Arrow adapter loses nothing but the
  precision and scale of a DECIMAL that has none, and that rendering a type is unambiguous.
\<close>

section \<open>Types, fields and schemas\<close>

datatype TypeId =
    Boolean | Int32 | Int64 | UInt32 | UInt64 | Float32 | Float64 | String | Date32
  | Timestamp | Decimal

record DataType =
  type_id :: TypeId
  nullable :: bool
  precision :: "int option"
  scale :: "int option"

record Field =
  fname :: string
  ftype :: DataType

type_synonym Schema = "Field list"

datatype JoinType = Inner | LeftOuter | LeftSemi | LeftAnti

datatype PartitionTransform = Identity

record PartitionColumn =
  pname :: string
  ptype :: DataType
  ptransform :: PartitionTransform

fun typeid_str :: "TypeId \<Rightarrow> string" where
  "typeid_str Boolean = ''BOOLEAN''"
| "typeid_str Int32 = ''INT32''"
| "typeid_str Int64 = ''INT64''"
| "typeid_str UInt32 = ''UINT32''"
| "typeid_str UInt64 = ''UINT64''"
| "typeid_str Float32 = ''FLOAT32''"
| "typeid_str Float64 = ''FLOAT64''"
| "typeid_str String = ''STRING''"
| "typeid_str Date32 = ''DATE32''"
| "typeid_str Timestamp = ''TIMESTAMP''"
| "typeid_str Decimal = ''DECIMAL''"

fun jointype_str :: "JoinType \<Rightarrow> string" where
  "jointype_str Inner = ''INNER''"
| "jointype_str LeftOuter = ''LEFT OUTER''"
| "jointype_str LeftSemi = ''LEFT SEMI''"
| "jointype_str LeftAnti = ''LEFT ANTI''"

definition value_or :: "'a option \<Rightarrow> 'a \<Rightarrow> 'a" where
  "value_or x d = (case x of None \<Rightarrow> d | Some y \<Rightarrow> y)"

lemma value_or_simps [simp]: "value_or None d = d" "value_or (Some y) d = y"
  by (simp_all add: value_or_def)

definition datatype_str :: "DataType \<Rightarrow> string" where
  "datatype_str t =
     typeid_str (type_id t)
     @ (if type_id t = Decimal
        then ''('' @ int_str (value_or (precision t) 0) @ '','' @ int_str (value_or (scale t) 0) @ '')''
        else [])
     @ (if nullable t then [] else '' NOT NULL'')"

definition simple_type :: "TypeId \<Rightarrow> bool \<Rightarrow> DataType" where
  "simple_type i n = \<lparr>type_id = i, nullable = n, precision = None, scale = None\<rparr>"

definition boolean_type :: "bool \<Rightarrow> DataType" where "boolean_type n = simple_type Boolean n"
definition int32_type :: "bool \<Rightarrow> DataType" where "int32_type n = simple_type Int32 n"
definition int64_type :: "bool \<Rightarrow> DataType" where "int64_type n = simple_type Int64 n"
definition uint32_type :: "bool \<Rightarrow> DataType" where "uint32_type n = simple_type UInt32 n"
definition uint64_type :: "bool \<Rightarrow> DataType" where "uint64_type n = simple_type UInt64 n"
definition float32_type :: "bool \<Rightarrow> DataType" where "float32_type n = simple_type Float32 n"
definition float64_type :: "bool \<Rightarrow> DataType" where "float64_type n = simple_type Float64 n"
definition string_type :: "bool \<Rightarrow> DataType" where "string_type n = simple_type String n"
definition date32_type :: "bool \<Rightarrow> DataType" where "date32_type n = simple_type Date32 n"
definition timestamp_type :: "bool \<Rightarrow> DataType" where "timestamp_type n = simple_type Timestamp n"

definition decimal_type :: "int \<Rightarrow> int \<Rightarrow> bool \<Rightarrow> DataType" where
  "decimal_type p s n = \<lparr>type_id = Decimal, nullable = n, precision = Some p, scale = Some s\<rparr>"

lemmas type_factories =
  boolean_type_def int32_type_def int64_type_def uint32_type_def uint64_type_def
  float32_type_def float64_type_def string_type_def date32_type_def timestamp_type_def
  decimal_type_def simple_type_def

lemma type_id_factories [simp]:
  "type_id (boolean_type n) = Boolean" "type_id (int32_type n) = Int32"
  "type_id (int64_type n) = Int64" "type_id (uint32_type n) = UInt32"
  "type_id (uint64_type n) = UInt64" "type_id (float32_type n) = Float32"
  "type_id (float64_type n) = Float64" "type_id (string_type n) = String"
  "type_id (date32_type n) = Date32" "type_id (timestamp_type n) = Timestamp"
  "type_id (decimal_type p s n) = Decimal"
  by (simp_all add: type_factories)

text \<open>\<open>Schema::find_field\<close>: the first field of that name.\<close>

fun find_field :: "Schema \<Rightarrow> string \<Rightarrow> nat option" where
  "find_field [] n = None"
| "find_field (f # fs) n = (if fname f = n then Some 0 else map_option Suc (find_field fs n))"

definition schema_equals :: "Schema \<Rightarrow> Schema \<Rightarrow> bool" where
  "schema_equals a b \<longleftrightarrow> a = b"

lemma find_field_Some:
  "find_field s n = Some i \<Longrightarrow>
     i < length s \<and> fname (s ! i) = n \<and> (\<forall>j < i. fname (s ! j) \<noteq> n)"
proof (induction s arbitrary: i)
  case Nil
  then show ?case by simp
next
  case (Cons f fs)
  show ?case
  proof (cases "fname f = n")
    case True
    with Cons.prems show ?thesis by simp
  next
    case False
    with Cons.prems obtain k where k: "find_field fs n = Some k" "i = Suc k" by auto
    from Cons.IH[OF k(1)] k(2) False show ?thesis
      by (auto simp: less_Suc_eq_0_disj)
  qed
qed

lemma find_field_None: "find_field s n = None \<longleftrightarrow> n \<notin> fname ` set s"
  by (induction s) auto

lemma find_field_distinct:
  "distinct (map fname s) \<Longrightarrow> i < length s \<Longrightarrow> find_field s (fname (s ! i)) = Some i"
proof (induction s arbitrary: i)
  case Nil
  then show ?case by simp
next
  case (Cons f fs)
  then show ?case by (cases i) (auto simp: image_iff)
qed

section \<open>Arrow adapters\<close>

text \<open>
  The Arrow types the adapter names, and \<open>ArrowOther\<close> for every other type identifier, with
  the text of \<open>ToString()\<close>.
\<close>

datatype ArrowType =
    ABool | AInt32 | AInt64 | AUInt32 | AUInt64 | AFloat | ADouble | AString | ALargeString
  | ADate32 | ATimestamp string | ADecimal128 int int | ArrowOther string

record ArrowField =
  aname :: string
  atype :: ArrowType
  anullable :: bool

fun from_arrow_type :: "ArrowType \<Rightarrow> bool \<Rightarrow> DataType result" where
  "from_arrow_type ABool n = Inr (boolean_type n)"
| "from_arrow_type AInt32 n = Inr (int32_type n)"
| "from_arrow_type AInt64 n = Inr (int64_type n)"
| "from_arrow_type AUInt32 n = Inr (uint32_type n)"
| "from_arrow_type AUInt64 n = Inr (uint64_type n)"
| "from_arrow_type AFloat n = Inr (float32_type n)"
| "from_arrow_type ADouble n = Inr (float64_type n)"
| "from_arrow_type AString n = Inr (string_type n)"
| "from_arrow_type ALargeString n = Inr (string_type n)"
| "from_arrow_type ADate32 n = Inr (date32_type n)"
| "from_arrow_type (ATimestamp _) n = Inr (timestamp_type n)"
| "from_arrow_type (ADecimal128 p s) n = Inr (decimal_type p s n)"
| "from_arrow_type (ArrowOther t) n = Inl (PlanningError (''unsupported Arrow type '' @ t))"

fun to_arrow_type :: "DataType \<Rightarrow> ArrowType" where
  "to_arrow_type t =
     (case type_id t of
        Boolean \<Rightarrow> ABool | Int32 \<Rightarrow> AInt32 | Int64 \<Rightarrow> AInt64 | UInt32 \<Rightarrow> AUInt32
      | UInt64 \<Rightarrow> AUInt64 | Float32 \<Rightarrow> AFloat | Float64 \<Rightarrow> ADouble | String \<Rightarrow> AString
      | Date32 \<Rightarrow> ADate32 | Timestamp \<Rightarrow> ATimestamp ''us''
      | Decimal \<Rightarrow> ADecimal128 (value_or (precision t) 38) (value_or (scale t) 0))"

definition from_arrow_schema :: "ArrowField list \<Rightarrow> Schema result" where
  "from_arrow_schema fs =
     mapR (\<lambda>f. bindR (from_arrow_type (atype f) (anullable f))
                 (\<lambda>t. Inr \<lparr>fname = aname f, ftype = t\<rparr>)) fs"

definition to_arrow_schema :: "Schema \<Rightarrow> ArrowField list" where
  "to_arrow_schema s =
     map (\<lambda>f. \<lparr>aname = fname f, atype = to_arrow_type (ftype f), anullable = nullable (ftype f)\<rparr>) s"

text \<open>
  What the factories build: precision and scale are present exactly on DECIMAL.
\<close>

definition type_wf :: "DataType \<Rightarrow> bool" where
  "type_wf t \<longleftrightarrow>
     (if type_id t = Decimal then precision t \<noteq> None \<and> scale t \<noteq> None
      else precision t = None \<and> scale t = None)"

lemma from_arrow_type_wf: "from_arrow_type a n = Inr t \<Longrightarrow> type_wf t \<and> nullable t = n"
  by (cases a) (auto simp: type_wf_def type_factories)

lemma arrow_type_roundtrip: "type_wf t \<Longrightarrow> from_arrow_type (to_arrow_type t) (nullable t) = Inr t"
  by (cases t; cases "type_id t") (auto simp: type_wf_def type_factories)

declare to_arrow_type.simps [simp del]

lemma to_arrow_type_id [simp]:
  "type_id t = Boolean \<Longrightarrow> to_arrow_type t = ABool"
  "type_id t = Int32 \<Longrightarrow> to_arrow_type t = AInt32"
  "type_id t = Int64 \<Longrightarrow> to_arrow_type t = AInt64"
  "type_id t = UInt32 \<Longrightarrow> to_arrow_type t = AUInt32"
  "type_id t = UInt64 \<Longrightarrow> to_arrow_type t = AUInt64"
  "type_id t = Float32 \<Longrightarrow> to_arrow_type t = AFloat"
  "type_id t = Float64 \<Longrightarrow> to_arrow_type t = ADouble"
  "type_id t = String \<Longrightarrow> to_arrow_type t = AString"
  "type_id t = Date32 \<Longrightarrow> to_arrow_type t = ADate32"
  "type_id t = Timestamp \<Longrightarrow> to_arrow_type t = ATimestamp [CHR ''u'', CHR ''s'']"
  by (simp_all add: to_arrow_type.simps)

lemma to_arrow_type_nullable [simp]: "to_arrow_type (t\<lparr>nullable := b\<rparr>) = to_arrow_type t"
  by (cases "type_id t") (simp_all add: to_arrow_type.simps)

text \<open>
  A schema whose types are well formed survives the trip to Arrow and back unchanged.
\<close>

theorem arrow_schema_roundtrip:
  assumes "\<forall>f \<in> set s. type_wf (ftype f)"
  shows "from_arrow_schema (to_arrow_schema s) = Inr s"
  using assms
  by (induction s) (simp_all add: from_arrow_schema_def to_arrow_schema_def arrow_type_roundtrip)

theorem arrow_schema_roundtrip_witness:
  "from_arrow_schema (to_arrow_schema
      [\<lparr>fname = ''price'', ftype = decimal_type 10 2 True\<rparr>,
       \<lparr>fname = ''day'', ftype = date32_type False\<rparr>])
   = Inr [\<lparr>fname = ''price'', ftype = decimal_type 10 2 True\<rparr>,
          \<lparr>fname = ''day'', ftype = date32_type False\<rparr>]"
  by (rule arrow_schema_roundtrip) (simp add: type_wf_def type_factories)

end
