(* ===== verification/Expr.thy ===== *)
theory Expr
  imports KTypes
begin

text \<open>
  The typed expression tree of \<^verbatim>\<open>include/kernellake/expression/expression.hpp\<close> and the two
  renderings of \<^verbatim>\<open>src/expression/expression.cpp\<close>: \<open>to_string\<close> for people and
  \<open>structural_key\<close> for identity, which depends on no column name.
\<close>

section \<open>Literals, operators, expressions\<close>

text \<open>\<open>LiteralStorage\<close>: the five alternatives of the \<open>std::variant\<close>; an \<open>int64_t\<close> is an \<open>int\<close>
  that satisfies \<open>in_int64\<close>.\<close>

datatype literal = LNull | LBool bool | LInt int | LDouble f64 | LString string

datatype BinaryOperator =
    Add | Subtract | Multiply | Divide
  | Equal | NotEqual | Less | LessEqual | Greater | GreaterEqual
  | And | Or

datatype UnaryOperator = UNot | UNegate | UIsNull | UIsNotNull

datatype DatePart = Year | Month | Day

datatype AggregateFunction =
  AggSum | AggCount | AggCountStar | AggCountDistinct | AggMin | AggMax | AggAvg

datatype expression =
    Column string nat DataType
  | Literal literal DataType
  | Binary BinaryOperator expression expression DataType
  | Unary UnaryOperator expression DataType
  | Cast expression DataType
  | Extract DatePart expression DataType
  | Substring expression int int DataType
  | Between expression expression expression
  | Like expression string bool
  | Case "(expression \<times> expression) list" "expression option" DataType
  | Aggregate AggregateFunction "expression option" DataType

fun result_type :: "expression \<Rightarrow> DataType" where
  "result_type (Column _ _ t) = t"
| "result_type (Literal _ t) = t"
| "result_type (Binary _ _ _ t) = t"
| "result_type (Unary _ _ t) = t"
| "result_type (Cast _ t) = t"
| "result_type (Extract _ _ t) = t"
| "result_type (Substring _ _ _ t) = t"
| "result_type (Between _ _ _) = boolean_type False"
| "result_type (Like _ _ _) = boolean_type False"
| "result_type (Case _ _ t) = t"
| "result_type (Aggregate _ _ t) = t"

definition make_null :: "DataType \<Rightarrow> expression" where "make_null t = Literal LNull t"
definition make_bool :: "bool \<Rightarrow> expression" where
  "make_bool b = Literal (LBool b) (boolean_type False)"
definition make_int64 :: "int \<Rightarrow> expression" where
  "make_int64 i = Literal (LInt i) (int64_type False)"
definition make_float64 :: "f64 \<Rightarrow> expression" where
  "make_float64 d = Literal (LDouble d) (float64_type False)"
definition make_string :: "string \<Rightarrow> expression" where
  "make_string s = Literal (LString s) (string_type False)"
definition make_date32 :: "int \<Rightarrow> expression" where
  "make_date32 d = Literal (LInt d) (date32_type False)"
definition make_timestamp :: "int \<Rightarrow> expression" where
  "make_timestamp u = Literal (LInt u) (timestamp_type False)"

lemmas make_literals =
  make_null_def make_bool_def make_int64_def make_float64_def make_string_def make_date32_def
  make_timestamp_def

fun is_arithmetic :: "BinaryOperator \<Rightarrow> bool" where
  "is_arithmetic Add = True" | "is_arithmetic Subtract = True" | "is_arithmetic Multiply = True"
| "is_arithmetic Divide = True" | "is_arithmetic _ = False"

fun is_comparison :: "BinaryOperator \<Rightarrow> bool" where
  "is_comparison Equal = True" | "is_comparison NotEqual = True" | "is_comparison Less = True"
| "is_comparison LessEqual = True" | "is_comparison Greater = True"
| "is_comparison GreaterEqual = True" | "is_comparison _ = False"

definition is_logical :: "BinaryOperator \<Rightarrow> bool" where
  "is_logical op \<longleftrightarrow> op = And \<or> op = Or"

lemma binop_cases: "is_arithmetic op \<or> is_comparison op \<or> is_logical op"
  by (cases op) (simp_all add: is_logical_def)

lemma binop_exclusive:
  "\<not> (is_arithmetic op \<and> is_comparison op)" "\<not> (is_arithmetic op \<and> is_logical op)"
  "\<not> (is_comparison op \<and> is_logical op)"
  by (cases op; simp add: is_logical_def)+

section \<open>Recursion through CASE\<close>

lemma case_branch_size [termination_simp]:
  assumes "(c, r) \<in> set wts"
  shows "size c < Suc (size_list (size_prod size size) wts + k)"
    "size r < Suc (size_list (size_prod size size) wts + k)"
proof -
  have "size_prod size size (c, r) \<le> size_list (size_prod size size) wts"
    using assms by (induction wts) auto
  then show "size c < Suc (size_list (size_prod size size) wts + k)"
    "size r < Suc (size_list (size_prod size size) wts + k)" by simp_all
qed

text \<open>The direct subexpressions, and induction over them.\<close>

fun children :: "expression \<Rightarrow> expression list" where
  "children (Column _ _ _) = []"
| "children (Literal _ _) = []"
| "children (Binary _ l r _) = [l, r]"
| "children (Unary _ e _) = [e]"
| "children (Cast e _) = [e]"
| "children (Extract _ e _) = [e]"
| "children (Substring e _ _ _) = [e]"
| "children (Between v l u) = [v, l, u]"
| "children (Like v _ _) = [v]"
| "children (Case wts els _) =
     concat (map (\<lambda>(c, r). [c, r]) wts) @ (case els of None \<Rightarrow> [] | Some e \<Rightarrow> [e])"
| "children (Aggregate _ arg _) = (case arg of None \<Rightarrow> [] | Some e \<Rightarrow> [e])"

lemma children_size: "c \<in> set (children e) \<Longrightarrow> size c < size e"
  by (cases e) (auto split: option.splits simp: case_branch_size)

lemma expr_children_induct [case_names step]:
  assumes "\<And>e. (\<And>c. c \<in> set (children e) \<Longrightarrow> P c) \<Longrightarrow> P e"
  shows "P e"
  by (induction e rule: measure_induct_rule[of size]) (use assms children_size in blast)

lemma expr_induct [case_names Column Literal Binary Unary Cast Extract Substring Between Like
    Case Aggregate]:
  assumes "\<And>n i t. P (Column n i t)"
    and "\<And>v t. P (Literal v t)"
    and "\<And>op l r t. P l \<Longrightarrow> P r \<Longrightarrow> P (Binary op l r t)"
    and "\<And>op e t. P e \<Longrightarrow> P (Unary op e t)"
    and "\<And>e t. P e \<Longrightarrow> P (Cast e t)"
    and "\<And>p e t. P e \<Longrightarrow> P (Extract p e t)"
    and "\<And>e s n t. P e \<Longrightarrow> P (Substring e s n t)"
    and "\<And>v l u. P v \<Longrightarrow> P l \<Longrightarrow> P u \<Longrightarrow> P (Between v l u)"
    and "\<And>v p n. P v \<Longrightarrow> P (Like v p n)"
    and "\<And>wts els t. (\<And>c r. (c, r) \<in> set wts \<Longrightarrow> P c \<and> P r) \<Longrightarrow>
           (\<And>e. els = Some e \<Longrightarrow> P e) \<Longrightarrow> P (Case wts els t)"
    and "\<And>f arg t. (\<And>e. arg = Some e \<Longrightarrow> P e) \<Longrightarrow> P (Aggregate f arg t)"
  shows "P e"
proof (induction e rule: expr_children_induct)
  case (step e)
  show ?case
  proof (cases e)
    case (Case wts els t)
    have "P c \<and> P r" if "(c, r) \<in> set wts" for c r
      using step[of c] step[of r] that Case by force
    moreover have "P x" if "els = Some x" for x using step[of x] that Case by simp
    ultimately show ?thesis using Case assms(10) by blast
  qed (use step assms in auto)
qed

section \<open>Rendering\<close>

fun literal_str :: "literal \<Rightarrow> string" where
  "literal_str LNull = ''NULL''"
| "literal_str (LBool b) = (if b then ''TRUE'' else ''FALSE'')"
| "literal_str (LInt i) = int_str i"
| "literal_str (LDouble d) = f64_str d"
| "literal_str (LString s) = [CHR 0x27] @ s @ [CHR 0x27]"

fun binop_str :: "BinaryOperator \<Rightarrow> string" where
  "binop_str Add = ''+''" | "binop_str Subtract = ''-''" | "binop_str Multiply = ''*''"
| "binop_str Divide = ''/''" | "binop_str Equal = ''=''" | "binop_str NotEqual = ''!=''"
| "binop_str Less = ''<''" | "binop_str LessEqual = ''<=''" | "binop_str Greater = ''>''"
| "binop_str GreaterEqual = ''>=''" | "binop_str And = ''AND''" | "binop_str Or = ''OR''"

fun datepart_str :: "DatePart \<Rightarrow> string" where
  "datepart_str Year = ''YEAR''" | "datepart_str Month = ''MONTH''" | "datepart_str Day = ''DAY''"

fun unary_render :: "UnaryOperator \<Rightarrow> string \<Rightarrow> string" where
  "unary_render UNot s = ''NOT ('' @ s @ '')''"
| "unary_render UNegate s = ''-'' @ s"
| "unary_render UIsNull s = s @ '' IS NULL''"
| "unary_render UIsNotNull s = s @ '' IS NOT NULL''"

fun aggfn_str :: "AggregateFunction \<Rightarrow> string" where
  "aggfn_str AggSum = ''SUM''" | "aggfn_str AggCount = ''COUNT''"
| "aggfn_str AggCountStar = ''COUNT''" | "aggfn_str AggCountDistinct = ''COUNT''"
| "aggfn_str AggMin = ''MIN''" | "aggfn_str AggMax = ''MAX''" | "aggfn_str AggAvg = ''AVG''"

text \<open>
  Both member functions recurse alike and differ in the column case only. An aggregate other than
  \<open>COUNT(*)\<close> always has an argument; a missing one, a null pointer dereferenced in C++, renders
  as the empty text here.
\<close>

definition agg_render :: "AggregateFunction \<Rightarrow> string option \<Rightarrow> string" where
  "agg_render f arg =
     aggfn_str f @ ''(''
     @ (if f = AggCountStar then ''*''
        else (if f = AggCountDistinct then ''DISTINCT '' else []) @ value_or arg [])
     @ '')''"

definition case_render :: "(string \<times> string) list \<Rightarrow> string option \<Rightarrow> string" where
  "case_render wts els =
     ''CASE'' @ concat (map (\<lambda>(c, r). '' WHEN '' @ c @ '' THEN '' @ r) wts)
     @ (case els of None \<Rightarrow> [] | Some e \<Rightarrow> '' ELSE '' @ e) @ '' END''"

definition like_render :: "string \<Rightarrow> string \<Rightarrow> bool \<Rightarrow> string" where
  "like_render v p neg =
     v @ (if neg then '' NOT LIKE '' else '' LIKE '') @ [CHR 0x27] @ p @ [CHR 0x27]"

fun to_string :: "expression \<Rightarrow> string" where
  "to_string (Column n i t) = n"
| "to_string (Literal v t) = literal_str v"
| "to_string (Binary op l r t) =
     ''('' @ to_string l @ '' '' @ binop_str op @ '' '' @ to_string r @ '')''"
| "to_string (Unary op e t) = unary_render op (to_string e)"
| "to_string (Cast e t) = ''CAST('' @ to_string e @ '' AS '' @ datatype_str t @ '')''"
| "to_string (Extract p e t) = ''EXTRACT('' @ datepart_str p @ '' FROM '' @ to_string e @ '')''"
| "to_string (Substring e s n t) =
     ''SUBSTRING('' @ to_string e @ '', '' @ int_str s @ '', '' @ int_str n @ '')''"
| "to_string (Between v l u) =
     to_string v @ '' BETWEEN '' @ to_string l @ '' AND '' @ to_string u"
| "to_string (Like v p neg) = like_render (to_string v) p neg"
| "to_string (Case wts els t) =
     case_render (map (\<lambda>(c, r). (to_string c, to_string r)) wts) (map_option to_string els)"
| "to_string (Aggregate f arg t) = agg_render f (map_option to_string arg)"

fun structural_key :: "expression \<Rightarrow> string" where
  "structural_key (Column n i t) = ''#'' @ int_str (int i)"
| "structural_key (Literal v t) = literal_str v"
| "structural_key (Binary op l r t) =
     ''('' @ structural_key l @ '' '' @ binop_str op @ '' '' @ structural_key r @ '')''"
| "structural_key (Unary op e t) = unary_render op (structural_key e)"
| "structural_key (Cast e t) = ''CAST('' @ structural_key e @ '' AS '' @ datatype_str t @ '')''"
| "structural_key (Extract p e t) =
     ''EXTRACT('' @ datepart_str p @ '' FROM '' @ structural_key e @ '')''"
| "structural_key (Substring e s n t) =
     ''SUBSTRING('' @ structural_key e @ '', '' @ int_str s @ '', '' @ int_str n @ '')''"
| "structural_key (Between v l u) =
     structural_key v @ '' BETWEEN '' @ structural_key l @ '' AND '' @ structural_key u"
| "structural_key (Like v p neg) = like_render (structural_key v) p neg"
| "structural_key (Case wts els t) =
     case_render (map (\<lambda>(c, r). (structural_key c, structural_key r)) wts)
       (map_option structural_key els)"
| "structural_key (Aggregate f arg t) = agg_render f (map_option structural_key arg)"

section \<open>Column references and the typing discipline\<close>

fun col_refs :: "expression \<Rightarrow> (nat \<times> DataType) list" where
  "col_refs (Column n i t) = [(i, t)]"
| "col_refs (Literal v t) = []"
| "col_refs (Binary op l r t) = col_refs l @ col_refs r"
| "col_refs (Unary op e t) = col_refs e"
| "col_refs (Cast e t) = col_refs e"
| "col_refs (Extract p e t) = col_refs e"
| "col_refs (Substring e s n t) = col_refs e"
| "col_refs (Between v l u) = col_refs v @ col_refs l @ col_refs u"
| "col_refs (Like v p neg) = col_refs v"
| "col_refs (Case wts els t) =
     concat (map (\<lambda>(c, r). col_refs c @ col_refs r) wts)
     @ (case els of None \<Rightarrow> [] | Some e \<Rightarrow> col_refs e)"
| "col_refs (Aggregate f arg t) = (case arg of None \<Rightarrow> [] | Some e \<Rightarrow> col_refs e)"

definition col_indices :: "expression \<Rightarrow> nat set" where
  "col_indices e = fst ` set (col_refs e)"

text \<open>
  What the binder promises of the trees it builds, as far as the later stages rely on it: a
  literal's storage fits its type, arithmetic and comparison operands share a type (the binder
  inserts casts), logical operators and conditions are Boolean. A numeric literal may be typed
  DECIMAL in place; expressions in which two such literals meet under one operator are excluded.
\<close>

fun literal_ok :: "literal \<Rightarrow> TypeId \<Rightarrow> bool" where
  "literal_ok LNull t \<longleftrightarrow> True"
| "literal_ok (LBool b) t \<longleftrightarrow> t = Boolean"
| "literal_ok (LInt i) t \<longleftrightarrow>
     in_int64 i \<and> (t = Int64 \<or> t = Timestamp \<or> t = Decimal \<or> (t = Date32 \<and> in_int32 i))"
| "literal_ok (LDouble d) t \<longleftrightarrow> t = Float64 \<or> t = Decimal"
| "literal_ok (LString s) t \<longleftrightarrow> t = String"

definition numeric_id :: "TypeId \<Rightarrow> bool" where
  "numeric_id t \<longleftrightarrow> t \<in> {Int32, Int64, UInt32, UInt64, Float32, Float64, Decimal}"

abbreviation tid :: "expression \<Rightarrow> TypeId" where "tid e \<equiv> type_id (result_type e)"

fun dec_lit :: "expression \<Rightarrow> bool" where
  "dec_lit (Literal v t) \<longleftrightarrow> type_id t = Decimal"
| "dec_lit _ \<longleftrightarrow> False"

lemma not_dec_lit [simp]: "tid e \<noteq> Decimal \<Longrightarrow> \<not> dec_lit e"
  by (cases e rule: dec_lit.cases) auto

fun wt :: "expression \<Rightarrow> bool" where
  "wt (Column n i t) \<longleftrightarrow> True"
| "wt (Literal v t) \<longleftrightarrow> literal_ok v (type_id t)"
| "wt (Binary op l r t) \<longleftrightarrow> wt l \<and> wt r \<and> \<not> (dec_lit l \<and> dec_lit r) \<and>
     (if is_arithmetic op
      then tid l = type_id t \<and> tid r = type_id t \<and> numeric_id (type_id t)
      else if is_comparison op then tid l = tid r \<and> type_id t = Boolean
      else tid l = Boolean \<and> tid r = Boolean \<and> type_id t = Boolean)"
| "wt (Unary op e t) \<longleftrightarrow> wt e \<and>
     (case op of UNot \<Rightarrow> tid e = Boolean \<and> type_id t = Boolean
      | UNegate \<Rightarrow> type_id t = tid e \<and> type_id t \<noteq> Boolean
      | _ \<Rightarrow> type_id t = Boolean)"
| "wt (Cast e t) \<longleftrightarrow> wt e"
| "wt (Extract p e t) \<longleftrightarrow> wt e \<and> type_id t = Int64"
| "wt (Substring e s n t) \<longleftrightarrow> wt e \<and> type_id t = String"
| "wt (Between v l u) \<longleftrightarrow>
     wt v \<and> wt l \<and> wt u \<and> tid v = tid l \<and> tid v = tid u \<and>
     \<not> (dec_lit v \<and> dec_lit l) \<and> \<not> (dec_lit v \<and> dec_lit u)"
| "wt (Like v p neg) \<longleftrightarrow> wt v"
| "wt (Case wts els t) \<longleftrightarrow> wts \<noteq> [] \<and>
     list_all (\<lambda>(c, r). wt c \<and> wt r \<and> tid c = Boolean \<and> tid r = type_id t) wts \<and>
     (case els of None \<Rightarrow> True | Some e \<Rightarrow> wt e \<and> tid e = type_id t)"
| "wt (Aggregate f arg t) \<longleftrightarrow> (case arg of None \<Rightarrow> True | Some e \<Rightarrow> wt e)"

text \<open>Row expressions: no aggregate anywhere.\<close>

fun agg_free :: "expression \<Rightarrow> bool" where
  "agg_free (Column n i t) \<longleftrightarrow> True"
| "agg_free (Literal v t) \<longleftrightarrow> True"
| "agg_free (Binary op l r t) \<longleftrightarrow> agg_free l \<and> agg_free r"
| "agg_free (Unary op e t) \<longleftrightarrow> agg_free e"
| "agg_free (Cast e t) \<longleftrightarrow> agg_free e"
| "agg_free (Extract p e t) \<longleftrightarrow> agg_free e"
| "agg_free (Substring e s n t) \<longleftrightarrow> agg_free e"
| "agg_free (Between v l u) \<longleftrightarrow> agg_free v \<and> agg_free l \<and> agg_free u"
| "agg_free (Like v p neg) \<longleftrightarrow> agg_free v"
| "agg_free (Case wts els t) \<longleftrightarrow>
     list_all (\<lambda>(c, r). agg_free c \<and> agg_free r) wts \<and>
     (case els of None \<Rightarrow> True | Some e \<Rightarrow> agg_free e)"
| "agg_free (Aggregate f arg t) \<longleftrightarrow> False"

end
