(* ===== verification/Dates.thy ===== *)
theory Dates
  imports Prelude
begin

text \<open>
  Calendar arithmetic: \<^verbatim>\<open>src/common/date_util.cpp\<close> (\<open>parse_iso_date\<close>) and the helpers of
  \<^verbatim>\<open>src/iceberg/partition_pruning.cpp\<close> (\<open>civil_from_days\<close>, \<open>floor_div\<close>). The lemmas show that
  the year loop computes the closed form of the proleptic Gregorian calendar, that
  \<open>civil_from_days\<close> inverts it for every day, and that year and month never decrease as days
  pass, which is what partition pruning rests on.
\<close>

section \<open>\<open>date_util.cpp\<close>\<close>

text \<open>
  \<open>year % 4 == 0\<close> and its kin test for zero only, where C++'s remainder and \<open>mod\<close> agree.
\<close>

definition is_leap_year :: "int \<Rightarrow> bool" where
  "is_leap_year year \<longleftrightarrow> (year mod 4 = 0 \<and> year mod 100 \<noteq> 0) \<or> year mod 400 = 0"

definition kDays :: "int list" where
  "kDays = [31, 28, 31, 30, 31, 30, 31, 31, 30, 31, 30, 31]"

definition days_in_month :: "int \<Rightarrow> int \<Rightarrow> int" where
  "days_in_month year month =
     (if month = 2 \<and> is_leap_year year then 29 else kDays ! nat (month - 1))"

definition year_length :: "int \<Rightarrow> int" where
  "year_length y = (if is_leap_year y then 366 else 365)"

text \<open>The loops \<open>for (int y = a; y < b; ++y)\<close> and \<open>for (int m = 1; m < month; ++m)\<close>.\<close>

function days_of_years :: "int \<Rightarrow> int \<Rightarrow> int" where
  "days_of_years y b = (if y < b then year_length y + days_of_years (y + 1) b else 0)"
  by pat_completeness auto
termination
  by (relation "measure (\<lambda>(y, b). nat (b - y))") auto

declare days_of_years.simps [simp del]

function days_of_months :: "int \<Rightarrow> int \<Rightarrow> int \<Rightarrow> int" where
  "days_of_months year m b =
     (if m < b then days_in_month year m + days_of_months year (m + 1) b else 0)"
  by pat_completeness auto
termination
  by (relation "measure (\<lambda>(year, m, b). nat (b - m))") auto

declare days_of_months.simps [simp del]

definition days_to_year :: "int \<Rightarrow> int" where
  "days_to_year year =
     (if 1970 \<le> year then days_of_years 1970 year else - days_of_years year 1970)"

definition days_from_civil :: "int \<Rightarrow> int \<Rightarrow> int \<Rightarrow> int" where
  "days_from_civil year month day = days_to_year year + days_of_months year 1 month + (day - 1)"

definition date_fail :: "int result" where
  "date_fail = Inl (SqlError ''invalid date literal'')"

definition parse_iso_date :: "string \<Rightarrow> int result" where
  "parse_iso_date text =
     (if length text \<noteq> 10 \<or> text ! 4 \<noteq> CHR ''-'' \<or> text ! 7 \<noteq> CHR ''-'' then date_fail
      else if \<not> (\<forall>i \<in> set [0, 1, 2, 3, 5, 6, 8, 9]. is_digit (text ! i)) then date_fail
      else
        let year = digit_val (text ! 0) * 1000 + digit_val (text ! 1) * 100
                   + digit_val (text ! 2) * 10 + digit_val (text ! 3);
            month = digit_val (text ! 5) * 10 + digit_val (text ! 6);
            day = digit_val (text ! 8) * 10 + digit_val (text ! 9)
        in if month < 1 \<or> 12 < month then date_fail
           else if day < 1 \<or> days_in_month year month < day then date_fail
           else Inr (wrap32 (days_from_civil year month day)))"

section \<open>\<open>partition_pruning.cpp\<close>: the calendar helpers\<close>

text \<open>The year loops of \<open>civil_from_days\<close>, forwards and backwards from 1970.\<close>

function year_up :: "int \<Rightarrow> int \<Rightarrow> int \<times> int" where
  "year_up year remaining =
     (if remaining < year_length year then (year, remaining)
      else year_up (year + 1) (remaining - year_length year))"
  by pat_completeness auto
termination
  by (relation "measure (\<lambda>(y, r). nat r)") (auto simp: year_length_def split: if_splits)

function year_down :: "int \<Rightarrow> int \<Rightarrow> int \<times> int" where
  "year_down year remaining =
     (if remaining < 0 then year_down (year - 1) (remaining + year_length (year - 1))
      else (year, remaining))"
  by pat_completeness auto
termination
  by (relation "measure (\<lambda>(y, r). nat (- r))") (auto simp: year_length_def)

declare year_up.simps [simp del] year_down.simps [simp del]

text \<open>
  The month loop ends at the first month the remaining days fit in. It has no bound in the
  source; the model stops it after December, which \<open>month_scan_bounds\<close> shows is never reached.
\<close>

function month_scan :: "int \<Rightarrow> int \<Rightarrow> int \<Rightarrow> int" where
  "month_scan year month remaining =
     (if 12 < month \<or> remaining < days_in_month year month then month
      else month_scan year (month + 1) (remaining - days_in_month year month))"
  by pat_completeness auto
termination
  by (relation "measure (\<lambda>(y, m, r). nat (13 - m))") auto

declare month_scan.simps [simp del]

definition civil_from_days :: "int \<Rightarrow> int \<times> int" where
  "civil_from_days days_since_epoch =
     (let (year, remaining) =
        (if 0 \<le> days_since_epoch then year_up 1970 days_since_epoch
         else year_down 1970 days_since_epoch)
      in (year, month_scan year 1 remaining))"

definition floor_div :: "int \<Rightarrow> int \<Rightarrow> int" where
  "floor_div a b =
     (let q = tdiv a b; r = tmod a b
      in if r \<noteq> 0 \<and> ((r < 0) \<noteq> (b < 0)) then q - 1 else q)"

definition kMicrosPerDay :: int where "kMicrosPerDay = 86400000000"
definition kMicrosPerHour :: int where "kMicrosPerHour = 3600000000"

section \<open>Years\<close>

lemma year_length_pos [simp]: "0 < year_length y" "365 \<le> year_length y" "year_length y \<le> 366"
  by (simp_all add: year_length_def)

lemma days_of_years_snoc: "a \<le> b \<Longrightarrow> days_of_years a (b + 1) = days_of_years a b + year_length b"
proof (induction a b rule: days_of_years.induct)
  case (1 a b)
  show ?case
  proof (cases "a < b")
    case True
    with 1 have "days_of_years (a + 1) (b + 1) = days_of_years (a + 1) b + year_length b" by simp
    with True show ?thesis
      by (simp add: days_of_years.simps[of a "b + 1"] days_of_years.simps[of a b])
  next
    case False
    with 1 have "a = b" by simp
    then show ?thesis by (simp add: days_of_years.simps)
  qed
qed

lemma days_to_year_step: "days_to_year (y + 1) = days_to_year y + year_length y"
proof -
  consider "1970 \<le> y" | "y = 1969" | "y < 1969" by linarith
  then show ?thesis
  proof cases
    case 1
    then show ?thesis by (simp add: days_to_year_def days_of_years_snoc)
  next
    case 2
    then show ?thesis
      by (simp add: days_to_year_def days_of_years.simps[of 1969] days_of_years.simps[of 1970])
  next
    case 3
    then show ?thesis by (simp add: days_to_year_def days_of_years.simps[of y])
  qed
qed

lemma days_to_year_mono: "a \<le> b \<Longrightarrow> days_to_year a \<le> days_to_year b"
proof (induction b rule: int_ge_induct)
  case base
  then show ?case by simp
next
  case (step i)
  then show ?case using days_to_year_step[of i] year_length_pos(1)[of i] by linarith
qed

lemma days_to_year_strict: "a < b \<Longrightarrow> days_to_year a + year_length a \<le> days_to_year b"
  using days_to_year_mono[of "a + 1" b] by (simp add: days_to_year_step)

lemma days_to_year_unique:
  assumes "days_to_year a + r = days_to_year b + s" "0 \<le> r" "r < year_length a" "0 \<le> s"
    "s < year_length b"
  shows "a = b"
proof (rule ccontr)
  assume "a \<noteq> b"
  then consider "a < b" | "b < a" by linarith
  then show False
    using days_to_year_strict[of a b] days_to_year_strict[of b a] assms by cases linarith+
qed

text \<open>The closed form of the proleptic Gregorian calendar, and that the loop computes it.\<close>

definition gregorian_year :: "int \<Rightarrow> int" where
  "gregorian_year y =
     365 * (y - 1970) + ((y - 1) div 4 - (y - 1) div 100 + (y - 1) div 400) - 477"

lemma div_pred_diff:
  fixes y k :: int
  assumes "0 < k"
  shows "y div k - (y - 1) div k = (if y mod k = 0 then 1 else 0)"
proof (cases "y mod k = 0")
  case True
  have "(y - 1) div k = y div k - 1"
    by (rule int_div_pos_eq[of _ _ _ "k - 1"])
       (use True assms in \<open>auto simp: algebra_simps minus_mod_eq_mult_div[symmetric]\<close>)
  with True show ?thesis by simp
next
  case False
  then have "0 < y mod k" using assms pos_mod_sign[of k y] by linarith
  have "y mod k - 1 < k" using pos_mod_bound[OF assms, of y] by linarith
  then have "(y - 1) div k = y div k"
    by (intro int_div_pos_eq[of _ _ _ "y mod k - 1"]) (use \<open>0 < y mod k\<close> in simp_all)
  with False show ?thesis by simp
qed

lemma gregorian_year_step: "gregorian_year (y + 1) = gregorian_year y + year_length y"
proof -
  have d: "y div 4 - (y - 1) div 4 = (if y mod 4 = 0 then 1 else 0)"
    "y div 100 - (y - 1) div 100 = (if y mod 100 = 0 then 1 else 0)"
    "y div 400 - (y - 1) div 400 = (if y mod 400 = 0 then 1 else 0)"
    by (rule div_pred_diff; simp)+
  have m1: "y mod 400 = 0 \<Longrightarrow> y mod 100 = 0"
    using dvd_trans[of 100 400 y] by (simp add: dvd_eq_mod_eq_0)
  have m2: "y mod 100 = 0 \<Longrightarrow> y mod 4 = 0"
    using dvd_trans[of 4 100 y] by (simp add: dvd_eq_mod_eq_0)
  have "year_length y = 365 + (y div 4 - (y - 1) div 4) - (y div 100 - (y - 1) div 100)
      + (y div 400 - (y - 1) div 400)"
    unfolding d year_length_def is_leap_year_def using m1 m2 by (simp only: if_distribR split: if_split) linarith
  then show ?thesis by (simp add: gregorian_year_def)
qed

lemma days_to_year_closed: "days_to_year y = gregorian_year y"
proof -
  have base: "days_to_year 1970 = gregorian_year 1970"
    by (simp add: days_to_year_def days_of_years.simps gregorian_year_def)
  show ?thesis
  proof (cases "1970 \<le> y")
    case True
    then show ?thesis
      by (induction y rule: int_ge_induct) (use base in \<open>auto simp: days_to_year_step gregorian_year_step\<close>)
  next
    case False
    then have "y \<le> 1970" by simp
    then show ?thesis
    proof (induction y rule: int_le_induct)
      case (step i)
      then show ?case using days_to_year_step[of "i - 1"] gregorian_year_step[of "i - 1"] by simp
    qed (rule base)
  qed
qed

section \<open>Months\<close>

lemma month_cases:
  "1 \<le> m \<Longrightarrow> m \<le> (12::int) \<Longrightarrow> m \<in> {1, 2, 3, 4, 5, 6, 7, 8, 9, 10, 11, 12}"
  by (simp only: insert_iff empty_iff simp_thms) presburger

lemma days_in_month_bounds:
  "1 \<le> m \<Longrightarrow> m \<le> 12 \<Longrightarrow> 28 \<le> days_in_month y m \<and> days_in_month y m \<le> 31"
  by (drule (1) month_cases) (auto simp: days_in_month_def kDays_def)

lemma days_of_months_snoc:
  "a \<le> b \<Longrightarrow> days_of_months y a (b + 1) = days_of_months y a b + days_in_month y b"
proof (induction y a b rule: days_of_months.induct)
  case (1 y a b)
  show ?case
  proof (cases "a < b")
    case True
    with 1 have "days_of_months y (a + 1) (b + 1) = days_of_months y (a + 1) b + days_in_month y b"
      by simp
    with True show ?thesis
      by (simp add: days_of_months.simps[of y a "b + 1"] days_of_months.simps[of y a b])
  next
    case False
    with 1 have "a = b" by simp
    then show ?thesis by (simp add: days_of_months.simps)
  qed
qed

lemma days_of_months_13: "days_of_months y 1 13 = year_length y"
  by (simp add: days_of_months.simps days_in_month_def kDays_def year_length_def)

lemma days_of_months_mono:
  assumes "1 \<le> a" "a \<le> b" "b \<le> 13"
  shows "days_of_months y 1 a \<le> days_of_months y 1 b"
  using assms(2,3)
proof (induction b rule: int_ge_induct)
  case base
  then show ?case by simp
next
  case (step i)
  then show ?case
    using days_of_months_snoc[of 1 i y] days_in_month_bounds[of i y] assms(1) by simp
qed

text \<open>The month loop stops within the year, at the month that holds the day.\<close>

lemma month_scan_bounds:
  assumes "1 \<le> m" "m \<le> 12" "0 \<le> r" "days_of_months y 1 m + r < year_length y"
  shows "m \<le> month_scan y m r \<and> month_scan y m r \<le> 12 \<and>
    days_of_months y 1 (month_scan y m r) \<le> days_of_months y 1 m + r \<and>
    days_of_months y 1 m + r < days_of_months y 1 (month_scan y m r + 1)"
  using assms
proof (induction y m r rule: month_scan.induct)
  case (1 y m r)
  have s: "days_of_months y 1 (m + 1) = days_of_months y 1 m + days_in_month y m"
    using 1 by (simp add: days_of_months_snoc)
  show ?case
  proof (cases "r < days_in_month y m")
    case True
    with 1 s show ?thesis by (simp add: month_scan.simps[of y m r])
  next
    case False
    then have "m < 12" using 1 s days_of_months_13[of y] by (cases "m = 12") auto
    with 1 False s have "m + 1 \<le> month_scan y (m + 1) (r - days_in_month y m) \<and>
      month_scan y (m + 1) (r - days_in_month y m) \<le> 12 \<and>
      days_of_months y 1 (month_scan y (m + 1) (r - days_in_month y m)) \<le> days_of_months y 1 m + r \<and>
      days_of_months y 1 m + r < days_of_months y 1 (month_scan y (m + 1) (r - days_in_month y m) + 1)"
      by simp
    with \<open>m < 12\<close> False show ?thesis by (simp add: month_scan.simps[of y m r])
  qed
qed

section \<open>\<open>civil_from_days\<close> inverts the calendar\<close>

lemma year_up_spec:
  "0 \<le> r \<Longrightarrow> year_up y r = (y', r') \<Longrightarrow>
     days_to_year y' + r' = days_to_year y + r \<and> 0 \<le> r' \<and> r' < year_length y'"
proof (induction y r rule: year_up.induct)
  case (1 y r)
  then show ?case
    by (cases "r < year_length y") (auto simp: year_up.simps[of y r] days_to_year_step)
qed

lemma year_down_spec:
  "r < year_length y \<Longrightarrow> year_down y r = (y', r') \<Longrightarrow>
     days_to_year y' + r' = days_to_year y + r \<and> 0 \<le> r' \<and> r' < year_length y'"
proof (induction y r rule: year_down.induct)
  case (1 y r)
  have "days_to_year y = days_to_year (y - 1) + year_length (y - 1)"
    using days_to_year_step[of "y - 1"] by simp
  with 1 show ?case by (cases "r < 0") (auto simp: year_down.simps[of y r])
qed

lemma days_to_year_1970 [simp]: "days_to_year 1970 = 0"
  by (simp add: days_to_year_def days_of_years.simps)

lemma civil_from_days_spec:
  assumes "civil_from_days n = (y, m)"
  shows "1 \<le> m \<and> m \<le> 12 \<and> days_from_civil y m 1 \<le> n \<and> n < days_from_civil y m 1 + days_in_month y m"
proof -
  obtain y' r where yr: "(if 0 \<le> n then year_up 1970 n else year_down 1970 n) = (y', r)"
    by (cases "if 0 \<le> n then year_up 1970 n else year_down 1970 n")
  have s: "days_to_year y' + r = n \<and> 0 \<le> r \<and> r < year_length y'"
  proof (cases "0 \<le> n")
    case True
    with yr show ?thesis using year_up_spec[of n 1970 y' r] by simp
  next
    case False
    with yr show ?thesis using year_down_spec[of n 1970 y' r] year_length_pos(1)[of 1970] by simp
  qed
  from assms yr have ym: "y = y'" "m = month_scan y' 1 r" by (auto simp: civil_from_days_def)
  have z: "days_of_months y' 1 1 = 0" by (simp add: days_of_months.simps)
  have "1 \<le> m \<and> m \<le> 12 \<and> days_of_months y 1 m \<le> r \<and> r < days_of_months y 1 (m + 1)"
    using month_scan_bounds[of 1 r y'] s z ym by simp
  then show ?thesis using s ym days_of_months_snoc[of 1 m y] by (simp add: days_from_civil_def)
qed

lemma days_of_months_year:
  assumes "1 \<le> m" "m \<le> 12"
  shows "0 \<le> days_of_months y 1 m" "days_of_months y 1 m + days_in_month y m \<le> year_length y"
proof -
  show "0 \<le> days_of_months y 1 m"
    using days_of_months_mono[of 1 m y] assms by (simp add: days_of_months.simps[of y 1 1])
  show "days_of_months y 1 m + days_in_month y m \<le> year_length y"
    using days_of_months_mono[of "m + 1" 13 y] assms days_of_months_13[of y]
    by (simp add: days_of_months_snoc)
qed

text \<open>Every day lies in exactly one month of one year.\<close>

lemma civil_unique:
  assumes "1 \<le> m" "m \<le> 12" "days_from_civil y m 1 \<le> n" "n < days_from_civil y m 1 + days_in_month y m"
    and "1 \<le> m'" "m' \<le> 12" "days_from_civil y' m' 1 \<le> n"
    "n < days_from_civil y' m' 1 + days_in_month y' m'"
  shows "y = y' \<and> m = m'"
proof -
  have y: "y = y'"
    by (rule days_to_year_unique[of y "n - days_to_year y" y' "n - days_to_year y'"])
       (use assms days_of_months_year[of m y] days_of_months_year[of m' y'] in
        \<open>auto simp: days_from_civil_def\<close>)
  have "\<not> a < b" if "1 \<le> a" "b \<le> 12" "days_from_civil y a 1 \<le> n"
    "n < days_from_civil y a 1 + days_in_month y a" "days_from_civil y b 1 \<le> n" for a b
    using that days_of_months_mono[of "a + 1" b y] by (auto simp: days_from_civil_def days_of_months_snoc)
  from this[of m m'] this[of m' m] assms y show ?thesis by auto
qed

lemma civil_from_days_civil:
  assumes "1 \<le> m" "m \<le> 12" "1 \<le> d" "d \<le> days_in_month y m"
  shows "civil_from_days (days_from_civil y m d) = (y, m)"
proof -
  obtain y' m' where c: "civil_from_days (days_from_civil y m d) = (y', m')"
    by (cases "civil_from_days (days_from_civil y m d)")
  have "days_from_civil y m d = days_from_civil y m 1 + (d - 1)" by (simp add: days_from_civil_def)
  with civil_unique[of m y "days_from_civil y m d" m' y'] civil_from_days_spec[OF c] assms c
  show ?thesis by auto
qed

text \<open>Months counted from January 1970, and that they never decrease.\<close>

definition month_index :: "int \<times> int \<Rightarrow> int" where
  "month_index ym = (fst ym - 1970) * 12 + (snd ym - 1)"

lemma civil_mono:
  assumes "a \<le> b"
  shows "fst (civil_from_days a) \<le> fst (civil_from_days b)"
    and "month_index (civil_from_days a) \<le> month_index (civil_from_days b)"
proof -
  obtain y m y' m' where c: "civil_from_days a = (y, m)" "civil_from_days b = (y', m')"
    by (cases "civil_from_days a"; cases "civil_from_days b") auto
  note s = civil_from_days_spec[OF c(1)] civil_from_days_spec[OF c(2)]
  have lo: "days_to_year y \<le> a" using s(1) days_of_months_year[of m y] by (simp add: days_from_civil_def)
  have hi: "b < days_to_year y' + year_length y'"
    using s(2) days_of_months_year[of m' y'] by (simp add: days_from_civil_def)
  have yy: "y \<le> y'"
    using days_to_year_strict[of y' y] lo hi assms by (cases "y' < y") auto
  then show "fst (civil_from_days a) \<le> fst (civil_from_days b)" using c by simp
  have mm: "y = y' \<Longrightarrow> m \<le> m'"
    using days_of_months_mono[of "m' + 1" m y] s assms
    by (cases "m' < m") (auto simp: days_from_civil_def days_of_months_snoc)
  show "month_index (civil_from_days a) \<le> month_index (civil_from_days b)"
    using c yy mm s by (cases "y = y'") (auto simp: month_index_def)
qed

lemma floor_div_eq:
  assumes "0 < b"
  shows "floor_div a b = a div b"
proof (cases "0 \<le> a")
  case True
  then have "tdiv a b = a div b" using assms by (cases "a = 0") (auto simp: tdiv_def)
  moreover have "tmod a b = a mod b" using calculation by (simp add: tmod_def minus_mult_div_eq_mod)
  ultimately show ?thesis using assms pos_mod_sign[of b a] by (auto simp: floor_div_def Let_def not_less)
next
  case False
  define x where "x = - a"
  have x: "0 < x" "a = - x" using False x_def by auto
  have t: "tdiv a b = - (x div b)" using x assms by (simp add: tdiv_def)
  have m: "tmod a b = - (x mod b)" using x t by (simp add: tmod_def minus_mult_div_eq_mod[symmetric])
  show ?thesis
  proof (cases "x mod b = 0")
    case True
    then show ?thesis using t m x assms by (simp add: floor_div_def Let_def zdiv_zminus1_eq_if)
  next
    case False
    then have "tmod a b < 0" using m assms pos_mod_sign[of b x] by linarith
    then show ?thesis using t m x assms False by (simp add: floor_div_def Let_def zdiv_zminus1_eq_if)
  qed
qed


section \<open>\<open>parse_iso_date\<close> reads exactly the valid dates\<close>

text \<open>The specification: a civil date of the years 0 to 9999, and its \<open>YYYY-MM-DD\<close> text.\<close>

definition valid_civil :: "int \<Rightarrow> int \<Rightarrow> int \<Rightarrow> bool" where
  "valid_civil y m d \<longleftrightarrow>
     0 \<le> y \<and> y \<le> 9999 \<and> 1 \<le> m \<and> m \<le> 12 \<and> 1 \<le> d \<and> d \<le> days_in_month y m"

definition digit_chr :: "int \<Rightarrow> char" where
  "digit_chr d = char_of (48 + d)"

definition iso_text :: "int \<Rightarrow> int \<Rightarrow> int \<Rightarrow> string" where
  "iso_text y m d =
     [digit_chr (y div 1000), digit_chr (y div 100 mod 10), digit_chr (y div 10 mod 10),
      digit_chr (y mod 10), CHR ''-'', digit_chr (m div 10), digit_chr (m mod 10), CHR ''-'',
      digit_chr (d div 10), digit_chr (d mod 10)]"

lemma digit_chr_val: "0 \<le> d \<Longrightarrow> d < 10 \<Longrightarrow> digit_val (digit_chr d) = d \<and> is_digit (digit_chr d)"
  by (simp add: digit_chr_def digit_char_of)

lemma digit_chr_exact:
  "is_digit c \<Longrightarrow> 0 \<le> digit_val c \<and> digit_val c < 10 \<and> c = digit_chr (digit_val c)"
  by (simp add: is_digit_def digit_val_def digit_chr_def)

lemma four_digits:
  fixes a b c d :: int
  assumes "0 \<le> a" "a < 10" "0 \<le> b" "b < 10" "0 \<le> c" "c < 10" "0 \<le> d" "d < 10"
  shows "(a * 1000 + b * 100 + c * 10 + d) div 1000 = a"
    "(a * 1000 + b * 100 + c * 10 + d) div 100 mod 10 = b"
    "(a * 1000 + b * 100 + c * 10 + d) div 10 mod 10 = c"
    "(a * 1000 + b * 100 + c * 10 + d) mod 10 = d"
proof -
  let ?n = "a * 1000 + b * 100 + c * 10 + d"
  show "?n div 1000 = a"
    by (rule int_div_pos_eq[of _ _ _ "b * 100 + c * 10 + d"]) (use assms in simp_all)
  have "?n div 100 = a * 10 + b"
    by (rule int_div_pos_eq[of _ _ _ "c * 10 + d"]) (use assms in simp_all)
  then show "?n div 100 mod 10 = b" using assms by (simp add: mod_mult_self3)
  have "?n div 10 = a * 100 + b * 10 + c"
    by (rule int_div_pos_eq[of _ _ _ "d"]) (use assms in simp_all)
  moreover have "(a * 100 + b * 10 + c) mod 10 = c"
    by (rule int_mod_pos_eq[of _ _ "a * 10 + b"]) (use assms in simp_all)
  ultimately show "?n div 10 mod 10 = c" by simp
  show "?n mod 10 = d"
    by (rule int_mod_pos_eq[of _ _ "a * 100 + b * 10 + c"]) (use assms in simp_all)
qed

lemma two_digits:
  fixes a b :: int
  assumes "0 \<le> a" "a < 10" "0 \<le> b" "b < 10"
  shows "(a * 10 + b) div 10 = a" "(a * 10 + b) mod 10 = b"
  using four_digits[of 0 0 a b] assms by (simp_all add: int_div_pos_eq[of _ 10 a b])

lemma digits_compose:
  fixes y :: int
  assumes "0 \<le> y" "y \<le> 9999"
  shows "y div 1000 * 1000 + y div 100 mod 10 * 100 + y div 10 mod 10 * 10 + y mod 10 = y"
    "0 \<le> y div 1000" "y div 1000 < 10"
proof -
  have "y div 100 = y div 10 div 10" "y div 1000 = y div 100 div 10"
    by (simp_all add: div_mult2_eq[symmetric])
  then show "y div 1000 * 1000 + y div 100 mod 10 * 100 + y div 10 mod 10 * 10 + y mod 10 = y"
    using mult_div_mod_eq[of 10 y] mult_div_mod_eq[of 10 "y div 10"] mult_div_mod_eq[of 10 "y div 100"]
    by linarith
qed (use assms in \<open>simp_all add: pos_imp_zdiv_nonneg_iff\<close>)

text \<open>Day counts of the years 0 to 9999 fit the \<open>int32_t\<close> of the result.\<close>

lemma valid_civil_int32: "valid_civil y m d \<Longrightarrow> in_int32 (days_from_civil y m d)"
proof -
  assume v: "valid_civil y m d"
  have g: "days_to_year 0 = - 719528" "days_to_year 10000 = 2932897"
    by (simp_all add: days_to_year_closed gregorian_year_def)
  have "days_to_year 0 \<le> days_to_year y" "days_to_year (y + 1) \<le> days_to_year 10000"
    using v by (simp_all add: valid_civil_def days_to_year_mono)
  with v g days_of_months_year[of m y] show "in_int32 (days_from_civil y m d)"
    by (simp add: valid_civil_def in_int32_def days_from_civil_def days_to_year_step)
qed

lemma parse_iso_date_text:
  assumes "valid_civil y m d"
  shows "parse_iso_date (iso_text y m d) = Inr (days_from_civil y m d)"
proof -
  have md: "0 \<le> m" "m \<le> 99" "0 \<le> d" "d \<le> 99"
    using assms days_in_month_bounds[of m y] by (auto simp: valid_civil_def)
  have dg: "digit_val (digit_chr (x mod 10)) = x mod 10 \<and> is_digit (digit_chr (x mod 10))" for x
    by (rule digit_chr_val) simp_all
  have dm: "digit_val (digit_chr (x div 10)) = x div 10 \<and> is_digit (digit_chr (x div 10))"
    if "0 \<le> x" "x \<le> 99" for x
    by (rule digit_chr_val) (use that in auto)
  have dy: "digit_val (digit_chr (y div 1000)) = y div 1000 \<and> is_digit (digit_chr (y div 1000))"
    by (rule digit_chr_val) (use assms digits_compose[of y] in \<open>auto simp: valid_civil_def\<close>)
  have c: "y div 1000 * 1000 + y div 100 mod 10 * 100 + y div 10 mod 10 * 10 + y mod 10 = y"
    "m div 10 * 10 + m mod 10 = m" "d div 10 * 10 + d mod 10 = d"
    using assms digits_compose[of y] by (simp_all add: valid_civil_def)
  have shape: "length (iso_text y m d) = 10" "iso_text y m d ! 4 = CHR ''-''"
    "iso_text y m d ! 7 = CHR ''-''"
    "\<forall>i \<in> set [0, 1, 2, 3, 5, 6, 8, 9]. is_digit (iso_text y m d ! i)"
    by (simp_all add: iso_text_def dg dm md dy)
  have nth: "iso_text y m d ! 0 = digit_chr (y div 1000)"
    "iso_text y m d ! 1 = digit_chr (y div 100 mod 10)"
    "iso_text y m d ! 2 = digit_chr (y div 10 mod 10)" "iso_text y m d ! 3 = digit_chr (y mod 10)"
    "iso_text y m d ! 5 = digit_chr (m div 10)" "iso_text y m d ! 6 = digit_chr (m mod 10)"
    "iso_text y m d ! 8 = digit_chr (d div 10)" "iso_text y m d ! 9 = digit_chr (d mod 10)"
    by (simp_all add: iso_text_def)
  have vals: "digit_val (iso_text y m d ! 0) * 1000 + digit_val (iso_text y m d ! 1) * 100
      + digit_val (iso_text y m d ! 2) * 10 + digit_val (iso_text y m d ! 3) = y"
    "digit_val (iso_text y m d ! 5) * 10 + digit_val (iso_text y m d ! 6) = m"
    "digit_val (iso_text y m d ! 8) * 10 + digit_val (iso_text y m d ! 9) = d"
    by (simp_all only: nth dg dm[OF md(1,2)] dm[OF md(3,4)] dy c)
  show ?thesis
    unfolding parse_iso_date_def Let_def vals
    using shape assms by (simp add: valid_civil_def wrap32_id[OF valid_civil_int32[OF assms]])
qed

lemma parse_iso_date_ok:
  assumes "parse_iso_date t = Inr n"
  shows "\<exists>y m d. valid_civil y m d \<and> t = iso_text y m d"
proof -
  have ok: "length t = 10" "t ! 4 = CHR ''-''" "t ! 7 = CHR ''-''"
    "\<forall>i \<in> set [0, 1, 2, 3, 5, 6, 8, 9]. is_digit (t ! i)"
    using assms by (auto simp: parse_iso_date_def date_fail_def split: if_splits)
  define f where "f i = digit_val (t ! i)" for i
  have v: "digit_val (t ! i) = f i" for i by (simp add: f_def)
  have f: "0 \<le> f i \<and> f i < 10 \<and> t ! i = digit_chr (f i)"
    if "i \<in> set [0, 1, 2, 3, 5, 6, 8, 9]" for i
    unfolding f_def by (rule digit_chr_exact) (use ok(4) that in blast)
  have "t = map ((!) t) [0 ..< 10]" using ok(1) map_nth[of t] by simp
  then have "t = [t ! 0, t ! 1, t ! 2, t ! 3, t ! 4, t ! 5, t ! 6, t ! 7, t ! 8, t ! 9]"
    by (simp add: upt_rec eval_nat_numeral)
  then have t: "t = [digit_chr (f 0), digit_chr (f 1), digit_chr (f 2), digit_chr (f 3), CHR ''-'',
      digit_chr (f 5), digit_chr (f 6), CHR ''-'', digit_chr (f 8), digit_chr (f 9)]"
    using f ok(2,3) by simp
  let ?y = "f 0 * 1000 + f 1 * 100 + f 2 * 10 + f 3"
  let ?m = "f 5 * 10 + f 6"
  let ?d = "f 8 * 10 + f 9"
  have "valid_civil ?y ?m ?d"
  proof -
    have n: "\<not> (length t \<noteq> 10 \<or> t ! 4 \<noteq> CHR ''-'' \<or> t ! 7 \<noteq> CHR ''-'')"
      "\<not> \<not> (\<forall>i \<in> set [0, 1, 2, 3, 5, 6, 8, 9]. is_digit (t ! i))"
      using ok by blast+
    have "\<not> (?m < 1 \<or> 12 < ?m)" "\<not> (?d < 1 \<or> days_in_month ?y ?m < ?d)"
      using assms unfolding parse_iso_date_def if_not_P[OF n(1)] if_not_P[OF n(2)] Let_def
      by (simp_all only: v list.set insertI1 insertI2 date_fail_def split: if_splits) simp_all
    then show ?thesis using f[of 0] f[of 1] f[of 2] f[of 3] by (simp add: valid_civil_def)
  qed
  moreover have "t = iso_text ?y ?m ?d"
    using t f by (simp add: iso_text_def four_digits two_digits)
  ultimately show ?thesis by blast
qed


text \<open>
  \<open>civil_from_days\<close> recovers year and month of every date \<open>parse_iso_date\<close> accepts.
\<close>

theorem civil_of_parsed_date:
  assumes "parse_iso_date t = Inr n"
  shows "\<exists>y m d. valid_civil y m d \<and> t = iso_text y m d \<and> civil_from_days n = (y, m)"
proof -
  obtain y m d where v: "valid_civil y m d" "t = iso_text y m d"
    using parse_iso_date_ok[OF assms] by blast
  with assms have "n = days_from_civil y m d" by (simp add: parse_iso_date_text)
  with v civil_from_days_civil[of m d y] show ?thesis by (auto simp: valid_civil_def)
qed

theorem civil_of_parsed_date_witness:
  "\<exists>y m d. valid_civil y m d \<and> ''1996-02-29'' = iso_text y m d \<and> civil_from_days 9555 = (y, m)"
  by (rule civil_of_parsed_date) (code_simp)

end
