(* ===== verification/Compute.thy ===== *)
theory Compute
  imports Expr Dates
begin

text \<open>
  Evaluation of expressions on the CPU: \<^verbatim>\<open>src/execution_cpu/expression_compiler_cpu.cpp\<close>
  translates an expression into an Arrow Compute expression, which Arrow evaluates by calling a
  kernel per node. Arrow is not part of the repository: its kernel registry is the parameter
  \<open>K\<close>, and the locale \<open>arrow_logic\<close> states what the translation relies on (Kleene logic, null
  tests, \<open>make_struct\<close> and \<open>case_when\<close>, Boolean results of comparisons). \<open>eval\<close> is SQL's meaning
  of an expression on one row; the main lemma shows that the compiled expression computes it.
  A kernel call that Arrow rejects at run time (a division by zero, say) has no value to model:
  \<open>K\<close> is total and the laws leave such calls open.
\<close>

section \<open>Arrow data and expressions\<close>

datatype datum = Scalar ArrowType literal | StructD "datum list"

datatype aopts =
    NoOpts
  | CastTo ArrowType
  | MatchSubstring string
  | Slice int int
  | MakeStruct "string list"

datatype acexpr =
    FieldRef int
  | ALiteral datum
  | Call string aopts "acexpr list"

type_synonym kernel = "string \<Rightarrow> aopts \<Rightarrow> datum list \<Rightarrow> datum"
type_synonym row = "datum list"

fun dtype :: "datum \<Rightarrow> ArrowType" where
  "dtype (Scalar t _) = t"
| "dtype (StructD _) = ArrowOther ''struct''"

definition null_like :: "datum \<Rightarrow> datum" where "null_like d = Scalar (dtype d) LNull"

definition na_datum :: datum where "na_datum = Scalar (ArrowOther ''na'') LNull"

abbreviation bool_datum :: "bool \<Rightarrow> datum" where
  "bool_datum b \<equiv> Scalar ABool (LBool b)"

fun is_null_datum :: "datum \<Rightarrow> bool" where
  "is_null_datum (Scalar _ v) \<longleftrightarrow> v = LNull"
| "is_null_datum (StructD _) \<longleftrightarrow> False"

text \<open>The three Boolean scalars.\<close>

definition is_bool3 :: "datum \<Rightarrow> bool" where
  "is_bool3 d \<longleftrightarrow> d = bool_datum True \<or> d = bool_datum False \<or> d = Scalar ABool LNull"

fun run :: "kernel \<Rightarrow> row \<Rightarrow> acexpr \<Rightarrow> datum" where
  "run K row (FieldRef j) = (if 0 \<le> j \<and> nat j < length row then row ! nat j else na_datum)"
| "run K row (ALiteral d) = d"
| "run K row (Call f opts args) = K f opts (map (run K row) args)"

section \<open>\<open>literal_to_arrow_datum\<close>\<close>

fun as_double :: "literal \<Rightarrow> f64" where
  "as_double (LInt i) = f64_of_int i"
| "as_double (LDouble d) = d"
| "as_double (LBool b) = (if b then f64_of_int 1 else f64_of_int 0)"
| "as_double _ = f64_of_int 0"

fun as_int64 :: "literal \<Rightarrow> int" where
  "as_int64 (LInt i) = i"
| "as_int64 (LDouble d) = f64_to_int d"
| "as_int64 (LBool b) = (if b then 1 else 0)"
| "as_int64 _ = 0"

definition literal_to_arrow_datum :: "literal \<Rightarrow> DataType \<Rightarrow> datum result" where
  "literal_to_arrow_datum v t =
     (if v = LNull then Inr (Scalar (to_arrow_type t) LNull)
      else case type_id t of
        Boolean \<Rightarrow> Inr (bool_datum (v = LBool True))
      | Int32 \<Rightarrow> Inr (Scalar AInt32 (LInt (wrap32 (as_int64 v))))
      | Int64 \<Rightarrow> Inr (Scalar AInt64 (LInt (as_int64 v)))
      | UInt32 \<Rightarrow> Inr (Scalar AUInt32 (LInt (as_int64 v mod 2 ^ 32)))
      | UInt64 \<Rightarrow> Inr (Scalar AUInt64 (LInt (as_int64 v mod 2 ^ 64)))
      | Float32 \<Rightarrow> Inr (Scalar AFloat (LDouble (f64_to_f32 (as_double v))))
      | Float64 \<Rightarrow> Inr (Scalar ADouble (LDouble (as_double v)))
      | String \<Rightarrow> Inr (Scalar AString (LString (case v of LString s \<Rightarrow> s | _ \<Rightarrow> [])))
      | Date32 \<Rightarrow> Inr (Scalar ADate32 (LInt (wrap32 (as_int64 v))))
      | Timestamp \<Rightarrow> Inr (Scalar (ATimestamp ''us'') (LInt (as_int64 v)))
      | Decimal \<Rightarrow> Inl (ExecutionError ''DECIMAL literals are not yet supported''))"

section \<open>\<open>compile_expression_cpu\<close>\<close>

fun binary_function_name :: "BinaryOperator \<Rightarrow> string" where
  "binary_function_name Add = ''add''"
| "binary_function_name Subtract = ''subtract''"
| "binary_function_name Multiply = ''multiply''"
| "binary_function_name Divide = ''divide''"
| "binary_function_name Equal = ''equal''"
| "binary_function_name NotEqual = ''not_equal''"
| "binary_function_name Less = ''less''"
| "binary_function_name LessEqual = ''less_equal''"
| "binary_function_name Greater = ''greater''"
| "binary_function_name GreaterEqual = ''greater_equal''"
| "binary_function_name And = ''and_kleene''"
| "binary_function_name Or = ''or_kleene''"

fun extract_function_name :: "DatePart \<Rightarrow> string" where
  "extract_function_name Year = ''year''"
| "extract_function_name Month = ''month''"
| "extract_function_name Day = ''day''"

fun unary_function_name :: "UnaryOperator \<Rightarrow> string" where
  "unary_function_name UNot = ''invert''"
| "unary_function_name UNegate = ''negate''"
| "unary_function_name UIsNull = ''is_null''"
| "unary_function_name UIsNotNull = ''is_valid''"

definition cond_names :: "nat \<Rightarrow> string list" where
  "cond_names n = map (\<lambda>i. ''cond_'' @ int_str (int i)) [0 ..< n]"

fun compile_expression_cpu :: "expression \<Rightarrow> acexpr result" where
  "compile_expression_cpu (Column n i t) = Inr (FieldRef (wrap32 (int i)))"
| "compile_expression_cpu (Literal v t) =
     bindR (literal_to_arrow_datum v t) (\<lambda>d. Inr (ALiteral d))"
| "compile_expression_cpu (Binary op l r t) =
     bindR (compile_expression_cpu l) (\<lambda>cl.
     bindR (compile_expression_cpu r) (\<lambda>cr.
     Inr (Call (binary_function_name op) NoOpts [cl, cr])))"
| "compile_expression_cpu (Unary op e t) =
     bindR (compile_expression_cpu e) (\<lambda>c. Inr (Call (unary_function_name op) NoOpts [c]))"
| "compile_expression_cpu (Between v l u) =
     bindR (compile_expression_cpu v) (\<lambda>cv.
     bindR (compile_expression_cpu l) (\<lambda>cl.
     bindR (compile_expression_cpu u) (\<lambda>cu.
     Inr (Call ''and_kleene'' NoOpts
       [Call ''greater_equal'' NoOpts [cv, cl], Call ''less_equal'' NoOpts [cv, cu]]))))"
| "compile_expression_cpu (Cast e t) =
     (if type_id t = Decimal \<or> type_id t = String
      then Inl (ExecutionError (''CAST to '' @ datatype_str t @ '' is not yet supported''))
      else bindR (compile_expression_cpu e) (\<lambda>c. Inr (Call ''cast'' (CastTo (to_arrow_type t)) [c])))"
| "compile_expression_cpu (Case wts els t) =
     bindR (mapR (\<lambda>(c, r). compile_expression_cpu c) wts) (\<lambda>conds.
     bindR (mapR (\<lambda>(c, r). compile_expression_cpu r) wts) (\<lambda>vals.
     bindR (case els of None \<Rightarrow> Inr []
            | Some e \<Rightarrow> bindR (compile_expression_cpu e) (\<lambda>c. Inr [c])) (\<lambda>last_val.
     Inr (Call ''case_when'' NoOpts
       (Call ''make_struct'' (MakeStruct (cond_names (length wts))) conds # vals @ last_val)))))"
| "compile_expression_cpu (Like v p neg) =
     bindR (compile_expression_cpu v) (\<lambda>cv.
     let matched = Call ''match_like'' (MatchSubstring p) [cv]
     in Inr (if neg then Call ''invert'' NoOpts [matched] else matched))"
| "compile_expression_cpu (Extract p e t) =
     bindR (compile_expression_cpu e) (\<lambda>c. Inr (Call (extract_function_name p) NoOpts [c]))"
| "compile_expression_cpu (Substring e s n t) =
     bindR (compile_expression_cpu e) (\<lambda>c.
     Inr (Call ''utf8_slice_codeunits'' (Slice (s - 1) (s - 1 + n)) [c]))"
| "compile_expression_cpu (Aggregate f arg t) =
     Inl (ExecutionError ''unrecognized expression type in CPU expression compiler'')"

section \<open>SQL's meaning of an expression\<close>

text \<open>
  Three-valued logic. On the Boolean scalars these are Kleene's tables; they are extended to
  other arguments, which no kernel accepts, so that \<open>x AND TRUE = x\<close> needs no side condition.
\<close>

definition and3 :: "datum \<Rightarrow> datum \<Rightarrow> datum" where
  "and3 a b =
     (if a = bool_datum False \<or> b = bool_datum False then bool_datum False
      else if a = bool_datum True then b
      else if b = bool_datum True then a
      else Scalar ABool LNull)"

definition or3 :: "datum \<Rightarrow> datum \<Rightarrow> datum" where
  "or3 a b =
     (if a = bool_datum True \<or> b = bool_datum True then bool_datum True
      else if a = bool_datum False then b
      else if b = bool_datum False then a
      else Scalar ABool LNull)"

fun not3 :: "datum \<Rightarrow> datum" where
  "not3 (Scalar t (LBool b)) = Scalar t (LBool (\<not> b))"
| "not3 d = d"

definition is_true :: "datum \<Rightarrow> bool" where "is_true d \<longleftrightarrow> d = bool_datum True"

text \<open>The value of the first branch whose condition is TRUE, else the ELSE value, else NULL.\<close>

fun case_pick :: "(datum \<times> datum) list \<Rightarrow> datum option \<Rightarrow> datum \<Rightarrow> datum" where
  "case_pick [] els d = value_or els d"
| "case_pick ((c, v) # rest) els d = (if is_true c then v else case_pick rest els d)"

fun eval :: "kernel \<Rightarrow> row \<Rightarrow> expression \<Rightarrow> datum" where
  "eval K row (Column n i t) = (if i < length row then row ! i else na_datum)"
| "eval K row (Literal v t) =
     (case literal_to_arrow_datum v t of Inl _ \<Rightarrow> Scalar (to_arrow_type t) v | Inr d \<Rightarrow> d)"
| "eval K row (Binary op l r t) =
     (case op of And \<Rightarrow> and3 (eval K row l) (eval K row r)
      | Or \<Rightarrow> or3 (eval K row l) (eval K row r)
      | _ \<Rightarrow> K (binary_function_name op) NoOpts [eval K row l, eval K row r])"
| "eval K row (Unary op e t) =
     (case op of UNot \<Rightarrow> not3 (eval K row e)
      | UNegate \<Rightarrow> K ''negate'' NoOpts [eval K row e]
      | UIsNull \<Rightarrow> bool_datum (is_null_datum (eval K row e))
      | UIsNotNull \<Rightarrow> bool_datum (\<not> is_null_datum (eval K row e)))"
| "eval K row (Cast e t) = K ''cast'' (CastTo (to_arrow_type t)) [eval K row e]"
| "eval K row (Extract p e t) = K (extract_function_name p) NoOpts [eval K row e]"
| "eval K row (Substring e s n t) =
     K ''utf8_slice_codeunits'' (Slice (s - 1) (s - 1 + n)) [eval K row e]"
| "eval K row (Between v l u) =
     and3 (K ''greater_equal'' NoOpts [eval K row v, eval K row l])
          (K ''less_equal'' NoOpts [eval K row v, eval K row u])"
| "eval K row (Like v p neg) =
     (let m = K ''match_like'' (MatchSubstring p) [eval K row v] in if neg then not3 m else m)"
| "eval K row (Case wts els t) =
     case_pick (map (\<lambda>(c, r). (eval K row c, eval K row r)) wts) (map_option (eval K row) els)
       (case wts of [] \<Rightarrow> na_datum | (c, r) # _ \<Rightarrow> null_like (eval K row r))"
| "eval K row (Aggregate f arg t) = na_datum"

text \<open>Rebuilding a CASE branch by branch keeps its value when every branch keeps its own.\<close>

lemma eval_Case_map:
  assumes "\<And>c r. (c, r) \<in> set wts \<Longrightarrow>
      eval K row' (f c) = eval K row c \<and> eval K row' (f r) = eval K row r"
    and "\<And>e. els = Some e \<Longrightarrow> eval K row' (f e) = eval K row e"
  shows "eval K row' (Case (map (\<lambda>(c, r). (f c, f r)) wts) (map_option f els) t')
    = eval K row (Case wts els t)"
proof -
  have m: "map (\<lambda>(c, r). (eval K row' c, eval K row' r)) (map (\<lambda>(c, r). (f c, f r)) wts)
      = map (\<lambda>(c, r). (eval K row c, eval K row r)) wts"
    using assms(1) by auto
  have e: "map_option (eval K row') (map_option f els) = map_option (eval K row) els"
    using assms(2) by (cases els) auto
  have h: "(case map (\<lambda>(c, r). (f c, f r)) wts of [] \<Rightarrow> na_datum
        | (c, r) # _ \<Rightarrow> null_like (eval K row' r))
      = (case wts of [] \<Rightarrow> na_datum | (c, r) # _ \<Rightarrow> null_like (eval K row r))"
    using assms(1)[of "fst (hd wts)" "snd (hd wts)"] by (cases wts) auto
  show ?thesis by (simp only: eval.simps m e h)
qed

section \<open>Renaming columns\<close>

text \<open>
  Several stages rebuild an expression with every column index mapped by a function \<open>ix\<close>: below
  a join, above a narrowed scan, over a join's rearranged output. Whatever copies the rest of
  the tree keeps types, and keeps the value on a row that holds the old columns at the new places.
\<close>

definition col_at :: "row \<Rightarrow> nat \<Rightarrow> datum" where
  "col_at row i = (if i < length row then row ! i else na_datum)"

locale column_renaming =
  fixes rn :: "expression \<Rightarrow> expression" and ix :: "nat \<Rightarrow> nat"
  assumes rn_Column: "rn (Column n i t) = Column n (ix i) t"
    and rn_Literal: "rn (Literal v t) = Literal v t"
    and rn_Binary: "rn (Binary op l r t) = Binary op (rn l) (rn r) t"
    and rn_Unary: "rn (Unary uop e t) = Unary uop (rn e) t"
    and rn_Cast: "rn (Cast e t) = Cast (rn e) t"
    and rn_Extract: "rn (Extract p e t) = Extract p (rn e) t"
    and rn_Substring: "rn (Substring e s k t) = Substring (rn e) s k t"
    and rn_Between: "rn (Between e l u) = Between (rn e) (rn l) (rn u)"
    and rn_Like: "rn (Like e q neg) = Like (rn e) q neg"
    and rn_Case: "rn (Case wts els t) = Case (map (\<lambda>(c, r). (rn c, rn r)) wts) (map_option rn els) t"
    and rn_Aggregate: "rn (Aggregate f arg t) = Aggregate f arg t \<or>
      rn (Aggregate f arg t) = Aggregate f (map_option rn arg) t"
begin

lemmas rn_simps =
  rn_Column rn_Literal rn_Binary rn_Unary rn_Cast rn_Extract rn_Substring rn_Between rn_Like rn_Case

lemma rn_type: "result_type (rn e) = result_type e"
proof (cases e)
  case (Aggregate f arg t)
  then show ?thesis using rn_Aggregate[of f arg t] by auto
qed (simp_all add: rn_simps)

lemma rn_dec_lit: "dec_lit (rn e) = dec_lit e"
proof (cases e)
  case (Aggregate f arg t)
  then show ?thesis using rn_Aggregate[of f arg t] by auto
qed (simp_all add: rn_simps)

lemma rn_wt: "wt e \<Longrightarrow> wt (rn e)"
proof (induction e rule: expr_induct)
  case (Case wts els t)
  then show ?case by (fastforce simp: rn_simps rn_type rn_dec_lit list_all_iff split: option.splits)
next
  case (Aggregate f arg t)
  then show ?case using rn_Aggregate[of f arg t] by (cases arg) auto
next
  case (Unary op e t)
  then show ?case by (cases op) (auto simp: rn_simps rn_type rn_dec_lit)
next
  case (Between v l u)
  then show ?case by (auto simp: rn_simps rn_type rn_dec_lit)
qed (simp_all add: rn_simps rn_type rn_dec_lit)

lemma rn_col_refs:
  "agg_free e \<Longrightarrow> col_refs (rn e) = map (\<lambda>(i, t). (ix i, t)) (col_refs e)"
proof (induction e rule: expr_induct)
  case (Case wts els t)
  have h: "\<forall>p \<in> set wts. col_refs (rn (fst p)) = map (\<lambda>(i, t). (ix i, t)) (col_refs (fst p)) \<and>
      col_refs (rn (snd p)) = map (\<lambda>(i, t). (ix i, t)) (col_refs (snd p))"
    using Case by (fastforce simp: list_all_iff)
  have "concat (map (\<lambda>(c, r). col_refs c @ col_refs r) (map (\<lambda>(c, r). (rn c, rn r)) wts))
      = map (\<lambda>(i, t). (ix i, t)) (concat (map (\<lambda>(c, r). col_refs c @ col_refs r) wts))"
    using h by (induction wts) auto
  with Case show ?case by (cases els) (auto simp: rn_simps)
qed (simp_all add: rn_simps)

lemma rn_agg_free: "agg_free e \<Longrightarrow> agg_free (rn e)"
proof (induction e rule: expr_induct)
  case (Case wts els t)
  then show ?case by (fastforce simp: rn_simps rn_type list_all_iff split: option.splits)
qed (simp_all add: rn_simps)

lemma rn_eval:
  assumes "\<forall>p \<in> set (col_refs e). col_at row' (ix (fst p)) = col_at row (fst p)"
  shows "eval K row' (rn e) = eval K row e"
  using assms
proof (induction e rule: expr_induct)
  case (Column n i t)
  then show ?case by (simp add: rn_simps col_at_def)
next
  case (Binary op l r t)
  then show ?case by (cases op) (auto simp: rn_simps)
next
  case (Unary op e t)
  then show ?case by (cases op) (auto simp: rn_simps)
next
  case (Case wts els t)
  show ?case unfolding rn_Case
  proof (rule eval_Case_map)
    fix c r assume m: "(c, r) \<in> set wts"
    then have "\<forall>p \<in> set (col_refs c) \<union> set (col_refs r). col_at row' (ix (fst p)) = col_at row (fst p)"
      using Case.prems by fastforce
    with Case.IH(1)[OF m] show "eval K row' (rn c) = eval K row c \<and> eval K row' (rn r) = eval K row r"
      by simp
  qed (use Case in auto)
next
  case (Aggregate f arg t)
  then show ?case using rn_Aggregate[of f arg t] by auto
qed (auto simp: rn_simps)

end

text \<open>Keeping every index: the value depends on the columns read only.\<close>

interpretation keep: column_renaming "\<lambda>e. e" "\<lambda>i. i"
proof
  show "Case wts els t = Case (map (\<lambda>(c, r). (c, r)) wts) (map_option (\<lambda>e. e) els) t" for wts els t
    by (simp add: option.map_ident)
qed simp_all

section \<open>Three-valued logic\<close>

lemma and3_simps [simp]:
  "and3 x (bool_datum True) = x" "and3 (bool_datum True) x = x"
  "and3 x (bool_datum False) = bool_datum False" "and3 (bool_datum False) x = bool_datum False"
  by (auto simp: and3_def)

lemma or3_simps [simp]:
  "or3 x (bool_datum False) = x" "or3 (bool_datum False) x = x"
  "or3 x (bool_datum True) = bool_datum True" "or3 (bool_datum True) x = bool_datum True"
  by (auto simp: or3_def)

lemma not3_not3 [simp]: "not3 (not3 d) = d"
  by (cases d rule: not3.cases) auto

lemma is_true_bool [simp]: "is_true (bool_datum b) \<longleftrightarrow> b"
  by (simp add: is_true_def)

lemma is_true_and3 [simp]: "is_true (and3 a b) \<longleftrightarrow> is_true a \<and> is_true b"
  by (auto simp: is_true_def and3_def)

lemma and3_assoc: "and3 (and3 a b) c = and3 a (and3 b c)"
  by (auto simp: and3_def)

lemma is_bool3_simps [simp]:
  "is_bool3 (bool_datum b)" "is_bool3 (Scalar ABool LNull)"
  by (cases b) (simp_all add: is_bool3_def)

lemma is_bool3_ops:
  "is_bool3 a \<Longrightarrow> is_bool3 b \<Longrightarrow> is_bool3 (and3 a b)"
  "is_bool3 a \<Longrightarrow> is_bool3 b \<Longrightarrow> is_bool3 (or3 a b)"
  "is_bool3 a \<Longrightarrow> is_bool3 (not3 a)"
  by (auto simp: is_bool3_def and3_def or3_def)

lemma is_bool3_null: "is_bool3 d \<Longrightarrow> is_bool3 (null_like d)"
  by (auto simp: is_bool3_def null_like_def)

lemma is_bool3_case_pick:
  "(\<And>c v. (c, v) \<in> set bs \<Longrightarrow> is_bool3 v) \<Longrightarrow> (\<And>v. els = Some v \<Longrightarrow> is_bool3 v) \<Longrightarrow>
     is_bool3 d \<Longrightarrow> is_bool3 (case_pick bs els d)"
  by (induction bs els d rule: case_pick.induct) (auto simp: value_or_def split: option.split)

section \<open>What the translation relies on\<close>

locale arrow_logic =
  fixes K :: kernel
  assumes and_kleene: "is_bool3 a \<Longrightarrow> is_bool3 b \<Longrightarrow> K ''and_kleene'' NoOpts [a, b] = and3 a b"
    and or_kleene: "is_bool3 a \<Longrightarrow> is_bool3 b \<Longrightarrow> K ''or_kleene'' NoOpts [a, b] = or3 a b"
    and invert: "is_bool3 a \<Longrightarrow> K ''invert'' NoOpts [a] = not3 a"
    and is_null: "K ''is_null'' NoOpts [a] = bool_datum (is_null_datum a)"
    and is_valid: "K ''is_valid'' NoOpts [a] = bool_datum (\<not> is_null_datum a)"
    and make_struct: "length ns = length cs \<Longrightarrow> K ''make_struct'' (MakeStruct ns) cs = StructD cs"
    and case_when: "list_all is_bool3 cs \<Longrightarrow> cs \<noteq> [] \<Longrightarrow> length vs = length cs \<Longrightarrow>
      K ''case_when'' NoOpts (StructD cs # vs) = case_pick (zip cs vs) None (null_like (hd vs))"
    and case_when_else: "list_all is_bool3 cs \<Longrightarrow> cs \<noteq> [] \<Longrightarrow> length vs = length cs \<Longrightarrow>
      K ''case_when'' NoOpts (StructD cs # vs @ [e]) = case_pick (zip cs vs) (Some e) (null_like (hd vs))"
    and comparison_bool: "is_comparison op \<Longrightarrow> is_bool3 (K (binary_function_name op) NoOpts [a, b])"
    and match_like_bool: "is_bool3 (K ''match_like'' (MatchSubstring p) [a])"
    and cast_bool: "is_bool3 (K ''cast'' (CastTo ABool) [a])"
begin

lemma between_bool:
  "is_bool3 (K ''greater_equal'' NoOpts [a, b])" "is_bool3 (K ''less_equal'' NoOpts [a, b])"
  using comparison_bool[of GreaterEqual] comparison_bool[of LessEqual] by simp_all

end

text \<open>
  A row fits an expression when every column it reads exists, its position survives the cast to
  \<open>int\<close>, and Boolean columns hold Booleans.
\<close>

definition row_fits :: "row \<Rightarrow> expression \<Rightarrow> bool" where
  "row_fits row e \<longleftrightarrow>
     list_all (\<lambda>(i, t). i < length row \<and> (type_id t = Boolean \<longrightarrow> is_bool3 (row ! i))) (col_refs e)"

lemma row_fits_simps [simp]:
  "row_fits row (Column n i t) \<longleftrightarrow>
     i < length row \<and> (type_id t = Boolean \<longrightarrow> is_bool3 (row ! i))"
  "row_fits row (Literal x t)"
  "row_fits row (Binary op l r t) \<longleftrightarrow> row_fits row l \<and> row_fits row r"
  "row_fits row (Unary uop e t) \<longleftrightarrow> row_fits row e"
  "row_fits row (Cast e t) \<longleftrightarrow> row_fits row e"
  "row_fits row (Extract p e t) \<longleftrightarrow> row_fits row e"
  "row_fits row (Substring e s k t) \<longleftrightarrow> row_fits row e"
  "row_fits row (Between v l u) \<longleftrightarrow> row_fits row v \<and> row_fits row l \<and> row_fits row u"
  "row_fits row (Like v q neg) \<longleftrightarrow> row_fits row v"
  "row_fits row (Case wts els t) \<longleftrightarrow>
     (\<forall>(c, r) \<in> set wts. row_fits row c \<and> row_fits row r) \<and> (\<forall>e. els = Some e \<longrightarrow> row_fits row e)"
  by (auto simp: row_fits_def list_all_iff split: option.splits prod.splits) blast+

context arrow_logic
begin

lemma eval_bool:
  assumes "wt e" "tid e = Boolean" "compile_expression_cpu e = Inr c" "row_fits row e"
  shows "is_bool3 (eval K row e)"
  using assms
proof (induction e arbitrary: c rule: expr_induct)
  case (Literal v t)
  then show ?case by (auto simp: literal_to_arrow_datum_def)
next
  case (Binary op l r t)
  then show ?case
    using comparison_bool[of op]
    by (cases op) (auto simp: bindR_eq_Inr numeric_id_def intro: is_bool3_ops)
next
  case (Unary op e t)
  then show ?case by (cases op) (auto simp: bindR_eq_Inr intro: is_bool3_ops)
next
  case (Cast e t)
  then show ?case using cast_bool by simp
next
  case (Case wts els t)
  have r: "is_bool3 (eval K row r)" if "(c, r) \<in> set wts" for c r
  proof -
    from Case.prems(3) that obtain cr where "compile_expression_cpu r = Inr cr"
      by (auto simp: bindR_eq_Inr dest: mapR_mem)
    with Case that show ?thesis by (fastforce simp: list_all_iff)
  qed
  have "is_bool3 (eval K row e)" if "els = Some e" for e
    using Case that by (auto simp: bindR_eq_Inr)
  moreover have "\<forall>p \<in> set wts. is_bool3 (eval K row (snd p))" using r by auto
  ultimately show ?case unfolding eval.simps
    using Case.prems(1) by (intro is_bool3_case_pick) (auto intro!: is_bool3_null split: list.splits)
qed (auto simp: between_bool match_like_bool is_bool3_ops Let_def)

lemma case_conds_bool:
  assumes "wt (Case wts els t)" "compile_expression_cpu (Case wts els t) = Inr ac"
    "row_fits row (Case wts els t)"
  shows "list_all is_bool3 (map (\<lambda>(c, r). eval K row c) wts)"
proof -
  have "is_bool3 (eval K row c)" if m: "(c, r) \<in> set wts" for c r
  proof -
    from assms(2) m obtain cc where "compile_expression_cpu c = Inr cc"
      by (auto simp: bindR_eq_Inr dest: mapR_mem)
    with assms(1,3) m show ?thesis by (intro eval_bool) (fastforce simp: list_all_iff)+
  qed
  then show ?thesis by (auto simp: list_all_iff)
qed

lemma run_compile_case:
  assumes wts: "\<And>c r. (c, r) \<in> set wts \<Longrightarrow>
        (\<forall>x. compile_expression_cpu c = Inr x \<longrightarrow> run K row x = eval K row c) \<and>
        (\<forall>x. compile_expression_cpu r = Inr x \<longrightarrow> run K row x = eval K row r)"
    and els: "\<And>e x. els = Some e \<Longrightarrow> compile_expression_cpu e = Inr x \<Longrightarrow> run K row x = eval K row e"
    and ok: "wt (Case wts els t)" "compile_expression_cpu (Case wts els t) = Inr ac"
      "row_fits row (Case wts els t)"
  shows "run K row ac = eval K row (Case wts els t)"
proof -
  from ok(2) obtain cs vs lv where c: "mapR (\<lambda>(c, r). compile_expression_cpu c) wts = Inr cs"
    "mapR (\<lambda>(c, r). compile_expression_cpu r) wts = Inr vs"
    "(case els of None \<Rightarrow> Inr [] | Some e \<Rightarrow> bindR (compile_expression_cpu e) (\<lambda>c. Inr [c])) = Inr lv"
    "ac = Call ''case_when'' NoOpts
       (Call ''make_struct'' (MakeStruct (cond_names (length wts))) cs # vs @ lv)"
    by (auto simp: bindR_eq_Inr)
  let ?cs = "map (\<lambda>(c, r). eval K row c) wts"
  let ?vs = "map (\<lambda>(c, r). eval K row r) wts"
  have cs: "map (run K row) cs = ?cs" by (rule mapR_map_eq[OF c(1)]) (use wts in auto)
  have vs: "map (run K row) vs = ?vs" by (rule mapR_map_eq[OF c(2)]) (use wts in auto)
  have z: "zip ?cs ?vs = map (\<lambda>(c, r). (eval K row c, eval K row r)) wts"
    by (induction wts) auto
  have ne: "wts \<noteq> []" using ok(1) by simp
  have hd: "null_like (hd ?vs) = (case wts of [] \<Rightarrow> na_datum | (c, r) # _ \<Rightarrow> null_like (eval K row r))"
    using ne by (cases wts) auto
  have b: "list_all is_bool3 ?cs" by (rule case_conds_bool[OF ok])
  have st: "K ''make_struct'' (MakeStruct (cond_names (length wts))) ?cs = StructD ?cs"
    by (rule make_struct) (simp add: cond_names_def)
  show ?thesis
  proof (cases els)
    case None
    with c(3,4) have "run K row ac = K ''case_when'' NoOpts (StructD ?cs # ?vs)"
      by (simp add: cs vs st)
    also have "\<dots> = case_pick (zip ?cs ?vs) None (null_like (hd ?vs))"
      by (rule case_when[OF b]) (use ne in auto)
    finally show ?thesis using None by (simp only: z hd eval.simps option.map)
  next
    case (Some e)
    with c(3) obtain ce where ce: "compile_expression_cpu e = Inr ce" "lv = [ce]"
      by (auto simp: bindR_eq_Inr)
    with c(4) els[OF Some ce(1)]
    have "run K row ac = K ''case_when'' NoOpts (StructD ?cs # ?vs @ [eval K row e])"
      by (simp add: cs vs st)
    also have "\<dots> = case_pick (zip ?cs ?vs) (Some (eval K row e)) (null_like (hd ?vs))"
      by (rule case_when_else[OF b]) (use ne in auto)
    finally show ?thesis using Some by (simp only: z hd eval.simps option.map)
  qed
qed

text \<open>The compiled expression computes SQL's meaning.\<close>

lemma run_compile:
  assumes "wt e" "compile_expression_cpu e = Inr c" "row_fits row e" "length row < 2 ^ 31"
  shows "run K row c = eval K row e"
  using assms
proof (induction e arbitrary: c rule: expr_induct)
  case (Column n i t)
  then have "in_int32 (int i)" by (auto simp: in_int32_def)
  with Column show ?case by (auto simp: wrap32_id)
next
  case (Literal v t)
  then show ?case by (auto simp: bindR_eq_Inr)
next
  case (Binary op l r t)
  from Binary.prems obtain cl cr where c: "compile_expression_cpu l = Inr cl"
    "compile_expression_cpu r = Inr cr" "c = Call (binary_function_name op) NoOpts [cl, cr]"
    by (auto simp: bindR_eq_Inr)
  have "is_logical op \<Longrightarrow> is_bool3 (eval K row l) \<and> is_bool3 (eval K row r)"
    using Binary.prems c by (auto simp: is_logical_def intro!: eval_bool)
  with Binary c show ?case
    by (cases op) (auto simp: and_kleene or_kleene is_logical_def)
next
  case (Unary op e t)
  from Unary.prems obtain ce where c: "compile_expression_cpu e = Inr ce"
    "c = Call (unary_function_name op) NoOpts [ce]"
    by (auto simp: bindR_eq_Inr)
  have "op = UNot \<Longrightarrow> is_bool3 (eval K row e)"
    using Unary.prems c by (auto intro!: eval_bool)
  with Unary c show ?case by (cases op) (auto simp: invert is_null is_valid)
next
  case (Cast e t)
  then show ?case by (auto simp: bindR_eq_Inr split: if_splits)
next
  case (Between v l u)
  then show ?case by (auto simp: bindR_eq_Inr and_kleene between_bool)
next
  case (Like v p neg)
  then show ?case by (auto simp: bindR_eq_Inr Let_def invert match_like_bool)
next
  case (Case wts els t)
  show ?case
  proof (rule run_compile_case[OF _ _ Case.prems(1,2,3)])
    fix c r assume "(c, r) \<in> set wts"
    with Case show "(\<forall>x. compile_expression_cpu c = Inr x \<longrightarrow> run K row x = eval K row c) \<and>
        (\<forall>x. compile_expression_cpu r = Inr x \<longrightarrow> run K row x = eval K row r)"
      by (fastforce simp: list_all_iff)
  qed (use Case in auto)
qed (auto simp: bindR_eq_Inr)

end

section \<open>What constant folding relies on\<close>

fun int_rel :: "BinaryOperator \<Rightarrow> int \<Rightarrow> int \<Rightarrow> bool" where
  "int_rel Equal a b \<longleftrightarrow> a = b" | "int_rel NotEqual a b \<longleftrightarrow> a \<noteq> b" | "int_rel Less a b \<longleftrightarrow> a < b"
| "int_rel LessEqual a b \<longleftrightarrow> a \<le> b" | "int_rel Greater a b \<longleftrightarrow> a > b"
| "int_rel GreaterEqual a b \<longleftrightarrow> a \<ge> b" | "int_rel _ a b \<longleftrightarrow> False"

fun f64_rel :: "BinaryOperator \<Rightarrow> f64 \<Rightarrow> f64 \<Rightarrow> bool" where
  "f64_rel Equal a b \<longleftrightarrow> f64_eq a b" | "f64_rel NotEqual a b \<longleftrightarrow> \<not> f64_eq a b"
| "f64_rel Less a b \<longleftrightarrow> f64_lt a b" | "f64_rel LessEqual a b \<longleftrightarrow> f64_le a b"
| "f64_rel Greater a b \<longleftrightarrow> f64_lt b a" | "f64_rel GreaterEqual a b \<longleftrightarrow> f64_le b a"
| "f64_rel _ a b \<longleftrightarrow> False"

text \<open>
  Arrow's arithmetic on \<open>int64\<close> is exact while the result fits, on \<open>double\<close> it is IEEE's, and
  comparison kernels compare the stored integers (also of dates and timestamps) and doubles.
\<close>

abbreviation int64_datum :: "int \<Rightarrow> datum" where
  "int64_datum i \<equiv> Scalar AInt64 (LInt i)"
abbreviation f64_datum :: "f64 \<Rightarrow> datum" where
  "f64_datum d \<equiv> Scalar ADouble (LDouble d)"

locale arrow_kernels = arrow_logic +
  assumes int64_add: "in_int64 (a + b) \<Longrightarrow> K ''add'' NoOpts [int64_datum a, int64_datum b] = int64_datum (a + b)"
    and int64_sub: "in_int64 (a - b) \<Longrightarrow> K ''subtract'' NoOpts [int64_datum a, int64_datum b] = int64_datum (a - b)"
    and int64_mul: "in_int64 (a * b) \<Longrightarrow> K ''multiply'' NoOpts [int64_datum a, int64_datum b] = int64_datum (a * b)"
    and int64_div: "b \<noteq> 0 \<Longrightarrow> in_int64 (tdiv a b) \<Longrightarrow>
      K ''divide'' NoOpts [int64_datum a, int64_datum b] = int64_datum (tdiv a b)"
    and double_add: "K ''add'' NoOpts [f64_datum x, f64_datum y] = f64_datum (f64_add x y)"
    and double_sub: "K ''subtract'' NoOpts [f64_datum x, f64_datum y] = f64_datum (f64_sub x y)"
    and double_mul: "K ''multiply'' NoOpts [f64_datum x, f64_datum y] = f64_datum (f64_mul x y)"
    and double_div: "\<not> f64_is_zero y \<Longrightarrow>
      K ''divide'' NoOpts [f64_datum x, f64_datum y] = f64_datum (f64_div x y)"
    and int_compare: "is_comparison op \<Longrightarrow> t \<in> {AInt64, ADate32, ATimestamp ''us''} \<Longrightarrow>
      K (binary_function_name op) NoOpts [Scalar t (LInt a), Scalar t (LInt b)]
      = bool_datum (int_rel op a b)"
    and double_compare: "is_comparison op \<Longrightarrow>
      K (binary_function_name op) NoOpts [f64_datum x, f64_datum y] = bool_datum (f64_rel op x y)"

end
