(* ===== verification/RefKernel.thy ===== *)
theory RefKernel
  imports Compute "HOL-Library.List_Lexorder" "HOL-Library.Char_ord"
begin

text \<open>
  A concrete kernel registry, \<open>ref_kernel\<close>: every function the CPU backend calls, computed on the
  scalars of the engine's types. It interprets the locales \<open>arrow_logic\<close> and \<open>arrow_kernels\<close>,
  so their laws are consistent and witnesses can evaluate whole queries with it.
\<close>

fun str_rel :: "BinaryOperator \<Rightarrow> string \<Rightarrow> string \<Rightarrow> bool" where
  "str_rel Equal a b \<longleftrightarrow> a = b" | "str_rel NotEqual a b \<longleftrightarrow> a \<noteq> b" | "str_rel Less a b \<longleftrightarrow> a < b"
| "str_rel LessEqual a b \<longleftrightarrow> a \<le> b" | "str_rel Greater a b \<longleftrightarrow> b < a"
| "str_rel GreaterEqual a b \<longleftrightarrow> b \<le> a" | "str_rel _ a b \<longleftrightarrow> False"

fun cmp_literal :: "BinaryOperator \<Rightarrow> literal \<Rightarrow> literal \<Rightarrow> datum" where
  "cmp_literal op (LInt a) (LInt b) = bool_datum (int_rel op a b)"
| "cmp_literal op (LDouble a) (LDouble b) = bool_datum (f64_rel op a b)"
| "cmp_literal op (LString a) (LString b) = bool_datum (str_rel op a b)"
| "cmp_literal op (LBool a) (LBool b) = bool_datum (int_rel op (of_bool a) (of_bool b))"
| "cmp_literal op _ _ = Scalar ABool LNull"

fun fit_int :: "ArrowType \<Rightarrow> int \<Rightarrow> int" where
  "fit_int AInt32 i = wrap32 i"
| "fit_int AUInt32 i = i mod 2 ^ 32"
| "fit_int AUInt64 i = i mod 2 ^ 64"
| "fit_int ADate32 i = wrap32 i"
| "fit_int _ i = wrap64 i"

fun int_op :: "BinaryOperator \<Rightarrow> int \<Rightarrow> int \<Rightarrow> int" where
  "int_op Add a b = a + b" | "int_op Subtract a b = a - b" | "int_op Multiply a b = a * b"
| "int_op Divide a b = tdiv a b" | "int_op _ a b = 0"

fun f64_op :: "BinaryOperator \<Rightarrow> f64 \<Rightarrow> f64 \<Rightarrow> f64" where
  "f64_op Add a b = f64_add a b" | "f64_op Subtract a b = f64_sub a b"
| "f64_op Multiply a b = f64_mul a b" | "f64_op Divide a b = f64_div a b" | "f64_op _ a b = a"

fun arith_literal :: "ArrowType \<Rightarrow> BinaryOperator \<Rightarrow> literal \<Rightarrow> literal \<Rightarrow> literal" where
  "arith_literal t op (LInt a) (LInt b) = LInt (fit_int t (int_op op a b))"
| "arith_literal t op (LDouble a) (LDouble b) =
     LDouble (if t = AFloat then f64_to_f32 (f64_op op a b) else f64_op op a b)"
| "arith_literal t op _ _ = LNull"

fun neg_literal :: "ArrowType \<Rightarrow> literal \<Rightarrow> literal" where
  "neg_literal t (LInt a) = LInt (fit_int t (- a))"
| "neg_literal t (LDouble a) = LDouble (f64_neg a)"
| "neg_literal t _ = LNull"

text \<open>LIKE: \<open>%\<close> matches any text, \<open>_\<close> one character.\<close>

fun like_match :: "string \<Rightarrow> string \<Rightarrow> bool" where
  "like_match [] s \<longleftrightarrow> s = []"
| "like_match (p # ps) [] \<longleftrightarrow> p = CHR ''%'' \<and> like_match ps []"
| "like_match (p # ps) (c # cs) \<longleftrightarrow>
     (if p = CHR ''%'' then like_match ps (c # cs) \<or> like_match (p # ps) cs
      else (p = CHR ''_'' \<or> p = c) \<and> like_match ps cs)"

text \<open>The day number of a date or of a timestamp in microseconds.\<close>

fun day_of :: "ArrowType \<Rightarrow> int \<Rightarrow> int" where
  "day_of ADate32 i = i"
| "day_of _ i = i div kMicrosPerDay"

fun date_part :: "string \<Rightarrow> int \<Rightarrow> int" where
  "date_part f n =
     (let (y, m) = civil_from_days n
      in if f = ''year'' then y else if f = ''month'' then m else n - days_from_civil y m 1 + 1)"

fun cast_literal :: "ArrowType \<Rightarrow> ArrowType \<Rightarrow> literal \<Rightarrow> literal" where
  "cast_literal src ABool (LInt i) = LBool (i \<noteq> 0)"
| "cast_literal src ABool (LDouble d) = LBool (\<not> f64_is_zero d)"
| "cast_literal src ABool (LBool b) = LBool b"
| "cast_literal src ABool _ = LNull"
| "cast_literal src ADouble v = (if v = LNull then LNull else LDouble (as_double v))"
| "cast_literal src AFloat v = (if v = LNull then LNull else LDouble (f64_to_f32 (as_double v)))"
| "cast_literal src t v =
     (case v of LNull \<Rightarrow> LNull | LString s \<Rightarrow> LString s
      | LInt i \<Rightarrow> LInt (fit_int t
          (if src = ADate32 \<and> t = ATimestamp ''us'' then i * kMicrosPerDay
           else if t = ADate32 then day_of src i else i))
      | _ \<Rightarrow> LInt (fit_int t (as_int64 v)))"

definition binop_of_name :: "string \<Rightarrow> BinaryOperator option" where
  "binop_of_name f =
     map_of (map (\<lambda>op. (binary_function_name op, op))
       [Add, Subtract, Multiply, Divide, Equal, NotEqual, Less, LessEqual, Greater, GreaterEqual,
        And, Or]) f"

fun ref_binary :: "BinaryOperator \<Rightarrow> datum \<Rightarrow> datum \<Rightarrow> datum" where
  "ref_binary op (Scalar s a) (Scalar t b) =
     (if op = And then and3 (Scalar s a) (Scalar t b)
      else if op = Or then or3 (Scalar s a) (Scalar t b)
      else if is_comparison op then cmp_literal op a b
      else Scalar s (arith_literal s op a b))"
| "ref_binary op _ _ = Scalar ABool LNull"

fun ref_unary :: "string \<Rightarrow> aopts \<Rightarrow> datum \<Rightarrow> datum" where
  "ref_unary f (CastTo t) (Scalar s v) = Scalar t (cast_literal s t v)"
| "ref_unary f (CastTo t) (StructD _) = Scalar t LNull"
| "ref_unary f (MatchSubstring p) (Scalar s v) =
     (case v of LString x \<Rightarrow> bool_datum (like_match p x) | _ \<Rightarrow> Scalar ABool LNull)"
| "ref_unary f (MatchSubstring p) (StructD _) = Scalar ABool LNull"
| "ref_unary f (Slice a b) (Scalar s v) =
     (case v of LString x \<Rightarrow> Scalar s (LString (take (nat (b - a)) (drop (nat a) x)))
      | _ \<Rightarrow> Scalar s LNull)"
| "ref_unary f opts d =
     (if f = ''invert'' then not3 d
      else if f = ''is_null'' then bool_datum (is_null_datum d)
      else if f = ''is_valid'' then bool_datum (\<not> is_null_datum d)
      else case d of
        Scalar s v \<Rightarrow>
          if f = ''negate'' then Scalar s (neg_literal s v)
          else (case v of LInt i \<Rightarrow> int64_datum (date_part f (day_of s i)) | _ \<Rightarrow> Scalar AInt64 LNull)
      | StructD _ \<Rightarrow> na_datum)"

fun ref_case :: "datum list \<Rightarrow> datum" where
  "ref_case (StructD cs # vs) =
     case_pick (zip cs vs) (if length vs = Suc (length cs) then Some (last vs) else None)
       (case vs of [] \<Rightarrow> na_datum | v # _ \<Rightarrow> null_like v)"
| "ref_case _ = na_datum"

definition ref_kernel :: kernel where
  "ref_kernel f opts args =
     (if f = ''make_struct'' then StructD args
      else if f = ''case_when'' then ref_case args
      else case args of
        [a] \<Rightarrow> ref_unary f opts a
      | [a, b] \<Rightarrow> (case binop_of_name f of Some op \<Rightarrow> ref_binary op a b | None \<Rightarrow> na_datum)
      | _ \<Rightarrow> na_datum)"

lemma binop_of_name_fn [simp]: "binop_of_name (binary_function_name op) = Some op"
  by (cases op) (simp_all add: binop_of_name_def)

lemma binary_name_not_special [simp]:
  "binary_function_name op \<noteq> ''make_struct''" "binary_function_name op \<noteq> ''case_when''"
  by (cases op; simp)+

lemma ref_kernel_binary [simp]:
  "ref_kernel (binary_function_name op) NoOpts [a, b] = ref_binary op a b"
  by (simp add: ref_kernel_def)

lemmas ref_kernel_named =
  ref_kernel_binary[of Add, simplified] ref_kernel_binary[of Subtract, simplified]
  ref_kernel_binary[of Multiply, simplified] ref_kernel_binary[of Divide, simplified]
  ref_kernel_binary[of And, simplified] ref_kernel_binary[of Or, simplified]

lemma cmp_literal_bool [simp]: "is_bool3 (cmp_literal op a b)"
  by (cases "(op, a, b)" rule: cmp_literal.cases) simp_all

lemma ref_binary_bool: "is_comparison op \<Longrightarrow> is_bool3 (ref_binary op a b)"
  by (cases "(op, a, b)" rule: ref_binary.cases) auto

lemma ref_case_when:
  "length vs = length cs \<Longrightarrow> cs \<noteq> [] \<Longrightarrow>
     ref_kernel ''case_when'' NoOpts (StructD cs # vs) = case_pick (zip cs vs) None (null_like (hd vs))"
  by (cases vs) (auto simp: ref_kernel_def)

lemma zip_extra: "length cs = length vs \<Longrightarrow> zip cs (vs @ ys) = zip cs vs"
  using zip_append[of cs vs "[]" ys] by simp

lemma ref_case_when_else:
  "length vs = length cs \<Longrightarrow> cs \<noteq> [] \<Longrightarrow>
     ref_kernel ''case_when'' NoOpts (StructD cs # vs @ [e])
     = case_pick (zip cs vs) (Some e) (null_like (hd vs))"
  using zip_extra[of cs vs "[e]"] by (cases vs) (auto simp: ref_kernel_def)

lemma is_bool3_Scalar: "is_bool3 d \<Longrightarrow> \<exists>v. d = Scalar ABool v"
  by (auto simp: is_bool3_def)

interpretation ref: arrow_logic ref_kernel
proof
  show "ref_kernel ''and_kleene'' NoOpts [a, b] = and3 a b" if "is_bool3 a" "is_bool3 b" for a b
    using that[THEN is_bool3_Scalar] by (auto simp: ref_kernel_named)
  show "ref_kernel ''or_kleene'' NoOpts [a, b] = or3 a b" if "is_bool3 a" "is_bool3 b" for a b
    using that[THEN is_bool3_Scalar] by (auto simp: ref_kernel_named)
  show "is_bool3 (ref_kernel (binary_function_name op) NoOpts [a, b])" if "is_comparison op" for op a b
    unfolding ref_kernel_binary using that by (rule ref_binary_bool)
  show "is_bool3 (ref_kernel ''cast'' (CastTo ABool) [a])" for a
  proof (cases a)
    case (Scalar s v)
    then show ?thesis by (cases v) (simp_all add: ref_kernel_def)
  qed (simp add: ref_kernel_def)
  show "is_bool3 (ref_kernel ''match_like'' (MatchSubstring p) [a])" for p a
    by (cases a) (auto simp: ref_kernel_def split: literal.split)
  show "ref_kernel ''case_when'' NoOpts (StructD cs # vs)
      = case_pick (zip cs vs) None (null_like (hd vs))" if "cs \<noteq> []" "length vs = length cs" for cs vs
    using that by (simp add: ref_case_when)
  show "ref_kernel ''case_when'' NoOpts (StructD cs # vs @ [e])
      = case_pick (zip cs vs) (Some e) (null_like (hd vs))" if "cs \<noteq> []" "length vs = length cs" for cs vs e
    using that by (simp add: ref_case_when_else)
qed (simp_all add: ref_kernel_def)

interpretation ref: arrow_kernels ref_kernel
proof
  show "ref_kernel (binary_function_name op) NoOpts [Scalar t (LInt a), Scalar t (LInt b)]
      = bool_datum (int_rel op a b)" if "is_comparison op" for op t a b
    unfolding ref_kernel_binary using that by (cases op) auto
  show "ref_kernel (binary_function_name op) NoOpts [f64_datum x, f64_datum y]
      = bool_datum (f64_rel op x y)" if "is_comparison op" for op x y
    unfolding ref_kernel_binary using that by (cases op) auto
qed (simp_all add: ref_kernel_named wrap64_id)


text \<open>A CASE over a NULL comparison falls through to its ELSE branch.\<close>

definition demo_case :: expression where
  "demo_case =
     Case [(Binary Greater (Column ''a'' 0 (int64_type True)) (make_int64 5) (boolean_type True),
            make_string ''big'')]
       (Some (Substring (make_string ''small'') 2 3 (string_type True))) (string_type True)"


end
