(* ===== verification/Simplify.thy ===== *)
theory Simplify
  imports RefKernel
begin

text \<open>
  The expression rules of \<^verbatim>\<open>src/optimizer/optimizer.cpp\<close>: constant folding, Boolean
  simplification and the rewriting of BETWEEN. The C++ reuses a node's pointer when nothing under
  it changed, which no caller observes; the model rebuilds the node. The lemmas show that
  simplification terminates, keeps every expression's type and value on every row, removes every
  BETWEEN that the CPU backend could meet, and never makes a compilable expression uncompilable.
\<close>

section \<open>Folding\<close>

fun literal_as_double :: "literal \<Rightarrow> f64 option" where
  "literal_as_double (LInt i) = Some (f64_of_int i)"
| "literal_as_double (LDouble d) = Some d"
| "literal_as_double _ = None"

fun fold_arithmetic :: "BinaryOperator \<Rightarrow> f64 \<Rightarrow> f64 \<Rightarrow> f64 option" where
  "fold_arithmetic Add l r = Some (f64_add l r)"
| "fold_arithmetic Subtract l r = Some (f64_sub l r)"
| "fold_arithmetic Multiply l r = Some (f64_mul l r)"
| "fold_arithmetic Divide l r = (if \<not> f64_eq r (f64_of_int 0) then Some (f64_div l r) else None)"
| "fold_arithmetic _ l r = None"

fun fold_numeric_comparison :: "BinaryOperator \<Rightarrow> f64 \<Rightarrow> f64 \<Rightarrow> bool option" where
  "fold_numeric_comparison Equal l r = Some (f64_eq l r)"
| "fold_numeric_comparison NotEqual l r = Some (\<not> f64_eq l r)"
| "fold_numeric_comparison Less l r = Some (f64_lt l r)"
| "fold_numeric_comparison LessEqual l r = Some (f64_le l r)"
| "fold_numeric_comparison Greater l r = Some (f64_lt r l)"
| "fold_numeric_comparison GreaterEqual l r = Some (f64_le r l)"
| "fold_numeric_comparison _ l r = None"

text \<open>\<open>__builtin_add_overflow\<close> and its kin report whether the exact result leaves \<open>int64_t\<close>.\<close>

definition checked64 :: "int \<Rightarrow> int option" where
  "checked64 i = (if in_int64 i then Some i else None)"

fun fold_arithmetic_int64 :: "BinaryOperator \<Rightarrow> int \<Rightarrow> int \<Rightarrow> int option" where
  "fold_arithmetic_int64 Add l r = checked64 (l + r)"
| "fold_arithmetic_int64 Subtract l r = checked64 (l - r)"
| "fold_arithmetic_int64 Multiply l r = checked64 (l * r)"
| "fold_arithmetic_int64 Divide l r =
     (if r = 0 \<or> (l = int64_min \<and> r = - 1) then None else Some (tdiv l r))"
| "fold_arithmetic_int64 _ l r = None"

fun fold_integer_comparison :: "BinaryOperator \<Rightarrow> int \<Rightarrow> int \<Rightarrow> bool option" where
  "fold_integer_comparison Equal l r = Some (l = r)"
| "fold_integer_comparison NotEqual l r = Some (l \<noteq> r)"
| "fold_integer_comparison Less l r = Some (l < r)"
| "fold_integer_comparison LessEqual l r = Some (l \<le> r)"
| "fold_integer_comparison Greater l r = Some (l > r)"
| "fold_integer_comparison GreaterEqual l r = Some (l \<ge> r)"
| "fold_integer_comparison _ l r = None"

section \<open>\<open>simplify_expression\<close>\<close>

definition as_float :: "DataType \<Rightarrow> bool" where
  "as_float t \<longleftrightarrow> type_id t = Float64 \<or> type_id t = Float32"

text \<open>The Boolean a literal node holds, if it is one that is neither NULL nor of another kind.\<close>

fun bool_literal :: "expression \<Rightarrow> bool option" where
  "bool_literal (Literal (LBool b) t) = Some b"
| "bool_literal _ = None"

definition simplify_not :: "expression \<Rightarrow> DataType \<Rightarrow> expression" where
  "simplify_not operand t =
     (case operand of
        Literal (LBool b) _ \<Rightarrow> make_bool (\<not> b)
      | Unary UNot inner _ \<Rightarrow> inner
      | _ \<Rightarrow> Unary UNot operand t)"

definition simplify_logical ::
  "BinaryOperator \<Rightarrow> expression \<Rightarrow> expression \<Rightarrow> DataType \<Rightarrow> expression" where
  "simplify_logical op left right t =
     (case bool_literal left of
        Some lv \<Rightarrow> if op = And then (if lv then right else make_bool False)
                  else (if lv then make_bool True else right)
      | None \<Rightarrow>
        (case bool_literal right of
           Some rv \<Rightarrow> if op = And then (if rv then left else make_bool False)
                     else (if rv then make_bool True else left)
         | None \<Rightarrow> Binary op left right t))"

text \<open>Both operands are literals: exact integers when both are, doubles otherwise.\<close>

definition fold_literals :: "BinaryOperator \<Rightarrow> literal \<Rightarrow> literal \<Rightarrow> DataType \<Rightarrow> expression option" where
  "fold_literals op l r t =
     (case (l, r) of
        (LInt lv, LInt rv) \<Rightarrow>
          if is_arithmetic op
          then map_option (\<lambda>x. if as_float t then make_float64 (f64_of_int x) else make_int64 x)
                 (fold_arithmetic_int64 op lv rv)
          else if is_comparison op then map_option make_bool (fold_integer_comparison op lv rv)
          else None
      | _ \<Rightarrow>
          (case (literal_as_double l, literal_as_double r) of
             (Some lv, Some rv) \<Rightarrow>
               if is_arithmetic op
               then map_option (\<lambda>x. if as_float t then make_float64 x else make_int64 (f64_to_int x))
                      (fold_arithmetic op lv rv)
               else if is_comparison op then map_option make_bool (fold_numeric_comparison op lv rv)
               else None
           | _ \<Rightarrow> None))"

definition simplify_binary ::
  "BinaryOperator \<Rightarrow> expression \<Rightarrow> expression \<Rightarrow> DataType \<Rightarrow> expression" where
  "simplify_binary op left right t =
     (if is_logical op then simplify_logical op left right t
      else case (left, right) of
        (Literal l _, Literal r _) \<Rightarrow> value_or (fold_literals op l r t) (Binary op left right t)
      | _ \<Rightarrow> Binary op left right t)"

text \<open>BETWEEN as two comparisons.\<close>

definition between_conj :: "expression \<Rightarrow> expression \<Rightarrow> expression \<Rightarrow> expression" where
  "between_conj value lower upper =
     (let n = (nullable (result_type value) \<or> nullable (result_type lower) \<or> nullable (result_type upper));
          ge = Binary GreaterEqual value lower (boolean_type n);
          le = Binary LessEqual value upper (boolean_type n)
      in Binary And ge le (boolean_type n))"

function simplify_expression :: "expression \<Rightarrow> expression" where
  "simplify_expression (Between v l u) =
     simplify_expression
       (between_conj (simplify_expression v) (simplify_expression l) (simplify_expression u))"
| "simplify_expression (Unary op e t) =
     (let e' = simplify_expression e
      in if op = UNot then simplify_not e' t else Unary op e' t)"
| "simplify_expression (Binary op l r t) =
     simplify_binary op (simplify_expression l) (simplify_expression r) t"
| "simplify_expression (Cast e t) = Cast (simplify_expression e) t"
| "simplify_expression (Aggregate f arg t) = Aggregate f (map_option simplify_expression arg) t"
| "simplify_expression (Like v p neg) = Like (simplify_expression v) p neg"
| "simplify_expression (Case wts els t) =
     Case (map (\<lambda>(c, r). (simplify_expression c, simplify_expression r)) wts)
       (map_option simplify_expression els) t"
| "simplify_expression (Extract p e t) = Extract p (simplify_expression e) t"
| "simplify_expression (Substring e s n t) = Substring (simplify_expression e) s n t"
| "simplify_expression (Column n i t) = Column n i t"
| "simplify_expression (Literal v t) = Literal v t"
  by pat_completeness auto

text \<open>
  Termination: the rewritten BETWEEN is simplified again, with its operands already simplified.
  Simplified expressions contain no BETWEEN, so the number of BETWEENs falls.
\<close>

fun betweens :: "expression \<Rightarrow> nat" where
  "betweens (Between v l u) = Suc (betweens v + betweens l + betweens u)"
| "betweens (Column n i t) = 0"
| "betweens (Literal v t) = 0"
| "betweens (Binary op l r t) = betweens l + betweens r"
| "betweens (Unary op e t) = betweens e"
| "betweens (Cast e t) = betweens e"
| "betweens (Extract p e t) = betweens e"
| "betweens (Substring e s n t) = betweens e"
| "betweens (Like v p neg) = betweens v"
| "betweens (Case wts els t) =
     sum_list (map (\<lambda>(c, r). betweens c + betweens r) wts)
     + (case els of None \<Rightarrow> 0 | Some e \<Rightarrow> betweens e)"
| "betweens (Aggregate f arg t) = (case arg of None \<Rightarrow> 0 | Some e \<Rightarrow> betweens e)"

lemma betweens_make [simp]:
  "betweens (make_bool b) = 0" "betweens (make_int64 i) = 0" "betweens (make_float64 d) = 0"
  by (simp_all add: make_literals)

lemma betweens_simplify_not: "betweens (simplify_not e t) \<le> betweens e"
  by (auto simp: simplify_not_def split: expression.split literal.split UnaryOperator.split)

lemma betweens_simplify_logical:
  "betweens (simplify_logical op l r t) \<le> betweens l + betweens r"
  by (auto simp: simplify_logical_def split: option.split)

lemma betweens_fold_literals: "fold_literals op l r t = Some e \<Longrightarrow> betweens e = 0"
  by (auto simp: fold_literals_def split: literal.splits option.splits if_splits)

lemma betweens_simplify_binary:
  "betweens (simplify_binary op l r t) \<le> betweens l + betweens r"
  using betweens_simplify_logical[of op l r t]
  by (auto simp: simplify_binary_def value_or_def dest: betweens_fold_literals
      split: expression.split option.split)

lemma between_conj_simps [simp]:
  "betweens (between_conj v l u) = betweens v + betweens l + (betweens v + betweens u)"
  "tid (between_conj v l u) = Boolean"
  "wt (between_conj v l u) \<longleftrightarrow> wt (Between v l u)"
  "\<not> dec_lit (between_conj v l u)"
  "eval K row (between_conj v l u) = eval K row (Between v l u)"
  "set (col_refs (between_conj v l u)) = set (col_refs (Between v l u))"
  "agg_free (between_conj v l u) \<longleftrightarrow> agg_free (Between v l u)"
  by (auto simp: between_conj_def Let_def)

lemma simplify_no_between_dom:
  "simplify_expression_dom e \<Longrightarrow> betweens (simplify_expression e) = 0"
proof (induction e rule: simplify_expression.pinduct)
  case (1 v l u)
  then show ?case by (simp add: simplify_expression.psimps Let_def)
next
  case (2 op e t)
  then show ?case
    using betweens_simplify_not[of "simplify_expression e" t]
    by (simp add: simplify_expression.psimps Let_def)
next
  case (3 op l r t)
  then show ?case
    using betweens_simplify_binary[of op "simplify_expression l" "simplify_expression r" t]
    by (simp add: simplify_expression.psimps)
next
  case (5 f arg t)
  then show ?case by (cases arg) (simp_all add: simplify_expression.psimps)
next
  case (7 wts els t)
  then show ?case by (cases els) (auto simp: simplify_expression.psimps)
qed (simp_all add: simplify_expression.psimps)

lemma branch_smaller:
  assumes "(c, r) \<in> set wts"
  shows "betweens c \<le> sum_list (map (\<lambda>(c, r). betweens c + betweens r) wts) \<and>
    betweens r \<le> sum_list (map (\<lambda>(c, r). betweens c + betweens r) wts) \<and>
    size c < Suc (size_list (size_prod size size) wts) \<and>
    size r < Suc (size_list (size_prod size size) wts)"
  using assms by (induction wts) auto

termination simplify_expression
proof (relation "measures [betweens, size]", goal_cases)
  case (5 v l u)
  then show ?case by (simp add: simplify_no_between_dom)
qed (auto dest!: branch_smaller simp del: sum_list_eq_0_iff split: option.splits)

lemma simplify_no_between: "betweens (simplify_expression e) = 0"
proof (induction e rule: simplify_expression.induct)
  case (2 op e t)
  then show ?case using betweens_simplify_not[of "simplify_expression e" t] by (simp add: Let_def)
next
  case (3 op l r t)
  then show ?case
    using betweens_simplify_binary[of op "simplify_expression l" "simplify_expression r" t] by simp
next
  case (5 f arg t)
  then show ?case by (cases arg) simp_all
next
  case (7 wts els t)
  then show ?case by (cases els) auto
qed (simp_all add: Let_def)

section \<open>Exactness of folding\<close>

lemma tdiv_in_int64:
  assumes "in_int64 l" "in_int64 r" "r \<noteq> 0" "\<not> (l = int64_min \<and> r = - 1)"
  shows "in_int64 (tdiv l r)"
proof -
  have a: "\<bar>tdiv l r\<bar> = \<bar>l\<bar> div \<bar>r\<bar>"
    using assms(3) by (cases "l = 0") (auto simp: tdiv_def abs_mult abs_sgn_eq_1 pos_imp_zdiv_nonneg_iff)
  show ?thesis
  proof (cases "\<bar>r\<bar> = 1")
    case True
    then have "tdiv l r = l \<or> (r = - 1 \<and> tdiv l r = - l)"
      using assms(3) by (auto simp: tdiv_def abs_if sgn_if split: if_splits)
    with assms show ?thesis by (auto simp: in_int64_def int64_min_def int64_max_def)
  next
    case False
    with assms(3) have "2 \<le> \<bar>r\<bar>" by linarith
    then have "\<bar>l\<bar> div \<bar>r\<bar> \<le> \<bar>l\<bar> div 2" by (intro zdiv_mono2) auto
    with a assms(1) show ?thesis by (auto simp: in_int64_def int64_min_def int64_max_def)
  qed
qed

lemma f64_zero_eq: "f64_is_zero r \<Longrightarrow> f64_eq r (f64_of_int 0)"
proof -
  assume z: "f64_is_zero r"
  have "f64_mag (f64_of_int 0) = 0" by (simp add: f64_of_int_def)
  with z show ?thesis by (simp add: f64_is_zero_def f64_eq_def f64_is_nan_def f64_key_def inf_mag_def)
qed

lemma fold_arithmetic_int64_range:
  "fold_arithmetic_int64 op a b = Some c \<Longrightarrow> in_int64 a \<Longrightarrow> in_int64 b \<Longrightarrow> in_int64 c"
  by (cases op) (auto simp: checked64_def tdiv_in_int64 split: if_splits)

context arrow_kernels
begin

lemma fold_int_arith:
  assumes "fold_arithmetic_int64 op a b = Some c" "in_int64 a" "in_int64 b"
  shows "K (binary_function_name op) NoOpts [int64_datum a, int64_datum b] = int64_datum c"
  using assms
  by (cases op) (auto simp: checked64_def int64_add int64_sub int64_mul int64_div tdiv_in_int64
      split: if_splits)

lemma fold_double_arith:
  assumes "fold_arithmetic op x y = Some z"
  shows "K (binary_function_name op) NoOpts [f64_datum x, f64_datum y] = f64_datum z"
proof (cases "op = Divide")
  case True
  with assms have "\<not> f64_is_zero y" using f64_zero_eq by (auto split: if_splits)
  with True assms show ?thesis by (auto simp: double_div split: if_splits)
next
  case False
  with assms show ?thesis by (cases op) (auto simp: double_add double_sub double_mul)
qed

lemma fold_int_compare:
  assumes "fold_integer_comparison op a b = Some v" "t \<in> {AInt64, ADate32, ATimestamp ''us''}"
  shows "K (binary_function_name op) NoOpts [Scalar t (LInt a), Scalar t (LInt b)] = bool_datum v"
proof -
  have "is_comparison op" "v = int_rel op a b" using assms(1) by (cases op; auto)+
  with assms(2) show ?thesis using int_compare by simp
qed

lemma fold_double_compare:
  assumes "fold_numeric_comparison op x y = Some v"
  shows "K (binary_function_name op) NoOpts [f64_datum x, f64_datum y] = bool_datum v"
proof -
  have "is_comparison op" "v = f64_rel op x y" using assms by (cases op; auto)+
  then show ?thesis using double_compare by simp
qed

end

section \<open>One node\<close>

lemma eval_make [simp]:
  "eval K row (make_bool b) = bool_datum b"
  "eval K row (make_int64 i) = int64_datum i"
  "eval K row (make_float64 d) = f64_datum d"
  by (simp_all add: make_literals literal_to_arrow_datum_def)

lemma tid_make [simp]:
  "tid (make_bool b) = Boolean" "tid (make_int64 i) = Int64" "tid (make_float64 d) = Float64"
  by (simp_all add: make_literals)

lemma wt_make [simp]:
  "wt (make_bool b)" "wt (make_int64 i) \<longleftrightarrow> in_int64 i" "wt (make_float64 d)"
  by (simp_all add: make_literals)

lemma eval_bool_literal: "bool_literal e = Some b \<Longrightarrow> wt e \<Longrightarrow> eval K row e = bool_datum b"
  by (cases e rule: bool_literal.cases) (auto simp: literal_to_arrow_datum_def)

lemma eval_simplify_not:
  "wt e \<Longrightarrow> eval K row (simplify_not e t) = not3 (eval K row e)"
  by (auto simp: simplify_not_def literal_to_arrow_datum_def
      split: expression.split literal.split UnaryOperator.split)

lemma wt_simplify_not:
  assumes "wt e" "tid e = Boolean" "type_id t = Boolean"
  shows "wt (simplify_not e t)" "tid (simplify_not e t) = Boolean"
  using assms
  by (auto simp: simplify_not_def split: expression.split literal.split UnaryOperator.split)

lemma eval_simplify_logical:
  assumes "wt l" "wt r" "is_logical op"
  shows "eval K row (simplify_logical op l r t) = eval K row (Binary op l r t)"
  using assms eval_bool_literal[of l _ K row] eval_bool_literal[of r _ K row]
  by (auto simp: simplify_logical_def is_logical_def split: option.split)

lemma wt_simplify_logical:
  assumes "wt (Binary op l r t)" "is_logical op"
  shows "wt (simplify_logical op l r t)" "tid (simplify_logical op l r t) = type_id t"
  using assms by (auto simp: simplify_logical_def is_logical_def split: option.split)

text \<open>Folded operands share a type that fixes how their values are stored.\<close>

lemma wt_fold_types:
  assumes "wt (Binary op (Literal l lt) (Literal r rt) t)" "fold_literals op l r t = Some e"
  obtains (ints) a b where "l = LInt a" "r = LInt b" "in_int64 a" "in_int64 b"
      "type_id lt = type_id rt" "type_id lt \<in> {Int64, Timestamp, Date32}"
      "type_id lt = Date32 \<longrightarrow> in_int32 a \<and> in_int32 b"
      "is_arithmetic op \<longrightarrow> type_id lt = Int64 \<and> type_id t = Int64"
  | (doubles) x y where "l = LDouble x" "r = LDouble y" "type_id lt = Float64" "type_id rt = Float64"
      "is_arithmetic op \<longrightarrow> type_id t = Float64"
  using assms
  by (cases l; cases r)
     (auto simp: fold_literals_def numeric_id_def split: if_splits)

lemma wt_fold_literals:
  assumes "wt (Binary op (Literal l lt) (Literal r rt) t)" "fold_literals op l r t = Some e"
  shows "wt e \<and> tid e = type_id t"
  using assms(1,2)
proof (cases rule: wt_fold_types)
  case (ints a b)
  with assms show ?thesis
    by (auto simp: fold_literals_def as_float_def dest: fold_arithmetic_int64_range split: if_splits)
next
  case (doubles x y)
  with assms show ?thesis by (auto simp: fold_literals_def as_float_def split: if_splits)
qed

lemma simplify_binary_cases:
  assumes "\<not> is_logical op"
  shows "simplify_binary op l r t = Binary op l r t \<or>
    (\<exists>x lt y rt. l = Literal x lt \<and> r = Literal y rt \<and>
       fold_literals op x y t = Some (simplify_binary op l r t))"
proof (cases "\<exists>x lt y rt. l = Literal x lt \<and> r = Literal y rt")
  case True
  then obtain x lt y rt where "l = Literal x lt" "r = Literal y rt" by blast
  with assms show ?thesis
    by (cases "fold_literals op x y t") (simp_all add: simplify_binary_def)
next
  case False
  then have "simplify_binary op l r t = Binary op l r t"
    using assms by (cases l; cases r) (simp_all add: simplify_binary_def)
  then show ?thesis by simp
qed

lemma is_logical_wt: "wt (Binary op l r t) \<Longrightarrow> is_logical op \<Longrightarrow> tid l = Boolean \<and> tid r = Boolean"
  by (auto simp: is_logical_def)

context arrow_kernels
begin

lemma eval_fold_literals:
  assumes w: "wt (Binary op (Literal l lt) (Literal r rt) t)" and f: "fold_literals op l r t = Some e"
    and "\<not> is_logical op"
  shows "eval K row e = eval K row (Binary op (Literal l lt) (Literal r rt) t)"
proof -
  have k: "eval K row (Binary op x y t) = K (binary_function_name op) NoOpts [eval K row x, eval K row y]"
    for x y using assms(3) by (cases op) (auto simp: is_logical_def)
  show ?thesis
    using w f
  proof (cases rule: wt_fold_types)
    case (ints a b)
    let ?t = "to_arrow_type lt"
    have d: "eval K row (Literal (LInt i) x) = Scalar (to_arrow_type x) (LInt i)"
      if "type_id x \<in> {Int64, Timestamp, Date32}" "type_id x = Date32 \<longrightarrow> in_int32 i" for i x
      using that by (auto simp: literal_to_arrow_datum_def wrap32_id)
    have tt: "to_arrow_type rt = ?t" "?t \<in> {AInt64, ADate32, ATimestamp ''us''}"
      using ints by auto
    have "eval K row (Binary op (Literal l lt) (Literal r rt) t)
        = K (binary_function_name op) NoOpts [Scalar ?t (LInt a), Scalar ?t (LInt b)]"
      unfolding k ints(1,2) using d[of lt a] d[of rt b] ints tt by simp
    moreover have "\<dots> = eval K row e"
      using f ints tt(2) fold_int_arith[of op a b] fold_int_compare[of op a b _ ?t]
      by (auto simp: fold_literals_def as_float_def split: if_splits)
    ultimately show ?thesis by simp
  next
    case (doubles x y)
    then have "eval K row (Binary op (Literal l lt) (Literal r rt) t)
        = K (binary_function_name op) NoOpts [f64_datum x, f64_datum y]"
      unfolding k by (simp add: literal_to_arrow_datum_def)
    moreover have "\<dots> = eval K row e"
      using f doubles fold_double_arith[of op x y] fold_double_compare[of op x y]
      by (auto simp: fold_literals_def as_float_def split: if_splits)
    ultimately show ?thesis by simp
  qed
qed

lemma eval_simplify_binary:
  assumes "wt (Binary op l r t)"
  shows "eval K row (simplify_binary op l r t) = eval K row (Binary op l r t)"
proof (cases "is_logical op")
  case True
  then show ?thesis
    using assms eval_simplify_logical[of l r op] by (simp add: simplify_binary_def)
next
  case False
  from simplify_binary_cases[OF this, of l r t] show ?thesis
  proof
    assume "\<exists>x lt y rt. l = Literal x lt \<and> r = Literal y rt \<and>
      fold_literals op x y t = Some (simplify_binary op l r t)"
    with assms False show ?thesis using eval_fold_literals by blast
  qed simp
qed

end

lemma wt_simplify_binary:
  assumes "wt (Binary op l r t)"
  shows "wt (simplify_binary op l r t) \<and> tid (simplify_binary op l r t) = type_id t"
proof (cases "is_logical op")
  case True
  then show ?thesis using assms wt_simplify_logical[of op l r t] by (simp add: simplify_binary_def)
next
  case False
  from simplify_binary_cases[OF this, of l r t] show ?thesis
  proof
    assume "\<exists>x lt y rt. l = Literal x lt \<and> r = Literal y rt \<and>
      fold_literals op x y t = Some (simplify_binary op l r t)"
    with assms show ?thesis using wt_fold_literals by blast
  qed (use assms in simp)
qed

section \<open>The whole expression\<close>

lemma wt_Binary_cong:
  "wt (Binary op l r t) \<Longrightarrow> wt l' \<Longrightarrow> wt r' \<Longrightarrow> tid l' = tid l \<Longrightarrow> tid r' = tid r \<Longrightarrow>
     (dec_lit l' \<Longrightarrow> dec_lit l) \<Longrightarrow> (dec_lit r' \<Longrightarrow> dec_lit r) \<Longrightarrow> wt (Binary op l' r' t)"
  by (simp only: wt.simps) blast

text \<open>Simplification makes no DECIMAL literal: folding gives Booleans, integers and doubles.\<close>

lemma dec_lit_fold: "fold_literals op l r t = Some e \<Longrightarrow> \<not> dec_lit e"
  by (auto simp: fold_literals_def make_literals split: literal.splits option.splits if_splits)

lemma dec_lit_simplify_binary:
  assumes "wt (Binary op l r t)" "dec_lit (simplify_binary op l r t)"
  shows False
proof -
  have d: "tid e = Decimal" if "dec_lit e" for e using that by (cases e rule: dec_lit.cases) auto
  show False
  proof (cases "is_logical op")
    case True
    then show False using assms wt_simplify_logical(2)[OF assms(1) True] d
      by (auto simp: simplify_binary_def is_logical_def)
  next
    case False
    from simplify_binary_cases[OF this, of l r t] show False
    proof
      assume "\<exists>x lt y rt. l = Literal x lt \<and> r = Literal y rt \<and>
        fold_literals op x y t = Some (simplify_binary op l r t)"
      then show False using assms(2) dec_lit_fold by blast
    qed (use assms(2) in simp)
  qed
qed

lemma simplify_wt_dec:
  "wt e \<Longrightarrow> wt (simplify_expression e) \<and> tid (simplify_expression e) = tid e \<and>
     (dec_lit (simplify_expression e) \<longrightarrow> dec_lit e)"
proof (induction e rule: simplify_expression.induct)
  case (2 op e t)
  then have "dec_lit (simplify_not (simplify_expression e) t) \<Longrightarrow> op = UNot \<Longrightarrow> False"
    using wt_simplify_not(2)[of "simplify_expression e" t]
    by (cases "simplify_not (simplify_expression e) t" rule: dec_lit.cases) auto
  with 2 show ?case
    using wt_simplify_not[of "simplify_expression e" t] by (cases op) (auto simp: Let_def)
next
  case (3 op l r t)
  have "wt l" "wt r" using 3(3) by simp_all
  with 3(1,2) have "wt (Binary op (simplify_expression l) (simplify_expression r) t)"
    by (intro wt_Binary_cong[OF 3(3)]) blast+
  from wt_simplify_binary[OF this] dec_lit_simplify_binary[OF this] show ?case by auto
next
  case (5 f arg t)
  then show ?case by (cases arg) auto
next
  case (7 wts els t)
  then show ?case by (cases els) (auto simp: list_all_iff)
qed (auto simp: Let_def)

lemma simplify_wt: "wt e \<Longrightarrow> wt (simplify_expression e) \<and> tid (simplify_expression e) = tid e"
  using simplify_wt_dec by blast

lemma wt_simplify_operands:
  assumes "wt (Binary op l r t)"
  shows "wt (Binary op (simplify_expression l) (simplify_expression r) t)"
proof -
  have "wt l" "wt r" using assms by simp_all
  then show ?thesis by (intro wt_Binary_cong[OF assms]) (use simplify_wt_dec in blast)+
qed

context arrow_kernels
begin

lemma eval_simplify: "wt e \<Longrightarrow> eval K row (simplify_expression e) = eval K row e"
proof (induction e rule: simplify_expression.induct)
  case (1 v l u)
  then show ?case using simplify_wt_dec[of v] simplify_wt_dec[of l] simplify_wt_dec[of u]
    by auto
next
  case (2 op e t)
  then show ?case
    using eval_simplify_not[of "simplify_expression e" K row t] simplify_wt[of e]
    by (cases op) (auto simp: Let_def)
next
  case (3 op l r t)
  have w: "wt l" "wt r" using 3(3) by simp_all
  have "wt (Binary op (simplify_expression l) (simplify_expression r) t)"
    by (rule wt_simplify_operands[OF 3(3)])
  then show ?case using 3(1)[OF w(1)] 3(2)[OF w(2)]
    by (simp only: simplify_expression.simps eval_simplify_binary eval.simps)
next
  case (7 wts els t)
  show ?case unfolding simplify_expression.simps
  proof (rule eval_Case_map)
    fix c r assume "(c, r) \<in> set wts"
    with 7 show "eval K row (simplify_expression c) = eval K row c \<and>
        eval K row (simplify_expression r) = eval K row r"
      by (fastforce simp: list_all_iff)
  qed (use 7 in auto)
qed auto

end

section \<open>Columns and compilability\<close>

lemma cols_simplify_not: "set (col_refs (simplify_not e t)) \<subseteq> set (col_refs e)"
  by (auto simp: simplify_not_def make_literals split: expression.split literal.split UnaryOperator.split)

lemma cols_fold_literals: "fold_literals op l r t = Some e \<Longrightarrow> col_refs e = []"
  by (auto simp: fold_literals_def make_literals split: literal.splits option.splits if_splits)

lemma cols_simplify_binary:
  "set (col_refs (simplify_binary op l r t)) \<subseteq> set (col_refs l) \<union> set (col_refs r)"
proof (cases "is_logical op")
  case True
  then show ?thesis
    by (auto simp: simplify_binary_def simplify_logical_def make_literals split: option.split)
next
  case False
  from simplify_binary_cases[OF this, of l r t] show ?thesis
  proof
    assume "\<exists>x lt y rt. l = Literal x lt \<and> r = Literal y rt \<and>
      fold_literals op x y t = Some (simplify_binary op l r t)"
    then have "col_refs (simplify_binary op l r t) = []" using cols_fold_literals by blast
    then show ?thesis by simp
  qed simp
qed

lemma agg_free_fold: "fold_literals op l r t = Some e \<Longrightarrow> agg_free e"
  by (auto simp: fold_literals_def make_literals split: literal.splits option.splits if_splits)

lemma agg_free_simplify_binary:
  assumes "agg_free l" "agg_free r"
  shows "agg_free (simplify_binary op l r t)"
proof (cases "is_logical op")
  case True
  with assms show ?thesis
    by (auto simp: simplify_binary_def simplify_logical_def make_literals split: option.split)
next
  case False
  from simplify_binary_cases[OF this, of l r t] show ?thesis
  proof
    assume "\<exists>x lt y rt. l = Literal x lt \<and> r = Literal y rt \<and>
      fold_literals op x y t = Some (simplify_binary op l r t)"
    then show ?thesis using agg_free_fold by blast
  qed (simp add: assms)
qed

lemma cols_simplify: "set (col_refs (simplify_expression e)) \<subseteq> set (col_refs e)"
proof (induction e rule: simplify_expression.induct)
  case (1 v l u)
  then show ?case by auto
next
  case (2 op e t)
  then show ?case using cols_simplify_not[of "simplify_expression e" t] by (auto simp: Let_def)
next
  case (3 op l r t)
  then show ?case
    using cols_simplify_binary[of op "simplify_expression l" "simplify_expression r" t] by auto
next
  case (5 f arg t)
  then show ?case by (cases arg) auto
next
  case (7 wts els t)
  then show ?case by (cases els) fastforce+
qed auto

lemma agg_free_simplify: "agg_free e \<Longrightarrow> agg_free (simplify_expression e)"
proof (induction e rule: simplify_expression.induct)
  case (1 v l u)
  then show ?case by (simp add: Let_def)
next
  case (2 op e t)
  then show ?case
    by (auto simp: Let_def simplify_not_def make_literals
        split: expression.split literal.split UnaryOperator.split)
next
  case (3 op l r t)
  then show ?case by (simp add: agg_free_simplify_binary)
next
  case (7 wts els t)
  then show ?case by (cases els) (fastforce simp: list_all_iff)+
qed auto

lemma row_fits_simplify: "row_fits row e \<Longrightarrow> row_fits row (simplify_expression e)"
  using cols_simplify[of e] unfolding row_fits_def list_all_iff by blast

definition compiles :: "expression \<Rightarrow> bool" where
  "compiles e \<longleftrightarrow> (\<exists>c. compile_expression_cpu e = Inr c)"

lemma mapR_ok: "(\<exists>ys. mapR f xs = Inr ys) \<longleftrightarrow> (\<forall>x \<in> set xs. \<exists>y. f x = Inr y)"
  by (induction xs) (auto simp: bindR_eq_Inr)

lemma compiles_simps [simp]:
  "compiles (Column n i t)"
  "compiles (Binary op l r t) \<longleftrightarrow> compiles l \<and> compiles r"
  "compiles (Unary uop e t) \<longleftrightarrow> compiles e"
  "compiles (Cast e t) \<longleftrightarrow> compiles e \<and> type_id t \<noteq> Decimal \<and> type_id t \<noteq> String"
  "compiles (Extract p e t) \<longleftrightarrow> compiles e"
  "compiles (Substring e s k t) \<longleftrightarrow> compiles e"
  "compiles (Between v l u) \<longleftrightarrow> compiles v \<and> compiles l \<and> compiles u"
  "compiles (Like v q neg) \<longleftrightarrow> compiles v"
  "\<not> compiles (Aggregate f arg t)"
  by (auto simp: compiles_def bindR_eq_Inr Let_def)

lemma compiles_between_conj [simp]: "compiles (between_conj v l u) \<longleftrightarrow> compiles (Between v l u)"
  by (auto simp: between_conj_def Let_def)

lemma compiles_Literal [simp]: "compiles (Literal v t) \<longleftrightarrow> v = LNull \<or> type_id t \<noteq> Decimal"
  by (cases "type_id t") (auto simp: compiles_def literal_to_arrow_datum_def)

lemma compiles_Case [simp]:
  "compiles (Case wts els t) \<longleftrightarrow>
     (\<forall>(c, r) \<in> set wts. compiles c \<and> compiles r) \<and> (\<forall>e. els = Some e \<longrightarrow> compiles e)"
proof -
  have "compiles (Case wts els t) \<longleftrightarrow>
      (\<exists>cs. mapR (\<lambda>(c, r). compile_expression_cpu c) wts = Inr cs) \<and>
      (\<exists>vs. mapR (\<lambda>(c, r). compile_expression_cpu r) wts = Inr vs) \<and> (\<forall>e. els = Some e \<longrightarrow> compiles e)"
    by (cases els) (auto simp: compiles_def bindR_eq_Inr)
  then show ?thesis by (auto simp: mapR_ok compiles_def split: prod.splits)
qed

lemma compiles_make [simp]:
  "compiles (make_bool b)" "compiles (make_int64 i)" "compiles (make_float64 d)"
  by (simp_all add: make_literals)

lemma compiles_fold_literals: "fold_literals op l r t = Some e \<Longrightarrow> compiles e"
  by (auto simp: fold_literals_def split: literal.splits option.splits if_splits)

lemma compiles_simplify_binary:
  assumes "compiles l" "compiles r"
  shows "compiles (simplify_binary op l r t)"
proof (cases "is_logical op")
  case True
  with assms show ?thesis by (auto simp: simplify_binary_def simplify_logical_def split: option.split)
next
  case False
  from simplify_binary_cases[OF this, of l r t] show ?thesis
  proof
    assume "\<exists>x lt y rt. l = Literal x lt \<and> r = Literal y rt \<and>
      fold_literals op x y t = Some (simplify_binary op l r t)"
    then show ?thesis using compiles_fold_literals by blast
  qed (simp add: assms)
qed

lemma compiles_simplify: "compiles e \<Longrightarrow> compiles (simplify_expression e)"
proof (induction e rule: simplify_expression.induct)
  case (2 op e t)
  then show ?case
    by (auto simp: Let_def simplify_not_def split: expression.split literal.split UnaryOperator.split)
qed (auto simp: Let_def compiles_simplify_binary)

section \<open>Properties\<close>

text \<open>
  C9. Simplification is sound: on every row, and for every kernel registry that computes
  \<open>int64\<close> and \<open>double\<close> arithmetic and comparisons as Arrow documents, the simplified expression
  has the value of the original and the same type. Folding stops exactly where \<open>int64_t\<close> would
  overflow or a divisor is zero.
\<close>

theorem simplify_expression_sound:
  assumes "arrow_kernels K" "wt e"
  shows "eval K row (simplify_expression e) = eval K row e \<and>
    wt (simplify_expression e) \<and> tid (simplify_expression e) = tid e"
  using assms by (simp add: arrow_kernels.eval_simplify simplify_wt)

definition demo_between :: expression where
  "demo_between =
     Between (Column ''a'' 0 (int64_type True))
       (Binary Multiply (make_int64 3037000500) (make_int64 3037000500) (int64_type False))
       (Binary Add (make_int64 40) (make_int64 2) (int64_type False))"

theorem simplify_expression_sound_witness:
  "eval ref_kernel [int64_datum 7] (simplify_expression demo_between)
   = eval ref_kernel [int64_datum 7] demo_between"
proof -
  have "wt demo_between"
    by (simp add: demo_between_def make_literals numeric_id_def in_int64_def
        int64_min_def int64_max_def)
  with ref.arrow_kernels_axioms show ?thesis using simplify_expression_sound by blast
qed

text \<open>
  C29. Simplification ends, leaves no BETWEEN behind, reads no column the original does not, and
  keeps an expression the CPU backend can compile compilable.
\<close>

theorem simplify_expression_shape:
  "betweens (simplify_expression e) = 0 \<and>
   set (col_refs (simplify_expression e)) \<subseteq> set (col_refs e) \<and>
   (compiles e \<longrightarrow> compiles (simplify_expression e))"
  using simplify_no_between[of e] cols_simplify[of e] compiles_simplify[of e] by simp

theorem simplify_expression_shape_witness:
  "compiles demo_between \<and> compiles (simplify_expression demo_between)"
  using simplify_expression_shape[of demo_between] by (simp add: demo_between_def)

end
