(* ===== verification/LogicalPlan.thy ===== *)
theory LogicalPlan
  imports Simplify
begin

text \<open>
  The logical plan: the nodes and schemas of \<^verbatim>\<open>include/kernellake/planner/logical_plan.hpp\<close>, the
  text form of \<^verbatim>\<open>src/planner/logical_plan.cpp\<close>, and \<open>exec_plan\<close>, the relational meaning that the
  optimizer must preserve. The files, the sort, the aggregate kernels and the equality of join
  keys belong to Arrow and the storage layer and are fields of the parameter record \<open>engine\<close>.
\<close>

section \<open>Nodes\<close>

record NamedExpression =
  nexpr :: expression
  nname :: string

record PushablePredicate =
  pp_column :: string
  pp_op :: BinaryOperator
  pp_literal :: expression

record LogicalScan =
  source_paths :: "string list"
  scan_schema :: Schema
  required_columns :: "string list"
  pushable_predicates :: "PushablePredicate list"
  partition_columns :: "PartitionColumn list"

record SortKey =
  skey :: expression
  ascending :: bool

text \<open>
  One constructor per node class. \<open>estimated_rows\<close> is a member of every node, but only the
  optimizer sets it, and only on a filter.
\<close>

datatype plan =
    LScan LogicalScan
  | LJoin plan plan nat nat JoinType "expression option"
  | LFilter plan expression "int option"
  | LProjection plan "NamedExpression list"
  | LAggregate plan "NamedExpression list" "NamedExpression list"
  | LSort plan "SortKey list"
  | LLimit plan int

definition all_field_names :: "Schema \<Rightarrow> string list" where
  "all_field_names s = map fname s"

definition logical_scan :: "string list \<Rightarrow> Schema \<Rightarrow> PartitionColumn list \<Rightarrow> plan" where
  "logical_scan paths s parts =
     LScan \<lparr>source_paths = paths, scan_schema = s, required_columns = all_field_names s,
       pushable_predicates = [], partition_columns = parts\<rparr>"

definition join_schema :: "Schema \<Rightarrow> Schema \<Rightarrow> JoinType \<Rightarrow> Schema" where
  "join_schema left right jt =
     (if jt = LeftSemi \<or> jt = LeftAnti then left
      else if jt = LeftOuter
      then left @ map (\<lambda>f. f\<lparr>ftype := (ftype f)\<lparr>nullable := True\<rparr>\<rparr>) right
      else left @ right)"

definition items_schema :: "NamedExpression list \<Rightarrow> Schema" where
  "items_schema items = map (\<lambda>it. \<lparr>fname = nname it, ftype = result_type (nexpr it)\<rparr>) items"

fun output_schema :: "plan \<Rightarrow> Schema" where
  "output_schema (LScan s) = scan_schema s"
| "output_schema (LJoin l r lk rk jt res) = join_schema (output_schema l) (output_schema r) jt"
| "output_schema (LFilter c p est) = output_schema c"
| "output_schema (LProjection c items) = items_schema items"
| "output_schema (LAggregate c group_by aggregates) = items_schema group_by @ items_schema aggregates"
| "output_schema (LSort c keys) = output_schema c"
| "output_schema (LLimit c n) = output_schema c"

section \<open>EXPLAIN\<close>

text \<open>A list in brackets, its entries separated by a comma and a blank.\<close>

fun comma_list :: "string list \<Rightarrow> string" where
  "comma_list [] = []"
| "comma_list [x] = x"
| "comma_list (x # y # xs) = x @ '', '' @ comma_list (y # xs)"

definition join_names :: "string list \<Rightarrow> string" where
  "join_names names = ''['' @ comma_list names @ '']''"

definition join_named_expressions :: "NamedExpression list \<Rightarrow> string" where
  "join_named_expressions items =
     join_names (map (\<lambda>it. to_string (nexpr it) @ '' AS '' @ nname it) items)"

definition scan_attributes :: "LogicalScan \<Rightarrow> (string \<times> string) list" where
  "scan_attributes s =
     [(''source'', join_names (source_paths s)), (''columns'', join_names (map fname (scan_schema s)))]
     @ (if length (required_columns s) \<noteq> length (scan_schema s)
        then [(''required_columns'', join_names (required_columns s))] else [])
     @ (if partition_columns s \<noteq> []
        then [(''partition_columns'', join_names (map pname (partition_columns s)))] else [])
     @ (if pushable_predicates s \<noteq> []
        then [(''pushable_predicates'',
               join_names (map (\<lambda>p. pp_column p @ '' '' @ binop_str (pp_op p) @ '' ''
                                     @ to_string (pp_literal p)) (pushable_predicates s)))]
        else [])"

fun node_name :: "plan \<Rightarrow> string" where
  "node_name (LScan s) = ''LogicalScan''"
| "node_name (LJoin l r lk rk jt res) = ''LogicalJoin''"
| "node_name (LFilter c p est) = ''LogicalFilter''"
| "node_name (LProjection c items) = ''LogicalProjection''"
| "node_name (LAggregate c g a) = ''LogicalAggregate''"
| "node_name (LSort c keys) = ''LogicalSort''"
| "node_name (LLimit c n) = ''LogicalLimit''"

fun plan_children :: "plan \<Rightarrow> plan list" where
  "plan_children (LScan s) = []"
| "plan_children (LJoin l r lk rk jt res) = [l, r]"
| "plan_children (LFilter c p est) = [c]"
| "plan_children (LProjection c items) = [c]"
| "plan_children (LAggregate c g a) = [c]"
| "plan_children (LSort c keys) = [c]"
| "plan_children (LLimit c n) = [c]"

text \<open>A join reads its key names with a checked \<open>field(index)\<close>.\<close>

fun explain_attributes :: "plan \<Rightarrow> (string \<times> string) list result" where
  "explain_attributes (LScan s) = Inr (scan_attributes s)"
| "explain_attributes (LJoin l r lk rk jt res) =
     bindR (atR (output_schema l) lk) (\<lambda>lf.
     bindR (atR (output_schema r) rk) (\<lambda>rf.
     Inr [(''type'', jointype_str jt), (''left_key'', fname lf), (''right_key'', fname rf)]))"
| "explain_attributes (LFilter c p est) = Inr [(''predicate'', to_string p)]"
| "explain_attributes (LProjection c items) = Inr [(''items'', join_named_expressions items)]"
| "explain_attributes (LAggregate c g a) =
     Inr [(''group_by'', join_names (map nname g)), (''aggregates'', join_named_expressions a)]"
| "explain_attributes (LSort c keys) =
     Inr [(''keys'', join_names (map (\<lambda>k. to_string (skey k) @
            (if ascending k then '' ASC'' else '' DESC'')) keys))]"
| "explain_attributes (LLimit c n) = Inr [(''limit'', int_str n)]"

fun estimated_rows :: "plan \<Rightarrow> int option" where
  "estimated_rows (LFilter c p est) = est"
| "estimated_rows _ = None"

text \<open>The UTF-8 bytes of the tree's corner, and the newline.\<close>

definition tree_corner :: string where
  "tree_corner = [CHR 0xE2, CHR 0x94, CHR 0x94, CHR 0xE2, CHR 0x94, CHR 0x80,
     CHR 0xE2, CHR 0x94, CHR 0x80, CHR 0x20]"

abbreviation newline :: string where "newline \<equiv> [CHR 0x0A]"

lemma plan_children_size [termination_simp]: "c \<in> set (plan_children p) \<Longrightarrow> size c < size p"
  by (cases p) auto

function explain_text_recursive :: "plan \<Rightarrow> string \<Rightarrow> string result" where
  "explain_text_recursive node prefix =
     bindR (explain_attributes node) (\<lambda>attrs.
     let attr_prefix = prefix @ ''    '';
         attr_lines = concat (map (\<lambda>(k, v). attr_prefix @ k @ '': '' @ v @ newline) attrs);
         est_line = (case estimated_rows node of None \<Rightarrow> []
                     | Some n \<Rightarrow> attr_prefix @ ''estimated_rows: '' @ int_str n @ newline)
     in bindR (mapR (\<lambda>c. bindR (explain_text_recursive c attr_prefix)
                          (\<lambda>s. Inr (attr_prefix @ tree_corner @ s))) (plan_children node)) (\<lambda>kids.
        Inr (node_name node @ newline @ attr_lines @ est_line @ concat kids)))"
  by pat_completeness auto
termination
  by (relation "measure (\<lambda>(node, prefix). size node)") (auto simp: plan_children_size)

declare explain_text_recursive.simps [simp del]

definition explain_text :: "plan \<Rightarrow> string result" where
  "explain_text root = explain_text_recursive root []"

section \<open>The relational meaning\<close>

record engine =
  e_kernel :: kernel
  e_data :: "string list \<Rightarrow> row list"
  e_keyeq :: "datum \<Rightarrow> datum \<Rightarrow> bool"
  e_sort :: "bool list \<Rightarrow> (datum list \<times> row) list \<Rightarrow> row list"
  e_agg :: "AggregateFunction \<Rightarrow> ArrowType \<Rightarrow> datum list \<Rightarrow> datum"

definition holds :: "engine \<Rightarrow> row \<Rightarrow> expression \<Rightarrow> bool" where
  "holds E row p \<longleftrightarrow> is_true (eval (e_kernel E) row p)"

definition join_match ::
  "engine \<Rightarrow> nat \<Rightarrow> nat \<Rightarrow> expression option \<Rightarrow> row \<Rightarrow> row \<Rightarrow> bool" where
  "join_match E lk rk res l r \<longleftrightarrow>
     e_keyeq E (col_at l lk) (col_at r rk)
     \<and> (case res of None \<Rightarrow> True | Some p \<Rightarrow> holds E (l @ r) p)"

definition null_row :: "Schema \<Rightarrow> row" where
  "null_row s = map (\<lambda>f. Scalar (to_arrow_type (ftype f)) LNull) s"

definition join_rows ::
  "(row \<Rightarrow> row \<Rightarrow> bool) \<Rightarrow> JoinType \<Rightarrow> Schema \<Rightarrow> row list \<Rightarrow> row list \<Rightarrow> row list" where
  "join_rows match jt rs L R =
     (case jt of
        Inner \<Rightarrow> concat (map (\<lambda>l. map (\<lambda>r. l @ r) (filter (match l) R)) L)
      | LeftOuter \<Rightarrow>
          concat (map (\<lambda>l. let ms = filter (match l) R
                           in if ms = [] then [l @ null_row rs] else map (\<lambda>r. l @ r) ms) L)
      | LeftSemi \<Rightarrow> filter (\<lambda>l. \<exists>r \<in> set R. match l r) L
      | LeftAnti \<Rightarrow> filter (\<lambda>l. \<not> (\<exists>r \<in> set R. match l r)) L)"

definition eval_items :: "engine \<Rightarrow> NamedExpression list \<Rightarrow> row \<Rightarrow> datum list" where
  "eval_items E items row = map (\<lambda>it. eval (e_kernel E) row (nexpr it)) items"

text \<open>One aggregate over the rows of a group; \<open>COUNT(*)\<close> counts the rows themselves.\<close>

definition eval_agg :: "engine \<Rightarrow> row list \<Rightarrow> expression \<Rightarrow> datum" where
  "eval_agg E rows e =
     (case e of
        Aggregate f (Some a) t \<Rightarrow>
          e_agg E f (to_arrow_type t) (map (\<lambda>row. eval (e_kernel E) row a) rows)
      | Aggregate f None t \<Rightarrow> e_agg E f (to_arrow_type t) (map (\<lambda>row. bool_datum True) rows)
      | _ \<Rightarrow> na_datum)"

text \<open>Groups in order of first appearance; without GROUP BY one group, even of no rows.\<close>

definition group_rows :: "engine \<Rightarrow> NamedExpression list \<Rightarrow> row list \<Rightarrow> (datum list \<times> row list) list" where
  "group_rows E group_by rows =
     (if group_by = [] then [([], rows)]
      else map (\<lambda>k. (k, filter (\<lambda>row. eval_items E group_by row = k) rows))
             (remdups (map (eval_items E group_by) rows)))"

fun exec_plan :: "engine \<Rightarrow> plan \<Rightarrow> row list" where
  "exec_plan E (LScan s) = e_data E (source_paths s)"
| "exec_plan E (LJoin l r lk rk jt res) =
     join_rows (join_match E lk rk res) jt (output_schema r) (exec_plan E l) (exec_plan E r)"
| "exec_plan E (LFilter c p est) = filter (\<lambda>row. holds E row p) (exec_plan E c)"
| "exec_plan E (LProjection c items) = map (eval_items E items) (exec_plan E c)"
| "exec_plan E (LAggregate c g a) =
     map (\<lambda>(k, rows). k @ map (\<lambda>it. eval_agg E rows (nexpr it)) a) (group_rows E g (exec_plan E c))"
| "exec_plan E (LSort c keys) =
     e_sort E (map ascending keys)
       (map (\<lambda>row. (map (\<lambda>k. eval (e_kernel E) row (skey k)) keys, row)) (exec_plan E c))"
| "exec_plan E (LLimit c n) = take (nat n) (exec_plan E c)"

text \<open>Rows are as wide as their schema, and columns exist where they are read.\<close>

definition cols_below :: "nat \<Rightarrow> expression \<Rightarrow> bool" where
  "cols_below n e \<longleftrightarrow> list_all (\<lambda>(i, t). i < n) (col_refs e)"

fun is_aggregate :: "expression \<Rightarrow> bool" where
  "is_aggregate (Aggregate f arg t) \<longleftrightarrow> True"
| "is_aggregate _ \<longleftrightarrow> False"

fun plan_wf :: "engine \<Rightarrow> plan \<Rightarrow> bool" where
  "plan_wf E (LScan s) \<longleftrightarrow>
     list_all (\<lambda>row. length row = length (scan_schema s)) (e_data E (source_paths s))"
| "plan_wf E (LJoin l r lk rk jt res) \<longleftrightarrow>
     plan_wf E l \<and> plan_wf E r \<and> length (output_schema l) + length (output_schema r) < 2 ^ 63"
| "plan_wf E (LFilter c p est) \<longleftrightarrow>
     plan_wf E c \<and> wt p \<and> tid p = Boolean \<and> agg_free p \<and> cols_below (length (output_schema c)) p"
| "plan_wf E (LProjection c items) \<longleftrightarrow> plan_wf E c \<and> list_all (\<lambda>it. wt (nexpr it)) items"
| "plan_wf E (LAggregate c g a) \<longleftrightarrow>
     plan_wf E c \<and> list_all (\<lambda>it. wt (nexpr it)) g \<and>
     list_all (\<lambda>it. wt (nexpr it) \<and> is_aggregate (nexpr it)) a"
| "plan_wf E (LSort c keys) \<longleftrightarrow> plan_wf E c \<and> list_all (\<lambda>k. wt (skey k)) keys"
| "plan_wf E (LLimit c n) \<longleftrightarrow> plan_wf E c"

text \<open>The engine's sort returns the rows it was given, in some order.\<close>

locale sort_engine =
  fixes E :: engine
  assumes sort_set: "set (e_sort E fl kr) = snd ` set kr"
begin

lemma exec_width:
  "plan_wf E p \<Longrightarrow> row \<in> set (exec_plan E p) \<Longrightarrow> length row = length (output_schema p)"
proof (induction p arbitrary: row)
  case (LJoin l r lk rk jt res)
  then show ?case
    by (cases jt) (auto simp: join_rows_def join_schema_def null_row_def Let_def split: if_splits)
next
  case (LAggregate c g a)
  then show ?case
    by (auto simp: group_rows_def items_schema_def eval_items_def split: if_splits)
next
  case (LSort c keys)
  then show ?case by (auto simp: sort_set)
next
  case (LLimit c n)
  then show ?case by (auto dest: in_set_takeD)
qed (auto simp: list_all_iff items_schema_def eval_items_def)

end

end
