(* ===== verification/Rewrite.thy ===== *)
theory Rewrite
  imports LogicalPlan
begin

text \<open>
  The plan rules of \<^verbatim>\<open>src/optimizer/optimizer.cpp\<close>: \<open>rewrite_plan\<close> with the merging of
  filters, the pushing of predicates below a join and of LIMIT below projections. The lemmas
  show that rewriting terminates although it restarts on the plans it builds, and that the
  rewritten plan returns the same rows in the same order.
\<close>

section \<open>Columns and predicates\<close>

text \<open>The \<open>unordered_set\<close> of column indices, as a list without repetition.\<close>

definition collect_columns :: "expression \<Rightarrow> nat list" where
  "collect_columns e = remdups (map fst (col_refs e))"

fun unwrap_cast :: "expression \<Rightarrow> expression" where
  "unwrap_cast (Cast e t) = unwrap_cast e"
| "unwrap_cast e = e"

fun flip :: "BinaryOperator \<Rightarrow> BinaryOperator" where
  "flip Less = Greater" | "flip LessEqual = GreaterEqual" | "flip Greater = Less"
| "flip GreaterEqual = LessEqual" | "flip op = op"

fun collect_pushable_predicates :: "expression \<Rightarrow> PushablePredicate list" where
  "collect_pushable_predicates (Binary op l r t) =
     (if op = And then collect_pushable_predicates l @ collect_pushable_predicates r
      else if \<not> is_comparison op then []
      else case (unwrap_cast l, unwrap_cast r) of
        (Column n i ct, Literal v lt) \<Rightarrow>
          [\<lparr>pp_column = n, pp_op = op, pp_literal = Literal v lt\<rparr>]
      | (Literal v lt, Column n i ct) \<Rightarrow>
          [\<lparr>pp_column = n, pp_op = flip op, pp_literal = Literal v lt\<rparr>]
      | _ \<Rightarrow> [])"
| "collect_pushable_predicates _ = []"

fun collect_conjuncts :: "expression \<Rightarrow> expression list" where
  "collect_conjuncts (Binary And l r t) = collect_conjuncts l @ collect_conjuncts r"
| "collect_conjuncts e = [e]"

text \<open>\<open>column_index - delta\<close> in \<open>int64_t\<close>, cast back to \<open>size_t\<close>.\<close>

fun shift_columns :: "expression \<Rightarrow> int \<Rightarrow> expression" where
  "shift_columns (Column n i t) delta = Column n (to_size_t (wrap64 (int i) - delta)) t"
| "shift_columns (Binary op l r t) delta =
     Binary op (shift_columns l delta) (shift_columns r delta) t"
| "shift_columns (Unary op e t) delta = Unary op (shift_columns e delta) t"
| "shift_columns (Cast e t) delta = Cast (shift_columns e delta) t"
| "shift_columns (Between v l u) delta =
     Between (shift_columns v delta) (shift_columns l delta) (shift_columns u delta)"
| "shift_columns (Like v p neg) delta = Like (shift_columns v delta) p neg"
| "shift_columns (Case wts els t) delta =
     Case (map (\<lambda>(c, r). (shift_columns c delta, shift_columns r delta)) wts)
       (map_option (\<lambda>e. shift_columns e delta) els) t"
| "shift_columns (Extract p e t) delta = Extract p (shift_columns e delta) t"
| "shift_columns (Substring e s n t) delta = Substring (shift_columns e delta) s n t"
| "shift_columns (Literal v t) delta = Literal v t"
| "shift_columns (Aggregate f arg t) delta = Aggregate f arg t"

text \<open>The C++ indexes \<open>conjuncts.front()\<close>: every caller passes a non-empty list.\<close>

fun conjunction :: "expression list \<Rightarrow> expression" where
  "conjunction [] = make_bool True"
| "conjunction (c # cs) =
     foldl (\<lambda>acc x. Binary And acc x
       (boolean_type (nullable (result_type acc) \<or> nullable (result_type x)))) c cs"

section \<open>Predicates through joins\<close>

definition all_left :: "nat \<Rightarrow> expression \<Rightarrow> bool" where
  "all_left n e \<longleftrightarrow> collect_columns e \<noteq> [] \<and> list_all (\<lambda>i. i < n) (collect_columns e)"

definition all_right :: "nat \<Rightarrow> expression \<Rightarrow> bool" where
  "all_right n e \<longleftrightarrow> collect_columns e \<noteq> [] \<and> list_all (\<lambda>i. i \<ge> n) (collect_columns e)"

definition left_conjuncts :: "nat \<Rightarrow> expression list \<Rightarrow> expression list" where
  "left_conjuncts n cs = filter (all_left n) cs"

definition right_conjuncts :: "nat \<Rightarrow> JoinType \<Rightarrow> expression list \<Rightarrow> expression list" where
  "right_conjuncts n jt cs =
     map (\<lambda>c. shift_columns c (int n))
       (filter (\<lambda>c. \<not> all_left n c \<and> all_right n c \<and> jt = Inner) cs)"

definition remaining_conjuncts :: "nat \<Rightarrow> JoinType \<Rightarrow> expression list \<Rightarrow> expression list" where
  "remaining_conjuncts n jt cs =
     filter (\<lambda>c. \<not> all_left n c \<and> \<not> (all_right n c \<and> jt = Inner)) cs"

text \<open>
  \<open>f\<close> is \<open>rewrite_plan\<close>, with which this function is mutually recursive; \<open>None\<close> is \<open>nullptr\<close>.
\<close>

definition filtered :: "(plan \<Rightarrow> plan) \<Rightarrow> plan \<Rightarrow> expression list \<Rightarrow> plan" where
  "filtered f side cs = (if cs = [] then side else f (LFilter side (conjunction cs) None))"

definition push_predicate_through_join ::
  "(plan \<Rightarrow> plan) \<Rightarrow> plan \<Rightarrow> plan \<Rightarrow> nat \<Rightarrow> nat \<Rightarrow> JoinType \<Rightarrow> expression option \<Rightarrow> expression \<Rightarrow>
     plan option" where
  "push_predicate_through_join f left right lk rk jt res predicate =
     (let conjuncts = collect_conjuncts predicate;
          left_count = length (output_schema left);
          lcs = left_conjuncts left_count conjuncts;
          rcs = right_conjuncts left_count jt conjuncts;
          rest = remaining_conjuncts left_count jt conjuncts
      in if lcs = [] \<and> rcs = [] then None
         else let new_join = LJoin (filtered f left lcs) (filtered f right rcs) lk rk jt res
              in Some (if rest = [] then new_join else LFilter new_join (conjunction rest) None))"

lemma push_cong [fundef_cong]:
  assumes "left = left'" "right = right'" "lk = lk'" "rk = rk'" "jt = jt'" "res = res'" "p = p'"
    and "\<And>q. f (LFilter left' q None) = g (LFilter left' q None)"
    and "\<And>q. f (LFilter right' q None) = g (LFilter right' q None)"
  shows "push_predicate_through_join f left right lk rk jt res p
    = push_predicate_through_join g left' right' lk' rk' jt' res' p'"
  using assms by (simp add: push_predicate_through_join_def filtered_def Let_def)

fun insert_limit :: "plan \<Rightarrow> int \<Rightarrow> plan" where
  "insert_limit (LProjection c items) n = LProjection (insert_limit c n) items"
| "insert_limit p n = LLimit p n"

section \<open>\<open>rewrite_plan\<close>\<close>

definition simplify_item :: "NamedExpression \<Rightarrow> NamedExpression" where
  "simplify_item it = it\<lparr>nexpr := simplify_expression (nexpr it)\<rparr>"

definition simplify_key :: "SortKey \<Rightarrow> SortKey" where
  "simplify_key k = k\<lparr>skey := simplify_expression (skey k)\<rparr>"

definition merge_predicates :: "expression \<Rightarrow> expression \<Rightarrow> expression" where
  "merge_predicates p q =
     simplify_expression
       (Binary And p q (boolean_type (nullable (result_type p) \<or> nullable (result_type q))))"

function rewrite_plan :: "plan \<Rightarrow> plan" where
  "rewrite_plan (LScan s) = LScan s"
| "rewrite_plan (LJoin l r lk rk jt res) = LJoin (rewrite_plan l) (rewrite_plan r) lk rk jt res"
| "rewrite_plan (LFilter c p est) =
     (let child = rewrite_plan c; predicate = simplify_expression p
      in case child of
        LFilter c2 p2 est2 \<Rightarrow> rewrite_plan (LFilter c2 (merge_predicates predicate p2) None)
      | LJoin l r lk rk jt res \<Rightarrow>
          (case bool_literal predicate of
             Some True \<Rightarrow> child
           | Some False \<Rightarrow> LFilter child predicate (Some 0)
           | None \<Rightarrow>
               (case push_predicate_through_join rewrite_plan l r lk rk jt res predicate of
                  Some pushed \<Rightarrow> pushed
                | None \<Rightarrow> LFilter child predicate None))
      | _ \<Rightarrow>
          (case bool_literal predicate of
             Some True \<Rightarrow> child
           | Some False \<Rightarrow> LFilter child predicate (Some 0)
           | None \<Rightarrow> LFilter child predicate None))"
| "rewrite_plan (LProjection c items) = LProjection (rewrite_plan c) (map simplify_item items)"
| "rewrite_plan (LAggregate c g a) =
     LAggregate (rewrite_plan c) (map simplify_item g) (map simplify_item a)"
| "rewrite_plan (LSort c keys) = LSort (rewrite_plan c) (map simplify_key keys)"
| "rewrite_plan (LLimit c n) = insert_limit (rewrite_plan c) n"
  by pat_completeness auto

text \<open>
  Termination. Rewriting keeps the height of the plan when filters are not counted, leaves at
  most one filter on top, and none where there was none; every restart is on a lower plan, or on
  one with fewer filters on top.
\<close>

fun height :: "plan \<Rightarrow> nat" where
  "height (LScan s) = 0"
| "height (LJoin l r lk rk jt res) = Suc (max (height l) (height r))"
| "height (LFilter c p est) = height c"
| "height (LProjection c items) = Suc (height c)"
| "height (LAggregate c g a) = Suc (height c)"
| "height (LSort c keys) = Suc (height c)"
| "height (LLimit c n) = Suc (height c)"

fun top_filters :: "plan \<Rightarrow> nat" where
  "top_filters (LFilter c p est) = Suc (top_filters c)"
| "top_filters _ = 0"

lemma insert_limit_measures [simp]:
  "height (insert_limit p n) = Suc (height p)" "top_filters (insert_limit p n) = 0"
  by (induction p n rule: insert_limit.induct) auto

definition kept :: "plan \<Rightarrow> plan \<Rightarrow> bool" where
  "kept p q \<longleftrightarrow> height q = height p \<and> top_filters q \<le> min 1 (top_filters p)"

lemma push_measures:
  assumes "push_predicate_through_join f l r lk rk jt res p = Some q"
    and "\<And>x. height (f (LFilter l x None)) = height l" "\<And>x. height (f (LFilter r x None)) = height r"
  shows "height q = Suc (max (height l) (height r)) \<and> top_filters q \<le> 1"
  using assms by (auto simp: push_predicate_through_join_def filtered_def Let_def split: if_splits)

text \<open>The filter case, for whatever \<open>f\<close> does on the plans it is restarted on.\<close>

lemma kept_filter:
  assumes child: "kept c child"
    and merge: "\<And>c2 p2 est2. child = LFilter c2 p2 est2 \<Longrightarrow>
      kept (LFilter c2 (merge_predicates pr p2) None) (f (LFilter c2 (merge_predicates pr p2) None))"
    and push: "\<And>l r lk rk jt res x. child = LJoin l r lk rk jt res \<Longrightarrow> bool_literal pr = None \<Longrightarrow>
      height (f (LFilter l x None)) = height l \<and> height (f (LFilter r x None)) = height r"
  shows "kept (LFilter c p est) (case child of
        LFilter c2 p2 est2 \<Rightarrow> f (LFilter c2 (merge_predicates pr p2) None)
      | LJoin l r lk rk jt res \<Rightarrow>
          (case bool_literal pr of Some True \<Rightarrow> child | Some False \<Rightarrow> LFilter child pr (Some 0)
           | None \<Rightarrow> (case push_predicate_through_join f l r lk rk jt res pr of
                       Some pushed \<Rightarrow> pushed | None \<Rightarrow> LFilter child pr None))
      | _ \<Rightarrow> (case bool_literal pr of Some True \<Rightarrow> child | Some False \<Rightarrow> LFilter child pr (Some 0)
           | None \<Rightarrow> LFilter child pr None))"
proof (cases child)
  case (LFilter c2 p2 est2)
  with merge[OF LFilter] child show ?thesis by (fastforce simp: kept_def)
next
  case (LJoin l r lk rk jt res)
  with push[OF LJoin] child push_measures[of f l r lk rk jt res pr] show ?thesis
    by (auto simp: kept_def split: option.split bool.split)
qed (use child in \<open>auto simp: kept_def split: option.split bool.split\<close>)

lemma rewrite_kept_dom: "rewrite_plan_dom p \<Longrightarrow> kept p (rewrite_plan p)"
proof (induction p rule: rewrite_plan.pinduct)
  case (3 c p est)
  show ?case unfolding rewrite_plan.psimps(3)[OF 3(1)] Let_def
    by (rule kept_filter) (use 3 in \<open>auto simp: kept_def\<close>)
qed (auto simp: rewrite_plan.psimps kept_def)

termination rewrite_plan
proof (relation "measures [height, top_filters, size]", goal_cases)
  case (5 c p est x xa l r lk rk jt res)
  then have "kept c (LJoin l r lk rk jt res)" using rewrite_kept_dom[of c] by simp
  then show ?case by (auto simp: kept_def)
next
  case (6 c p est x xa l r lk rk jt res)
  then have "kept c (LJoin l r lk rk jt res)" using rewrite_kept_dom[of c] by simp
  then show ?case by (auto simp: kept_def)
next
  case (7 c p est x xa c2 p2 est2)
  then have "kept c (LFilter c2 p2 est2)" using rewrite_kept_dom[of c] by simp
  then show ?case by (auto simp: kept_def)
qed auto

lemma rewrite_kept: "kept p (rewrite_plan p)"
proof (induction p rule: rewrite_plan.induct)
  case (3 c p est)
  show ?case
    by (subst rewrite_plan.simps(3), subst Let_def, subst Let_def, rule kept_filter)
       (use 3 in \<open>auto simp: kept_def\<close>)
qed (auto simp: kept_def)

section \<open>Schemas\<close>

text \<open>Rewriting may change a column's nullability, never its name or its Arrow type.\<close>

definition schema_like :: "Schema \<Rightarrow> Schema \<Rightarrow> bool" where
  "schema_like a b \<longleftrightarrow>
     map fname a = map fname b \<and> map (to_arrow_type \<circ> ftype) a = map (to_arrow_type \<circ> ftype) b"

lemma schema_like_refl [simp]: "schema_like s s"
  by (simp add: schema_like_def)

lemma schema_like_length: "schema_like a b \<Longrightarrow> length a = length b"
  unfolding schema_like_def by (metis length_map)

lemma schema_like_trans: "schema_like a b \<Longrightarrow> schema_like b c \<Longrightarrow> schema_like a c"
  by (simp add: schema_like_def)

lemma schema_like_null_row: "schema_like a b \<Longrightarrow> null_row a = null_row b"
proof -
  assume "schema_like a b"
  then have "map (\<lambda>t. Scalar t LNull) (map (to_arrow_type \<circ> ftype) a)
      = map (\<lambda>t. Scalar t LNull) (map (to_arrow_type \<circ> ftype) b)"
    by (simp add: schema_like_def)
  then show ?thesis by (simp add: null_row_def comp_def)
qed

lemma schema_like_join:
  assumes "schema_like a a'" "schema_like b b'"
  shows "schema_like (join_schema a b jt) (join_schema a' b' jt)"
  using assms by (auto simp: schema_like_def join_schema_def comp_def)

lemma to_arrow_type_tid:
  "type_id a = type_id b \<Longrightarrow> type_id a \<noteq> Decimal \<Longrightarrow> to_arrow_type a = to_arrow_type b"
  by (cases "type_id a") auto

lemma simplify_decimal_type:
  assumes "wt e" "tid e = Decimal"
  shows "result_type (simplify_expression e) = result_type e"
proof (cases e)
  case (Binary op l r t)
  then have nl: "\<not> is_logical op" using assms by (auto simp: is_logical_def)
  let ?l = "simplify_expression l" and ?r = "simplify_expression r"
  have w: "wt (Binary op ?l ?r t)"
    by (rule wt_simplify_operands) (use assms(1) Binary in blast)
  from simplify_binary_cases[OF nl, of ?l ?r t] show ?thesis
  proof
    assume "\<exists>x lt y rt. ?l = Literal x lt \<and> ?r = Literal y rt \<and>
      fold_literals op x y t = Some (simplify_binary op ?l ?r t)"
    then obtain x lt y rt where f: "?l = Literal x lt" "?r = Literal y rt"
      "fold_literals op x y t = Some (simplify_binary op ?l ?r t)" by blast
    from w have "wt (Binary op (Literal x lt) (Literal y rt) t)" by (simp only: f(1,2))
    then have False using f(3) assms Binary
      by (cases rule: wt_fold_types) (cases op; auto)+
    then show ?thesis ..
  qed (simp add: Binary)
next
  case (Unary op e' t)
  with assms show ?thesis by (cases op) (auto simp: Let_def)
qed (use assms in auto)

lemma simplify_arrow_type:
  "wt e \<Longrightarrow> to_arrow_type (result_type (simplify_expression e)) = to_arrow_type (result_type e)"
proof (cases "tid e = Decimal")
  case False
  assume "wt e"
  with simplify_wt[of e] False show ?thesis by (intro to_arrow_type_tid) auto
qed (simp only: simplify_decimal_type)

lemma schema_like_items:
  "list_all (\<lambda>it. wt (nexpr it)) items \<Longrightarrow>
     schema_like (items_schema (map simplify_item items)) (items_schema items)"
  by (auto simp: schema_like_def items_schema_def simplify_item_def list_all_iff
      simplify_arrow_type)

lemma schema_like_append:
  "schema_like a a' \<Longrightarrow> schema_like b b' \<Longrightarrow> schema_like (a @ b) (a' @ b')"
  by (simp add: schema_like_def)

section \<open>Conjunctions\<close>

definition pred_ok :: "expression \<Rightarrow> bool" where
  "pred_ok p \<longleftrightarrow> wt p \<and> tid p = Boolean \<and> agg_free p"

lemma pred_ok_And: "pred_ok (Binary And l r t) \<Longrightarrow> pred_ok l \<and> pred_ok r"
  by (simp add: pred_ok_def)

lemma pred_ok_conjuncts: "pred_ok p \<Longrightarrow> c \<in> set (collect_conjuncts p) \<Longrightarrow> pred_ok c"
  by (induction p rule: collect_conjuncts.induct) (auto dest: pred_ok_And)

lemma holds_conjuncts: "holds E row p \<longleftrightarrow> (\<forall>c \<in> set (collect_conjuncts p). holds E row c)"
  by (induction p rule: collect_conjuncts.induct) (auto simp: holds_def)

lemma cols_conjuncts: "(\<Union>c \<in> set (collect_conjuncts p). set (col_refs c)) = set (col_refs p)"
  by (induction p rule: collect_conjuncts.induct) auto

lemma conjunction_foldl:
  assumes "pred_ok c" "\<forall>x \<in> set cs. pred_ok x"
  shows "pred_ok (conjunction (c # cs)) \<and>
    (holds E row (conjunction (c # cs)) \<longleftrightarrow> holds E row c \<and> (\<forall>x \<in> set cs. holds E row x)) \<and>
    set (col_refs (conjunction (c # cs))) = set (col_refs c) \<union> (\<Union>x \<in> set cs. set (col_refs x))"
  using assms
proof (induction cs arbitrary: c)
  case (Cons x cs)
  let ?c = "Binary And c x (boolean_type (nullable (result_type c) \<or> nullable (result_type x)))"
  have "pred_ok ?c" using Cons.prems by (simp add: pred_ok_def)
  from Cons.IH[OF this] Cons.prems show ?case by (auto simp: holds_def)
qed simp

lemma conjunction_ok:
  assumes "cs \<noteq> []" "\<forall>x \<in> set cs. pred_ok x"
  shows "pred_ok (conjunction cs)"
    "holds E row (conjunction cs) \<longleftrightarrow> (\<forall>x \<in> set cs. holds E row x)"
    "set (col_refs (conjunction cs)) = (\<Union>x \<in> set cs. set (col_refs x))"
  using assms conjunction_foldl[of "hd cs" "tl cs" E row] by (cases cs; auto)+

section \<open>Shifting\<close>

interpretation shift: column_renaming "\<lambda>e. shift_columns e d" "\<lambda>i. to_size_t (wrap64 (int i) - d)"
  by unfold_locales simp_all

lemma shift_index:
  assumes "n \<le> i" "i < 2 ^ 63"
  shows "to_size_t (wrap64 (int i) - int n) = i - n"
proof -
  have i: "int i < 2 ^ 63"
    using assms(2) of_nat_less_iff[of i "2 ^ 63", where 'a = int] by (simp only: of_nat_power of_nat_numeral)
  then have "in_int64 (int i)" unfolding in_int64_def int64_min_def int64_max_def by linarith
  then have w: "wrap64 (int i) - int n = int (i - n)" using assms(1) by (simp add: wrap64_id)
  have "(2 :: int) ^ 63 < 2 ^ 64" by simp
  with i have "int i < 2 ^ 64" by (rule less_trans)
  then have "int (i - n) < 2 ^ 64" by (rule le_less_trans[rotated]) simp
  then show ?thesis unfolding w by (subst to_size_t_id) simp_all
qed

lemma shift_holds:
  assumes "\<forall>p \<in> set (col_refs c). length l \<le> fst p \<and> fst p < 2 ^ 63"
  shows "holds E r (shift_columns c (int (length l))) \<longleftrightarrow> holds E (l @ r) c"
proof -
  have "eval (e_kernel E) r (shift_columns c (int (length l))) = eval (e_kernel E) (l @ r) c"
    by (rule shift.rn_eval) (use assms in \<open>auto simp: shift_index col_at_def nth_append\<close>)
  then show ?thesis by (simp add: holds_def)
qed

lemma left_holds:
  assumes "\<forall>p \<in> set (col_refs c). fst p < length l"
  shows "holds E (l @ r) c \<longleftrightarrow> holds E l c"
proof -
  have "eval (e_kernel E) (l @ r) c = eval (e_kernel E) l c"
    by (rule keep.rn_eval) (use assms in \<open>auto simp: col_at_def nth_append\<close>)
  then show ?thesis by (simp add: holds_def)
qed

section \<open>Filters and joins\<close>

lemma join_rows_filter_left:
  assumes "\<And>l x. l \<in> set L \<Longrightarrow> Q (l @ x) \<longleftrightarrow> P l"
  shows "filter Q (join_rows m jt rs L R) = join_rows m jt rs (filter P L) R"
proof (cases jt)
  case Inner
  then show ?thesis using assms by (induction L) (auto simp: join_rows_def filter_map comp_def)
next
  case LeftOuter
  then show ?thesis using assms by (induction L) (auto simp: join_rows_def filter_map comp_def Let_def)
next
  case LeftSemi
  then show ?thesis using assms[of _ "[]"] by (auto simp: join_rows_def intro: filter_cong)
next
  case LeftAnti
  then show ?thesis using assms[of _ "[]"] by (auto simp: join_rows_def intro: filter_cong)
qed

lemma join_rows_filter_right:
  assumes "\<And>l r. l \<in> set L \<Longrightarrow> r \<in> set R \<Longrightarrow> Q (l @ r) \<longleftrightarrow> P r"
  shows "filter Q (join_rows m Inner rs L R) = join_rows m Inner rs' L (filter P R)"
proof -
  have "filter Q (map (\<lambda>r. l @ r) (filter (m l) R)) = map (\<lambda>r. l @ r) (filter (m l) (filter P R))"
    if "l \<in> set L" for l
    using assms[OF that] by (induction R) auto
  then show ?thesis by (simp add: join_rows_def filter_concat_map cong: map_cong)
qed

lemma join_rows_schema: "schema_like a b \<Longrightarrow> join_rows m jt a L R = join_rows m jt b L R"
proof -
  assume "schema_like a b"
  then have "null_row a = null_row b" by (rule schema_like_null_row)
  then show ?thesis unfolding join_rows_def by (simp only:)
qed

lemma all_left_cols: "all_left n c \<Longrightarrow> \<forall>p \<in> set (col_refs c). fst p < n"
  by (auto simp: all_left_def collect_columns_def list_all_iff)

lemma all_right_cols: "all_right n c \<Longrightarrow> \<forall>p \<in> set (col_refs c). n \<le> fst p"
  by (auto simp: all_right_def collect_columns_def list_all_iff)

text \<open>What a step of the rewriting owes: a well-formed plan with the same columns and rows.\<close>

definition refines :: "engine \<Rightarrow> plan \<Rightarrow> plan \<Rightarrow> bool" where
  "refines E p q \<longleftrightarrow>
     plan_wf E q \<and> schema_like (output_schema q) (output_schema p) \<and> exec_plan E q = exec_plan E p"

lemma refines_trans: "refines E p q \<Longrightarrow> refines E q r \<Longrightarrow> refines E p r"
  using schema_like_trans by (auto simp: refines_def)

lemma refines_filtered:
  assumes f: "\<And>x. plan_wf E (LFilter side x None) \<Longrightarrow> refines E (LFilter side x None) (f (LFilter side x None))"
    and side: "plan_wf E side"
    and cs: "\<forall>c \<in> set cs. pred_ok c \<and> cols_below (length (output_schema side)) c"
  shows "plan_wf E (filtered f side cs) \<and>
    schema_like (output_schema (filtered f side cs)) (output_schema side) \<and>
    exec_plan E (filtered f side cs) = filter (\<lambda>row. \<forall>c \<in> set cs. holds E row c) (exec_plan E side)"
proof (cases "cs = []")
  case False
  have ok: "\<forall>c \<in> set cs. pred_ok c" using cs by blast
  have "cols_below (length (output_schema side)) (conjunction cs)"
    using cs conjunction_ok(3)[OF False ok] by (auto simp: cols_below_def list_all_iff)
  with side conjunction_ok(1)[OF False ok] have "plan_wf E (LFilter side (conjunction cs) None)"
    by (simp add: pred_ok_def)
  from f[OF this] False show ?thesis
    using conjunction_ok(2)[OF False ok] by (auto simp: filtered_def refines_def)
qed (use side in \<open>auto simp: filtered_def\<close>)

text \<open>The conjuncts taken from a filter above a join, and where each may go.\<close>

lemma conjunct_cases:
  "holds E row p \<longleftrightarrow>
     (\<forall>c \<in> set (left_conjuncts n (collect_conjuncts p)). holds E row c) \<and>
     (\<forall>c \<in> set (filter (\<lambda>c. \<not> all_left n c \<and> all_right n c \<and> jt = Inner) (collect_conjuncts p)).
        holds E row c) \<and>
     (\<forall>c \<in> set (remaining_conjuncts n jt (collect_conjuncts p)). holds E row c)"
  unfolding holds_conjuncts[of E row p] left_conjuncts_def remaining_conjuncts_def by auto

lemma conjunct_below:
  assumes "cols_below n p" "c \<in> set (collect_conjuncts p)"
  shows "\<forall>x \<in> set (col_refs c). fst x < n"
  using assms cols_conjuncts[of p] by (fastforce simp: cols_below_def list_all_iff)

lemma left_conjuncts_ok:
  assumes "pred_ok p"
  shows "\<forall>c \<in> set (left_conjuncts n (collect_conjuncts p)). pred_ok c \<and> cols_below n c"
  using pred_ok_conjuncts[OF assms] all_left_cols[of n]
  by (fastforce simp: left_conjuncts_def cols_below_def list_all_iff)

lemma right_conjuncts_ok:
  assumes p: "pred_ok p" "cols_below (n + k) p" and k: "n + k < 2 ^ 63"
  shows "\<forall>c \<in> set (right_conjuncts n jt (collect_conjuncts p)). pred_ok c \<and> cols_below k c"
proof -
  have "pred_ok (shift_columns c (int n)) \<and> cols_below k (shift_columns c (int n))"
    if m: "c \<in> set (collect_conjuncts p)" "all_right n c" for c
  proof -
    have "\<forall>x \<in> set (col_refs c). n \<le> fst x \<and> fst x < n + k"
      using all_right_cols[OF m(2)] conjunct_below[OF p(2) m(1)] by blast
    then have "\<forall>x \<in> set (col_refs c). to_size_t (wrap64 (int (fst x)) - int n) < k"
      using k shift_index[of n] by fastforce
    with pred_ok_conjuncts[OF p(1) m(1)] show ?thesis
      by (auto simp: pred_ok_def cols_below_def list_all_iff shift.rn_wt shift.rn_type
          shift.rn_agg_free shift.rn_col_refs)
  qed
  then show ?thesis by (auto simp: right_conjuncts_def)
qed

text \<open>Filtering a join equals joining filtered sides and filtering by what remains.\<close>

lemma filter_join:
  assumes lw: "\<forall>l \<in> set L. length l = n" and rw: "\<forall>r \<in> set R. length r = k" and k: "n + k < 2 ^ 63"
    and below: "jt = Inner \<Longrightarrow> cols_below (n + k) p"
  shows "filter (\<lambda>row. holds E row p) (join_rows m jt rs L R)
    = filter (\<lambda>row. \<forall>c \<in> set (remaining_conjuncts n jt (collect_conjuncts p)). holds E row c)
        (join_rows m jt rs
          (filter (\<lambda>row. \<forall>c \<in> set (left_conjuncts n (collect_conjuncts p)). holds E row c) L)
          (filter (\<lambda>row. \<forall>c \<in> set (right_conjuncts n jt (collect_conjuncts p)). holds E row c) R))"
    (is "?lhs = filter ?rest (join_rows m jt rs (filter ?PL L) (filter ?PR R))")
proof -
  let ?sel = "filter (\<lambda>c. \<not> all_left n c \<and> all_right n c \<and> jt = Inner) (collect_conjuncts p)"
  have l: "filter ?PL (join_rows m jt rs L R) = join_rows m jt rs (filter ?PL L) R"
    using lw all_left_cols[of n] by (intro join_rows_filter_left) (auto simp: left_conjuncts_def left_holds)
  have r: "filter (\<lambda>row. \<forall>c \<in> set ?sel. holds E row c) (join_rows m jt rs L' R)
      = join_rows m jt rs L' (filter ?PR R)" if L': "set L' \<subseteq> set L" for L'
  proof (cases "jt = Inner")
    case True
    have "holds E x (shift_columns c (int n)) \<longleftrightarrow> holds E (l @ x) c"
      if "l \<in> set L'" "c \<in> set (collect_conjuncts p)" "all_right n c" for l x c
    proof -
      have "\<forall>y \<in> set (col_refs c). n \<le> fst y \<and> fst y < 2 ^ 63"
        using all_right_cols[OF that(3)] conjunct_below[OF below[OF True] that(2)] k by fastforce
      with lw L' that(1) shift_holds[of c l E x] show ?thesis by auto
    qed
    then show ?thesis unfolding True
      by (intro join_rows_filter_right) (auto simp: right_conjuncts_def True)
  qed (simp add: right_conjuncts_def)
  have "?lhs = filter ?rest (filter (\<lambda>row. \<forall>c \<in> set ?sel. holds E row c)
      (filter ?PL (join_rows m jt rs L R)))"
    by (simp only: filter_filter conjunct_cases[of E _ p n jt]) (rule filter_cong, auto)
  moreover have "filter (\<lambda>row. \<forall>c \<in> set ?sel. holds E row c) (join_rows m jt rs (filter ?PL L) R)
      = join_rows m jt rs (filter ?PL L) (filter ?PR R)"
    by (rule r) auto
  ultimately show ?thesis by (simp only: l)
qed

locale query_engine = sort_engine E + arrow_kernels "e_kernel E" for E :: engine
begin

lemma push_refines:
  assumes push: "push_predicate_through_join f l r lk rk jt res p = Some q"
    and wf: "plan_wf E (LFilter (LJoin l r lk rk jt res) p est)"
    and fl: "\<And>x. plan_wf E (LFilter l x None) \<Longrightarrow> refines E (LFilter l x None) (f (LFilter l x None))"
    and fr: "\<And>x. plan_wf E (LFilter r x None) \<Longrightarrow> refines E (LFilter r x None) (f (LFilter r x None))"
  shows "refines E (LFilter (LJoin l r lk rk jt res) p est) q"
proof -
  let ?n = "length (output_schema l)" and ?k = "length (output_schema r)"
  let ?cs = "collect_conjuncts p"
  let ?l = "filtered f l (left_conjuncts ?n ?cs)" and ?r = "filtered f r (right_conjuncts ?n jt ?cs)"
  let ?rest = "remaining_conjuncts ?n jt ?cs" and ?join = "LJoin l r lk rk jt res"
  let ?new = "LJoin ?l ?r lk rk jt res"
  have wl: "plan_wf E l" "plan_wf E r" "?n + ?k < 2 ^ 63" and pok: "pred_ok p"
    and below: "cols_below (length (output_schema ?join)) p"
    using wf by (auto simp: pred_ok_def)
  have in_below: "cols_below (?n + ?k) p" if "jt = Inner"
    using below that by (simp add: join_schema_def)
  note L = refines_filtered[OF fl wl(1) left_conjuncts_ok[OF pok]]
  have R: "plan_wf E ?r \<and> schema_like (output_schema ?r) (output_schema r) \<and>
      exec_plan E ?r = filter (\<lambda>row. \<forall>c \<in> set (right_conjuncts ?n jt ?cs). holds E row c) (exec_plan E r)"
  proof (rule refines_filtered[OF fr wl(2)])
    show "\<forall>c \<in> set (right_conjuncts ?n jt ?cs). pred_ok c \<and> cols_below ?k c"
    proof (cases "jt = Inner")
      case True
      show ?thesis by (rule right_conjuncts_ok[OF pok in_below[OF True] wl(3)])
    qed (simp add: right_conjuncts_def)
  qed
  have new: "plan_wf E ?new" "schema_like (output_schema ?new) (output_schema ?join)"
    using L R wl(3) by (auto simp: schema_like_join dest!: schema_like_length)
  have rok: "\<forall>c \<in> set ?rest. pred_ok c \<and> cols_below (length (output_schema ?join)) c"
    using pred_ok_conjuncts[OF pok] conjunct_below[OF below]
    by (fastforce simp: remaining_conjuncts_def cols_below_def list_all_iff)
  have ex: "exec_plan E (LFilter ?join p est) = filter (\<lambda>row. \<forall>c \<in> set ?rest. holds E row c) (exec_plan E ?new)"
    unfolding exec_plan.simps
    using L R exec_width[OF wl(1)] exec_width[OF wl(2)]
    by (subst filter_join[OF _ _ wl(3) in_below]) (auto simp: join_rows_schema[of "output_schema ?r"])
  have q: "q = (if ?rest = [] then ?new else LFilter ?new (conjunction ?rest) None)"
    using push by (auto simp: push_predicate_through_join_def Let_def split: if_splits)
  show ?thesis
  proof (cases "?rest = []")
    case True
    with q new ex show ?thesis by (simp add: refines_def)
  next
    case False
    have "\<forall>c \<in> set ?rest. pred_ok c" using rok by blast
    note c = conjunction_ok[OF False this]
    have "cols_below (length (output_schema ?new)) (conjunction ?rest)"
      using rok c(3) schema_like_length[OF new(2)] by (auto simp: cols_below_def list_all_iff)
    with q False new ex c(1,2) show ?thesis by (simp add: refines_def pred_ok_def)
  qed
qed

lemma merge_ok:
  assumes "pred_ok p" "pred_ok q"
  shows "wt (merge_predicates p q)" "tid (merge_predicates p q) = Boolean"
    "holds E row (merge_predicates p q) \<longleftrightarrow> holds E row p \<and> holds E row q"
    "set (col_refs (merge_predicates p q)) \<subseteq> set (col_refs p) \<union> set (col_refs q)"
proof -
  let ?b = "Binary And p q (boolean_type (nullable (result_type p) \<or> nullable (result_type q)))"
  have w: "wt ?b" using assms by (simp add: pred_ok_def)
  show "wt (merge_predicates p q)" "tid (merge_predicates p q) = Boolean"
    using simplify_wt[OF w] by (simp_all add: merge_predicates_def)
  show "holds E row (merge_predicates p q) \<longleftrightarrow> holds E row p \<and> holds E row q"
    using eval_simplify[OF w, of row] by (simp add: merge_predicates_def holds_def)
  show "set (col_refs (merge_predicates p q)) \<subseteq> set (col_refs p) \<union> set (col_refs q)"
    using cols_simplify[of ?b] by (simp add: merge_predicates_def)
qed

text \<open>Simplified predicates and items.\<close>

lemma simplify_holds: "wt p \<Longrightarrow> holds E row (simplify_expression p) \<longleftrightarrow> holds E row p"
  by (simp add: holds_def eval_simplify)

lemma simplify_items:
  "list_all (\<lambda>it. wt (nexpr it)) items \<Longrightarrow>
     eval_items E (map simplify_item items) row = eval_items E items row"
  by (auto simp: eval_items_def simplify_item_def list_all_iff eval_simplify)

lemma simplify_items_wt:
  "list_all (\<lambda>it. wt (nexpr it)) items \<Longrightarrow> list_all (\<lambda>it. wt (nexpr it)) (map simplify_item items)"
  by (auto simp: simplify_item_def list_all_iff simplify_wt)

lemma simplify_agg_wt:
  assumes "list_all (\<lambda>it. wt (nexpr it) \<and> is_aggregate (nexpr it)) items"
  shows "list_all (\<lambda>it. wt (nexpr it) \<and> is_aggregate (nexpr it)) (map simplify_item items)"
proof -
  have "is_aggregate (simplify_expression e)" if "is_aggregate e" for e
    using that by (cases e) auto
  with assms show ?thesis by (auto simp: simplify_item_def list_all_iff simplify_wt)
qed

lemma simplify_eval_agg:
  "wt e \<Longrightarrow> is_aggregate e \<Longrightarrow> eval_agg E rows (simplify_expression e) = eval_agg E rows e"
proof (cases e)
  case (Aggregate f arg t)
  assume "wt e"
  with Aggregate show ?thesis by (cases arg) (auto simp: eval_agg_def eval_simplify)
qed auto

lemma simplify_aggs:
  "list_all (\<lambda>it. wt (nexpr it) \<and> is_aggregate (nexpr it)) items \<Longrightarrow>
     map (\<lambda>it. eval_agg E rows (nexpr it)) (map simplify_item items)
     = map (\<lambda>it. eval_agg E rows (nexpr it)) items"
  by (auto simp: simplify_item_def list_all_iff simplify_eval_agg)

lemma simplify_groups:
  "list_all (\<lambda>it. wt (nexpr it)) g \<Longrightarrow> group_rows E (map simplify_item g) rows = group_rows E g rows"
proof -
  assume "list_all (\<lambda>it. wt (nexpr it)) g"
  then have "eval_items E (map simplify_item g) = eval_items E g" by (intro ext simplify_items)
  then show ?thesis by (simp add: group_rows_def)
qed

lemma insert_limit_refines:
  "plan_wf E p \<Longrightarrow> refines E (LLimit p n) (insert_limit p n)"
proof (induction p n rule: insert_limit.induct)
  case (1 c items n)
  then show ?case by (auto simp: refines_def take_map)
qed (simp_all add: refines_def)

text \<open>A filter over a child that is already rewritten.\<close>

lemma filter_refines:
  assumes c: "refines E c c'" and wf: "plan_wf E (LFilter c p est)"
  shows "refines E (LFilter c p est) (LFilter c' (simplify_expression p) est')"
    "bool_literal (simplify_expression p) = Some True \<Longrightarrow> refines E (LFilter c p est) c'"
proof -
  have w: "wt p" using wf by simp
  have len: "length (output_schema c') = length (output_schema c)"
    using c by (simp add: refines_def schema_like_length)
  have cols: "cols_below (length (output_schema c')) (simplify_expression p)"
    using wf cols_simplify[of p] len by (auto simp: cols_below_def list_all_iff)
  show "refines E (LFilter c p est) (LFilter c' (simplify_expression p) est')"
    using c wf simplify_wt[OF w] cols simplify_holds[OF w]
    by (auto simp: refines_def agg_free_simplify)
  assume t: "bool_literal (simplify_expression p) = Some True"
  have "holds E row p" for row
    using eval_bool_literal[OF t] simplify_wt[OF w] simplify_holds[OF w, of row] by (simp add: holds_def)
  then show "refines E (LFilter c p est) c'" using c by (simp add: refines_def)
qed

lemma merge_refines:
  assumes c: "refines E c (LFilter c2 p2 est2)" and wf: "plan_wf E (LFilter c p est)"
  shows "refines E (LFilter c p est) (LFilter c2 (merge_predicates (simplify_expression p) p2) None)"
proof -
  have f: "refines E (LFilter c p est) (LFilter (LFilter c2 p2 est2) (simplify_expression p) None)"
    by (rule filter_refines(1)[OF c wf])
  have ok: "pred_ok (simplify_expression p)" "pred_ok p2" using f by (auto simp: refines_def pred_ok_def)
  have af: "agg_free (merge_predicates (simplify_expression p) p2)"
    using ok by (simp add: merge_predicates_def pred_ok_def agg_free_simplify del: simplify_expression.simps)
  have "plan_wf E (LFilter c2 (merge_predicates (simplify_expression p) p2) None)"
    using f merge_ok[OF ok] af by (auto simp: refines_def cols_below_def list_all_iff)
  then show ?thesis using f merge_ok(3)[OF ok] by (simp add: refines_def conj_commute)
qed

lemma rewrite_refines: "plan_wf E p \<Longrightarrow> refines E p (rewrite_plan p)"
proof (induction p rule: rewrite_plan.induct)
  case (2 l r lk rk jt res)
  then have "schema_like (output_schema (rewrite_plan l)) (output_schema l)"
    "schema_like (output_schema (rewrite_plan r)) (output_schema r)" by (simp_all add: refines_def)
  with 2 schema_like_length[OF this(1)] schema_like_length[OF this(2)] show ?case
    by (simp add: refines_def schema_like_join join_rows_schema[of "output_schema (rewrite_plan r)"])
next
  case (3 c p est)
  have c: "refines E c (rewrite_plan c)" using 3 by simp
  note fr = filter_refines[OF c 3(5)]
  show ?case
  proof (cases "rewrite_plan c")
    case (LFilter c2 p2 est2)
    have m: "refines E (LFilter c p est) (LFilter c2 (merge_predicates (simplify_expression p) p2) None)"
      by (rule merge_refines) (use c LFilter 3(5) in auto)
    then have "plan_wf E (LFilter c2 (merge_predicates (simplify_expression p) p2) None)"
      by (simp add: refines_def)
    from refines_trans[OF m 3(4)[OF refl refl LFilter this]] LFilter show ?thesis by simp
  next
    case (LJoin l r lk rk jt res)
    show ?thesis
    proof (cases "bool_literal (simplify_expression p)")
      case None
      note f = fr(1)[of None, unfolded LJoin]
      show ?thesis
      proof (cases "push_predicate_through_join rewrite_plan l r lk rk jt res (simplify_expression p)")
        case (Some q)
        have "refines E (LFilter (LJoin l r lk rk jt res) (simplify_expression p) None) q"
          by (rule push_refines[OF Some]) (use f 3(2,3)[OF refl refl LJoin None] in \<open>auto simp: refines_def\<close>)
        from refines_trans[OF f this] show ?thesis using LJoin None Some by simp
      qed (use f LJoin None in simp)
    next
      case (Some b)
      then show ?thesis using fr LJoin by (cases b) auto
    qed
  qed (use fr in \<open>auto simp: Let_def split: option.split bool.split\<close>)
next
  case (4 c items)
  then show ?case
    by (auto simp: refines_def schema_like_items simplify_items simplify_items_wt)
next
  case (5 c g a)
  then have a: "list_all (\<lambda>it. wt (nexpr it)) a" by (auto simp: list_all_iff)
  have "exec_plan E (rewrite_plan (LAggregate c g a)) = exec_plan E (LAggregate c g a)"
    using 5 by (simp add: refines_def simplify_groups simplify_aggs del: map_map)
  with 5 a show ?case
    by (simp add: refines_def schema_like_items schema_like_append simplify_items_wt simplify_agg_wt)
next
  case (6 c keys)
  have "map (\<lambda>k. eval (e_kernel E) row (skey k)) (map simplify_key keys)
      = map (\<lambda>k. eval (e_kernel E) row (skey k)) keys" for row
    using 6 by (auto simp: simplify_key_def list_all_iff eval_simplify)
  moreover have "map ascending (map simplify_key keys) = map ascending keys"
    by (simp add: simplify_key_def)
  moreover have "list_all (\<lambda>k. wt (skey k)) (map simplify_key keys)"
    using 6 by (auto simp: simplify_key_def list_all_iff simplify_wt)
  ultimately show ?case using 6 by (simp add: refines_def del: map_map)
next
  case (7 c n)
  then have "refines E (LLimit c n) (LLimit (rewrite_plan c) n)" by (simp add: refines_def)
  moreover have "refines E (LLimit (rewrite_plan c) n) (insert_limit (rewrite_plan c) n)"
    using 7 by (intro insert_limit_refines) (simp add: refines_def)
  ultimately show ?case using refines_trans by simp
qed (simp add: refines_def)

end

section \<open>A reference engine\<close>

text \<open>
  The reference kernels, join keys that match when equal and not NULL, a stable insertion sort on
  the key values with NULLs last, and the SQL aggregates on the engine's own types.
\<close>

fun datum_le :: "datum \<Rightarrow> datum \<Rightarrow> bool" where
  "datum_le (Scalar s a) (Scalar t b) =
     (case (a, b) of
        (_, LNull) \<Rightarrow> True
      | (LNull, _) \<Rightarrow> False
      | (LInt i, LInt j) \<Rightarrow> i \<le> j
      | (LDouble x, LDouble y) \<Rightarrow> f64_le x y
      | (LString x, LString y) \<Rightarrow> x \<le> y
      | (LBool x, LBool y) \<Rightarrow> x \<longrightarrow> y
      | _ \<Rightarrow> True)"
| "datum_le _ _ = True"

fun keys_le :: "bool list \<Rightarrow> datum list \<Rightarrow> datum list \<Rightarrow> bool" where
  "keys_le (asc # fl) (a # as) (b # bs) =
     (if a = b then keys_le fl as bs else if asc then datum_le a b else datum_le b a)"
| "keys_le _ _ _ = True"

fun insert_row :: "bool list \<Rightarrow> datum list \<times> row \<Rightarrow> (datum list \<times> row) list \<Rightarrow> (datum list \<times> row) list" where
  "insert_row fl x [] = [x]"
| "insert_row fl x (y # ys) = (if keys_le fl (fst x) (fst y) then x # y # ys else y # insert_row fl x ys)"

definition ref_sort :: "bool list \<Rightarrow> (datum list \<times> row) list \<Rightarrow> row list" where
  "ref_sort fl kr = map snd (foldr (insert_row fl) kr [])"

definition ref_agg :: "AggregateFunction \<Rightarrow> ArrowType \<Rightarrow> datum list \<Rightarrow> datum" where
  "ref_agg f t ds =
     (let vs = filter (\<lambda>d. \<not> is_null_datum d) ds
      in case f of
        AggCount \<Rightarrow> int64_datum (int (length vs))
      | AggCountStar \<Rightarrow> int64_datum (int (length ds))
      | AggCountDistinct \<Rightarrow> int64_datum (int (length (remdups vs)))
      | AggSum \<Rightarrow> (case vs of [] \<Rightarrow> Scalar t LNull | v # rest \<Rightarrow> foldl (ref_binary Add) v rest)
      | AggMin \<Rightarrow> (case vs of [] \<Rightarrow> Scalar t LNull
                  | v # rest \<Rightarrow> foldl (\<lambda>a b. if datum_le a b then a else b) v rest)
      | AggMax \<Rightarrow> (case vs of [] \<Rightarrow> Scalar t LNull
                  | v # rest \<Rightarrow> foldl (\<lambda>a b. if datum_le b a then a else b) v rest)
      | AggAvg \<Rightarrow> (case vs of [] \<Rightarrow> Scalar t LNull
                  | v # rest \<Rightarrow> ref_binary Divide (foldl (ref_binary Add) v rest)
                                  (f64_datum (f64_of_int (int (length vs))))))"

definition ref_engine :: "(string list \<Rightarrow> row list) \<Rightarrow> engine" where
  "ref_engine data =
     \<lparr>e_kernel = ref_kernel, e_data = data,
      e_keyeq = (\<lambda>a b. is_true (ref_binary Equal a b)), e_sort = ref_sort, e_agg = ref_agg\<rparr>"

lemma insert_row_set: "set (insert_row fl x ys) = insert x (set ys)"
  by (induction fl x ys rule: insert_row.induct) auto

interpretation refq: query_engine "ref_engine data"
proof (rule query_engine.intro)
  have "set (foldr (insert_row fl) kr []) = set kr" for fl kr
    by (induction kr) (auto simp: insert_row_set)
  then show "sort_engine (ref_engine data)"
    by unfold_locales (simp add: ref_engine_def ref_sort_def)
  show "arrow_kernels (e_kernel (ref_engine data))"
    using ref.arrow_kernels_axioms by (simp add: ref_engine_def)
qed

section \<open>Properties\<close>

text \<open>
  C8. The rewritten plan returns the rows of the original, in the same order and under the same
  column names and Arrow types: constant folding, filter merging and elimination, pushing
  predicates below INNER, LEFT OUTER, semi and anti joins, and pushing LIMIT below projections
  change no query's answer.
\<close>

theorem rewrite_plan_sound:
  assumes "query_engine E" "plan_wf E p"
  shows "exec_plan E (rewrite_plan p) = exec_plan E p \<and>
    schema_like (output_schema (rewrite_plan p)) (output_schema p) \<and> plan_wf E (rewrite_plan p)"
  using query_engine.rewrite_refines[OF assms] by (simp add: refines_def)

text \<open>A filter on both sides of a LEFT OUTER join: only the left conjunct may move.\<close>

definition demo_field :: "string \<Rightarrow> Field" where
  "demo_field n = \<lparr>fname = n, ftype = int64_type True\<rparr>"

definition demo_data :: "string list \<Rightarrow> row list" where
  "demo_data paths =
     (if paths = [''a''] then [[int64_datum 1, int64_datum 10], [int64_datum 2, int64_datum 20]]
      else [[int64_datum 2, int64_datum 7]])"

definition demo_join :: plan where
  "demo_join =
     LFilter
       (LJoin (logical_scan [''a''] [demo_field ''k'', demo_field ''x''] [])
              (logical_scan [''b''] [demo_field ''k'', demo_field ''y''] []) 0 0 LeftOuter None)
       (Binary And
         (Binary Greater (Column ''x'' 1 (int64_type True)) (make_int64 5) (boolean_type True))
         (Unary UIsNull (Column ''y'' 3 (int64_type True)) (boolean_type False)) (boolean_type True))
       None"

theorem rewrite_plan_sound_witness:
  "exec_plan (ref_engine demo_data) (rewrite_plan demo_join) = exec_plan (ref_engine demo_data) demo_join"
proof -
  have "plan_wf (ref_engine demo_data) demo_join"
    by (simp add: demo_join_def logical_scan_def ref_engine_def demo_data_def join_schema_def
        cols_below_def make_literals in_int64_def int64_min_def int64_max_def)
  from rewrite_plan_sound[OF refq.query_engine_axioms this] show ?thesis by simp
qed

fun filters_merged :: "plan \<Rightarrow> bool" where
  "filters_merged (LScan s) \<longleftrightarrow> True"
| "filters_merged (LJoin l r lk rk jt res) \<longleftrightarrow> filters_merged l \<and> filters_merged r"
| "filters_merged (LFilter c p est) \<longleftrightarrow> top_filters c = 0 \<and> filters_merged c"
| "filters_merged (LProjection c items) \<longleftrightarrow> filters_merged c"
| "filters_merged (LAggregate c g a) \<longleftrightarrow> filters_merged c"
| "filters_merged (LSort c keys) \<longleftrightarrow> filters_merged c"
| "filters_merged (LLimit c n) \<longleftrightarrow> filters_merged c"

lemma insert_limit_merged: "filters_merged (insert_limit p n) = filters_merged p"
  by (induction p n rule: insert_limit.induct) auto

lemma push_merged:
  assumes "push_predicate_through_join f l r lk rk jt res p = Some q"
    and "filters_merged l" "filters_merged r"
    and "\<And>x. filters_merged (f (LFilter l x None))" "\<And>x. filters_merged (f (LFilter r x None))"
  shows "filters_merged q"
  using assms by (auto simp: push_predicate_through_join_def filtered_def Let_def split: if_splits)

lemma rewrite_merged: "filters_merged (rewrite_plan p)"
proof (induction p rule: rewrite_plan.induct)
  case (3 c p est)
  show ?case
  proof (cases "rewrite_plan c")
    case (LJoin l r lk rk jt res)
    with 3 push_merged[of rewrite_plan l r lk rk jt res "simplify_expression p"] show ?thesis
      by (auto simp: Let_def split: option.split bool.split)
  qed (use 3 in \<open>auto simp: Let_def split: option.split bool.split\<close>)
qed (auto simp: insert_limit_merged)

text \<open>
  C28. Rewriting ends, and the plan it returns is in normal form: its height without filters is
  unchanged, no filter stands directly on another, and none appears where there was none.
\<close>

theorem rewrite_plan_normal_form:
  "filters_merged (rewrite_plan p) \<and> height (rewrite_plan p) = height p \<and>
   top_filters (rewrite_plan p) \<le> min 1 (top_filters p)"
  using rewrite_merged[of p] rewrite_kept[of p] by (simp add: kept_def)

end
