(* ===== verification/Pruning.thy ===== *)
theory Pruning
  imports Rewrite
begin

text \<open>
  Row-group pruning: the statistics of \<^verbatim>\<open>include/kernellake/io/parquet_metadata.hpp\<close>, their
  decoding in \<^verbatim>\<open>src/io/parquet_metadata.cpp\<close> and the decision of
  \<^verbatim>\<open>src/io/parquet_pruning.cpp\<close>. The Parquet reader is not part of the repository: what it
  reports of a file is the parameter type \<open>ParquetFooter\<close>. The locale \<open>pruner\<close> is the contract
  that row-group statistics and Iceberg partition values both meet: a chunk proven empty for a
  predicate holds no value that satisfies it. The lemmas show that pruning by statistics meets
  it where the comparison through \<open>double\<close> is exact, and where it does not.
\<close>

section \<open>Metadata\<close>

record ColumnStatistics =
  has_min_max :: bool
  has_null_count :: bool
  null_count :: int
  min_value :: literal
  max_value :: literal

record RowGroupMetadata =
  rg_index :: int
  rg_row_count :: int
  compressed_size_bytes :: int
  uncompressed_size_bytes :: int
  column_statistics :: "(string \<times> ColumnStatistics) list"

record FileMetadata =
  fm_path :: string
  fm_schema :: Schema
  fm_row_count :: int
  row_groups :: "RowGroupMetadata list"

text \<open>What \<open>parquet::Statistics\<close> holds, by physical type; a \<open>float\<close> is the \<open>double\<close> of its value.\<close>

datatype parquet_minmax =
    BoolStats bool bool
  | Int32Stats int int
  | Int64Stats int int
  | FloatStats f64 f64
  | DoubleStats f64 f64
  | ByteArrayStats string string
  | OtherStats

record ParquetStatistics =
  ps_null_count :: "int option"
  ps_has_min_max :: bool
  ps_minmax :: parquet_minmax

record ParquetRowGroup =
  prg_num_rows :: int
  prg_compressed :: int
  prg_byte_size :: int
  prg_columns :: "ParquetStatistics option list"

record ParquetFooter =
  pf_schema :: "(string + ArrowField list)"
  pf_num_rows :: int
  pf_row_groups :: "ParquetRowGroup list"

definition decode_statistic :: "parquet_minmax \<Rightarrow> bool \<Rightarrow> literal option" where
  "decode_statistic stats want_min =
     (case stats of
        BoolStats lo hi \<Rightarrow> Some (LBool (if want_min then lo else hi))
      | Int32Stats lo hi \<Rightarrow> Some (LInt (if want_min then lo else hi))
      | Int64Stats lo hi \<Rightarrow> Some (LInt (if want_min then lo else hi))
      | FloatStats lo hi \<Rightarrow> Some (LDouble (if want_min then lo else hi))
      | DoubleStats lo hi \<Rightarrow> Some (LDouble (if want_min then lo else hi))
      | ByteArrayStats lo hi \<Rightarrow> Some (LString (if want_min then lo else hi))
      | OtherStats \<Rightarrow> None)"

definition no_statistics :: ColumnStatistics where
  "no_statistics = \<lparr>has_min_max = False, has_null_count = False, null_count = 0,
     min_value = LNull, max_value = LNull\<rparr>"

definition extract_column_statistics :: "ParquetStatistics option \<Rightarrow> ColumnStatistics" where
  "extract_column_statistics column =
     (case column of
        None \<Rightarrow> no_statistics
      | Some stats \<Rightarrow>
          let r = (case ps_null_count stats of None \<Rightarrow> no_statistics
                   | Some n \<Rightarrow> no_statistics\<lparr>has_null_count := True, null_count := n\<rparr>)
          in if ps_has_min_max stats
             then (case (decode_statistic (ps_minmax stats) True, decode_statistic (ps_minmax stats) False) of
                     (Some lo, Some hi) \<Rightarrow> r\<lparr>has_min_max := True, min_value := lo, max_value := hi\<rparr>
                   | _ \<Rightarrow> r)
             else r)"

text \<open>\<open>unordered_map::emplace\<close> keeps the entry that is already there.\<close>

definition emplace :: "('k \<times> 'v) list \<Rightarrow> 'k \<Rightarrow> 'v \<Rightarrow> ('k \<times> 'v) list" where
  "emplace m k v = (if map_of m k = None then m @ [(k, v)] else m)"

fun column_stats_loop ::
  "Schema \<Rightarrow> nat \<Rightarrow> ParquetStatistics option list \<Rightarrow> (string \<times> ColumnStatistics) list \<Rightarrow>
     (string \<times> ColumnStatistics) list result" where
  "column_stats_loop s col [] m = Inr m"
| "column_stats_loop s col (c # cs) m =
     bindR (atR s col) (\<lambda>f.
       column_stats_loop s (Suc col) cs (emplace m (fname f) (extract_column_statistics c)))"

fun row_group_loop :: "Schema \<Rightarrow> int \<Rightarrow> ParquetRowGroup list \<Rightarrow> RowGroupMetadata list result" where
  "row_group_loop s rg [] = Inr []"
| "row_group_loop s rg (g # gs) =
     bindR (column_stats_loop s 0 (prg_columns g) []) (\<lambda>m.
     bindR (row_group_loop s (rg + 1) gs) (\<lambda>rest.
     Inr (\<lparr>rg_index = rg, rg_row_count = prg_num_rows g, compressed_size_bytes = prg_compressed g,
           uncompressed_size_bytes = prg_byte_size g, column_statistics = m\<rparr> # rest)))"

text \<open>\<open>read_footer\<close> stands for the object store and \<open>parquet::ParquetFileReader\<close>.\<close>

definition inspect_parquet_file ::
  "(string \<Rightarrow> ParquetFooter result) \<Rightarrow> string \<Rightarrow> FileMetadata result" where
  "inspect_parquet_file read_footer path =
     bindR (read_footer path) (\<lambda>footer.
     case pf_schema footer of
       Inl why \<Rightarrow> Inl (StorageError (''failed to convert Parquet schema for '' @ path))
     | Inr afs \<Rightarrow>
         bindR (from_arrow_schema afs) (\<lambda>s.
         bindR (row_group_loop s 0 (pf_row_groups footer)) (\<lambda>gs.
         Inr \<lparr>fm_path = path, fm_schema = s, fm_row_count = pf_num_rows footer, row_groups = gs\<rparr>)))"

text \<open>The first position at which two field lists differ, below the length of both.\<close>

fun first_mismatch :: "nat \<Rightarrow> Schema \<Rightarrow> Schema \<Rightarrow> nat option" where
  "first_mismatch f (a # as) (b # bs) = (if a = b then first_mismatch (Suc f) as bs else Some f)"
| "first_mismatch f _ _ = None"

fun validate_files :: "FileMetadata \<Rightarrow> FileMetadata list \<Rightarrow> unit result" where
  "validate_files reference [] = Inr ()"
| "validate_files reference (c # cs) =
     (if schema_equals (fm_schema c) (fm_schema reference) then validate_files reference cs
      else let pre = ''schema mismatch between '' @ fm_path reference @ '' and '' @ fm_path c
           in case first_mismatch 0 (fm_schema reference) (fm_schema c) of
                Some f \<Rightarrow> Inl (StorageError (pre @ '': field '' @ int_str (int f)))
              | None \<Rightarrow> Inl (StorageError (pre @ '': different column counts'')))"

definition validate_schema_compatibility :: "FileMetadata list \<Rightarrow> unit result" where
  "validate_schema_compatibility files =
     (case files of a # b # rest \<Rightarrow> validate_files a (b # rest) | _ \<Rightarrow> Inr ())"

section \<open>Comparing literals\<close>

fun num_literal :: "literal \<Rightarrow> f64 option" where
  "num_literal (LInt i) = Some (f64_of_int i)"
| "num_literal (LDouble d) = Some d"
| "num_literal _ = None"

definition f64_cmp :: "f64 \<Rightarrow> f64 \<Rightarrow> int" where
  "f64_cmp a b = (if f64_lt a b then -1 else if f64_lt b a then 1 else 0)"

definition compare_literals :: "literal \<Rightarrow> literal \<Rightarrow> int option" where
  "compare_literals a b =
     (case (a, b) of
        (LString sa, LString sb) \<Rightarrow> Some (if sa < sb then -1 else if sb < sa then 1 else 0)
      | (LBool ba, LBool bb) \<Rightarrow> Some (if ba = bb then 0 else if bb then -1 else 1)
      | _ \<Rightarrow> (case (num_literal a, num_literal b) of
               (Some x, Some y) \<Rightarrow> Some (f64_cmp x y)
             | _ \<Rightarrow> None))"

fun literal_to_string :: "literal \<Rightarrow> string" where
  "literal_to_string (LString s) = [CHR 0x27] @ s @ [CHR 0x27]"
| "literal_to_string (LInt i) = int_str i"
| "literal_to_string (LDouble d) = f64_str d"
| "literal_to_string (LBool b) = (if b then ''TRUE'' else ''FALSE'')"
| "literal_to_string LNull = ''NULL''"

section \<open>The pruning decision\<close>

definition prune_reason :: "PushablePredicate \<Rightarrow> literal \<Rightarrow> ColumnStatistics \<Rightarrow> string" where
  "prune_reason p l s =
     pp_column p @ '' '' @ binop_str (pp_op p) @ '' '' @ literal_to_string l
     @ '' vs ['' @ literal_to_string (min_value s) @ '', '' @ literal_to_string (max_value s) @ '']''"

definition op_proves_empty :: "BinaryOperator \<Rightarrow> int \<Rightarrow> int \<Rightarrow> string option" where
  "op_proves_empty op cmp_min cmp_max =
     (case op of
        Equal \<Rightarrow> if cmp_min > 0 \<or> cmp_max < 0 then Some '': literal outside range'' else None
      | NotEqual \<Rightarrow> if cmp_min = 0 \<and> cmp_max = 0 then Some '': all values equal literal'' else None
      | Less \<Rightarrow> if cmp_min \<ge> 0 then Some '': min >= literal'' else None
      | LessEqual \<Rightarrow> if cmp_min > 0 then Some '': min > literal'' else None
      | Greater \<Rightarrow> if cmp_max \<le> 0 then Some '': max <= literal'' else None
      | GreaterEqual \<Rightarrow> if cmp_max < 0 then Some '': max < literal'' else None
      | _ \<Rightarrow> None)"

definition predicate_proves_empty :: "PushablePredicate \<Rightarrow> ColumnStatistics \<Rightarrow> string option" where
  "predicate_proves_empty p s =
     (if \<not> has_min_max s then None
      else case pp_literal p of
        Literal l t \<Rightarrow>
          if l = LNull then None
          else (case (compare_literals (min_value s) l, compare_literals (max_value s) l) of
                  (Some cmp_min, Some cmp_max) \<Rightarrow>
                    map_option (\<lambda>why. prune_reason p l s @ why) (op_proves_empty (pp_op p) cmp_min cmp_max)
                | _ \<Rightarrow> None)
      | _ \<Rightarrow> None)"

record ScanDecision =
  sd_file :: string
  selected_row_groups :: "int list"
  skipped_row_groups :: "int list"
  reasons :: "string list"

fun skip_reason :: "RowGroupMetadata \<Rightarrow> PushablePredicate list \<Rightarrow> string option" where
  "skip_reason g [] = None"
| "skip_reason g (p # ps) =
     (case map_of (column_statistics g) (pp_column p) of
        None \<Rightarrow> skip_reason g ps
      | Some s \<Rightarrow>
          (case predicate_proves_empty p s of
             None \<Rightarrow> skip_reason g ps
           | Some reason \<Rightarrow> Some (''row_group '' @ int_str (rg_index g) @ '' skipped: '' @ reason)))"

definition decide_row_group ::
  "PushablePredicate list \<Rightarrow> ScanDecision \<Rightarrow> RowGroupMetadata \<Rightarrow> ScanDecision" where
  "decide_row_group ps d g =
     (case skip_reason g ps of
        Some r \<Rightarrow> d\<lparr>skipped_row_groups := skipped_row_groups d @ [rg_index g],
                    reasons := reasons d @ [r]\<rparr>
      | None \<Rightarrow> d\<lparr>selected_row_groups := selected_row_groups d @ [rg_index g]\<rparr>)"

definition evaluate_pruning :: "FileMetadata \<Rightarrow> PushablePredicate list \<Rightarrow> ScanDecision" where
  "evaluate_pruning file ps =
     (let d = foldl (decide_row_group ps)
            \<lparr>sd_file = fm_path file, selected_row_groups = [], skipped_row_groups = [], reasons = []\<rparr>
            (row_groups file)
      in if skipped_row_groups d = [] \<and> ps \<noteq> []
         then d\<lparr>reasons := reasons d @
                [''no row groups could be proven safe to skip from available statistics'']\<rparr>
         else d)"


section \<open>What a predicate means on a column value\<close>

text \<open>
  SQL's comparison of two stored values: integers (also dates and timestamps) as integers, text by
  bytes, and as doubles when one side is a double.
\<close>

fun lit_rel :: "BinaryOperator \<Rightarrow> literal \<Rightarrow> literal \<Rightarrow> bool" where
  "lit_rel op (LInt a) (LInt b) \<longleftrightarrow> int_rel op a b"
| "lit_rel op (LString a) (LString b) \<longleftrightarrow> str_rel op a b"
| "lit_rel op (LBool a) (LBool b) \<longleftrightarrow> int_rel op (of_bool a) (of_bool b)"
| "lit_rel op (LDouble a) (LDouble b) \<longleftrightarrow> f64_rel op a b"
| "lit_rel op (LInt a) (LDouble b) \<longleftrightarrow> f64_rel op (f64_of_int a) b"
| "lit_rel op (LDouble a) (LInt b) \<longleftrightarrow> f64_rel op a (f64_of_int b)"
| "lit_rel op _ _ \<longleftrightarrow> False"

definition pred_holds :: "PushablePredicate \<Rightarrow> literal \<Rightarrow> bool" where
  "pred_holds p v \<longleftrightarrow> (case pp_literal p of Literal l t \<Rightarrow> lit_rel (pp_op p) v l | _ \<Rightarrow> True)"

fun is_nan_literal :: "literal \<Rightarrow> bool" where
  "is_nan_literal (LDouble d) \<longleftrightarrow> f64_is_nan d"
| "is_nan_literal _ \<longleftrightarrow> False"

fun same_storage :: "literal \<Rightarrow> literal \<Rightarrow> bool" where
  "same_storage (LInt a) (LInt b) \<longleftrightarrow> in_int64 a \<and> in_int64 b"
| "same_storage (LDouble a) (LDouble b) \<longleftrightarrow> True"
| "same_storage (LString a) (LString b) \<longleftrightarrow> True"
| "same_storage (LBool a) (LBool b) \<longleftrightarrow> True"
| "same_storage _ _ \<longleftrightarrow> False"

fun literal_fits :: "literal \<Rightarrow> bool" where
  "literal_fits (LInt i) \<longleftrightarrow> in_int64 i"
| "literal_fits _ \<longleftrightarrow> True"

text \<open>
  What the Parquet format promises of recorded statistics: every value of the chunk that is
  neither NULL nor NaN lies between them.
\<close>

definition stats_cover :: "ColumnStatistics \<Rightarrow> literal \<Rightarrow> bool" where
  "stats_cover s v \<longleftrightarrow>
     v = LNull \<or> is_nan_literal v \<or> \<not> has_min_max s \<or>
     (same_storage (min_value s) v \<and> same_storage v (max_value s) \<and>
      lit_rel LessEqual (min_value s) v \<and> lit_rel LessEqual v (max_value s))"

text \<open>
  Where the comparison through \<open>double\<close> decides strict comparisons: no \<open>NaN\<close> under \<open>!=\<close>, and
  integers that \<open>double\<close> represents exactly.
\<close>

fun exact_literals :: "literal \<Rightarrow> literal \<Rightarrow> bool" where
  "exact_literals (LInt a) (LInt b) \<longleftrightarrow> \<bar>a\<bar> \<le> 2 ^ 53 \<and> \<bar>b\<bar> \<le> 2 ^ 53"
| "exact_literals _ _ \<longleftrightarrow> True"

definition prune_safe :: "ColumnStatistics \<Rightarrow> PushablePredicate \<Rightarrow> literal \<Rightarrow> bool" where
  "prune_safe s p v \<longleftrightarrow>
     (case pp_literal p of
        Literal l t \<Rightarrow>
          literal_fits l \<and>
          (pp_op p \<in> {Less, Greater, NotEqual} \<longrightarrow>
             exact_literals (min_value s) l \<and> exact_literals (max_value s) l) \<and>
          (pp_op p = NotEqual \<longrightarrow> \<not> is_nan_literal v \<and> \<not> is_nan_literal l)
      | _ \<Rightarrow> True)"

section \<open>The contract of a pruner\<close>

text \<open>
  \<open>proves s p\<close>: the summary \<open>s\<close> of a chunk proves \<open>p\<close> empty. \<open>covers s v\<close>: a value the chunk may
  hold. \<open>safe s p v\<close>: the side conditions under which the proof is valid.
\<close>

locale pruner =
  fixes proves :: "'s \<Rightarrow> PushablePredicate \<Rightarrow> bool"
    and covers :: "'s \<Rightarrow> literal \<Rightarrow> bool"
    and safe :: "'s \<Rightarrow> PushablePredicate \<Rightarrow> literal \<Rightarrow> bool"
  assumes proves_sound: "proves s p \<Longrightarrow> covers s v \<Longrightarrow> safe s p v \<Longrightarrow> \<not> pred_holds p v"
begin

text \<open>Rows are column-to-value functions; one refuted predicate empties the whole chunk.\<close>

lemma skipped_chunk_empty:
  assumes "p \<in> set ps" "proves s p"
    and "\<And>row. row \<in> R \<Longrightarrow> covers s (row (pp_column p)) \<and> safe s p (row (pp_column p))"
  shows "{row \<in> R. \<forall>p \<in> set ps. pred_holds p (row (pp_column p))} = {}"
  using assms proves_sound by blast

end

section \<open>Statistics meet the contract\<close>

lemma f64_cmp_sign:
  "f64_cmp a b > 0 \<longleftrightarrow> f64_lt b a" "f64_cmp a b < 0 \<longleftrightarrow> f64_lt a b"
  "f64_cmp a b \<ge> 0 \<longleftrightarrow> \<not> f64_lt a b" "f64_cmp a b \<le> 0 \<longleftrightarrow> \<not> f64_lt b a"
  "f64_cmp a b = 0 \<longleftrightarrow> \<not> f64_lt a b \<and> \<not> f64_lt b a"
  by (auto simp: f64_cmp_def f64_lt_def)

text \<open>Numbers, by the order of the doubles that the code compares.\<close>

lemma op_proves_empty_numeric:
  assumes "op_proves_empty op (f64_cmp a l) (f64_cmp b l) = Some r"
    and "f64_is_nan v \<or> (f64_le a v \<and> f64_le v b)"
    and "op = NotEqual \<Longrightarrow> \<not> f64_is_nan v \<and> \<not> f64_is_nan l"
  shows "\<not> f64_rel op v l"
  using assms
  by (cases op) (auto simp: op_proves_empty_def f64_cmp_sign f64_cmp_defs split: if_splits)

lemma int_key_less:
  assumes "in_int64 a" "in_int64 b" "f64_lt (f64_of_int a) (f64_of_int b)"
  shows "a < b"
proof (rule ccontr)
  assume "\<not> a < b"
  with f64_of_int_mono[of b a] assms show False by (simp add: f64_lt_def)
qed

lemma int_key_strict:
  assumes "\<bar>a\<bar> \<le> 2 ^ 53" "\<bar>b\<bar> \<le> 2 ^ 53"
  shows "f64_lt (f64_of_int a) (f64_of_int b) \<longleftrightarrow> a < b"
proof -
  have i: "in_int64 a" "in_int64 b"
    using assms by (auto simp: in_int64_def int64_min_def int64_max_def)
  show ?thesis
    using f64_of_int_strict_mono[OF assms] int_key_less[OF i] i by (auto simp: f64_lt_def)
qed

lemma op_proves_empty_int:
  assumes "op_proves_empty op (f64_cmp (f64_of_int a) (f64_of_int l))
      (f64_cmp (f64_of_int b) (f64_of_int l)) = Some r"
    and "in_int64 a" "in_int64 b" "in_int64 l" "a \<le> v" "v \<le> b"
    and "op \<in> {Less, Greater, NotEqual} \<Longrightarrow> \<bar>a\<bar> \<le> 2 ^ 53 \<and> \<bar>b\<bar> \<le> 2 ^ 53 \<and> \<bar>l\<bar> \<le> 2 ^ 53"
  shows "\<not> int_rel op v l"
  using assms int_key_less[of l a] int_key_less[of b l]
    int_key_strict[of a l] int_key_strict[of l a] int_key_strict[of b l] int_key_strict[of l b]
  by (cases op) (auto simp: op_proves_empty_def f64_cmp_sign split: if_splits)

lemma op_proves_empty_string:
  assumes "op_proves_empty op (if a < l then -1 else if l < a then 1 else 0)
      (if b < l then -1 else if l < b then 1 else 0) = Some r"
    and "a \<le> v" "v \<le> b"
  shows "\<not> str_rel op v l"
  using assms by (cases op) (auto simp: op_proves_empty_def split: if_splits)

lemma op_proves_empty_bool:
  assumes "op_proves_empty op (if a = l then 0 else if l then -1 else 1)
      (if b = l then 0 else if l then -1 else 1) = Some r"
    and "of_bool a \<le> (of_bool v :: int)" "of_bool v \<le> (of_bool b :: int)"
  shows "\<not> int_rel op (of_bool v) (of_bool l)"
  using assms by (cases op; cases a; cases b; cases v; cases l) (auto simp: op_proves_empty_def)

lemma predicate_proves_emptyE:
  assumes "predicate_proves_empty p s = Some r"
  obtains l t x y w where "has_min_max s" "pp_literal p = Literal l t" "l \<noteq> LNull"
    "compare_literals (min_value s) l = Some x" "compare_literals (max_value s) l = Some y"
    "op_proves_empty (pp_op p) x y = Some w"
  using assms
  by (auto simp: predicate_proves_empty_def split: if_splits expression.splits option.splits)

lemma stats_sound:
  assumes "predicate_proves_empty p s = Some r" "stats_cover s v" "prune_safe s p v"
  shows "\<not> pred_holds p v"
proof -
  from assms(1) obtain l t x y w where p: "has_min_max s" "pp_literal p = Literal l t" "l \<noteq> LNull"
    "compare_literals (min_value s) l = Some x" "compare_literals (max_value s) l = Some y"
    "op_proves_empty (pp_op p) x y = Some w" by (rule predicate_proves_emptyE)
  note safe = assms(3)[unfolded prune_safe_def p(2), simplified]
  have "\<not> lit_rel (pp_op p) v l"
  proof (cases v)
    case LNull
    then show ?thesis by simp
  next
    case (LBool v')
    with assms(2) p(1) obtain a b where s: "min_value s = LBool a" "max_value s = LBool b"
      "of_bool a \<le> (of_bool v' :: int)" "of_bool v' \<le> (of_bool b :: int)"
      by (cases "min_value s"; cases "max_value s") (auto simp: stats_cover_def)
    show ?thesis
    proof (cases l)
      case (LBool l')
      with p(4-6) s(1,2) have "op_proves_empty (pp_op p) (if a = l' then 0 else if l' then -1 else 1)
          (if b = l' then 0 else if l' then -1 else 1) = Some w"
        by (simp add: compare_literals_def)
      from op_proves_empty_bool[OF this s(3,4)] LBool \<open>v = literal.LBool v'\<close> show ?thesis by simp
    qed (use \<open>v = literal.LBool v'\<close> in auto)
  next
    case (LString v')
    with assms(2) p(1) obtain a b where s: "min_value s = LString a" "max_value s = LString b"
      "a \<le> v'" "v' \<le> b"
      by (cases "min_value s"; cases "max_value s") (auto simp: stats_cover_def)
    with p LString show ?thesis
      by (cases l) (auto simp: compare_literals_def op_proves_empty_string)
  next
    case (LInt v')
    with assms(2) p(1) obtain a b where s: "min_value s = LInt a" "max_value s = LInt b"
      "a \<le> v'" "v' \<le> b" "in_int64 a" "in_int64 b" "in_int64 v'"
      by (cases "min_value s"; cases "max_value s") (auto simp: stats_cover_def)
    then have f: "f64_le (f64_of_int a) (f64_of_int v')" "f64_le (f64_of_int v') (f64_of_int b)"
      by (auto simp: f64_le_def intro!: f64_of_int_mono)
    show ?thesis
    proof (cases l)
      case (LInt l')
      with p s safe \<open>v = literal.LInt v'\<close> show ?thesis
        using op_proves_empty_int[of "pp_op p" a l' b w v'] by (auto simp: compare_literals_def)
    next
      case (LDouble l')
      with p s f safe \<open>v = literal.LInt v'\<close> show ?thesis
        using op_proves_empty_numeric[of "pp_op p" "f64_of_int a" l' "f64_of_int b" w "f64_of_int v'"]
        by (auto simp: compare_literals_def)
    qed (use \<open>v = literal.LInt v'\<close> in auto)
  next
    case (LDouble v')
    show ?thesis
    proof (cases "f64_is_nan v'")
      case True
      then have "\<not> f64_rel (pp_op p) v' x" if "pp_op p \<noteq> NotEqual" for x
        using that by (cases "pp_op p") (auto simp: f64_cmp_defs)
      with LDouble safe True show ?thesis by (cases l) auto
    next
      case False
      with assms(2) p(1) LDouble obtain a b where s: "min_value s = literal.LDouble a"
        "max_value s = literal.LDouble b" "f64_le a v'" "f64_le v' b"
        by (cases "min_value s"; cases "max_value s") (auto simp: stats_cover_def)
      with p safe LDouble show ?thesis
        using op_proves_empty_numeric[of "pp_op p" a _ b w v']
        by (cases l) (auto simp: compare_literals_def)
    qed
  qed
  then show ?thesis by (simp add: pred_holds_def p(2))
qed

interpretation stats: pruner "\<lambda>s p. predicate_proves_empty p s \<noteq> None" stats_cover prune_safe
  by unfold_locales (auto dest: stats_sound)


section \<open>The decision on a file\<close>

lemma skip_reasonE:
  assumes "skip_reason g ps = Some r"
  obtains p s where "p \<in> set ps" "map_of (column_statistics g) (pp_column p) = Some s"
    "predicate_proves_empty p s \<noteq> None"
  using assms
proof (induction ps)
  case (Cons p ps)
  then show ?case by (auto split: option.splits)
qed simp

lemma skip_reason_complete:
  "p \<in> set ps \<Longrightarrow> map_of (column_statistics g) (pp_column p) = Some s \<Longrightarrow>
     predicate_proves_empty p s \<noteq> None \<Longrightarrow> skip_reason g ps \<noteq> None"
  by (induction ps) (auto split: option.splits)

lemma decide_row_groups:
  "selected_row_groups (foldl (decide_row_group ps) d gs)
     = selected_row_groups d @ map rg_index (filter (\<lambda>g. skip_reason g ps = None) gs)
   \<and> skipped_row_groups (foldl (decide_row_group ps) d gs)
     = skipped_row_groups d @ map rg_index (filter (\<lambda>g. skip_reason g ps \<noteq> None) gs)
   \<and> reasons (foldl (decide_row_group ps) d gs)
     = reasons d @ map (\<lambda>g. the (skip_reason g ps)) (filter (\<lambda>g. skip_reason g ps \<noteq> None) gs)"
  by (induction gs arbitrary: d) (auto simp: decide_row_group_def split: option.splits)

lemma evaluate_pruning_groups:
  "selected_row_groups (evaluate_pruning file ps)
     = map rg_index (filter (\<lambda>g. skip_reason g ps = None) (row_groups file))"
  "skipped_row_groups (evaluate_pruning file ps)
     = map rg_index (filter (\<lambda>g. skip_reason g ps \<noteq> None) (row_groups file))"
  by (simp_all add: evaluate_pruning_def Let_def decide_row_groups)

lemma row_group_loop_index:
  "row_group_loop s rg gs = Inr ms \<Longrightarrow> map rg_index ms = map (\<lambda>i. rg + int i) [0 ..< length gs]"
proof (induction gs arbitrary: rg ms)
  case (Cons g gs)
  from Cons.prems obtain m rest where m: "row_group_loop s (rg + 1) gs = Inr rest"
    "map rg_index ms = rg # map rg_index rest"
    by (auto simp: bindR_eq_Inr)
  have "map (\<lambda>i. rg + int i) [0 ..< length (g # gs)]
      = rg # map (\<lambda>i. rg + int i) (map Suc [0 ..< length gs])"
    by (simp add: upt_conv_Cons map_Suc_upt del: upt_Suc)
  also have "\<dots> = rg # map (\<lambda>i. (rg + 1) + int i) [0 ..< length gs]" by (simp add: algebra_simps)
  finally show ?case using Cons.IH[OF m(1)] m(2) by simp
qed simp

text \<open>
  Row groups are numbered consecutively from zero, and every one of them is either selected or
  skipped, never both: the two lists are in file order, disjoint, and together are all groups of
  the file that \<open>inspect_parquet_file\<close> read.
\<close>

theorem evaluate_pruning_partition:
  assumes "inspect_parquet_file rd path = Inr file"
  shows "sorted (selected_row_groups (evaluate_pruning file ps))
    \<and> sorted (skipped_row_groups (evaluate_pruning file ps))
    \<and> set (selected_row_groups (evaluate_pruning file ps))
       \<inter> set (skipped_row_groups (evaluate_pruning file ps)) = {}
    \<and> set (selected_row_groups (evaluate_pruning file ps))
       \<union> set (skipped_row_groups (evaluate_pruning file ps)) = {0 ..< int (length (row_groups file))}"
proof -
  from assms obtain footer where f: "rd path = Inr footer"
    by (auto simp: inspect_parquet_file_def bindR_eq_Inr)
  with assms obtain s gs where "row_group_loop s 0 gs = Inr (row_groups file)"
    by (cases "pf_schema footer") (auto simp: inspect_parquet_file_def bindR_eq_Inr)
  from row_group_loop_index[OF this]
  have idx: "map rg_index (row_groups file) = map int [0 ..< length (row_groups file)]"
    by (metis (no_types, lifting) add_0 diff_zero length_map length_upt map_cong)
  have d: "distinct (map rg_index (row_groups file))" and so: "sorted (map rg_index (row_groups file))"
    unfolding idx by (simp_all add: distinct_map sorted_iff_nth_mono)
  have u: "set (map rg_index (row_groups file)) = {0 ..< int (length (row_groups file))}"
    unfolding idx by (simp add: image_int_atLeastLessThan)
  have inj: "inj_on rg_index (set (row_groups file))" using d by (simp add: distinct_map)
  let ?sel = "{g \<in> set (row_groups file). skip_reason g ps = None}"
  let ?skip = "{g \<in> set (row_groups file). skip_reason g ps \<noteq> None}"
  have "rg_index ` ?sel \<inter> rg_index ` ?skip = rg_index ` (?sel \<inter> ?skip)"
    by (rule inj_on_image_Int[OF inj, symmetric]) auto
  moreover have "rg_index ` ?sel \<union> rg_index ` ?skip = rg_index ` set (row_groups file)" by blast
  moreover have "?sel \<inter> ?skip = {}" by blast
  moreover have "sorted (map rg_index (filter P (row_groups file)))" for P
    using so by (rule sorted_filter)
  ultimately show ?thesis using u by (simp only: evaluate_pruning_groups set_map set_filter) simp
qed


definition demo_footer :: "string \<Rightarrow> ParquetFooter result" where
  "demo_footer path = Inr
     \<lparr>pf_schema = Inr [\<lparr>aname = ''x'', atype = AInt64, anullable = True\<rparr>], pf_num_rows = 4,
      pf_row_groups =
        map (\<lambda>(lo, hi). \<lparr>prg_num_rows = 2, prg_compressed = 64, prg_byte_size = 128,
               prg_columns = [Some \<lparr>ps_null_count = None, ps_has_min_max = True,
                 ps_minmax = Int64Stats lo hi\<rparr>]\<rparr>) [(1, 5), (10, 20)]\<rparr>"

definition int_stats :: "int \<Rightarrow> int \<Rightarrow> ColumnStatistics" where
  "int_stats lo hi = no_statistics\<lparr>has_min_max := True, min_value := LInt lo, max_value := LInt hi\<rparr>"

definition demo_file :: FileMetadata where
  "demo_file =
     \<lparr>fm_path = ''f'', fm_schema = [\<lparr>fname = ''x'', ftype = int64_type True\<rparr>], fm_row_count = 4,
      row_groups =
        map (\<lambda>(i, lo, hi). \<lparr>rg_index = i, rg_row_count = 2, compressed_size_bytes = 64,
               uncompressed_size_bytes = 128, column_statistics = [(''x'', int_stats lo hi)]\<rparr>)
          [(0, 1, 5), (1, 10, 20)]\<rparr>"

lemma demo_file_read: "inspect_parquet_file demo_footer ''f'' = Inr demo_file"
  by (simp add: inspect_parquet_file_def demo_footer_def demo_file_def from_arrow_schema_def
      emplace_def extract_column_statistics_def decode_statistic_def int_stats_def)

definition int_pred :: "BinaryOperator \<Rightarrow> int \<Rightarrow> PushablePredicate" where
  "int_pred op i = \<lparr>pp_column = ''x'', pp_op = op, pp_literal = make_int64 i\<rparr>"

theorem evaluate_pruning_partition_witness:
  "set (selected_row_groups (evaluate_pruning demo_file [int_pred Greater 7]))
     \<union> set (skipped_row_groups (evaluate_pruning demo_file [int_pred Greater 7])) = {0 ..< 2}"
  using evaluate_pruning_partition[OF demo_file_read, of "[int_pred Greater 7]"]
  by (simp add: demo_file_def)

text \<open>
  A skipped row group holds no row that satisfies the predicates: for every row whose values
  the statistics cover, some predicate is false or unknown. Integers are compared as doubles, so
  \<open><\<close>, \<open>>\<close> and \<open>!=\<close> need statistics and literal of magnitude at most $2^{53}$, and \<open>!=\<close> a column
  without NaN; \<open>=\<close>, \<open><=\<close> and \<open>>=\<close> need nothing.
\<close>

theorem evaluate_pruning_sound:
  assumes "g \<in> set (row_groups file)" "distinct (map rg_index (row_groups file))"
    and "rg_index g \<in> set (skipped_row_groups (evaluate_pruning file ps))"
    and "\<And>c s row. map_of (column_statistics g) c = Some s \<Longrightarrow> row \<in> R \<Longrightarrow> stats_cover s (row c)"
    and "\<And>s p row. map_of (column_statistics g) (pp_column p) = Some s \<Longrightarrow> p \<in> set ps \<Longrightarrow> row \<in> R \<Longrightarrow>
      prune_safe s p (row (pp_column p))"
  shows "{row \<in> R. \<forall>p \<in> set ps. pred_holds p (row (pp_column p))} = {}"
proof -
  have inj: "inj_on rg_index (set (row_groups file))" using assms(2) by (simp add: distinct_map)
  from assms(3) obtain h where "h \<in> set (row_groups file)" "rg_index h = rg_index g"
    "skip_reason h ps \<noteq> None"
    by (auto simp: evaluate_pruning_groups)
  with assms(1) inj have "skip_reason g ps \<noteq> None" by (metis inj_onD)
  then obtain r where "skip_reason g ps = Some r" by blast
  then obtain p s where p: "p \<in> set ps" "map_of (column_statistics g) (pp_column p) = Some s"
    "predicate_proves_empty p s \<noteq> None" by (rule skip_reasonE)
  show ?thesis by (rule stats.skipped_chunk_empty[OF p(1,3)]) (use p assms(4,5) in auto)
qed


lemma demo_pruning:
  "skip_reason (row_groups demo_file ! 0) [int_pred Greater 7] \<noteq> None"
proof -
  have "f64_lt (f64_of_int 5) (f64_of_int 7)" by (simp add: int_key_strict)
  then have "compare_literals (LInt 5) (LInt 7) = Some (- 1)"
    by (simp add: compare_literals_def f64_cmp_def)
  moreover have "f64_lt (f64_of_int 1) (f64_of_int 7)" by (simp add: int_key_strict)
  then have "compare_literals (LInt 1) (LInt 7) = Some (- 1)"
    by (simp add: compare_literals_def f64_cmp_def)
  ultimately show ?thesis
    by (simp add: demo_file_def int_pred_def make_int64_def int_stats_def predicate_proves_empty_def
        op_proves_empty_def)
qed

theorem evaluate_pruning_sound_witness:
  "{row \<in> {\<lambda>c. LInt 3, \<lambda>c. LNull}.
      \<forall>p \<in> set [int_pred Greater 7]. pred_holds p (row (pp_column p))} = {}"
proof (rule evaluate_pruning_sound[of "row_groups demo_file ! 0" demo_file])
  show "rg_index (row_groups demo_file ! 0)
      \<in> set (skipped_row_groups (evaluate_pruning demo_file [int_pred Greater 7]))"
    unfolding evaluate_pruning_groups set_map set_filter using demo_pruning
    by (intro imageI) (simp add: demo_file_def)
qed (auto simp: demo_file_def int_stats_def stats_cover_def prune_safe_def int_pred_def make_int64_def
    in_int64_def int64_min_def int64_max_def split: if_splits)

section \<open>How sharp pruning is, and where it is wrong\<close>

lemma int_proof_exact:
  assumes "\<bar>lo\<bar> \<le> 2 ^ 53" "\<bar>hi\<bar> \<le> 2 ^ 53" "\<bar>l\<bar> \<le> 2 ^ 53" "lo \<le> hi" "is_comparison op"
  shows "op_proves_empty op (f64_cmp (f64_of_int lo) (f64_of_int l))
       (f64_cmp (f64_of_int hi) (f64_of_int l)) \<noteq> None
    \<longleftrightarrow> (\<forall>v. lo \<le> v \<and> v \<le> hi \<longrightarrow> \<not> int_rel op v l)"
proof (cases op)
  case NotEqual
  have "(\<forall>v. lo \<le> v \<and> v \<le> hi \<longrightarrow> v = l) \<longleftrightarrow> lo = l \<and> hi = l" using assms(4) by auto
  with NotEqual assms show ?thesis
    by (auto simp: op_proves_empty_def f64_cmp_sign int_key_strict)
qed (use assms in \<open>auto simp: op_proves_empty_def f64_cmp_sign int_key_strict not_le not_less\<close>)

text \<open>
  On integer statistics and literals of magnitude at most $2^{53}$ pruning is exact: the row
  group is skipped precisely when no integer between its minimum and maximum satisfies the
  comparison.
\<close>

theorem predicate_proves_empty_exact:
  assumes "\<bar>lo\<bar> \<le> 2 ^ 53" "\<bar>hi\<bar> \<le> 2 ^ 53" "\<bar>l\<bar> \<le> 2 ^ 53" "lo \<le> hi" "is_comparison op"
  shows "predicate_proves_empty (int_pred op l) (int_stats lo hi) \<noteq> None
    \<longleftrightarrow> (\<forall>v. lo \<le> v \<and> v \<le> hi \<longrightarrow> \<not> pred_holds (int_pred op l) (LInt v))"
  using int_proof_exact[OF assms]
  by (simp add: predicate_proves_empty_def int_pred_def int_stats_def make_int64_def
      compare_literals_def pred_holds_def del: not_None_eq)

theorem predicate_proves_empty_exact_witness:
  "predicate_proves_empty (int_pred Less 10) (int_stats 10 20) \<noteq> None"
  using predicate_proves_empty_exact[of 10 20 10 Less]
  by (simp add: pred_holds_def int_pred_def make_int64_def)

lemma f64_2_53: "f64_of_int (2 ^ 53 + 1) = f64_of_int (2 ^ 53)"
  by (simp add: f64_of_int_def round_mag_def ilog2_def scaled_def bitlen.simps rne_def Let_def)



text \<open>
  Statistics ignore NaN, and \<open>x != d\<close> is true of a NaN, yet a row group with minimum and
  maximum \<open>d\<close> is skipped whatever the number \<open>d\<close> is.
\<close>

theorem pruning_loses_nan:
  fixes d :: f64
  defines "s \<equiv> no_statistics\<lparr>has_min_max := True, min_value := LDouble d, max_value := LDouble d\<rparr>"
    and "p \<equiv> \<lparr>pp_column = ''x'', pp_op = NotEqual, pp_literal = make_float64 d\<rparr>"
  shows "predicate_proves_empty p s \<noteq> None \<and> stats_cover s (LDouble f64_nan)
    \<and> pred_holds p (LDouble f64_nan)"
proof -
  have nan: "f64_is_nan f64_nan" by (simp add: f64_is_nan_def f64_nan_def inf_mag_def)
  show ?thesis unfolding s_def p_def
    by (simp add: predicate_proves_empty_def stats_cover_def pred_holds_def make_float64_def nan
        compare_literals_def f64_cmp_def f64_lt_def op_proves_empty_def f64_eq_def)
qed

text \<open>
  A DECIMAL column of small precision may be stored as INT32 or INT64, holding the unscaled
  integer; \<open>dec_less k u i\<close> says that its value \<open>u / 10^k\<close> is below \<open>i\<close>.
\<close>

definition dec_less :: "nat \<Rightarrow> int \<Rightarrow> int \<Rightarrow> bool" where
  "dec_less k u i \<longleftrightarrow> u < i * 10 ^ k"

text \<open>
  The statistics of such a column are decoded as plain integers: for a DECIMAL(9,2) column
  with values from 1.00 to 2.00 the predicate \<open>price < 5\<close> skips the row group, although every
  value satisfies it.
\<close>

theorem pruning_misreads_integer_decimals:
  defines "s \<equiv> extract_column_statistics
     (Some \<lparr>ps_null_count = None, ps_has_min_max = True, ps_minmax = Int32Stats 100 200\<rparr>)"
  shows "predicate_proves_empty
      \<lparr>pp_column = ''price'', pp_op = Less, pp_literal = Literal (LInt 5) (decimal_type 9 2 False)\<rparr> s \<noteq> None
    \<and> {100 .. 200} \<subseteq> {u. dec_less 2 u 5}"
proof -
  have "\<not> f64_lt (f64_of_int 100) (f64_of_int 5)" by (simp add: int_key_strict)
  then have "f64_cmp (f64_of_int 100) (f64_of_int 5) \<ge> 0" by (simp add: f64_cmp_sign)
  then show ?thesis unfolding s_def
    by (simp add: extract_column_statistics_def decode_statistic_def predicate_proves_empty_def
        compare_literals_def op_proves_empty_def dec_less_def subset_iff)
qed

section \<open>From the WHERE clause to the row groups\<close>

text \<open>
  What a comparison kernel says of two values of one type, and that widening an \<open>int32\<close> keeps it.
\<close>

locale arrow_compare = arrow_kernels +
  assumes compare_true: "is_comparison op \<Longrightarrow>
      is_true (K (binary_function_name op) NoOpts [Scalar t a, Scalar t b]) \<Longrightarrow> lit_rel op a b"
    and widen_int32: "in_int32 i \<Longrightarrow>
      K ''cast'' (CastTo AInt64) [Scalar AInt32 (LInt i)] = Scalar AInt64 (LInt i)"
    and widen_null: "K ''cast'' (CastTo AInt64) [Scalar AInt32 LNull] = Scalar AInt64 LNull"

interpretation ref: arrow_compare ref_kernel
proof
  have "lit_rel op a b" if "is_true (cmp_literal op a b)" for op a b
    using that by (cases "(op, a, b)" rule: cmp_literal.cases) (auto simp: is_true_def)
  then show "lit_rel op a b"
    if "is_comparison op" "is_true (ref_kernel (binary_function_name op) NoOpts [Scalar t a, Scalar t b])"
    for op t a b
    using that unfolding ref_kernel_binary by (cases op) auto
qed (simp_all add: ref_kernel_def wrap64_id in_int32_def in_int64_def int64_min_def int64_max_def)

text \<open>
  The comparisons that may be pushed as they are: a column, or the widening of an INT32 column,
  against a literal of the same type.
\<close>

fun plain_column :: "expression \<Rightarrow> bool" where
  "plain_column (Column n i t) \<longleftrightarrow> True"
| "plain_column (Cast (Column n i t) ct) \<longleftrightarrow> type_id t = Int32 \<and> type_id ct = Int64"
| "plain_column _ \<longleftrightarrow> False"

fun plain_literal :: "expression \<Rightarrow> bool" where
  "plain_literal (Literal v t) \<longleftrightarrow> type_id t \<noteq> Decimal"
| "plain_literal _ \<longleftrightarrow> False"

fun plain_pushdown :: "expression \<Rightarrow> bool" where
  "plain_pushdown (Binary op l r t) \<longleftrightarrow>
     (if op = And then plain_pushdown l \<and> plain_pushdown r
      else is_comparison op \<longrightarrow> (plain_column l \<and> plain_literal r) \<or> (plain_literal l \<and> plain_column r))"
| "plain_pushdown _ \<longleftrightarrow> True"

fun datum_value :: "datum \<Rightarrow> literal" where
  "datum_value (Scalar t v) = v"
| "datum_value (StructD ds) = LNull"

text \<open>The row of a scan as a function of column names, and rows that match their schema.\<close>

definition named_value :: "Schema \<Rightarrow> row \<Rightarrow> string \<Rightarrow> literal" where
  "named_value s row n = (case find_field s n of None \<Rightarrow> LNull | Some i \<Rightarrow> datum_value (row ! i))"

fun datum_typed :: "DataType \<Rightarrow> datum \<Rightarrow> bool" where
  "datum_typed t (Scalar a v) \<longleftrightarrow>
     a = to_arrow_type t \<and> (type_id t = Int32 \<longrightarrow> v = LNull \<or> (\<exists>i. v = LInt i \<and> in_int32 i))"
| "datum_typed t (StructD ds) \<longleftrightarrow> False"

definition row_typed :: "Schema \<Rightarrow> row \<Rightarrow> bool" where
  "row_typed s row \<longleftrightarrow> list_all2 (\<lambda>f d. datum_typed (ftype f) d) s row"

fun scan_columns :: "Schema \<Rightarrow> expression \<Rightarrow> bool" where
  "scan_columns s (Column n i t) \<longleftrightarrow> find_field s n = Some i \<and> ftype (s ! i) = t"
| "scan_columns s (Cast e t) \<longleftrightarrow> scan_columns s e"
| "scan_columns s (Binary op l r t) \<longleftrightarrow> scan_columns s l \<and> scan_columns s r"
| "scan_columns s _ \<longleftrightarrow> True"

lemma eval_literal_typed:
  "literal_ok v (type_id t) \<Longrightarrow> eval K row (Literal v t) = Scalar (to_arrow_type t) v"
  by (cases v; cases "type_id t")
     (auto simp: literal_to_arrow_datum_def wrap32_id split: if_splits)

lemma flip_rel: "is_comparison op \<Longrightarrow> lit_rel op a b \<Longrightarrow> lit_rel (flip op) b a"
  by (cases "(op, a, b)" rule: lit_rel.cases; cases op) (auto simp: f64_cmp_defs)


lemma row_typed_column:
  assumes "row_typed s row" "find_field s n = Some i"
  shows "i < length row" "datum_typed (ftype (s ! i)) (row ! i)" "named_value s row n = datum_value (row ! i)"
  using assms find_field_Some[OF assms(2)]
  by (auto simp: row_typed_def named_value_def list_all2_conv_all_nth)

context arrow_compare
begin

lemma eval_plain_column:
  assumes "plain_column e" "scan_columns s e" "row_typed s row"
  shows "\<exists>n i t. unwrap_cast e = Column n i t \<and>
    eval K row e = Scalar (to_arrow_type (result_type e)) (named_value s row n)"
  using assms
proof (cases e rule: plain_column.cases)
  case (1 n i t)
  then show ?thesis using assms row_typed_column[of s row n i]
    by (cases "row ! i") auto
next
  case (2 n i t ct)
  have "datum_typed t (row ! i)" "i < length row" "named_value s row n = datum_value (row ! i)"
    using 2 assms row_typed_column[of s row n i] by auto
  with 2 assms(1) show ?thesis
    by (cases "row ! i") (auto simp: widen_int32 widen_null)
qed auto

lemma eval_compare_plain:
  assumes "is_comparison op" "wt (Binary op l r t)" "is_true (eval K row (Binary op l r t))"
    and "eval K row l = Scalar (to_arrow_type (result_type l)) a"
    and "eval K row r = Scalar (to_arrow_type (result_type r)) b" "tid r \<noteq> Decimal"
  shows "lit_rel op a b"
proof -
  have "to_arrow_type (result_type l) = to_arrow_type (result_type r)"
    using assms(1,2,6) binop_exclusive[of op] by (intro to_arrow_type_tid) auto
  moreover have "is_true (K (binary_function_name op) NoOpts [eval K row l, eval K row r])"
    using assms(1,3) by (cases op) auto
  ultimately show ?thesis using compare_true[OF assms(1)] assms(4,5) by simp
qed

lemma pushed_predicates_hold:
  assumes "is_true (eval K row e)" "wt e" "plain_pushdown e" "scan_columns s e" "row_typed s row"
    and "p \<in> set (collect_pushable_predicates e)"
  shows "pred_holds p (named_value s row (pp_column p))"
  using assms
proof (induction e rule: collect_pushable_predicates.induct)
  case (1 op l r t)
  show ?case
  proof (cases "op = And")
    case True
    with 1 show ?thesis by auto
  next
    case False
    with 1(8) have op: "is_comparison op" by (auto split: if_splits)
    have sc: "scan_columns s l" "scan_columns s r" using 1(6) by simp_all
    from 1(5) False op consider (left) "plain_column l" "plain_literal r"
      | (right) "plain_literal l" "plain_column r" by auto
    then show ?thesis
    proof cases
      case left
      then obtain v vt where r: "r = Literal v vt" "type_id vt \<noteq> Decimal" by (cases r) auto
      from eval_plain_column[OF left(1) sc(1) 1(7)] obtain n i ct where l: "unwrap_cast l = Column n i ct"
        "eval K row l = Scalar (to_arrow_type (result_type l)) (named_value s row n)" by blast
      have "eval K row r = Scalar (to_arrow_type (result_type r)) v"
        using 1(4) r(1) eval_literal_typed[of v vt] by simp
      from eval_compare_plain[OF op 1(4,3) l(2) this] r
      have "lit_rel op (named_value s row n) v" by simp
      moreover have "p = \<lparr>pp_column = n, pp_op = op, pp_literal = Literal v vt\<rparr>"
        using 1(8) False op r l(1) by simp
      ultimately show ?thesis by (simp add: pred_holds_def)
    next
      case right
      then obtain v vt where l: "l = Literal v vt" "type_id vt \<noteq> Decimal" by (cases l) auto
      from eval_plain_column[OF right(2) sc(2) 1(7)] obtain n i ct where r: "unwrap_cast r = Column n i ct"
        "eval K row r = Scalar (to_arrow_type (result_type r)) (named_value s row n)" by blast
      have ev: "eval K row l = Scalar (to_arrow_type (result_type l)) v"
        using 1(4) l(1) eval_literal_typed[of v vt] by simp
      have "tid r \<noteq> Decimal" using 1(4) op l binop_exclusive[of op] by auto
      from eval_compare_plain[OF op 1(4,3) ev r(2) this]
      have "lit_rel op v (named_value s row n)" .
      moreover have "p = \<lparr>pp_column = n, pp_op = flip op, pp_literal = Literal v vt\<rparr>"
        using 1(8) False op l r(1) by simp
      ultimately show ?thesis using flip_rel[OF op] by (simp add: pred_holds_def)
    qed
  qed
qed auto

end

text \<open>
  C30. A row group that the pushed predicates of a WHERE clause skip holds no row on which the
  clause is true, when the clause compares columns with literals of their own type. So scanning
  the selected row groups only returns the same filtered rows.
\<close>

theorem skipped_rows_fail_filter:
  assumes "arrow_compare K" "wt e" "plain_pushdown e" "scan_columns s e"
    and "skip_reason g (collect_pushable_predicates e) \<noteq> None"
    and rows: "\<And>row. row \<in> set rows \<Longrightarrow> row_typed s row"
    and cover: "\<And>c st row. map_of (column_statistics g) c = Some st \<Longrightarrow> row \<in> set rows \<Longrightarrow>
      stats_cover st (named_value s row c)"
    and safe: "\<And>st p row. map_of (column_statistics g) (pp_column p) = Some st \<Longrightarrow>
      p \<in> set (collect_pushable_predicates e) \<Longrightarrow> row \<in> set rows \<Longrightarrow>
      prune_safe st p (named_value s row (pp_column p))"
  shows "filter (\<lambda>row. is_true (eval K row e)) rows = []"
proof -
  from assms(5) obtain why where "skip_reason g (collect_pushable_predicates e) = Some why" by blast
  then obtain p st where p: "p \<in> set (collect_pushable_predicates e)"
    "map_of (column_statistics g) (pp_column p) = Some st" "predicate_proves_empty p st \<noteq> None"
    by (rule skip_reasonE)
  have "\<not> is_true (eval K row e)" if "row \<in> set rows" for row
    using arrow_compare.pushed_predicates_hold[OF assms(1) _ assms(2-4) rows[OF that] p(1)]
      stats.proves_sound[OF p(3) cover[OF p(2) that] safe[OF p(2,1) that]] by blast
  then show ?thesis by (simp add: filter_empty_conv)
qed

definition demo_where :: expression where
  "demo_where =
     Binary And
       (Binary Greater (Column ''x'' 0 (int64_type True)) (make_int64 7) (boolean_type True))
       (Binary NotEqual (make_int64 9) (Column ''x'' 0 (int64_type True)) (boolean_type True))
       (boolean_type True)"

theorem skipped_rows_fail_filter_witness:
  "filter (\<lambda>row. is_true (eval ref_kernel row demo_where)) [[int64_datum 3], [Scalar AInt64 LNull]] = []"
proof (rule skipped_rows_fail_filter[OF ref.arrow_compare_axioms,
      where g = "row_groups demo_file ! 0" and s = "fm_schema demo_file"])
  have "skip_reason g [int_pred Greater 7] \<noteq> None \<Longrightarrow>
      skip_reason g (collect_pushable_predicates demo_where) \<noteq> None" for g
    by (auto simp: demo_where_def make_int64_def int_pred_def split: option.splits)
  then show "skip_reason (row_groups demo_file ! 0) (collect_pushable_predicates demo_where) \<noteq> None"
    using demo_pruning by blast
qed (auto simp: demo_where_def make_int64_def in_int64_def int64_min_def int64_max_def demo_file_def
    row_typed_def named_value_def int_stats_def stats_cover_def prune_safe_def split: if_splits)

text \<open>
  Casts around the column or the literal are dropped before the comparison with the
  statistics: for \<open>ts < CAST(DATE '2024-01-01' AS TIMESTAMP)\<close> the pushed literal is the day
  number 19723, while the statistics are microseconds, so a row group of the year 2023 is skipped
  although the clause is true on its rows.
\<close>

theorem pushdown_drops_casts:
  defines "e \<equiv> Binary Less (Column ''ts'' 0 (timestamp_type False))
      (Cast (make_date32 19723) (timestamp_type False)) (boolean_type False)"
    and "row \<equiv> [Scalar (ATimestamp ''us'') (LInt 1680000000000000)]"
  shows "wt e \<and> is_true (eval ref_kernel row e)
    \<and> (\<exists>p. collect_pushable_predicates e = [p] \<and>
        predicate_proves_empty p (int_stats 1680000000000000 1680000000000000) \<noteq> None)"
proof -
  have "\<not> f64_lt (f64_of_int 1680000000000000) (f64_of_int 19723)" by (simp add: int_key_strict)
  then have "f64_cmp (f64_of_int 1680000000000000) (f64_of_int 19723) \<ge> 0" by (simp add: f64_cmp_sign)
  then show ?thesis unfolding e_def row_def
    by (simp add: make_date32_def in_int64_def in_int32_def int64_min_def int64_max_def
        literal_to_arrow_datum_def wrap32_def ref_kernel_def binop_of_name_def kMicrosPerDay_def
        wrap64_def predicate_proves_empty_def int_stats_def compare_literals_def op_proves_empty_def)
qed

end
