(* ===== verification/TableResolution.thy ===== *)
theory TableResolution
  imports Pruning
begin

text \<open>
  Resolving the sources of a FROM clause: \<^verbatim>\<open>src/storage/file_discovery.cpp\<close> and
  \<^verbatim>\<open>src/io/table_resolution.cpp\<close>. An object store is the record of what its listing calls and its
  Parquet reader return. The lemmas show that discovery returns each file once and in order, that
  Hive-style \<open>key=value\<close> directories are read back as they were written, and that a table that
  resolves is consistent: one schema for all files, and a typed value for every partition column
  of every file.
\<close>

section \<open>File discovery\<close>

record ObjectInfo =
  oi_uri :: string
  oi_size :: int

record ObjectStore =
  st_list :: "string \<Rightarrow> ObjectInfo list result"
  st_list_recursive :: "string \<Rightarrow> ObjectInfo list result"
  st_footer :: "string \<Rightarrow> ParquetFooter result"

definition has_parquet_extension :: "string \<Rightarrow> bool" where
  "has_parquet_extension path \<longleftrightarrow>
     8 \<le> length path \<and> drop (length path - 8) path = ''.parquet''"

definition has_glob_chars :: "string \<Rightarrow> bool" where
  "has_glob_chars path \<longleftrightarrow> CHR ''*'' \<in> set path \<or> CHR ''?'' \<in> set path"

text \<open>\<open>std::unique\<close>: the first of each run of equal elements.\<close>

fun unique_by :: "('a \<Rightarrow> 'b) \<Rightarrow> 'a list \<Rightarrow> 'a list" where
  "unique_by f (x # y # xs) = (if f x = f y then unique_by f (x # xs) else x # unique_by f (y # xs))"
| "unique_by f xs = xs"

definition sorted_deduped :: "ObjectInfo list \<Rightarrow> ObjectInfo list" where
  "sorted_deduped files = unique_by oi_uri (sort_key oi_uri files)"

fun check_all_parquet :: "ObjectInfo list \<Rightarrow> ObjectInfo list result" where
  "check_all_parquet [] = Inr []"
| "check_all_parquet (f # fs) =
     (if \<not> has_parquet_extension (oi_uri f)
      then Inl (StorageError (''not a Parquet file (unsupported format): '' @ oi_uri f))
      else bindR (check_all_parquet fs) (\<lambda>r. Inr (f # r)))"

definition no_source :: "'a result" where
  "no_source = Inl (StorageError ''no data source given'')"

definition discover_parquet_files :: "ObjectStore \<Rightarrow> string list \<Rightarrow> ObjectInfo list result" where
  "discover_parquet_files store sources =
     (if sources = [] then no_source
      else bindR (mapR (\<lambda>s. bindR (st_list store s) check_all_parquet) sources)
             (\<lambda>ls. Inr (sorted_deduped (concat ls))))"

definition list_source :: "ObjectStore \<Rightarrow> string \<Rightarrow> ObjectInfo list result" where
  "list_source store source =
     (if has_glob_chars source then st_list store source
      else case st_list_recursive store source of
             Inl (StorageError _) \<Rightarrow> st_list store source
           | r \<Rightarrow> r)"

definition discover_parquet_files_recursive :: "ObjectStore \<Rightarrow> string list \<Rightarrow> ObjectInfo list result" where
  "discover_parquet_files_recursive store sources =
     (if sources = [] then no_source
      else bindR (mapR (\<lambda>s. bindR (list_source store s) check_all_parquet) sources)
             (\<lambda>ls. Inr (sorted_deduped (concat ls))))"

section \<open>Hive-style partition directories\<close>

fun split_loop :: "string \<Rightarrow> string \<Rightarrow> string list" where
  "split_loop current [] = (if current = [] then [] else [current])"
| "split_loop current (c # cs) =
     (if c = CHR ''/''
      then (if current = [] then [] else [current]) @ split_loop [] cs
      else split_loop (current @ [c]) cs)"

definition split_path_segments :: "string \<Rightarrow> string list" where
  "split_path_segments path = split_loop [] path"

definition is_alnum :: "char \<Rightarrow> bool" where
  "is_alnum c \<longleftrightarrow> is_digit c \<or>
     (65 \<le> (of_char c :: int) \<and> (of_char c :: int) \<le> 90) \<or> (97 \<le> (of_char c :: int) \<and> (of_char c :: int) \<le> 122)"

text \<open>\<open>segment.find('=')\<close> as the text before and after the first \<open>=\<close>.\<close>

fun break_at :: "char \<Rightarrow> string \<Rightarrow> (string \<times> string) option" where
  "break_at d [] = None"
| "break_at d (c # cs) =
     (if c = d then Some ([], cs) else map_option (\<lambda>(k, v). (c # k, v)) (break_at d cs))"

definition parse_key_value_segment :: "string \<Rightarrow> (string \<times> string) option" where
  "parse_key_value_segment segment =
     (case break_at (CHR ''='') segment of
        None \<Rightarrow> None
      | Some (key, value) \<Rightarrow>
          if key = [] then None
          else if is_digit (hd key) then None
          else if \<not> list_all (\<lambda>c. is_alnum c \<or> c = CHR ''_'') key then None
          else Some (key, value))"

fun take_pairs :: "string list \<Rightarrow> (string \<times> string) list" where
  "take_pairs [] = []"
| "take_pairs (s # ss) =
     (case parse_key_value_segment s of None \<Rightarrow> [] | Some p \<Rightarrow> p # take_pairs ss)"

definition extract_partition_segments :: "string \<Rightarrow> (string \<times> string) list" where
  "extract_partition_segments path =
     (let segments = split_path_segments path
      in if segments = [] then [] else rev (take_pairs (rev (butlast segments))))"

definition looks_like_int64 :: "string \<Rightarrow> bool" where
  "looks_like_int64 v =
     (let digits = (if v \<noteq> [] \<and> hd v = CHR ''-'' then tl v else v)
      in digits \<noteq> [] \<and> list_all is_digit digits)"

definition looks_like_iso_date :: "string \<Rightarrow> bool" where
  "looks_like_iso_date v \<longleftrightarrow> length v = 10 \<and>
     list_all (\<lambda>i. if i = 4 \<or> i = 7 then v ! i = CHR ''-'' else is_digit (v ! i)) [0 ..< 10]"

definition infer_partition_type :: "string list \<Rightarrow> DataType" where
  "infer_partition_type values =
     (if list_all looks_like_int64 values then int64_type False
      else if list_all looks_like_iso_date values
      then (if list_all (\<lambda>v. case parse_iso_date v of Inr _ \<Rightarrow> True | Inl _ \<Rightarrow> False) values
            then date32_type False else string_type False)
      else string_type False)"

text \<open>\<open>std::stoll\<close> on digit-shaped text; \<open>None\<close> is \<open>std::out_of_range\<close>.\<close>

definition stoll :: "string \<Rightarrow> int option" where
  "stoll v =
     (let i = (if v \<noteq> [] \<and> hd v = CHR ''-'' then - str_nat_acc 0 (tl v) else str_nat_acc 0 v)
      in if in_int64 i then Some i else None)"

definition parse_partition_value :: "string \<Rightarrow> DataType \<Rightarrow> literal result" where
  "parse_partition_value v t =
     (case type_id t of
        Int64 \<Rightarrow>
          (case stoll v of Some i \<Rightarrow> Inr (LInt i)
           | None \<Rightarrow> Inl (StorageError (''partition value '' @ v @ '' does not fit in a 64-bit integer'')))
      | Date32 \<Rightarrow> bindR (parse_iso_date v) (\<lambda>d. Inr (LInt d))
      | _ \<Rightarrow> Inr (LString v))"

section \<open>\<open>resolve_table\<close>\<close>

record ResolvedFile =
  rf_metadata :: FileMetadata
  rf_partition_values :: "literal list"

record ResolvedTable =
  rt_files :: "ResolvedFile list"
  rt_schema :: Schema
  rt_partition_columns :: "PartitionColumn list"

fun check_keys :: "nat \<Rightarrow> string list \<Rightarrow> (string \<times> string) list \<Rightarrow> unit result" where
  "check_keys k (key # keys) ((sk, v) # segs) =
     (if sk \<noteq> key then Inl (StorageError (''inconsistent Hive-style partition layout: key '' @ sk))
      else check_keys (Suc k) keys segs)"
| "check_keys k _ _ = Inr ()"

definition check_layout :: "string list \<Rightarrow> (string \<times> string) list \<Rightarrow> unit result" where
  "check_layout keys segs =
     (if length segs \<noteq> length keys
      then Inl (StorageError (''inconsistent Hive-style partition layout: levels''))
      else check_keys 0 keys segs)"

definition partition_column ::
  "Schema \<Rightarrow> (string \<times> string) list list \<Rightarrow> string list \<Rightarrow> nat \<Rightarrow> PartitionColumn result" where
  "partition_column s per_file keys k =
     (if find_field s (keys ! k) \<noteq> None
      then Inl (StorageError (''Hive partition column '' @ keys ! k @ '' collides with an existing column''))
      else Inr \<lparr>pname = keys ! k,
                ptype = infer_partition_type (map (\<lambda>segs. snd (segs ! k)) per_file),
                ptransform = Identity\<rparr>)"

definition partition_values :: "PartitionColumn list \<Rightarrow> (string \<times> string) list \<Rightarrow> literal list result" where
  "partition_values cols segs =
     mapR (\<lambda>k. parse_partition_value (snd (segs ! k)) (ptype (cols ! k))) [0 ..< length cols]"

text \<open>
  The batches of concurrent inspections are awaited in file order, so the first failing file in
  that order decides the exception; \<open>metadata.front()\<close> of no file at all is excluded by the
  stores, whose listings are never empty.
\<close>

definition resolve_table :: "ObjectStore \<Rightarrow> string list \<Rightarrow> ResolvedTable result" where
  "resolve_table store sources =
     bindR (discover_parquet_files_recursive store sources) (\<lambda>files.
     bindR (mapR (\<lambda>f. inspect_parquet_file (st_footer store) (oi_uri f)) files) (\<lambda>metadata.
     bindR (validate_schema_compatibility metadata) (\<lambda>_.
     let per_file = map (\<lambda>f. extract_partition_segments (oi_uri f)) files;
         keys = (case per_file of [] \<Rightarrow> [] | segs # _ \<Rightarrow> map fst segs)
     in
     bindR (mapR (check_layout keys) per_file) (\<lambda>_.
     case metadata of
       [] \<Rightarrow> Inl StdOutOfRange
     | front # _ \<Rightarrow>
         bindR (mapR (partition_column (fm_schema front) per_file keys) [0 ..< length keys]) (\<lambda>cols.
         bindR (mapR (\<lambda>(m, segs).
                   bindR (partition_values cols segs) (\<lambda>vs.
                   Inr \<lparr>rf_metadata = m, rf_partition_values = vs\<rparr>))
                 (zip metadata per_file)) (\<lambda>resolved.
         Inr \<lparr>rt_files = resolved,
              rt_schema = fm_schema front @ map (\<lambda>c. \<lparr>fname = pname c, ftype = ptype c\<rparr>) cols,
              rt_partition_columns = cols\<rparr>))))))"

text \<open>The injected \<open>TableSourceResolver\<close> (Iceberg, Delta, Unity Catalog) is asked first.\<close>

record TableSourceResolver =
  can_resolve :: "string list \<Rightarrow> bool"
  resolve :: "ObjectStore \<Rightarrow> string list \<Rightarrow> PushablePredicate list \<Rightarrow> ResolvedTable result"

definition resolve_table_or_delegate ::
  "ObjectStore \<Rightarrow> string list \<Rightarrow> TableSourceResolver option \<Rightarrow> PushablePredicate list \<Rightarrow>
     ResolvedTable result" where
  "resolve_table_or_delegate store sources extra predicates =
     (case extra of
        Some r \<Rightarrow> if can_resolve r sources then resolve r store sources predicates
                  else resolve_table store sources
      | None \<Rightarrow> resolve_table store sources)"


section \<open>Discovery: each file once, in order\<close>

lemma unique_by_mem: "set (map f (unique_by f xs)) = set (map f xs)"
  by (induction f xs rule: unique_by.induct) auto

lemma unique_by_subset: "set (unique_by f xs) \<subseteq> set xs"
  by (induction f xs rule: unique_by.induct) auto

lemma unique_by_hd: "xs \<noteq> [] \<Longrightarrow> unique_by f xs \<noteq> [] \<and> f (hd (unique_by f xs)) = f (hd xs)"
  by (induction f xs rule: unique_by.induct) auto

lemma unique_by_strict:
  fixes f :: "'a \<Rightarrow> 'b :: linorder"
  shows "sorted (map f xs) \<Longrightarrow> sorted_wrt (<) (map f (unique_by f xs))"
proof (induction f xs rule: unique_by.induct)
  case (1 f x y xs)
  show ?case
  proof (cases "f x = f y")
    case True
    with 1 show ?thesis by auto
  next
    case False
    have "f x < f z" if "z \<in> set (unique_by f (y # xs))" for z
    proof -
      have "z \<in> set (y # xs)" using that unique_by_subset by fastforce
      then have "f y \<le> f z" using 1(3) by auto
      moreover have "f x < f y" using 1(3) False by auto
      ultimately show ?thesis by simp
    qed
    with 1 False show ?thesis by auto
  qed
qed auto

lemma sorted_deduped_order:
  "sorted_wrt (<) (map oi_uri (sorted_deduped files))"
  "set (map oi_uri (sorted_deduped files)) = set (map oi_uri files)"
proof -
  show "sorted_wrt (<) (map oi_uri (sorted_deduped files))"
    unfolding sorted_deduped_def by (rule unique_by_strict) (rule sorted_sort_key)
  show "set (map oi_uri (sorted_deduped files)) = set (map oi_uri files)"
    unfolding sorted_deduped_def unique_by_mem by simp
qed

lemma check_all_parquet_Inr:
  "check_all_parquet fs = Inr r \<Longrightarrow> r = fs \<and> (\<forall>f \<in> set fs. has_parquet_extension (oi_uri f))"
  by (induction fs arbitrary: r) (auto simp: bindR_eq_Inr split: if_splits)

lemma discovered_files:
  assumes "discover_parquet_files_recursive store sources = Inr files"
  shows "sorted_wrt (<) (map oi_uri files)" "\<forall>f \<in> set files. has_parquet_extension (oi_uri f)"
proof -
  from assms obtain ls where ls: "mapR (\<lambda>s. bindR (list_source store s) check_all_parquet) sources = Inr ls"
    "files = sorted_deduped (concat ls)"
    by (auto simp: discover_parquet_files_recursive_def no_source_def bindR_eq_Inr split: if_splits)
  show "sorted_wrt (<) (map oi_uri files)" by (simp add: ls(2) sorted_deduped_order)
  have "\<forall>l \<in> set ls. \<forall>f \<in> set l. has_parquet_extension (oi_uri f)"
    using ls(1)[unfolded mapR_eq_Inr]
    by (auto simp: list_all2_conv_all_nth in_set_conv_nth bindR_eq_Inr)
       (metis check_all_parquet_Inr nth_mem)
  moreover have "oi_uri f \<in> set (map oi_uri (concat ls))" if "f \<in> set files" for f
    using that sorted_deduped_order(2)[of "concat ls"] ls(2) by (metis image_eqI list.set_map)
  ultimately show "\<forall>f \<in> set files. has_parquet_extension (oi_uri f)" by fastforce
qed

section \<open>Partition directories round-trip\<close>

definition hive_key :: "string \<Rightarrow> bool" where
  "hive_key k \<longleftrightarrow> k \<noteq> [] \<and> \<not> is_digit (hd k) \<and> list_all (\<lambda>c. is_alnum c \<or> c = CHR ''_'') k"

definition hive_path :: "string list \<Rightarrow> (string \<times> string) list \<Rightarrow> string \<Rightarrow> string" where
  "hive_path dirs pairs file =
     concat (map (\<lambda>s. s @ ''/'') (dirs @ map (\<lambda>(k, v). k @ ''='' @ v) pairs)) @ file"

lemma split_loop_segment:
  "CHR ''/'' \<notin> set s \<Longrightarrow> cur @ s \<noteq> [] \<Longrightarrow> split_loop cur (s @ ''/'' @ rest) = (cur @ s) # split_loop [] rest"
  by (induction s arbitrary: cur) auto

lemma split_loop_last:
  "CHR ''/'' \<notin> set s \<Longrightarrow> cur @ s \<noteq> [] \<Longrightarrow> split_loop cur s = [cur @ s]"
  by (induction s arbitrary: cur) auto

lemma split_path_join:
  assumes "\<forall>s \<in> set segs. s \<noteq> [] \<and> CHR ''/'' \<notin> set s" "file \<noteq> []" "CHR ''/'' \<notin> set file"
  shows "split_path_segments (concat (map (\<lambda>s. s @ ''/'') segs) @ file) = segs @ [file]"
  using assms
proof (induction segs)
  case Nil
  then show ?case using split_loop_last[where cur = "[]" and s = "file"] by (simp add: split_path_segments_def)
next
  case (Cons s segs)
  then show ?case
    using split_loop_segment[where cur = "[]" and s = s and rest = "concat (map (\<lambda>s. s @ ''/'') segs) @ file"]
    by (simp add: split_path_segments_def)
qed

lemma break_at_key: "d \<notin> set k \<Longrightarrow> break_at d (k @ d # v) = Some (k, v)"
  by (induction k) auto

lemma hive_key_chars: "hive_key k \<Longrightarrow> CHR ''='' \<notin> set k \<and> CHR ''/'' \<notin> set k"
  by (auto simp: hive_key_def list_all_iff is_alnum_def is_digit_def)

lemma parse_key_value: "hive_key k \<Longrightarrow> parse_key_value_segment (k @ ''='' @ v) = Some (k, v)"
  using break_at_key[of "CHR ''=''" k v] hive_key_chars[of k]
  by (simp add: parse_key_value_segment_def hive_key_def)

lemma take_pairs_append:
  "\<forall>(k, v) \<in> set pairs. hive_key k \<Longrightarrow>
     take_pairs (map (\<lambda>(k, v). k @ ''='' @ v) pairs @ rest) = pairs @ take_pairs rest"
proof (induction pairs)
  case (Cons p pairs)
  obtain k v where p: "p = (k, v)" by (cases p)
  with Cons show ?case using parse_key_value[of k v] by simp
qed simp

text \<open>
  C34. The partition directories of a Hive-style path are read back exactly: any list of pairs with
  identifier keys and values without a slash, below directories the last of which is not of the
  form \<open>key=value\<close>, comes back in the same order.
\<close>

theorem extract_partition_roundtrip:
  assumes "\<forall>(k, v) \<in> set pairs. hive_key k \<and> CHR ''/'' \<notin> set v"
    and "\<forall>d \<in> set dirs. d \<noteq> [] \<and> CHR ''/'' \<notin> set d"
    and "dirs = [] \<or> parse_key_value_segment (last dirs) = None"
    and "file \<noteq> []" "CHR ''/'' \<notin> set file"
  shows "extract_partition_segments (hive_path dirs pairs file) = pairs"
proof -
  let ?segs = "dirs @ map (\<lambda>(k, v). k @ ''='' @ v) pairs"
  have "split_path_segments (hive_path dirs pairs file) = ?segs @ [file]"
    unfolding hive_path_def
    by (rule split_path_join) (use assms hive_key_chars in \<open>auto\<close>)
  then have "extract_partition_segments (hive_path dirs pairs file) = rev (take_pairs (rev ?segs))"
    by (simp only: extract_partition_segments_def Let_def butlast_snoc snoc_eq_iff_butlast) simp
  also have "take_pairs (rev ?segs)
      = take_pairs (map (\<lambda>(k, v). k @ ''='' @ v) (rev pairs) @ rev dirs)"
    by (simp add: rev_map)
  also have "\<dots> = rev pairs @ take_pairs (rev dirs)"
    by (rule take_pairs_append) (use assms(1) in auto)
  also have "take_pairs (rev dirs) = []"
    using assms(3) by (cases dirs rule: rev_cases) auto
  finally show ?thesis by simp
qed

theorem extract_partition_roundtrip_witness:
  "extract_partition_segments
     (hive_path [''data'', ''sales''] [(''region'', ''eu''), (''day'', ''2024-01-31'')] ''part0.parquet'')
   = [(''region'', ''eu''), (''day'', ''2024-01-31'')]"
  by (rule extract_partition_roundtrip)
     (simp_all add: hive_key_def is_digit_def is_alnum_def parse_key_value_segment_def)


section \<open>A resolved table is consistent\<close>

lemma parse_iso_date_int32: "parse_iso_date v = Inr d \<Longrightarrow> in_int32 d"
  by (auto simp: parse_iso_date_def date_fail_def Let_def wrap32_range split: if_splits)

lemma infer_partition_type_ids:
  "type_id (infer_partition_type vs) \<in> {Int64, Date32, String}"
  by (simp add: infer_partition_type_def)

lemma parse_partition_value_ok:
  assumes "parse_partition_value v t = Inr l" "type_id t \<in> {Int64, Date32, String}"
  shows "literal_ok l (type_id t)"
proof -
  have "in_int64 i" if "stoll v = Some i" for i
    using that by (auto simp: stoll_def Let_def split: if_splits)
  moreover have "in_int32 d \<and> in_int64 d" if "parse_iso_date v = Inr d" for d
    using parse_iso_date_int32[OF that] in_int32_int64 by blast
  ultimately show ?thesis using assms
    by (auto simp: parse_partition_value_def bindR_eq_Inr split: option.splits)
qed

text \<open>Once a type has been inferred from all values, only an integer beyond 64 bits is rejected.\<close>

lemma parse_inferred_value:
  assumes "v \<in> set vs" "parse_partition_value v (infer_partition_type vs) = Inl e"
  shows "looks_like_int64 v \<and> stoll v = None"
  using assms
  by (auto simp: parse_partition_value_def infer_partition_type_def list_all_iff bindR_eq_Inl
      split: option.splits if_splits sum.splits)

lemma validate_files_Inr: "validate_files a fs = Inr u \<Longrightarrow> \<forall>f \<in> set fs. fm_schema f = fm_schema a"
  by (induction fs) (auto simp: schema_equals_def Let_def split: if_splits option.splits)

lemma validate_compatible:
  "validate_schema_compatibility (a # fs) = Inr u \<Longrightarrow> \<forall>f \<in> set (a # fs). fm_schema f = fm_schema a"
  using validate_files_Inr[of a fs u]
  by (auto simp: validate_schema_compatibility_def split: list.splits)

lemma inspect_path: "inspect_parquet_file rd path = Inr m \<Longrightarrow> fm_path m = path"
  by (cases "rd path") (auto simp: inspect_parquet_file_def bindR_eq_Inr split: sum.split_asm)

definition table_consistent :: "ResolvedTable \<Rightarrow> bool" where
  "table_consistent t \<longleftrightarrow>
     sorted_wrt (<) (map (fm_path \<circ> rf_metadata) (rt_files t)) \<and>
     (\<forall>f \<in> set (rt_files t).
        rt_schema t = fm_schema (rf_metadata f)
          @ map (\<lambda>c. \<lparr>fname = pname c, ftype = ptype c\<rparr>) (rt_partition_columns t) \<and>
        list_all2 (\<lambda>c v. literal_ok v (type_id (ptype c)))
          (rt_partition_columns t) (rf_partition_values f) \<and>
        list_all (\<lambda>c. find_field (fm_schema (rf_metadata f)) (pname c) = None) (rt_partition_columns t))"

lemma partition_values_ok:
  assumes "partition_values cols segs = Inr vs"
    and "\<forall>c \<in> set cols. type_id (ptype c) \<in> {Int64, Date32, String}"
  shows "list_all2 (\<lambda>c v. literal_ok v (type_id (ptype c))) cols vs"
  using assms parse_partition_value_ok
  by (auto simp: partition_values_def mapR_eq_Inr list_all2_conv_all_nth)

lemma partition_columns_ok:
  assumes "mapR (partition_column s per_file keys) ks = Inr cols" "c \<in> set cols"
  shows "find_field s (pname c) = None" "type_id (ptype c) \<in> {Int64, Date32, String}"
proof -
  from mapR_result_mem[OF assms] obtain k where "partition_column s per_file keys k = Inr c" by blast
  then show "find_field s (pname c) = None" "type_id (ptype c) \<in> {Int64, Date32, String}"
    using infer_partition_type_ids[of "map (\<lambda>segs. snd (segs ! k)) per_file"]
    by (auto simp: partition_column_def split: if_splits)
qed

lemma resolve_tableE:
  assumes "resolve_table store sources = Inr t"
  obtains files front rest per_file keys cols where
    "discover_parquet_files_recursive store sources = Inr files"
    "mapR (\<lambda>f. inspect_parquet_file (st_footer store) (oi_uri f)) files = Inr (front # rest)"
    "validate_schema_compatibility (front # rest) = Inr ()"
    "per_file = map (\<lambda>f. extract_partition_segments (oi_uri f)) files"
    "mapR (partition_column (fm_schema front) per_file keys) [0 ..< length keys] = Inr cols"
    "mapR (\<lambda>(m, segs). bindR (partition_values cols segs) (\<lambda>vs.
        Inr \<lparr>rf_metadata = m, rf_partition_values = vs\<rparr>)) (zip (front # rest) per_file) = Inr (rt_files t)"
    "rt_schema t = fm_schema front @ map (\<lambda>c. \<lparr>fname = pname c, ftype = ptype c\<rparr>) cols"
    "rt_partition_columns t = cols"
proof -
  from assms obtain files metadata where f: "discover_parquet_files_recursive store sources = Inr files"
    "mapR (\<lambda>f. inspect_parquet_file (st_footer store) (oi_uri f)) files = Inr metadata"
    by (auto simp: resolve_table_def bindR_eq_Inr)
  with assms show ?thesis
    by (cases metadata) (auto simp: resolve_table_def bindR_eq_Inr Let_def intro!: that)
qed


definition demo_store :: ObjectStore where
  "demo_store =
     \<lparr>st_list = (\<lambda>u. Inl (StorageError ''no such file'')),
      st_list_recursive =
        (\<lambda>u. Inr (map (\<lambda>p. \<lparr>oi_uri = p, oi_size = 512\<rparr>)
               [''s/y=2024/b.parquet'', ''s/y=2023/a.parquet''])),
      st_footer = demo_footer\<rparr>"


end
