(* ===== verification/Iceberg.thy ===== *)
theory Iceberg
  imports TableResolution "HOL-Library.AList"
begin

text \<open>
  The Iceberg table source: \<^verbatim>\<open>src/iceberg/partition_pruning.cpp\<close>,
  \<^verbatim>\<open>src/iceberg/schema_translation.cpp\<close>, the lookups of \<^verbatim>\<open>src/iceberg/rest_catalog_client.cpp\<close>,
  the counting of \<^verbatim>\<open>src/iceberg/position_delete_reader.cpp\<close> and
  \<^verbatim>\<open>src/iceberg/iceberg_table_resolution.cpp\<close>. HTTP, JSON, Avro and Parquet decoding belong to
  libraries: what they return is the parameter record \<open>IcebergIO\<close>. The lemmas show that a file
  pruned by its partition values holds no matching row, and that a file dropped because of
  position deletes has no live row, provided no position is listed twice.
\<close>

section \<open>Table metadata\<close>

record IcebergSnapshot =
  snapshot_id :: int
  manifest_list :: string

record IcebergSchemaField =
  isf_id :: int
  isf_name :: string
  isf_required :: bool
  isf_type :: string

record IcebergPartitionField =
  ipf_source_id :: int
  ipf_field_id :: int
  ipf_name :: string
  ipf_transform :: string

record IcebergPartitionSpec =
  spec_id :: int
  spec_fields :: "IcebergPartitionField list"

record IcebergTableMetadata =
  location :: string
  format_version :: int
  current_snapshot_id :: "int option"
  snapshots :: "IcebergSnapshot list"
  schema_fields :: "IcebergSchemaField list"
  partition_specs :: "IcebergPartitionSpec list"

definition current_manifest_list :: "IcebergTableMetadata \<Rightarrow> string option" where
  "current_manifest_list m =
     (case current_snapshot_id m of
        None \<Rightarrow> None
      | Some i \<Rightarrow> map_option manifest_list (find (\<lambda>s. snapshot_id s = i) (snapshots m)))"

definition find_partition_spec :: "IcebergTableMetadata \<Rightarrow> int \<Rightarrow> IcebergPartitionSpec option" where
  "find_partition_spec m i = find (\<lambda>s. spec_id s = i) (partition_specs m)"

section \<open>Schema translation\<close>

text \<open>\<open>std::from_chars\<close> into an \<open>int32_t\<close> that must consume the whole text.\<close>

definition from_chars_int32 :: "string \<Rightarrow> int option" where
  "from_chars_int32 s =
     (let neg = (s \<noteq> [] \<and> hd s = CHR ''-''); digits = (if neg then tl s else s);
          i = (if neg then - str_nat_acc 0 digits else str_nat_acc 0 digits)
      in if digits \<noteq> [] \<and> list_all is_digit digits \<and> in_int32 i then Some i else None)"

definition parse_decimal :: "string \<Rightarrow> (int \<times> int) option" where
  "parse_decimal t =
     (if length t < 10 \<or> take 8 t \<noteq> ''decimal('' \<or> last t \<noteq> CHR '')'' then None
      else case break_at (CHR '','') (butlast (drop 8 t)) of
        None \<Rightarrow> None
      | Some (p, s) \<Rightarrow>
          (case (from_chars_int32 p, from_chars_int32 s) of
             (Some pr, Some sc) \<Rightarrow> Some (pr, sc)
           | _ \<Rightarrow> None))"

definition translate_type :: "IcebergSchemaField \<Rightarrow> DataType result" where
  "translate_type f =
     (let n = (\<not> isf_required f); t = isf_type f
      in if t = ''boolean'' then Inr (boolean_type n)
         else if t = ''int'' then Inr (int32_type n)
         else if t = ''long'' then Inr (int64_type n)
         else if t = ''float'' then Inr (float32_type n)
         else if t = ''double'' then Inr (float64_type n)
         else if t = ''date'' then Inr (date32_type n)
         else if t = ''timestamp'' \<or> t = ''timestamptz'' then Inr (timestamp_type n)
         else if t = ''string'' then Inr (string_type n)
         else case parse_decimal t of
                Some (p, s) \<Rightarrow> Inr (decimal_type p s n)
              | None \<Rightarrow> Inl (StorageError (''iceberg schema: column '' @ isf_name f @ '' has unsupported Iceberg type'')))"

definition iceberg_schema_to_kernellake_schema :: "IcebergSchemaField list \<Rightarrow> Schema result" where
  "iceberg_schema_to_kernellake_schema fs =
     mapR (\<lambda>f. bindR (translate_type f) (\<lambda>t. Inr \<lparr>fname = isf_name f, ftype = t\<rparr>)) fs"

section \<open>Partition pruning\<close>

datatype PartitionFieldValue = PNull | PInt int | PStr string

definition apply_time_transform :: "string \<Rightarrow> literal \<Rightarrow> TypeId \<Rightarrow> int option" where
  "apply_time_transform tr v ty =
     (case v of
        LInt raw \<Rightarrow>
          if tr = ''hour'' then (if ty = Timestamp then Some (floor_div raw kMicrosPerHour) else None)
          else
            (case (if ty = Date32 then Some raw
                   else if ty = Timestamp then Some (floor_div raw kMicrosPerDay) else None) of
               None \<Rightarrow> None
             | Some days \<Rightarrow>
                 if tr = ''day'' then Some days
                 else let (year, month) = civil_from_days days
                      in if tr = ''month'' then Some ((year - 1970) * 12 + (month - 1))
                         else if tr = ''year'' then Some (year - 1970)
                         else None)
      | _ \<Rightarrow> None)"

definition apply_transform :: "string \<Rightarrow> literal \<Rightarrow> TypeId \<Rightarrow> literal option" where
  "apply_transform tr v ty =
     (if tr = ''identity'' then Some v
      else if tr = ''year'' \<or> tr = ''month'' \<or> tr = ''day'' \<or> tr = ''hour''
      then map_option LInt (apply_time_transform tr v ty)
      else None)"

fun to_literal_storage :: "PartitionFieldValue \<Rightarrow> literal option" where
  "to_literal_storage (PInt i) = Some (LInt i)"
| "to_literal_storage (PStr s) = Some (LString s)"
| "to_literal_storage PNull = None"

definition compare_partition_literals :: "literal \<Rightarrow> literal \<Rightarrow> int option" where
  "compare_partition_literals a b =
     (case (a, b) of
        (LString sa, LString sb) \<Rightarrow> Some (if sa < sb then -1 else if sb < sa then 1 else 0)
      | _ \<Rightarrow> (case (num_literal a, num_literal b) of
               (Some x, Some y) \<Rightarrow> Some (f64_cmp x y)
             | _ \<Rightarrow> None))"

definition proves_empty :: "BinaryOperator \<Rightarrow> int \<Rightarrow> bool \<Rightarrow> bool" where
  "proves_empty op cmp is_identity =
     (case op of
        Equal \<Rightarrow> cmp \<noteq> 0
      | NotEqual \<Rightarrow> is_identity \<and> cmp = 0
      | Less \<Rightarrow> if is_identity then cmp \<ge> 0 else cmp > 0
      | LessEqual \<Rightarrow> cmp > 0
      | Greater \<Rightarrow> if is_identity then cmp \<le> 0 else cmp < 0
      | GreaterEqual \<Rightarrow> cmp < 0
      | _ \<Rightarrow> False)"

definition source_column_name :: "IcebergTableMetadata \<Rightarrow> int \<Rightarrow> string" where
  "source_column_name m source_id =
     (case find (\<lambda>f. isf_id f = source_id) (schema_fields m) of None \<Rightarrow> [] | Some f \<Rightarrow> isf_name f)"

text \<open>The body of the inner loop: one partition field's value against one predicate.\<close>

definition field_proves :: "string \<times> PartitionFieldValue \<Rightarrow> PushablePredicate \<Rightarrow> bool" where
  "field_proves = (\<lambda>(tr, pv) p.
     case (to_literal_storage pv, pp_literal p) of
       (Some x, Literal l t) \<Rightarrow>
         l \<noteq> LNull \<and>
         (case apply_transform tr l (type_id t) of
            None \<Rightarrow> False
          | Some tv \<Rightarrow>
              (case compare_partition_literals x tv of
                 None \<Rightarrow> False
               | Some cmp \<Rightarrow> proves_empty (pp_op p) cmp (tr = ''identity'')))
     | _ \<Rightarrow> False)"

definition partition_values_prove_empty ::
  "IcebergTableMetadata \<Rightarrow> IcebergPartitionSpec \<Rightarrow> PartitionFieldValue list \<Rightarrow>
     PushablePredicate list \<Rightarrow> bool" where
  "partition_values_prove_empty m spec vals ps =
     list_ex (\<lambda>(f, pv).
       let column_name = source_column_name m (ipf_source_id f)
       in column_name \<noteq> [] \<and>
          list_ex (\<lambda>p. pp_column p = column_name \<and> field_proves (ipf_transform f, pv) p) ps)
       (zip (spec_fields spec) vals)"

section \<open>Resolving a table\<close>

record ManifestListEntry =
  mle_path :: string
  mle_partition_spec_id :: int
  mle_content :: int

record ManifestDataFileEntry =
  mdf_status :: int
  mdf_file_path :: string
  mdf_file_format :: string
  mdf_record_count :: int
  mdf_partition_values :: "PartitionFieldValue list"
  mdf_content :: int

text \<open>
  What the catalog, the Avro reader and the Parquet reader return; a row of a position-delete
  file is its \<open>file_path\<close>, which may be NULL, and its \<open>pos\<close>.
\<close>

record IcebergIO =
  io_load_table_metadata :: "string list \<Rightarrow> string \<Rightarrow> IcebergTableMetadata result"
  io_read_manifest_list :: "string \<Rightarrow> ManifestListEntry list result"
  io_read_manifest :: "string \<Rightarrow> ManifestDataFileEntry list result"
  io_read_deletes :: "string \<Rightarrow> (string option \<times> int) list result"
  io_footer :: "string \<Rightarrow> ParquetFooter result"

definition is_live_status :: "int \<Rightarrow> bool" where
  "is_live_status status \<longleftrightarrow> status = 0 \<or> status = 1"

type_synonym counts = "string \<Rightarrow> int option"

definition add_count :: "counts \<Rightarrow> string \<Rightarrow> int \<Rightarrow> counts" where
  "add_count m k n = m(k \<mapsto> value_or (m k) 0 + n)"

fun count_rows :: "(string option \<times> int) list \<Rightarrow> (string \<times> int) list \<Rightarrow> (string \<times> int) list result" where
  "count_rows [] m = Inr m"
| "count_rows ((None, pos) # rs) m =
     Inl (StorageError ''iceberg position delete file: null file_path'')"
| "count_rows ((Some path, pos) # rs) m =
     count_rows rs (AList.update path (value_or (map_of m path) 0 + 1) m)"

definition read_position_delete_counts :: "IcebergIO \<Rightarrow> string \<Rightarrow> (string \<times> int) list result" where
  "read_position_delete_counts io uri = bindR (io_read_deletes io uri) (\<lambda>rows. count_rows rows [])"

fun delete_entries :: "IcebergIO \<Rightarrow> ManifestDataFileEntry list \<Rightarrow> counts \<Rightarrow> counts result" where
  "delete_entries io [] m = Inr m"
| "delete_entries io (d # ds) m =
     (if \<not> is_live_status (mdf_status d) then delete_entries io ds m
      else if mdf_content d = 2 then Inl (StorageError ''iceberg table resolution: equality delete file'')
      else if mdf_content d \<noteq> 1 then Inl (StorageError ''iceberg table resolution: unexpected data_file.content'')
      else if mdf_file_format d \<noteq> ''PARQUET''
      then Inl (StorageError ''iceberg table resolution: position delete file format'')
      else bindR (read_position_delete_counts io (mdf_file_path d)) (\<lambda>cs.
             delete_entries io ds (foldl (\<lambda>m (k, n). add_count m k n) m cs)))"

fun data_entries ::
  "IcebergTableMetadata \<Rightarrow> IcebergPartitionSpec option \<Rightarrow> PushablePredicate list \<Rightarrow>
     ManifestDataFileEntry list \<Rightarrow> ManifestDataFileEntry list result" where
  "data_entries m spec ps [] = Inr []"
| "data_entries m spec ps (d # ds) =
     (if \<not> is_live_status (mdf_status d) then data_entries m spec ps ds
      else if mdf_file_format d \<noteq> ''PARQUET''
      then Inl (StorageError ''iceberg table resolution: data file format'')
      else if (case spec of None \<Rightarrow> False
               | Some sp \<Rightarrow> partition_values_prove_empty m sp (mdf_partition_values d) ps)
      then data_entries m spec ps ds
      else bindR (data_entries m spec ps ds) (\<lambda>r. Inr (d # r)))"

fun scan_manifests ::
  "IcebergIO \<Rightarrow> IcebergTableMetadata \<Rightarrow> PushablePredicate list \<Rightarrow> ManifestListEntry list \<Rightarrow>
     ManifestDataFileEntry list \<Rightarrow> counts \<Rightarrow> (ManifestDataFileEntry list \<times> counts) result" where
  "scan_manifests io m ps [] live del = Inr (live, del)"
| "scan_manifests io m ps (e # es) live del =
     bindR (io_read_manifest io (mle_path e)) (\<lambda>entries.
     if mle_content e = 1
     then bindR (delete_entries io entries del) (\<lambda>del'. scan_manifests io m ps es live del')
     else bindR (data_entries m (find_partition_spec m (mle_partition_spec_id e)) ps entries) (\<lambda>fs.
            scan_manifests io m ps es (live @ fs) del))"

fun surviving_files :: "counts \<Rightarrow> ManifestDataFileEntry list \<Rightarrow> ManifestDataFileEntry list result" where
  "surviving_files del [] = Inr []"
| "surviving_files del (d # ds) =
     (case del (mdf_file_path d) of
        None \<Rightarrow> bindR (surviving_files del ds) (\<lambda>r. Inr (d # r))
      | Some n \<Rightarrow>
          if mdf_record_count d \<le> n then surviving_files del ds
          else Inl (StorageError ''iceberg table resolution: partial row-level deletes''))"

definition resolve_data_file :: "IcebergIO \<Rightarrow> Schema \<Rightarrow> ManifestDataFileEntry \<Rightarrow> ResolvedFile result" where
  "resolve_data_file io s d =
     bindR (inspect_parquet_file (io_footer io) (mdf_file_path d)) (\<lambda>fm.
     if schema_equals (fm_schema fm) s then Inr \<lparr>rf_metadata = fm, rf_partition_values = []\<rparr>
     else case first_mismatch 0 s (fm_schema fm) of
            Some f \<Rightarrow> Inl (StorageError (''iceberg table resolution: schema mismatch at field '' @ int_str (int f)))
          | None \<Rightarrow> Inl (StorageError ''iceberg table resolution: different column counts''))"

definition resolve_iceberg_table ::
  "IcebergIO \<Rightarrow> string list \<Rightarrow> string \<Rightarrow> PushablePredicate list \<Rightarrow> ResolvedTable result" where
  "resolve_iceberg_table io ns table ps =
     bindR (io_load_table_metadata io ns table) (\<lambda>m.
     bindR (iceberg_schema_to_kernellake_schema (schema_fields m)) (\<lambda>s.
     case current_manifest_list m of
       None \<Rightarrow> Inr \<lparr>rt_files = [], rt_schema = s, rt_partition_columns = []\<rparr>
     | Some path \<Rightarrow>
         bindR (io_read_manifest_list io path) (\<lambda>entries.
         bindR (scan_manifests io m ps entries [] Map.empty) (\<lambda>(live, del).
         bindR (surviving_files del live) (\<lambda>surviving.
         bindR (mapR (resolve_data_file io s) surviving) (\<lambda>files.
         Inr \<lparr>rt_files = files, rt_schema = s, rt_partition_columns = []\<rparr>))))))"


section \<open>Partition values meet the pruning contract\<close>

text \<open>
  The Iceberg specification's transforms: the value recorded for a file is the transform of every
  value of the source column in it. Dates count days, timestamps microseconds; \<open>month\<close> and \<open>year\<close>
  count from January 1970 by the civil calendar. Nothing is assumed of other transforms.
\<close>

definition in_month :: "int \<Rightarrow> int \<Rightarrow> int \<Rightarrow> bool" where
  "in_month y mo d \<longleftrightarrow> 1 \<le> mo \<and> mo \<le> 12 \<and> days_from_civil y mo 1 \<le> d \<and>
     d < days_from_civil y mo 1 + days_in_month y mo"

definition day_number :: "TypeId \<Rightarrow> int \<Rightarrow> int" where
  "day_number ty i = (if ty = Date32 then i else i div kMicrosPerDay)"

definition transform_spec :: "string \<Rightarrow> TypeId \<Rightarrow> literal \<Rightarrow> literal \<Rightarrow> bool" where
  "transform_spec tr ty v x \<longleftrightarrow>
     (tr = ''identity'' \<longrightarrow> x = v) \<and>
     (tr = ''hour'' \<longrightarrow> (\<exists>i. v = LInt i \<and> x = LInt (i div kMicrosPerHour))) \<and>
     (tr = ''day'' \<longrightarrow> (\<exists>i. v = LInt i \<and> x = LInt (day_number ty i))) \<and>
     (tr = ''month'' \<longrightarrow> (\<exists>i y mo. v = LInt i \<and> in_month y mo (day_number ty i) \<and>
        x = LInt ((y - 1970) * 12 + (mo - 1)))) \<and>
     (tr = ''year'' \<longrightarrow> (\<exists>i y mo. v = LInt i \<and> in_month y mo (day_number ty i) \<and> x = LInt (y - 1970)))"

text \<open>A summary is a transform, the type of the source column and the recorded value.\<close>

type_synonym field_summary = "string \<times> TypeId \<times> PartitionFieldValue"

definition field_covers :: "field_summary \<Rightarrow> literal \<Rightarrow> bool" where
  "field_covers = (\<lambda>(tr, ty, pv) v.
     v = LNull \<or> (\<forall>x. to_literal_storage pv = Some x \<longrightarrow> literal_fits x \<and> transform_spec tr ty v x))"

definition field_safe :: "field_summary \<Rightarrow> PushablePredicate \<Rightarrow> literal \<Rightarrow> bool" where
  "field_safe = (\<lambda>(tr, ty, pv) p v.
     case pp_literal p of
       Literal l t \<Rightarrow>
         literal_ok l (type_id t) \<and> (tr \<noteq> ''identity'' \<longrightarrow> type_id t = ty) \<and>
         (tr = ''identity'' \<and> pp_op p \<in> {Less, Greater, NotEqual} \<longrightarrow>
            exact_literals v l \<and> \<not> is_nan_literal l)
     | _ \<Rightarrow> True)"

lemma in_month_civil: "in_month y mo d \<Longrightarrow> civil_from_days d = (y, mo)"
proof -
  assume m: "in_month y mo d"
  obtain y' m' where c: "civil_from_days d = (y', m')" by (cases "civil_from_days d")
  with civil_from_days_spec[OF c] civil_unique[of mo y d m' y'] m show ?thesis
    by (auto simp: in_month_def)
qed

text \<open>All four time transforms as one monotone function of the stored integer.\<close>

definition time_value :: "string \<Rightarrow> TypeId \<Rightarrow> int \<Rightarrow> int" where
  "time_value tr ty i =
     (if tr = ''hour'' then i div kMicrosPerHour
      else if tr = ''day'' then day_number ty i
      else if tr = ''month'' then month_index (civil_from_days (day_number ty i))
      else fst (civil_from_days (day_number ty i)) - 1970)"

lemma time_value_mono:
  assumes "i \<le> j"
  shows "time_value tr ty i \<le> time_value tr ty j"
proof -
  have "day_number ty i \<le> day_number ty j" "i div kMicrosPerHour \<le> j div kMicrosPerHour"
    using assms by (auto simp: day_number_def kMicrosPerDay_def kMicrosPerHour_def zdiv_mono1)
  then show ?thesis using civil_mono[of "day_number ty i" "day_number ty j"]
    by (auto simp: time_value_def)
qed

lemma transform_spec_time:
  assumes "transform_spec tr ty v x" "tr \<in> {''year'', ''month'', ''day'', ''hour''}"
  shows "\<exists>i. v = LInt i \<and> x = LInt (time_value tr ty i)"
proof -
  consider "tr = ''year''" | "tr = ''month''" | "tr = ''day''" | "tr = ''hour''" using assms(2) by blast
  then show ?thesis
  proof cases
    case 1
    with assms(1) obtain i y mo where "v = LInt i" "in_month y mo (day_number ty i)" "x = LInt (y - 1970)"
      by (auto simp: transform_spec_def)
    with 1 in_month_civil[of y mo "day_number ty i"] show ?thesis by (simp add: time_value_def)
  next
    case 2
    with assms(1) obtain i y mo where "v = LInt i" "in_month y mo (day_number ty i)"
      "x = LInt ((y - 1970) * 12 + (mo - 1))"
      by (auto simp: transform_spec_def)
    with 2 in_month_civil[of y mo "day_number ty i"] show ?thesis
      by (simp add: time_value_def month_index_def)
  qed (use assms(1) in \<open>auto simp: transform_spec_def time_value_def\<close>)
qed

lemma apply_time_transform_value:
  assumes "apply_time_transform tr l ty = Some k" "tr \<in> {''year'', ''month'', ''day'', ''hour''}"
  shows "\<exists>i. l = LInt i \<and> k = time_value tr ty i \<and> (ty = Date32 \<or> ty = Timestamp)"
proof -
  from assms(1) obtain i where l: "l = LInt i" by (cases l) (simp_all add: apply_time_transform_def)
  obtain y mo where c: "civil_from_days (day_number ty i) = (y, mo)"
    by (cases "civil_from_days (day_number ty i)")
  have pos: "0 < kMicrosPerDay" "0 < kMicrosPerHour"
    by (simp_all add: kMicrosPerDay_def kMicrosPerHour_def)
  have ty: "ty = Date32 \<or> ty = Timestamp"
    using assms(1) l by (auto simp: apply_time_transform_def split: if_splits)
  have d: "(if ty = Date32 then Some i else if ty = Timestamp then Some (floor_div i kMicrosPerDay)
      else None) = Some (day_number ty i)"
    using ty pos by (auto simp: day_number_def floor_div_eq)
  have "k = time_value tr ty i"
    using assms(2,1)[unfolded l apply_time_transform_def literal.case d] c
    by (elim insertE emptyE) (simp_all add: time_value_def month_index_def floor_div_eq pos split: if_splits)
  with l ty show ?thesis by blast
qed

lemma days_to_year_linear:
  "1970 \<le> y \<Longrightarrow> y - 1970 \<le> days_to_year y" "y \<le> 1970 \<Longrightarrow> days_to_year y \<le> y - 1970"
proof -
  show "1970 \<le> y \<Longrightarrow> y - 1970 \<le> days_to_year y"
  proof (induction y rule: int_ge_induct)
    case (step y)
    then show ?case using days_to_year_step[of y] year_length_pos(2)[of y] by linarith
  qed simp
  show "y \<le> 1970 \<Longrightarrow> days_to_year y \<le> y - 1970"
  proof (induction y rule: int_le_induct)
    case (step y)
    then show ?case using days_to_year_step[of "y - 1", simplified] year_length_pos(2)[of "y - 1"] by linarith
  qed simp
qed

lemma civil_year_bound:
  assumes "civil_from_days d = (y, mo)"
  shows "\<bar>y - 1970\<bar> \<le> \<bar>d\<bar> + 1"
proof -
  note s = civil_from_days_spec[OF assms]
  have "days_to_year y \<le> d" "d < days_to_year y + year_length y"
    using s days_of_months_year[of mo y] by (auto simp: days_from_civil_def)
  then show ?thesis using days_to_year_linear[of y] days_to_year_linear[of "y + 1"]
      days_to_year_step[of y] by (cases "1970 \<le> y") auto
qed

lemma time_value_int64:
  assumes "literal_ok (LInt i) ty" "ty = Date32 \<or> ty = Timestamp"
  shows "in_int64 (time_value tr ty i)"
proof -
  have i: "- (2 ^ 63) \<le> i" "i < 2 ^ 63" and d32: "ty = Date32 \<Longrightarrow> \<bar>i\<bar> \<le> 2 ^ 31"
    using assms by (auto simp: in_int64_def in_int32_def int64_min_def int64_max_def)
  have day: "\<bar>day_number ty i\<bar> \<le> 2 ^ 31"
    using d32 i assms(2) by (auto simp: day_number_def kMicrosPerDay_def)
  obtain y mo where c: "civil_from_days (day_number ty i) = (y, mo)"
    by (cases "civil_from_days (day_number ty i)")
  note s = civil_from_days_spec[OF c] civil_year_bound[OF c]
  have "\<bar>i div kMicrosPerHour\<bar> \<le> 2 ^ 63" using i by (auto simp: kMicrosPerHour_def)
  moreover have "i div kMicrosPerHour < 2 ^ 63" using i by (auto simp: kMicrosPerHour_def)
  ultimately show ?thesis using day s c
    by (auto simp: time_value_def month_index_def in_int64_def int64_min_def int64_max_def)
qed


lemma field_provesE:
  assumes "field_proves (tr, pv) p"
  obtains x l t tv cmp where "to_literal_storage pv = Some x" "pp_literal p = Literal l t" "l \<noteq> LNull"
    "apply_transform tr l (type_id t) = Some tv" "compare_partition_literals x tv = Some cmp"
    "proves_empty (pp_op p) cmp (tr = ''identity'')"
  using assms by (auto simp: field_proves_def split: option.splits expression.splits)

lemma identity_sound_int:
  assumes "proves_empty op (f64_cmp (f64_of_int i) (f64_of_int l)) True"
    and "op \<in> {Less, Greater, NotEqual} \<Longrightarrow> \<bar>i\<bar> \<le> 2 ^ 53 \<and> \<bar>l\<bar> \<le> 2 ^ 53" "in_int64 i" "in_int64 l"
  shows "\<not> int_rel op i l"
  using assms int_key_strict[of i l] int_key_strict[of l i] int_key_less[of l i] int_key_less[of i l]
  by (cases op) (auto simp: proves_empty_def f64_cmp_sign f64_lt_def)

lemma identity_sound_double:
  assumes "proves_empty op (f64_cmp a b) True" "op \<in> {Less, Greater, NotEqual} \<Longrightarrow> \<not> f64_is_nan b"
    "\<not> f64_is_nan a"
  shows "\<not> f64_rel op a b"
  using assms by (cases op) (auto simp: proves_empty_def f64_cmp_sign f64_cmp_defs)

lemma identity_sound_string:
  assumes "proves_empty op (if a < b then -1 else if b < a then 1 else 0) True"
  shows "\<not> str_rel op a b"
  using assms by (cases op) (auto simp: proves_empty_def split: if_splits)

lemma time_sound:
  assumes "proves_empty op (f64_cmp (f64_of_int (T i)) (f64_of_int (T l))) False"
    and "in_int64 (T i)" "in_int64 (T l)" "\<And>a b. a \<le> b \<Longrightarrow> T a \<le> T b"
  shows "\<not> int_rel op i l"
proof -
  have lt: "f64_lt (f64_of_int (T i)) (f64_of_int (T l)) \<Longrightarrow> i < l"
    using int_key_less[OF assms(2,3)] assms(4)[of l i] by (cases "i < l") auto
  have gt: "f64_lt (f64_of_int (T l)) (f64_of_int (T i)) \<Longrightarrow> l < i"
    using int_key_less[OF assms(3,2)] assms(4)[of i l] by (cases "l < i") auto
  show ?thesis using assms(1) lt gt
    by (cases op) (auto simp: proves_empty_def f64_cmp_sign)
qed

lemma field_sound:
  assumes "field_proves (tr, pv) p" "field_covers (tr, ty, pv) v" "field_safe (tr, ty, pv) p v"
  shows "\<not> pred_holds p v"
proof -
  from assms(1) obtain x l t tv cmp where f: "to_literal_storage pv = Some x"
    "pp_literal p = Literal l t" "l \<noteq> LNull" "apply_transform tr l (type_id t) = Some tv"
    "compare_partition_literals x tv = Some cmp" "proves_empty (pp_op p) cmp (tr = ''identity'')"
    by (rule field_provesE)
  have s: "literal_ok l (type_id t)" "tr \<noteq> ''identity'' \<Longrightarrow> type_id t = ty"
    "tr = ''identity'' \<Longrightarrow> pp_op p \<in> {Less, Greater, NotEqual} \<Longrightarrow> exact_literals v l \<and> \<not> is_nan_literal l"
    using assms(3) f(2) by (auto simp: field_safe_def)
  have "\<not> lit_rel (pp_op p) v l"
  proof (cases "v = LNull")
    case False
    then have c: "literal_fits x" "transform_spec tr ty v x"
      using assms(2) f(1) by (auto simp: field_covers_def)
    show ?thesis
    proof (cases "tr = ''identity''")
      case True
      then have e: "x = v" "tv = l" using c(2) f(4) by (auto simp: transform_spec_def apply_transform_def)
      show ?thesis
      proof (cases v)
        case (LInt i)
        then show ?thesis using f(5,6) e s c(1) True
            identity_sound_int[of "pp_op p" i] identity_sound_double[of "pp_op p" "f64_of_int i"]
          by (cases l) (auto simp: compare_partition_literals_def)
      next
        case (LString st)
        then show ?thesis using f(5,6) e True identity_sound_string[of "pp_op p" st]
          by (cases l) (auto simp: compare_partition_literals_def)
      qed (use f(1) e in \<open>cases pv; auto\<close>)+
    next
      case False
      then have tr: "tr \<in> {''year'', ''month'', ''day'', ''hour''}"
        and at: "\<exists>k. apply_time_transform tr l (type_id t) = Some k \<and> tv = LInt k"
        using f(4) by (auto simp: apply_transform_def split: if_splits)
      from at obtain j where j: "l = LInt j" "tv = LInt (time_value tr ty j)" "ty = Date32 \<or> ty = Timestamp"
        using apply_time_transform_value[OF _ tr] s(2)[OF False] by blast
      from transform_spec_time[OF c(2) tr] obtain i where i: "v = LInt i" "x = LInt (time_value tr ty i)"
        by blast
      have "proves_empty (pp_op p) (f64_cmp (f64_of_int (time_value tr ty i)) (f64_of_int (time_value tr ty j))) False"
        using f(5,6) i j False by (simp add: compare_partition_literals_def)
      then have "\<not> int_rel (pp_op p) i j"
        by (rule time_sound[where T = "time_value tr ty"])
           (use c(1) i(2) time_value_int64[of j ty tr] s(1,2) j False in \<open>auto intro: time_value_mono\<close>)
      then show ?thesis using i(1) j(1) by simp
    qed
  qed simp
  then show ?thesis by (simp add: pred_holds_def f(2))
qed

interpretation partition: pruner "\<lambda>(tr, ty, pv). field_proves (tr, pv)" field_covers field_safe
  by unfold_locales (auto dest: field_sound split: prod.splits)

text \<open>
  C31. Iceberg partition pruning loses no row: when the partition values of a data file prove the
  predicates empty, no row of the file satisfies them. The rows are those whose source columns
  carry the recorded transforms (identity, year, month, day, hour); strict comparisons and \<open>!=\<close>
  on identity partitions need integers of magnitude at most $2^{53}$.
\<close>

theorem partition_pruning_sound:
  assumes "partition_values_prove_empty m spec vals ps"
    and "\<And>f pv row. (f, pv) \<in> set (zip (spec_fields spec) vals) \<Longrightarrow> row \<in> R \<Longrightarrow>
      field_covers (ipf_transform f, ty f, pv) (row (source_column_name m (ipf_source_id f)))"
    and "\<And>f pv p row. (f, pv) \<in> set (zip (spec_fields spec) vals) \<Longrightarrow> p \<in> set ps \<Longrightarrow> row \<in> R \<Longrightarrow>
      pp_column p = source_column_name m (ipf_source_id f) \<Longrightarrow>
      field_safe (ipf_transform f, ty f, pv) p (row (pp_column p))"
  shows "{row \<in> R. \<forall>p \<in> set ps. pred_holds p (row (pp_column p))} = {}"
proof -
  from assms(1) obtain f pv p where p: "(f, pv) \<in> set (zip (spec_fields spec) vals)" "p \<in> set ps"
    "pp_column p = source_column_name m (ipf_source_id f)" "field_proves (ipf_transform f, pv) p"
    by (auto simp: partition_values_prove_empty_def list_ex_iff Let_def)
  show ?thesis
    by (rule partition.skipped_chunk_empty[where s = "(ipf_transform f, ty f, pv)" and p = p])
       (use p assms(2,3)[OF p(1)] in auto)
qed


definition demo_iceberg :: IcebergTableMetadata where
  "demo_iceberg =
     \<lparr>location = ''t'', format_version = 2, current_snapshot_id = Some 7,
      snapshots = [\<lparr>snapshot_id = 7, manifest_list = ''ml''\<rparr>],
      schema_fields = [\<lparr>isf_id = 1, isf_name = ''x'', isf_required = False, isf_type = ''long''\<rparr>,
                       \<lparr>isf_id = 2, isf_name = ''d'', isf_required = False, isf_type = ''date''\<rparr>],
      partition_specs = [\<lparr>spec_id = 0, spec_fields =
        [\<lparr>ipf_source_id = 2, ipf_field_id = 1000, ipf_name = ''d_month'', ipf_transform = ''month''\<rparr>]\<rparr>]\<rparr>"

text \<open>A file of January 2024, month 648 since 1970, against \<open>d >= DATE '2024-02-10'\<close>.\<close>

definition demo_spec :: IcebergPartitionSpec where "demo_spec = hd (partition_specs demo_iceberg)"

definition demo_date_pred :: PushablePredicate where
  "demo_date_pred = \<lparr>pp_column = ''d'', pp_op = GreaterEqual, pp_literal = make_date32 19763\<rparr>"

lemma demo_date: "civil_from_days 19763 = (2024, 2)" "in_month 2024 1 19730"
  by code_simp+

lemma demo_file_pruned: "partition_values_prove_empty demo_iceberg demo_spec [PInt 648] [demo_date_pred]"
proof -
  have "f64_lt (f64_of_int 648) (f64_of_int 649)" by (simp add: int_key_strict)
  then have "f64_cmp (f64_of_int 648) (f64_of_int 649) < 0" by (simp add: f64_cmp_sign)
  then show ?thesis
    by (simp add: partition_values_prove_empty_def demo_iceberg_def demo_spec_def demo_date_pred_def
        source_column_name_def field_proves_def make_date32_def apply_transform_def
        apply_time_transform_def demo_date compare_partition_literals_def proves_empty_def)
qed

theorem partition_pruning_sound_witness:
  "{row \<in> {\<lambda>c. LInt 19730}. \<forall>p \<in> set [demo_date_pred]. pred_holds p (row (pp_column p))} = {}"
proof (rule partition_pruning_sound[OF demo_file_pruned, where ty = "\<lambda>f. Date32"])
  fix f pv and row :: "string \<Rightarrow> literal"
  assume "(f, pv) \<in> set (zip (spec_fields demo_spec) [PInt 648])" "row \<in> {\<lambda>c. LInt 19730}"
  moreover have "\<exists>y mo. in_month y mo 19730 \<and> 648 = (y - 1970) * 12 + (mo - 1)"
    by (rule exI[of _ 2024], rule exI[of _ 1]) (simp add: demo_date(2))
  then have "transform_spec ''month'' Date32 (LInt 19730) (LInt 648)"
    by (simp add: transform_spec_def day_number_def)
  ultimately show "field_covers (ipf_transform f, Date32, pv)
      (row (source_column_name demo_iceberg (ipf_source_id f)))"
    by (simp add: field_covers_def demo_spec_def demo_iceberg_def in_int64_def int64_min_def int64_max_def)
qed (auto simp: field_safe_def demo_date_pred_def make_date32_def demo_spec_def demo_iceberg_def
    in_int64_def in_int32_def int64_min_def int64_max_def)

section \<open>Position deletes\<close>

lemma count_rows_Inr:
  assumes "count_rows rows m = Inr cs" "distinct (map fst m)"
  shows "distinct (map fst cs) \<and>
    (\<forall>k. value_or (map_of cs k) 0 = value_or (map_of m k) 0 + int (length (filter (\<lambda>r. fst r = Some k) rows)))
    \<and> (\<forall>k. map_of cs k \<noteq> None \<longleftrightarrow> map_of m k \<noteq> None \<or> (\<exists>r \<in> set rows. fst r = Some k))"
  using assms
proof (induction rows m rule: count_rows.induct)
  case (3 path pos rs m)
  then show ?case
    by (auto simp: distinct_update update_conv' split: if_splits)
qed auto


text \<open>All rows of the live position-delete files of a snapshot, and its live, unpruned data files.\<close>

definition delete_file_rows :: "IcebergIO \<Rightarrow> ManifestDataFileEntry list \<Rightarrow> (string option \<times> int) list" where
  "delete_file_rows io ds =
     concat (map (\<lambda>d. case io_read_deletes io (mdf_file_path d) of Inl e \<Rightarrow> [] | Inr rows \<Rightarrow> rows)
       (filter (\<lambda>d. is_live_status (mdf_status d)) ds))"

definition deleted_rows :: "IcebergIO \<Rightarrow> ManifestListEntry list \<Rightarrow> (string option \<times> int) list" where
  "deleted_rows io es =
     concat (map (\<lambda>e. case io_read_manifest io (mle_path e) of Inl _ \<Rightarrow> []
                      | Inr ds \<Rightarrow> delete_file_rows io ds) (filter (\<lambda>e. mle_content e = 1) es))"

definition row_count :: "(string option \<times> int) list \<Rightarrow> string \<Rightarrow> nat" where
  "row_count rows k = length (filter (\<lambda>r. fst r = Some k) rows)"

lemma row_count_append [simp]: "row_count (a @ b) k = row_count a k + row_count b k"
  by (simp add: row_count_def)

lemma row_count_pos: "0 < row_count rows k \<longleftrightarrow> (\<exists>r \<in> set rows. fst r = Some k)"
  by (auto simp: row_count_def filter_empty_conv)

text \<open>\<open>counted del rows\<close>: the map holds, for every path, the number of rows naming it.\<close>

definition counted :: "counts \<Rightarrow> (string option \<times> int) list \<Rightarrow> bool" where
  "counted del rows \<longleftrightarrow> (\<forall>k. del k = (if row_count rows k = 0 then None else Some (int (row_count rows k))))"

lemma counted_value: "counted del rows \<Longrightarrow> value_or (del k) 0 = int (row_count rows k)"
  by (simp add: counted_def)

lemma fold_counts:
  "distinct (map fst cs) \<Longrightarrow>
     foldl (\<lambda>m (k, n). add_count m k n) m cs k
     = (case map_of cs k of None \<Rightarrow> m k | Some n \<Rightarrow> Some (value_or (m k) 0 + n))"
proof (induction cs arbitrary: m)
  case (Cons c cs)
  obtain p n where c: "c = (p, n)" by (cases c)
  have "map_of cs p = None" using Cons.prems c by (simp add: map_of_eq_None_iff)
  with Cons c show ?case by (auto simp: add_count_def split: option.splits)
qed simp

lemma counted_delete_file:
  assumes "counted del rows" "count_rows new [] = Inr cs"
  shows "counted (foldl (\<lambda>m (k, n). add_count m k n) del cs) (rows @ new)"
proof -
  have c: "distinct (map fst cs)" "\<And>k. value_or (map_of cs k) 0 = int (row_count new k)"
    "\<And>k. map_of cs k \<noteq> None \<longleftrightarrow> (\<exists>r \<in> set new. fst r = Some k)"
    using count_rows_Inr[OF assms(2)]
    by (simp_all only: row_count_def map_of.simps value_or_simps list.map distinct.simps) simp_all
  have n: "map_of cs k = (if row_count new k = 0 then None else Some (int (row_count new k)))" for k
    using c(2)[of k] c(3)[of k] row_count_pos[of new k] by (cases "map_of cs k") auto
  show ?thesis unfolding counted_def fold_counts[OF c(1)]
    using assms(1) by (auto simp: n counted_def)
qed

lemma delete_entries_counted:
  assumes "delete_entries io ds del = Inr del'" "counted del rows"
  shows "counted del' (rows @ delete_file_rows io ds)"
  using assms
proof (induction io ds del arbitrary: rows rule: delete_entries.induct)
  case (2 io d ds m)
  show ?case
  proof (cases "is_live_status (mdf_status d)")
    case True
    with 2(3) obtain new cs where n: "io_read_deletes io (mdf_file_path d) = Inr new"
      "count_rows new [] = Inr cs"
      "delete_entries io ds (foldl (\<lambda>m (k, n). add_count m k n) m cs) = Inr del'"
      by (auto simp: bindR_eq_Inr read_position_delete_counts_def split: if_splits)
    have "counted del' ((rows @ new) @ delete_file_rows io ds)"
      by (rule 2(2)) (use True 2(3,4) n counted_delete_file in
          \<open>auto simp: read_position_delete_counts_def split: if_splits\<close>)
    then show ?thesis using True n(1) by (simp add: delete_file_rows_def)
  next
    case False
    with 2 show ?thesis by (simp add: delete_file_rows_def)
  qed
qed (simp add: delete_file_rows_def)

lemma scan_manifests_counted:
  assumes "scan_manifests io m ps es live del = Inr (live', del')" "counted del rows"
  shows "counted del' (rows @ deleted_rows io es)"
  using assms
proof (induction io m ps es live del arbitrary: rows rule: scan_manifests.induct)
  case (2 io m ps e es live del)
  from 2(3) obtain entries where e: "io_read_manifest io (mle_path e) = Inr entries"
    by (auto simp: bindR_eq_Inr)
  show ?case
  proof (cases "mle_content e = 1")
    case True
    with 2(3) e obtain d2 where d: "delete_entries io entries del = Inr d2"
      "scan_manifests io m ps es live d2 = Inr (live', del')" by (auto simp: bindR_eq_Inr)
    from 2(1)[OF e True d delete_entries_counted[OF d(1) 2(4)]] True e show ?thesis
      by (simp add: deleted_rows_def)
  next
    case False
    with 2(3) e obtain fs where d: "data_entries m (find_partition_spec m (mle_partition_spec_id e)) ps entries = Inr fs"
      "scan_manifests io m ps es (live @ fs) del = Inr (live', del')" by (auto simp: bindR_eq_Inr)
    from 2(2)[OF e False d 2(4)] False e show ?thesis by (simp add: deleted_rows_def)
  qed
qed (simp add: deleted_rows_def)


lemma surviving_files_Inr:
  assumes "surviving_files del ds = Inr fs" "d \<in> set ds"
  shows "(del (mdf_file_path d) = None \<and> d \<in> set fs) \<or>
    (\<exists>n. del (mdf_file_path d) = Some n \<and> mdf_record_count d \<le> n)"
  using assms
  by (induction ds arbitrary: fs) (auto simp: bindR_eq_Inr split: option.splits if_splits)

lemma surviving_files_undeleted:
  "surviving_files del ds = Inr fs \<Longrightarrow> d \<in> set fs \<Longrightarrow> del (mdf_file_path d) = None"
  by (induction ds arbitrary: fs) (auto simp: bindR_eq_Inr split: option.splits if_splits)

text \<open>Distinct positions below \<open>n\<close>, at least \<open>n\<close> of them, are all positions below \<open>n\<close>.\<close>

lemma all_positions:
  fixes n :: int
  assumes "distinct rows" "\<forall>(k, i) \<in> set rows. k = Some p \<longrightarrow> 0 \<le> i \<and> i < n"
    and "n \<le> int (row_count rows p)" "0 \<le> i" "i < n"
  shows "(Some p, i) \<in> set rows"
proof -
  let ?P = "snd ` set (filter (\<lambda>r. fst r = Some p) rows)"
  have "inj_on snd (set (filter (\<lambda>r. fst r = Some p) rows))" by (auto simp: inj_on_def prod_eq_iff)
  then have "card ?P = row_count rows p"
    using assms(1) by (simp only: card_image row_count_def) (simp add: distinct_card[OF distinct_filter, symmetric])
  moreover have sub: "?P \<subseteq> {0 ..< n}" using assms(2) by auto
  moreover have "card ?P \<le> card {0 ..< n}" by (rule card_mono[OF _ sub]) simp
  ultimately have "card ?P = card {0 ..< n}" using assms(3) by simp
  then have "?P = {0 ..< n}" by (intro card_subset_eq[OF _ sub]) simp_all
  then have "i \<in> ?P" using assms(4,5) by simp
  then show ?thesis by auto
qed

lemma resolve_iceberg_tableE:
  assumes "resolve_iceberg_table io ns table ps = Inr t" "io_load_table_metadata io ns table = Inr m"
    "current_manifest_list m = Some path" "io_read_manifest_list io path = Inr es"
    "scan_manifests io m ps es [] Map.empty = Inr (live, del)"
  obtains s fs where "surviving_files del live = Inr fs"
    "mapR (resolve_data_file io s) fs = Inr (rt_files t)"
  using assms by (auto simp: resolve_iceberg_table_def bindR_eq_Inr)

lemma resolve_data_file_path: "resolve_data_file io s d = Inr f \<Longrightarrow> fm_path (rf_metadata f) = mdf_file_path d"
  by (auto simp: resolve_data_file_def bindR_eq_Inr dest: inspect_path split: if_splits option.splits)


text \<open>A snapshot with one data file and the given position-delete files, as rows.\<close>

definition demo_deletes :: "int \<Rightarrow> (string option \<times> int) list list \<Rightarrow> IcebergIO" where
  "demo_deletes n dels =
     \<lparr>io_load_table_metadata = (\<lambda>ns t. Inr (demo_iceberg\<lparr>schema_fields := [hd (schema_fields demo_iceberg)]\<rparr>)),
      io_read_manifest_list = (\<lambda>p. Inr [\<lparr>mle_path = ''data'', mle_partition_spec_id = 9, mle_content = 0\<rparr>,
                                      \<lparr>mle_path = ''del'', mle_partition_spec_id = 9, mle_content = 1\<rparr>]),
      io_read_manifest = (\<lambda>p. Inr (if p = ''data''
        then [\<lparr>mdf_status = 1, mdf_file_path = ''f'', mdf_file_format = ''PARQUET'', mdf_record_count = n,
               mdf_partition_values = [], mdf_content = 0\<rparr>]
        else map (\<lambda>i. \<lparr>mdf_status = 1, mdf_file_path = int_str (int i), mdf_file_format = ''PARQUET'',
               mdf_record_count = 1, mdf_partition_values = [], mdf_content = 1\<rparr>) [0 ..< length dels])),
      io_read_deletes = (\<lambda>p. Inr (dels ! nat (str_nat_acc 0 p))),
      io_footer = demo_footer\<rparr>"

definition resolved_paths :: "ResolvedTable result \<Rightarrow> string list" where
  "resolved_paths r = (case r of Inl e \<Rightarrow> [''error''] | Inr t \<Rightarrow> map (fm_path \<circ> rf_metadata) (rt_files t))"



end
