(* ===== verification/Binder.thy ===== *)
theory Binder
  imports Expr
begin

text \<open>
  The SQL syntax tree of \<^verbatim>\<open>include/kernellake/sql/ast.hpp\<close> and the binder of
  \<^verbatim>\<open>src/planner/binder.cpp\<close>, which resolves column names to positions, types every expression and
  inserts casts. The lemmas show that whatever binds is well typed, reads only columns of the
  FROM clause, and has an aggregate only where the clause allows one.
\<close>

section \<open>The syntax tree\<close>

datatype ast_literal =
    LitInteger int | LitFloat f64 | LitString string | LitBoolean bool | LitDate int | LitNull

datatype AstBinaryOp = AAdd | ASubtract | AMultiply | ADivide | AEq | ANotEq | ALt | ALtEq | AGt | AGtEq | AAnd | AOr

datatype AstUnaryOp = ANot | ANegate | AIsNull | AIsNotNull

text \<open>
  One constructor per alternative of the \<open>std::variant\<close>. An alias belongs to an item of the SELECT
  list; the statements under IN, EXISTS and scalar subqueries are nested selects.
\<close>

datatype AstExpr =
    AstColumnRef string "string option"
  | AstStar
  | AstLiteral ast_literal
  | AstBinary AstBinaryOp AstExpr AstExpr
  | AstUnary AstUnaryOp AstExpr
  | AstBetween AstExpr AstExpr AstExpr
  | AstAggregate AggregateFunction "AstExpr option"
  | AstLike AstExpr AstExpr bool
  | AstIn AstExpr "AstExpr list" "AstSelectStatement option" bool
  | AstCase "(AstExpr \<times> AstExpr) list" "AstExpr option"
  | AstCast AstExpr string int int
  | AstExtract DatePart AstExpr
  | AstSubstring AstExpr int int
  | AstSubquery AstSelectStatement
  | AstExists AstSelectStatement bool
and AstSelectStatement = AstSelect
    (select_list: "(AstExpr \<times> string option) list")
    (from_paths: "string list")
    (from_alias: "string option")
    (join_clause: "AstJoinClause option")
    (from_subquery: "AstSelectStatement option")
    (where_clause: "AstExpr option")
    (group_by: "AstExpr list")
    (having_clause: "AstExpr option")
    (order_by: "(AstExpr \<times> bool) list")
    (limit_clause: "int option")
and AstJoinClause = AstJoin (first_paths: "string list") (first_alias: string) (join_steps: "AstJoinStep list")
and AstJoinStep = AstStep
    (step_paths: "string list") (step_alias: string) (step_condition: AstExpr)
    (step_type: JoinType) (derived_source: "AstSelectStatement option")

section \<open>Numeric types\<close>

fun is_numeric :: "TypeId \<Rightarrow> bool" where
  "is_numeric Int32 = True" | "is_numeric Int64 = True" | "is_numeric UInt32 = True"
| "is_numeric UInt64 = True" | "is_numeric Float32 = True" | "is_numeric Float64 = True"
| "is_numeric Decimal = True" | "is_numeric _ = False"

definition is_floating :: "TypeId \<Rightarrow> bool" where
  "is_floating i \<longleftrightarrow> i = Float32 \<or> i = Float64"

definition same_type :: "DataType \<Rightarrow> DataType \<Rightarrow> bool" where
  "same_type a b \<longleftrightarrow> type_id a = type_id b \<and> precision a = precision b \<and> scale a = scale b"

definition promote_numeric :: "DataType \<Rightarrow> DataType \<Rightarrow> DataType result" where
  "promote_numeric a b =
     (let n = (nullable a \<or> nullable b)
      in if type_id a = Decimal \<or> type_id b = Decimal
         then if type_id a = Decimal \<and> type_id b = Decimal
              then if precision a = precision b \<and> scale a = scale b
                   then Inr \<lparr>type_id = Decimal, nullable = n, precision = precision a, scale = scale a\<rparr>
                   else Inl (BindingError ''mixing two DECIMAL types with different precision/scale'')
              else let d = (if type_id a = Decimal then a else b)
                   in Inr \<lparr>type_id = Decimal, nullable = n, precision = precision d, scale = scale d\<rparr>
         else if is_floating (type_id a) \<or> is_floating (type_id b) then Inr (float64_type n)
         else
           let a_signed = (type_id a = Int32 \<or> type_id a = Int64);
               b_signed = (type_id b = Int32 \<or> type_id b = Int64);
               a_unsigned = (type_id a = UInt32 \<or> type_id a = UInt64);
               b_unsigned = (type_id b = UInt32 \<or> type_id b = UInt64)
           in if (a_signed \<and> b_unsigned) \<or> (a_unsigned \<and> b_signed)
              then Inl (BindingError ''mixing signed and unsigned integer types is not yet supported'')
              else if type_id a = UInt64 \<or> type_id b = UInt64 then Inr (uint64_type n)
              else if type_id a = Int64 \<or> type_id b = Int64 then Inr (int64_type n)
              else if type_id a = UInt32 \<or> type_id b = UInt32 then Inr (uint32_type n)
              else Inr (int32_type n))"

definition resolve_cast_type_name :: "string \<Rightarrow> int \<Rightarrow> int \<Rightarrow> bool \<Rightarrow> DataType result" where
  "resolve_cast_type_name name p s n =
     (if name = ''BIGINT'' then Inr (int64_type n)
      else if name = ''INT'' then Inr (int32_type n)
      else if name = ''BOOLEAN'' then Inr (boolean_type n)
      else if name = ''DOUBLE'' then Inr (float64_type n)
      else if name = ''FLOAT'' then Inr (float32_type n)
      else if name = ''DATE'' then Inr (date32_type n)
      else if name = ''DATETIME'' then Inr (timestamp_type n)
      else if name = ''VARCHAR'' then Inr (string_type n)
      else if name = ''DECIMAL''
      then if p \<le> 0 then Inl (BindingError ''CAST to DECIMAL requires explicit precision and scale'')
           else if 38 < p then Inl (BindingError ''DECIMAL precision must be between 1 and 38'')
           else if s < 0 \<or> p < s then Inl (BindingError ''DECIMAL scale must be between 0 and precision'')
           else Inr (decimal_type p s n)
      else Inl (BindingError (''CAST to unknown type '' @ name)))"

text \<open>\<open>std::pow(10.0, k)\<close>, correctly rounded.\<close>

definition f64_pow10 :: "int \<Rightarrow> f64" where
  "f64_pow10 k = f64_pack False (if 0 \<le> k then round_mag (10 ^ nat k) 1 else round_mag 1 (10 ^ nat (- k)))"

definition f64_abs :: "f64 \<Rightarrow> f64" where "f64_abs w = f64_pack False (f64_mag w)"

fun literal_magnitude :: "literal \<Rightarrow> f64" where
  "literal_magnitude (LInt i) = f64_of_int i"
| "literal_magnitude (LDouble d) = d"
| "literal_magnitude _ = f64_of_int 0"

definition fits_decimal :: "literal \<Rightarrow> DataType \<Rightarrow> bool" where
  "fits_decimal v t \<longleftrightarrow>
     \<not> f64_lt (f64_sub (f64_pow10 (value_or (precision t) 0)) (f64_of_int 1))
          (f64_mul (f64_abs (literal_magnitude v)) (f64_pow10 (value_or (scale t) 0)))"

definition cast_if_needed :: "expression \<Rightarrow> DataType \<Rightarrow> expression result" where
  "cast_if_needed e target =
     (let current = result_type e
      in if same_type current target then Inr e
         else if type_id target = Decimal \<and> type_id current \<noteq> Decimal
         then case e of
                Literal v t \<Rightarrow>
                  if v \<noteq> LNull \<and> \<not> fits_decimal v target
                  then Inl (BindingError ''numeric literal does not fit in DECIMAL'')
                  else Inr (Literal v target)
              | _ \<Rightarrow> Inl (BindingError (''mixing DECIMAL with a non-literal '' @ datatype_str current))
         else Inr (Cast e target))"

section \<open>Aggregates in the syntax tree\<close>

lemma ast_pair_size [termination_simp]:
  fixes c r :: AstExpr
  assumes "(c, r) \<in> set wts"
  shows "size c < Suc (size_list (size_prod size size) wts + k)"
    "size r < Suc (size_list (size_prod size size) wts + k)"
proof -
  have "size_prod size size (c, r) \<le> size_list (size_prod size size) wts"
    using assms by (induction wts) auto
  then show "size c < Suc (size_list (size_prod size size) wts + k)"
    "size r < Suc (size_list (size_prod size size) wts + k)" by simp_all
qed

fun contains_aggregate :: "AstExpr \<Rightarrow> bool" where
  "contains_aggregate (AstAggregate f arg) \<longleftrightarrow> True"
| "contains_aggregate (AstBinary op l r) \<longleftrightarrow> contains_aggregate l \<or> contains_aggregate r"
| "contains_aggregate (AstUnary op e) \<longleftrightarrow> contains_aggregate e"
| "contains_aggregate (AstCast e n p s) \<longleftrightarrow> contains_aggregate e"
| "contains_aggregate (AstExtract p e) \<longleftrightarrow> contains_aggregate e"
| "contains_aggregate (AstSubstring e s n) \<longleftrightarrow> contains_aggregate e"
| "contains_aggregate (AstBetween v l u) \<longleftrightarrow>
     contains_aggregate v \<or> contains_aggregate l \<or> contains_aggregate u"
| "contains_aggregate (AstLike v p neg) \<longleftrightarrow> contains_aggregate v \<or> contains_aggregate p"
| "contains_aggregate (AstIn v items sub neg) \<longleftrightarrow>
     contains_aggregate v \<or> list_ex contains_aggregate items"
| "contains_aggregate (AstCase wts els) \<longleftrightarrow>
     list_ex (\<lambda>(c, r). contains_aggregate c \<or> contains_aggregate r) wts \<or>
     (case els of None \<Rightarrow> False | Some e \<Rightarrow> contains_aggregate e)"
| "contains_aggregate _ \<longleftrightarrow> False"

fun references_ungrouped_column :: "expression \<Rightarrow> string list \<Rightarrow> bool \<Rightarrow> bool" where
  "references_ungrouped_column (Column n i t) keys inside \<longleftrightarrow>
     \<not> inside \<and> structural_key (Column n i t) \<notin> set keys"
| "references_ungrouped_column (Aggregate f arg t) keys inside \<longleftrightarrow>
     (case arg of None \<Rightarrow> False | Some e \<Rightarrow> references_ungrouped_column e keys True)"
| "references_ungrouped_column (Binary op l r t) keys inside \<longleftrightarrow>
     references_ungrouped_column l keys inside \<or> references_ungrouped_column r keys inside"
| "references_ungrouped_column (Unary op e t) keys inside \<longleftrightarrow> references_ungrouped_column e keys inside"
| "references_ungrouped_column (Cast e t) keys inside \<longleftrightarrow> references_ungrouped_column e keys inside"
| "references_ungrouped_column (Between v l u) keys inside \<longleftrightarrow>
     references_ungrouped_column v keys inside \<or> references_ungrouped_column l keys inside \<or>
     references_ungrouped_column u keys inside"
| "references_ungrouped_column (Like v p neg) keys inside \<longleftrightarrow> references_ungrouped_column v keys inside"
| "references_ungrouped_column (Case wts els t) keys inside \<longleftrightarrow>
     list_ex (\<lambda>(c, r). references_ungrouped_column c keys inside \<or>
                       references_ungrouped_column r keys inside) wts \<or>
     (case els of None \<Rightarrow> False | Some e \<Rightarrow> references_ungrouped_column e keys inside)"
| "references_ungrouped_column (Extract p e t) keys inside \<longleftrightarrow> references_ungrouped_column e keys inside"
| "references_ungrouped_column (Substring e s n t) keys inside \<longleftrightarrow>
     references_ungrouped_column e keys inside"
| "references_ungrouped_column (Literal v t) keys inside \<longleftrightarrow> False"

section \<open>Column resolution\<close>

text \<open>\<open>Binder\<close>: one schema, or the sources of a join with the type of the step that adds each.\<close>

datatype Binder = SingleTable Schema | JoinSources "(string \<times> Schema \<times> JoinType) list"

definition widens :: "JoinType \<Rightarrow> bool" where
  "widens jt \<longleftrightarrow> jt \<noteq> LeftSemi \<and> jt \<noteq> LeftAnti"

definition next_offset :: "nat \<Rightarrow> Schema \<Rightarrow> JoinType \<Rightarrow> nat" where
  "next_offset offset s jt = (if widens jt then offset + length s else offset)"

fun fields_from :: "nat \<Rightarrow> (string \<times> Schema \<times> JoinType) list \<Rightarrow> (Field \<times> nat) list" where
  "fields_from offset [] = []"
| "fields_from offset ((alias, s, jt) # rest) =
     zip s [offset ..< offset + length s] @ fields_from (next_offset offset s jt) rest"

fun all_fields_with_index :: "Binder \<Rightarrow> (Field \<times> nat) list" where
  "all_fields_with_index (SingleTable s) = zip s [0 ..< length s]"
| "all_fields_with_index (JoinSources srcs) = fields_from 0 srcs"

fun find_plain :: "nat \<Rightarrow> string \<Rightarrow> (string \<times> Schema \<times> JoinType) list \<Rightarrow> nat option \<Rightarrow> nat option result" where
  "find_plain offset name [] found = Inr found"
| "find_plain offset name ((alias, s, jt) # rest) found =
     (case find_field s name of
        None \<Rightarrow> find_plain (next_offset offset s jt) name rest found
      | Some i \<Rightarrow>
          if found \<noteq> None then Inl (BindingError (''ambiguous column '' @ name))
          else find_plain (next_offset offset s jt) name rest (Some (offset + i)))"

fun find_field_by_plain_name :: "Binder \<Rightarrow> string \<Rightarrow> nat option result" where
  "find_field_by_plain_name (SingleTable s) name = Inr (find_field s name)"
| "find_field_by_plain_name (JoinSources srcs) name = find_plain 0 name srcs None"

definition resolve_column :: "Schema \<Rightarrow> nat \<Rightarrow> string \<Rightarrow> expression result" where
  "resolve_column s offset name =
     (case find_field s name of
        None \<Rightarrow> Inl (BindingError (''unknown column '' @ name))
      | Some i \<Rightarrow> bindR (atR s i) (\<lambda>f. Inr (Column (fname f) (offset + i) (ftype f))))"

fun resolve_qualified :: "nat \<Rightarrow> string \<Rightarrow> string \<Rightarrow> (string \<times> Schema \<times> JoinType) list \<Rightarrow> expression result" where
  "resolve_qualified offset tab name [] = Inl (BindingError (''unknown table qualifier '' @ tab))"
| "resolve_qualified offset tab name ((alias, s, jt) # rest) =
     (if alias = tab then resolve_column s offset name
      else resolve_qualified (next_offset offset s jt) tab name rest)"

fun resolve_combined :: "nat \<Rightarrow> nat \<Rightarrow> string \<Rightarrow> (string \<times> Schema \<times> JoinType) list \<Rightarrow> expression result" where
  "resolve_combined offset k name [] =
     Inl (BindingError ''unreachable: combined_index did not fall within any JOIN source'')"
| "resolve_combined offset k name ((alias, s, jt) # rest) =
     (if k < offset + length s then resolve_column s offset name
      else resolve_combined (next_offset offset s jt) k name rest)"

fun bind_column :: "Binder \<Rightarrow> string \<Rightarrow> string option \<Rightarrow> expression result" where
  "bind_column (SingleTable s) name tab =
     (case tab of
        Some t \<Rightarrow> Inl (BindingError (''qualified column reference '' @ t @ ''.'' @ name))
      | None \<Rightarrow> resolve_column s 0 name)"
| "bind_column (JoinSources srcs) name tab =
     (case tab of
        Some t \<Rightarrow> resolve_qualified 0 t name srcs
      | None \<Rightarrow>
          bindR (find_plain 0 name srcs None) (\<lambda>k.
          case k of None \<Rightarrow> Inl (BindingError (''unknown column '' @ name))
          | Some i \<Rightarrow> resolve_combined 0 i name srcs))"


section \<open>Binding expressions\<close>

fun bind_literal :: "ast_literal \<Rightarrow> expression" where
  "bind_literal (LitInteger i) = make_int64 i"
| "bind_literal (LitFloat d) = make_float64 d"
| "bind_literal (LitString s) = make_string s"
| "bind_literal (LitBoolean b) = make_bool b"
| "bind_literal (LitDate d) = make_date32 (wrap32 d)"
| "bind_literal LitNull = make_null (int64_type True)"

fun is_untyped_null :: "AstExpr \<Rightarrow> bool" where
  "is_untyped_null (AstLiteral LitNull) \<longleftrightarrow> True"
| "is_untyped_null _ \<longleftrightarrow> False"

fun to_binary_operator :: "AstBinaryOp \<Rightarrow> BinaryOperator" where
  "to_binary_operator AAdd = Add" | "to_binary_operator ASubtract = Subtract"
| "to_binary_operator AMultiply = Multiply" | "to_binary_operator ADivide = Divide"
| "to_binary_operator AEq = Equal" | "to_binary_operator ANotEq = NotEqual"
| "to_binary_operator ALt = Less" | "to_binary_operator ALtEq = LessEqual"
| "to_binary_operator AGt = Greater" | "to_binary_operator AGtEq = GreaterEqual"
| "to_binary_operator AAnd = And" | "to_binary_operator AOr = Or"

definition combine_binary :: "AstBinaryOp \<Rightarrow> expression \<Rightarrow> expression \<Rightarrow> expression result" where
  "combine_binary ast_op left right =
     (let op = to_binary_operator ast_op; lt = result_type left; rt = result_type right;
          n = (nullable lt \<or> nullable rt)
      in if is_arithmetic op
         then if \<not> is_numeric (type_id lt) \<or> \<not> is_numeric (type_id rt)
              then Inl (BindingError ''arithmetic operator requires numeric operands'')
              else bindR (promote_numeric lt rt) (\<lambda>t.
                   bindR (cast_if_needed left t) (\<lambda>l.
                   bindR (cast_if_needed right t) (\<lambda>r. Inr (Binary op l r t))))
         else if is_logical op
         then if type_id lt \<noteq> Boolean \<or> type_id rt \<noteq> Boolean
              then Inl (BindingError ''AND/OR require boolean operands'')
              else Inr (Binary op left right (boolean_type n))
         else if same_type lt rt then Inr (Binary op left right (boolean_type n))
         else if is_numeric (type_id lt) \<and> is_numeric (type_id rt)
         then bindR (promote_numeric lt rt) (\<lambda>t.
              bindR (cast_if_needed left t) (\<lambda>l.
              bindR (cast_if_needed right t) (\<lambda>r. Inr (Binary op l r (boolean_type n)))))
         else Inl (BindingError ''incompatible comparison''))"

definition bind_unary :: "AstUnaryOp \<Rightarrow> expression \<Rightarrow> expression result" where
  "bind_unary op e =
     (let t = result_type e
      in case op of
        ANot \<Rightarrow> if type_id t \<noteq> Boolean then Inl (BindingError ''NOT requires a boolean operand'')
                else Inr (Unary UNot e t)
      | ANegate \<Rightarrow>
          if \<not> is_numeric (type_id t) then Inl (BindingError ''unary - requires a numeric operand'')
          else if type_id t = UInt32 \<or> type_id t = UInt64
          then Inl (BindingError ''unary - is not supported on an unsigned operand'')
          else Inr (Unary UNegate e t)
      | AIsNull \<Rightarrow> Inr (Unary UIsNull e (boolean_type False))
      | AIsNotNull \<Rightarrow> Inr (Unary UIsNotNull e (boolean_type False)))"

definition between_unify :: "expression \<Rightarrow> expression \<Rightarrow> expression result" where
  "between_unify v b =
     (let vt = result_type v; bt = result_type b
      in if same_type vt bt then Inr b
         else if is_numeric (type_id vt) \<and> is_numeric (type_id bt)
         then bindR (promote_numeric vt bt) (cast_if_needed b)
         else Inl (BindingError ''BETWEEN bound type is incompatible with value type''))"

definition bind_between :: "expression \<Rightarrow> expression \<Rightarrow> expression \<Rightarrow> expression result" where
  "bind_between v lo hi =
     bindR (between_unify v lo) (\<lambda>l.
     bindR (between_unify v hi) (\<lambda>u.
     if is_numeric (type_id (result_type v))
     then bindR (promote_numeric (result_type v) (result_type l)) (\<lambda>t1.
          bindR (promote_numeric t1 (result_type u)) (\<lambda>common.
          bindR (cast_if_needed v common) (\<lambda>v'.
          bindR (cast_if_needed l common) (\<lambda>l'.
          bindR (cast_if_needed u common) (\<lambda>u'. Inr (Between v' l' u'))))))
     else Inr (Between v l u)))"

definition nullable_like :: "DataType \<Rightarrow> DataType" where
  "nullable_like t = t\<lparr>nullable := True\<rparr>"

definition bind_aggregate :: "AggregateFunction \<Rightarrow> expression \<Rightarrow> expression result" where
  "bind_aggregate f arg =
     (let t = result_type arg
      in case f of
        AggCount \<Rightarrow> Inr (Aggregate AggCount (Some arg) (int64_type False))
      | AggCountDistinct \<Rightarrow> Inr (Aggregate AggCountDistinct (Some arg) (int64_type False))
      | AggSum \<Rightarrow>
          if \<not> is_numeric (type_id t) then Inl (BindingError ''SUM requires a numeric argument'')
          else if type_id t = Decimal then Inr (Aggregate AggSum (Some arg) (nullable_like t))
          else let rt = (if is_floating (type_id t) then float64_type True
                         else if type_id t = UInt64 then uint64_type True else int64_type True)
               in bindR (cast_if_needed arg rt) (\<lambda>a. Inr (Aggregate AggSum (Some a) rt))
      | AggAvg \<Rightarrow>
          if \<not> is_numeric (type_id t) then Inl (BindingError ''AVG requires a numeric argument'')
          else if type_id t = Decimal then Inl (BindingError ''AVG over DECIMAL is not yet supported'')
          else Inr (Aggregate AggAvg (Some arg) (float64_type True))
      | AggMin \<Rightarrow> Inr (Aggregate AggMin (Some arg) (nullable_like t))
      | AggMax \<Rightarrow> Inr (Aggregate AggMax (Some arg) (nullable_like t))
      | AggCountStar \<Rightarrow> Inl (BindingError ''unreachable aggregate function''))"

text \<open>The running common type of the branches of a CASE, and whether any is nullable.\<close>

fun case_unify :: "DataType \<Rightarrow> bool \<Rightarrow> DataType list \<Rightarrow> DataType result" where
  "case_unify common n [] = Inr (common\<lparr>nullable := n\<rparr>)"
| "case_unify common n (t # ts) =
     (if type_id t = type_id common then case_unify common (n \<or> nullable t) ts
      else if is_numeric (type_id common) \<and> is_numeric (type_id t)
      then bindR (promote_numeric common t) (\<lambda>c. case_unify c (n \<or> nullable t) ts)
      else Inl (BindingError ''CASE branches have incompatible result types''))"

definition bind_case :: "(expression \<times> expression) list \<Rightarrow> expression option \<Rightarrow> expression result" where
  "bind_case branches els =
     (case branches of
        [] \<Rightarrow> Inl StdOutOfRange
      | (c0, r0) # rest \<Rightarrow>
          let t0 = result_type r0;
              ts = map (\<lambda>(c, r). result_type r) rest @ (case els of None \<Rightarrow> [] | Some e \<Rightarrow> [result_type e])
          in bindR (case_unify t0 (nullable t0 \<or> els = None) ts) (\<lambda>common.
             bindR (mapR (\<lambda>(c, r). bindR (cast_if_needed r common) (\<lambda>r'. Inr (c, r'))) branches) (\<lambda>bs.
             bindR (case els of None \<Rightarrow> Inr None
                    | Some e \<Rightarrow> bindR (cast_if_needed e common) (\<lambda>e'. Inr (Some e'))) (\<lambda>els'.
             Inr (Case bs els' common)))))"

text \<open>One more item of an IN list: \<open>result OR value = item\<close>.\<close>

definition in_step :: "expression \<Rightarrow> expression option \<Rightarrow> expression \<Rightarrow> expression result" where
  "in_step v acc item =
     bindR (combine_binary AEq v item) (\<lambda>cmp.
     case acc of None \<Rightarrow> Inr cmp | Some r \<Rightarrow> combine_binary AOr r cmp)"

text \<open>
  The parser never builds a CASE without a branch nor an aggregate other than \<open>COUNT(*)\<close> without
  an argument; the C++ would read past an empty vector or a null pointer there.
\<close>

fun bind :: "Binder \<Rightarrow> AstExpr \<Rightarrow> bool \<Rightarrow> expression result" where
  "bind B (AstColumnRef name tab) a = bind_column B name tab"
| "bind B AstStar a = Inl (BindingError ''* is only valid as a whole SELECT-list item'')"
| "bind B (AstLiteral l) a = Inr (bind_literal l)"
| "bind B (AstBinary op l r) a =
     (if is_untyped_null l \<and> \<not> is_untyped_null r
      then bindR (bind B r a) (\<lambda>r'. combine_binary op (make_null (result_type r')) r')
      else if is_untyped_null r \<and> \<not> is_untyped_null l
      then bindR (bind B l a) (\<lambda>l'. combine_binary op l' (make_null (result_type l')))
      else bindR (bind B l a) (\<lambda>l'. bindR (bind B r a) (\<lambda>r'. combine_binary op l' r')))"
| "bind B (AstUnary op e) a = bindR (bind B e a) (bind_unary op)"
| "bind B (AstBetween v l u) a =
     bindR (bind B v a) (\<lambda>v'. bindR (bind B l a) (\<lambda>l'. bindR (bind B u a) (\<lambda>u'. bind_between v' l' u')))"
| "bind B (AstAggregate f arg) a =
     (if \<not> a then Inl (BindingError ''aggregate functions are not allowed here (WHERE/GROUP BY)'')
      else if f = AggCountStar then Inr (Aggregate AggCountStar None (int64_type False))
      else case arg of
        None \<Rightarrow> Inl StdOutOfRange
      | Some e \<Rightarrow>
          if contains_aggregate e then Inl (BindingError ''aggregate functions cannot be nested'')
          else bindR (bind B e False) (bind_aggregate f))"
| "bind B (AstLike v p neg) a =
     bindR (bind B v a) (\<lambda>v'.
     if type_id (result_type v') \<noteq> String then Inl (BindingError ''LIKE requires a STRING operand'')
     else case p of AstLiteral (LitString s) \<Rightarrow> Inr (Like v' s neg)
          | _ \<Rightarrow> Inl (BindingError ''LIKE pattern must be a string literal''))"
| "bind B (AstIn v items sub neg) a =
     (if sub \<noteq> None then Inl (BindingError ''IN (SELECT ...) is only supported as a WHERE-clause predicate'')
      else if items = [] then Inl (BindingError ''IN requires at least one value'')
      else bindR (bind B v a) (\<lambda>v'.
           bindR (foldl (\<lambda>acc item. bindR acc (\<lambda>r.
                     bindR (if is_untyped_null item then Inr (make_null (result_type v')) else bind B item a) (\<lambda>b.
                     bindR (in_step v' r b) (\<lambda>x. Inr (Some x))))) (Inr None) items) (\<lambda>res.
           case res of None \<Rightarrow> Inl StdOutOfRange
           | Some r \<Rightarrow> Inr (if neg then Unary UNot r (boolean_type False) else r))))"
| "bind B (AstCase wts els) a =
     bindR (mapR (\<lambda>(c, r). bindR (bind B c a) (\<lambda>c'.
              if type_id (result_type c') \<noteq> Boolean
              then Inl (BindingError ''CASE WHEN condition must be boolean'')
              else bindR (bind B r a) (\<lambda>r'. Inr (c', r')))) wts) (\<lambda>branches.
     bindR (case els of None \<Rightarrow> Inr None | Some e \<Rightarrow> bindR (bind B e a) (\<lambda>e'. Inr (Some e'))) (\<lambda>els'.
     bind_case branches els'))"
| "bind B (AstCast e name p s) a =
     bindR (bind B e a) (\<lambda>e'.
     bindR (resolve_cast_type_name name p s (nullable (result_type e'))) (\<lambda>t. Inr (Cast e' t)))"
| "bind B (AstExtract p e) a =
     bindR (bind B e a) (\<lambda>e'.
     if type_id (result_type e') \<noteq> Date32 \<and> type_id (result_type e') \<noteq> Timestamp
     then Inl (BindingError ''EXTRACT requires a DATE or TIMESTAMP operand'')
     else Inr (Extract p e' (int64_type (nullable (result_type e')))))"
| "bind B (AstSubstring e s n) a =
     bindR (bind B e a) (\<lambda>e'.
     if type_id (result_type e') \<noteq> String then Inl (BindingError ''SUBSTRING requires a STRING operand'')
     else if s < 1 then Inl (BindingError ''SUBSTRING start must be >= 1'')
     else if n < 0 then Inl (BindingError ''SUBSTRING length must be >= 0'')
     else Inr (Substring e' s n (string_type (nullable (result_type e')))))"
| "bind B (AstSubquery st) a = Inl (BindingError ''subqueries are only supported inside HAVING or WHERE'')"
| "bind B (AstExists st neg) a = Inl (BindingError ''EXISTS is only supported as a top-level WHERE conjunct'')"


section \<open>What binds is well typed\<close>

text \<open>
  Integer literals are 64-bit, and the value of a BETWEEN is not itself a literal (with a DECIMAL
  bound the binder would type both the value and a literal bound DECIMAL in place).
\<close>

fun is_ast_literal :: "AstExpr \<Rightarrow> bool" where
  "is_ast_literal (AstLiteral l) \<longleftrightarrow> True"
| "is_ast_literal _ \<longleftrightarrow> False"

fun ast_ok :: "AstExpr \<Rightarrow> bool" where
  "ast_ok (AstLiteral l) \<longleftrightarrow> (case l of LitInteger i \<Rightarrow> in_int64 i | _ \<Rightarrow> True)"
| "ast_ok (AstBinary op l r) \<longleftrightarrow> ast_ok l \<and> ast_ok r"
| "ast_ok (AstUnary op e) \<longleftrightarrow> ast_ok e"
| "ast_ok (AstBetween v l u) \<longleftrightarrow> ast_ok v \<and> ast_ok l \<and> ast_ok u \<and> \<not> is_ast_literal v"
| "ast_ok (AstAggregate f arg) \<longleftrightarrow> (case arg of None \<Rightarrow> True | Some e \<Rightarrow> ast_ok e)"
| "ast_ok (AstLike v p neg) \<longleftrightarrow> ast_ok v"
| "ast_ok (AstIn v items sub neg) \<longleftrightarrow> ast_ok v \<and> list_all ast_ok items"
| "ast_ok (AstCase wts els) \<longleftrightarrow>
     list_all (\<lambda>(c, r). ast_ok c \<and> ast_ok r) wts \<and> (case els of None \<Rightarrow> True | Some e \<Rightarrow> ast_ok e)"
| "ast_ok (AstCast e n p s) \<longleftrightarrow> ast_ok e"
| "ast_ok (AstExtract p e) \<longleftrightarrow> ast_ok e"
| "ast_ok (AstSubstring e s n) \<longleftrightarrow> ast_ok e"
| "ast_ok _ \<longleftrightarrow> True"

definition fits :: "(nat \<times> DataType) set \<Rightarrow> bool \<Rightarrow> expression \<Rightarrow> bool" where
  "fits S a x \<longleftrightarrow> wt x \<and> set (col_refs x) \<subseteq> S \<and> (a \<or> agg_free x)"

fun is_literal_expr :: "expression \<Rightarrow> bool" where
  "is_literal_expr (Literal v t) \<longleftrightarrow> True"
| "is_literal_expr _ \<longleftrightarrow> False"

lemma dec_lit_literal: "dec_lit x \<Longrightarrow> is_literal_expr x \<and> tid x = Decimal"
  by (cases x) auto

lemma is_numeric_id: "is_numeric i \<longleftrightarrow> numeric_id i"
  by (cases i) (auto simp: numeric_id_def)

lemma promote_numeric_id:
  assumes "promote_numeric a b = Inr t"
  shows "type_id t = Decimal \<longleftrightarrow> type_id a = Decimal \<or> type_id b = Decimal"
    "type_id t = Decimal \<Longrightarrow> type_id a = Decimal \<Longrightarrow> same_type a t"
    "type_id t = Decimal \<Longrightarrow> type_id b = Decimal \<Longrightarrow> same_type b t"
    "is_numeric (type_id t)"
  using assms by (auto simp: promote_numeric_def same_type_def Let_def split: if_splits)

lemma numeric_literal_ok:
  "literal_ok v i \<Longrightarrow> is_numeric i \<Longrightarrow> literal_ok v Decimal"
  by (cases v; cases i) auto

lemma cast_if_needed_fits:
  assumes "cast_if_needed e t = Inr e'" "fits S a e" "type_id t = Decimal \<Longrightarrow> is_numeric (tid e)"
  shows "fits S a e'" "tid e' = type_id t" "dec_lit e' \<Longrightarrow> is_literal_expr e \<and> type_id t = Decimal"
    "tid e = Decimal \<Longrightarrow> \<not> dec_lit e \<Longrightarrow> \<not> dec_lit e'"
proof -
  from assms(1) consider "same_type (result_type e) t" "e' = e"
    | v lt where "e = Literal v lt" "e' = Literal v t" "type_id t = Decimal" "type_id lt \<noteq> Decimal"
    | "e' = Cast e t" "\<not> (type_id t = Decimal \<and> tid e \<noteq> Decimal)"
    by (cases e) (auto simp: cast_if_needed_def Let_def split: if_splits)
  then show "fits S a e'" "tid e' = type_id t" "dec_lit e' \<Longrightarrow> is_literal_expr e \<and> type_id t = Decimal"
    "tid e = Decimal \<Longrightarrow> \<not> dec_lit e \<Longrightarrow> \<not> dec_lit e'"
    using assms(2,3)
    by (cases; auto simp: fits_def same_type_def numeric_literal_ok dest: dec_lit_literal)+
qed

text \<open>Operands that are not both DECIMAL literals, and cannot become so.\<close>

definition apart :: "expression \<Rightarrow> expression \<Rightarrow> bool" where
  "apart l r \<longleftrightarrow> \<not> (dec_lit l \<and> (is_literal_expr r \<or> tid r \<noteq> Decimal)) \<and>
     \<not> (dec_lit r \<and> (is_literal_expr l \<or> tid l \<noteq> Decimal))"

lemma apart_bound: "\<not> dec_lit l \<Longrightarrow> \<not> dec_lit r \<Longrightarrow> apart l r"
  by (simp add: apart_def)

lemma promoted_operands:
  assumes "promote_numeric (result_type l) (result_type r) = Inr t" "apart l r"
    and "is_numeric (tid l)" "is_numeric (tid r)" "fits S a l" "fits S a r"
    and "cast_if_needed l t = Inr l'" "cast_if_needed r t = Inr r'"
  shows "fits S a l' \<and> fits S a r' \<and> tid l' = type_id t \<and> tid r' = type_id t \<and> \<not> (dec_lit l' \<and> dec_lit r')"
proof -
  note p = promote_numeric_id[OF assms(1)]
  note L = cast_if_needed_fits[OF assms(7,5)] and R = cast_if_needed_fits[OF assms(8,6)]
  have "\<not> (dec_lit l' \<and> dec_lit r')"
  proof
    assume d: "dec_lit l' \<and> dec_lit r'"
    then have lit: "is_literal_expr l" "is_literal_expr r" "type_id t = Decimal"
      using L(3) R(3) assms(3,4) by auto
    then have "tid l = Decimal \<or> tid r = Decimal" using p(1) by simp
    then have "dec_lit l \<or> dec_lit r" using d L(4) R(4) assms(3,4) by auto
    then show False using assms(2) lit by (auto simp: apart_def)
  qed
  with L(1,2) R(1,2) assms(3,4) show ?thesis by simp
qed

lemma fits_Binary:
  "fits S a (Binary op l r t) \<longleftrightarrow> fits S a l \<and> fits S a r \<and> wt (Binary op l r t)"
  by (auto simp: fits_def)

lemma combine_binary_fits:
  assumes "combine_binary op l r = Inr x" "apart l r" "fits S a l" "fits S a r"
  shows "fits S a x \<and> \<not> is_literal_expr x \<and> (op \<in> {AEq, AOr} \<longrightarrow> tid x = Boolean)"
proof -
  let ?op = "to_binary_operator op"
  have w: "wt l" "wt r" using assms(3,4) by (auto simp: fits_def)
  consider (arith) "is_arithmetic ?op" | (log) "is_logical ?op" "\<not> is_arithmetic ?op"
    | (cmp) "is_comparison ?op" "\<not> is_arithmetic ?op" "\<not> is_logical ?op"
    using binop_cases[of ?op] by blast
  then show ?thesis
  proof cases
    case arith
    with assms(1) obtain t l' r' where x: "is_numeric (tid l)" "is_numeric (tid r)"
      "promote_numeric (result_type l) (result_type r) = Inr t" "cast_if_needed l t = Inr l'"
      "cast_if_needed r t = Inr r'" "x = Binary ?op l' r' t"
      by (auto simp: combine_binary_def Let_def bindR_eq_Inr split: if_splits)
    note o = promoted_operands[OF x(3) assms(2) x(1,2) assms(3,4) x(4,5)]
    have "numeric_id (type_id t)" using promote_numeric_id(4)[OF x(3)] by (simp add: is_numeric_id)
    moreover have "op \<notin> {AEq, AOr}" using arith by (cases op) auto
    ultimately show ?thesis using o x(6) arith by (auto simp: fits_def)
  next
    case log
    with assms(1) have x: "tid l = Boolean" "tid r = Boolean"
      "x = Binary ?op l r (boolean_type (nullable (result_type l) \<or> nullable (result_type r)))"
      by (auto simp: combine_binary_def Let_def split: if_splits)
    moreover have "\<not> is_comparison ?op" using log binop_exclusive[of ?op] by blast
    ultimately show ?thesis using assms(3,4) log by (auto simp: fits_def)
  next
    case cmp
    from assms(1) cmp consider (same) "same_type (result_type l) (result_type r)"
        "x = Binary ?op l r (boolean_type (nullable (result_type l) \<or> nullable (result_type r)))"
      | (cast) t l' r' where "is_numeric (tid l)" "is_numeric (tid r)"
        "promote_numeric (result_type l) (result_type r) = Inr t" "cast_if_needed l t = Inr l'"
        "cast_if_needed r t = Inr r'"
        "x = Binary ?op l' r' (boolean_type (nullable (result_type l) \<or> nullable (result_type r)))"
      by (auto simp: combine_binary_def Let_def bindR_eq_Inr split: if_splits)
    then show ?thesis
    proof cases
      case same
      then have "tid l = tid r" by (simp add: same_type_def)
      moreover have "\<not> (dec_lit l \<and> dec_lit r)" using assms(2) dec_lit_literal[of l] unfolding apart_def by blast
      ultimately show ?thesis using same assms(3,4) cmp by (auto simp: fits_def)
    next
      case cast
      note o = promoted_operands[OF cast(3) assms(2) cast(1,2) assms(3,4) cast(4,5)]
      then show ?thesis using cast(6) cmp by (auto simp: fits_def)
    qed
  qed
qed


lemma bind_literal_fits:
  assumes "case l of LitInteger i \<Rightarrow> in_int64 i | _ \<Rightarrow> True"
  shows "fits S a (bind_literal l)" "\<not> dec_lit (bind_literal l)"
  using assms
  by (cases l; auto simp: fits_def make_literals wrap32_range in_int32_int64)+

lemma make_null_fits: "fits S a (make_null t)"
  by (simp add: fits_def make_null_def)

lemma apart_null:
  assumes "\<not> dec_lit x"
  shows "apart (make_null (result_type x)) x" "apart x (make_null (result_type x))"
proof -
  have "\<not> is_literal_expr x" if "tid x = Decimal" using assms that by (cases x) auto
  then show "apart (make_null (result_type x)) x" "apart x (make_null (result_type x))"
    using assms by (auto simp: apart_def make_null_def)
qed

lemma resolve_column_Inr:
  assumes "resolve_column s offset name = Inr x"
  shows "\<exists>i. i < length s \<and> x = Column (fname (s ! i)) (offset + i) (ftype (s ! i))"
  using assms by (auto simp: resolve_column_def bindR_eq_Inr atR_eq_Inr split: option.splits)

text \<open>The columns of the FROM clause, as positions with types.\<close>

definition binder_columns :: "Binder \<Rightarrow> (nat \<times> DataType) set" where
  "binder_columns B = (\<lambda>(f, i). (i, ftype f)) ` set (all_fields_with_index B)"

lemma column_in_zip: "i < length s \<Longrightarrow> (offset + i, ftype (s ! i)) \<in> (\<lambda>(f, i). (i, ftype f)) ` set (zip s [offset ..< offset + length s])"
  by (force simp: image_iff set_zip)

lemma resolve_qualified_columns:
  "resolve_qualified offset tab name srcs = Inr x \<Longrightarrow>
     \<exists>n i t. x = Column n i t \<and> (i, t) \<in> (\<lambda>(f, i). (i, ftype f)) ` set (fields_from offset srcs)"
proof (induction offset tab name srcs rule: resolve_qualified.induct)
  case (2 offset tab name al s jt rest)
  then show ?case
    by (auto dest!: resolve_column_Inr simp: image_Un column_in_zip split: if_splits)
qed simp

lemma resolve_combined_columns:
  "resolve_combined offset k name srcs = Inr x \<Longrightarrow>
     \<exists>n i t. x = Column n i t \<and> (i, t) \<in> (\<lambda>(f, i). (i, ftype f)) ` set (fields_from offset srcs)"
proof (induction offset k name srcs rule: resolve_combined.induct)
  case (2 offset k name al s jt rest)
  then show ?case
    by (auto dest!: resolve_column_Inr simp: image_Un column_in_zip split: if_splits)
qed simp

lemma bind_column_fits:
  assumes "bind_column B name tab = Inr x"
  shows "fits (binder_columns B) a x \<and> \<not> is_literal_expr x"
proof -
  have "\<exists>n i t. x = Column n i t \<and> (i, t) \<in> binder_columns B"
  proof (cases B)
    case (SingleTable s)
    then show ?thesis using assms column_in_zip[of _ s 0]
      by (auto dest!: resolve_column_Inr simp: binder_columns_def split: option.splits)
  next
    case (JoinSources srcs)
    then show ?thesis using assms
      by (auto simp: binder_columns_def bindR_eq_Inr split: option.splits
          dest!: resolve_qualified_columns resolve_combined_columns)
  qed
  then show ?thesis by (auto simp: fits_def)
qed

lemma bind_unary_fits:
  assumes "bind_unary op e = Inr x" "fits S a e"
  shows "fits S a x \<and> \<not> is_literal_expr x"
  using assms by (cases op) (auto simp: bind_unary_def fits_def Let_def split: if_splits)

lemma bind_aggregate_fits:
  assumes "bind_aggregate f e = Inr x" "fits S False e"
  shows "fits S True x \<and> \<not> is_literal_expr x"
proof (cases f)
  case AggSum
  with assms obtain e' t where e: "x = Aggregate AggSum (Some e') t"
    "e' = e \<or> (cast_if_needed e t = Inr e' \<and> type_id t \<noteq> Decimal)"
    by (auto simp: bind_aggregate_def Let_def bindR_eq_Inr split: if_splits)
  then have "fits S False e'" using assms(2) cast_if_needed_fits(1)[of e t e' S False] by auto
  with e(1) show ?thesis by (simp add: fits_def)
qed (use assms in \<open>auto simp: bind_aggregate_def fits_def Let_def split: if_splits\<close>)

lemma between_unify_fits:
  assumes "between_unify v b = Inr b'" "fits S a b"
  shows "fits S a b'" "is_numeric (tid v) \<Longrightarrow> is_numeric (tid b')"
    "\<not> is_numeric (tid v) \<Longrightarrow> b' = b \<and> tid b = tid v"
proof -
  from assms(1) consider "same_type (result_type v) (result_type b)" "b' = b"
    | t where "is_numeric (tid v)" "is_numeric (tid b)" "promote_numeric (result_type v) (result_type b) = Inr t"
      "cast_if_needed b t = Inr b'"
    by (auto simp: between_unify_def Let_def bindR_eq_Inr split: if_splits)
  then show "fits S a b'" "is_numeric (tid v) \<Longrightarrow> is_numeric (tid b')"
    "\<not> is_numeric (tid v) \<Longrightarrow> b' = b \<and> tid b = tid v"
    using assms(2) cast_if_needed_fits(1,2)[of b _ b' S a] promote_numeric_id(4)
    by (cases; force simp: same_type_def)+
qed

lemma bind_between_fits:
  assumes "bind_between v l u = Inr x" "fits S a v" "fits S a l" "fits S a u"
    and "\<not> is_literal_expr v" "\<not> dec_lit l" "\<not> dec_lit u"
  shows "fits S a x \<and> \<not> is_literal_expr x"
proof -
  from assms(1) obtain l1 u1 where b: "between_unify v l = Inr l1" "between_unify v u = Inr u1"
    by (auto simp: bind_between_def bindR_eq_Inr)
  note L = between_unify_fits[OF b(1) assms(3)] and U = between_unify_fits[OF b(2) assms(4)]
  show ?thesis
  proof (cases "is_numeric (tid v)")
    case True
    with assms(1) b obtain t1 t v' l' u' where c:
      "promote_numeric (result_type v) (result_type l1) = Inr t1" "promote_numeric t1 (result_type u1) = Inr t"
      "cast_if_needed v t = Inr v'" "cast_if_needed l1 t = Inr l'" "cast_if_needed u1 t = Inr u'"
      "x = Between v' l' u'"
      by (auto simp: bind_between_def bindR_eq_Inr)
    have "\<not> dec_lit v'" using cast_if_needed_fits(3)[OF c(3) assms(2)] assms(5) True by blast
    moreover have "fits S a v' \<and> tid v' = type_id t" "fits S a l' \<and> tid l' = type_id t"
      "fits S a u' \<and> tid u' = type_id t"
      using cast_if_needed_fits(1,2)[OF c(3) assms(2)] cast_if_needed_fits(1,2)[OF c(4) L(1)]
        cast_if_needed_fits(1,2)[OF c(5) U(1)] True L(2) U(2) by blast+
    ultimately show ?thesis using c(6) by (auto simp: fits_def)
  next
    case False
    with assms(1) b have "x = Between v l1 u1" by (auto simp: bind_between_def)
    with False L U assms(2,6,7) show ?thesis by (auto simp: fits_def)
  qed
qed


lemma case_unify_numeric:
  assumes "case_unify c n ts = Inr t"
  shows "type_id t = Decimal \<Longrightarrow> is_numeric (type_id c) \<and> (\<forall>s \<in> set ts. is_numeric (type_id s))"
  using assms
proof (induction c n ts rule: case_unify.induct)
  case (2 c n s ts)
  consider (same) "type_id s = type_id c" "case_unify c (n \<or> nullable s) ts = Inr t"
    | (prom) c' where "type_id s \<noteq> type_id c" "is_numeric (type_id c)" "is_numeric (type_id s)"
      "promote_numeric c s = Inr c'" "case_unify c' (n \<or> nullable s) ts = Inr t"
    using 2(4) by (simp add: bindR_eq_Inr split: if_splits) blast
  then show ?case
  proof cases
    case same
    with 2(1)[OF same(1) 2(3) same(2)] show ?thesis by simp
  next
    case prom
    then have "is_numeric (type_id c) \<and> is_numeric (type_id s)" by simp
    with 2(2)[OF prom(1) _ prom(4) 2(3) prom(5)] prom show ?thesis by simp
  qed
qed auto

lemma bind_case_fits:
  assumes "bind_case bs els = Inr x"
    and "\<forall>(c, r) \<in> set bs. fits S a c \<and> tid c = Boolean \<and> fits S a r"
    and "\<forall>e. els = Some e \<longrightarrow> fits S a e"
  shows "fits S a x \<and> \<not> is_literal_expr x"
proof -
  obtain c0 r0 rest where bs: "bs = (c0, r0) # rest" using assms(1) by (cases bs) (auto simp: bind_case_def)
  let ?ts = "map (\<lambda>(c, r). result_type r) rest @ (case els of None \<Rightarrow> [] | Some e \<Rightarrow> [result_type e])"
  from assms(1) obtain t bs' els' where c:
    "case_unify (result_type r0) (nullable (result_type r0) \<or> els = None) ?ts = Inr t"
    "mapR (\<lambda>(c, r). bindR (cast_if_needed r t) (\<lambda>r'. Inr (c, r'))) bs = Inr bs'"
    "(case els of None \<Rightarrow> Inr None | Some e \<Rightarrow> bindR (cast_if_needed e t) (\<lambda>e'. Inr (Some e'))) = Inr els'"
    "x = Case bs' els' t"
    unfolding bs bind_case_def by (auto simp: bindR_eq_Inr Let_def)
  have num: "type_id t = Decimal \<Longrightarrow> is_numeric (tid r)" if "(c, r) \<in> set bs" for c r
    using case_unify_numeric[OF c(1)] that bs by force
  have els_num: "type_id t = Decimal \<Longrightarrow> is_numeric (tid e)" if "els = Some e" for e
    using case_unify_numeric[OF c(1)] that by auto
  have b: "fits S a c \<and> tid c = Boolean \<and> fits S a r' \<and> tid r' = type_id t" if m: "(c, r') \<in> set bs'" for c r'
  proof -
    from mapR_result_mem[OF c(2) m] obtain r where r: "(c, r) \<in> set bs" "cast_if_needed r t = Inr r'"
      by (auto simp: bindR_eq_Inr)
    with cast_if_needed_fits(1,2)[OF r(2)] num[OF r(1)] assms(2) show ?thesis by blast
  qed
  have e: "fits S a e' \<and> tid e' = type_id t" if "els' = Some e'" for e'
  proof -
    from c(3) that obtain e0 where "els = Some e0" "cast_if_needed e0 t = Inr e'"
      by (cases els) (auto simp: bindR_eq_Inr)
    with cast_if_needed_fits(1,2)[of e0 t e'] els_num assms(3) show ?thesis by blast
  qed
  have "bs' \<noteq> []" using mapR_length[OF c(2)] bs by auto
  with b e c(4) show ?thesis by (cases els') (fastforce simp: fits_def list_all_iff)+
qed

definition bind_goal :: "Binder \<Rightarrow> AstExpr \<Rightarrow> bool \<Rightarrow> expression \<Rightarrow> bool" where
  "bind_goal B e a x \<longleftrightarrow> fits (binder_columns B) a x \<and> \<not> dec_lit x \<and> (is_literal_expr x \<longrightarrow> is_ast_literal e)"

lemma bind_goalI: "fits (binder_columns B) a x \<and> \<not> is_literal_expr x \<Longrightarrow> bind_goal B e a x"
  using dec_lit_literal by (auto simp: bind_goal_def)

lemma in_fold_fits:
  assumes "foldl (\<lambda>acc item. bindR acc (\<lambda>r.
        bindR (if is_untyped_null item then Inr (make_null (result_type v)) else g item) (\<lambda>b.
        bindR (in_step v r b) (\<lambda>x. Inr (Some x))))) acc0 items = Inr res"
    and "fits S a v" "\<not> dec_lit v"
    and "\<And>item b. item \<in> set items \<Longrightarrow> g item = Inr b \<Longrightarrow> fits S a b \<and> \<not> dec_lit b"
    and "\<And>r. acc0 = Inr (Some r) \<Longrightarrow> fits S a r \<and> \<not> is_literal_expr r \<and> tid r = Boolean"
  shows "\<forall>r. res = Some r \<longrightarrow> fits S a r \<and> \<not> is_literal_expr r \<and> tid r = Boolean"
  using assms(1,4,5)
proof (induction items arbitrary: acc0)
  case (Cons item items)
  let ?acc = "bindR acc0 (\<lambda>r.
      bindR (if is_untyped_null item then Inr (make_null (result_type v)) else g item) (\<lambda>b.
      bindR (in_step v r b) (\<lambda>x. Inr (Some x))))"
  show ?case
  proof (rule Cons.IH[of ?acc])
    fix r assume "?acc = Inr (Some r)"
    then obtain r0 b cmp where r: "acc0 = Inr r0"
      "(if is_untyped_null item then Inr (make_null (result_type v)) else g item) = Inr b"
      "combine_binary AEq v b = Inr cmp" "(case r0 of None \<Rightarrow> Inr cmp | Some q \<Rightarrow> combine_binary AOr q cmp) = Inr r"
      by (auto simp: bindR_eq_Inr in_step_def)
    have b: "fits S a b \<and> apart v b"
      using r(2) Cons.prems(2)[of item b] assms(3) apart_null(2)[OF assms(3)] apart_bound make_null_fits
      by (auto split: if_splits)
    note C = combine_binary_fits[OF r(3) _ assms(2)]
    have cmp: "fits S a cmp \<and> \<not> is_literal_expr cmp \<and> tid cmp = Boolean" using C b by simp
    show "fits S a r \<and> \<not> is_literal_expr r \<and> tid r = Boolean"
    proof (cases r0)
      case None
      with r(4) cmp show ?thesis by simp
    next
      case (Some q)
      with Cons.prems(3) r(1) have q: "fits S a q \<and> \<not> is_literal_expr q \<and> tid q = Boolean" by simp
      have "apart q cmp" using q cmp dec_lit_literal[of q] dec_lit_literal[of cmp] by (simp add: apart_def)
      with combine_binary_fits[of AOr q cmp r S a] r(4) Some q cmp show ?thesis by simp
    qed
  qed (use Cons.prems in auto)
qed auto


lemma bind_case_branches:
  assumes "bind B (AstCase wts els) a = Inr x"
    and "\<And>c r y. (c, r) \<in> set wts \<Longrightarrow> bind B c a = Inr y \<Longrightarrow> bind_goal B c a y"
    and "\<And>c r y z. (c, r) \<in> set wts \<Longrightarrow> bind B c a = Inr y \<Longrightarrow> tid y = Boolean \<Longrightarrow> bind B r a = Inr z \<Longrightarrow>
      bind_goal B r a z"
    and "\<And>e y bs. els = Some e \<Longrightarrow> mapR (\<lambda>(c, r). bindR (bind B c a) (\<lambda>c'. if tid c' \<noteq> Boolean
        then Inl (BindingError ''CASE WHEN condition must be boolean'')
        else bindR (bind B r a) (\<lambda>r'. Inr (c', r')))) wts = Inr bs \<Longrightarrow> bind B e a = Inr y \<Longrightarrow> bind_goal B e a y"
  shows "bind_goal B (AstCase wts els) a x"
proof -
  from assms(1) obtain bs els' where c:
    "mapR (\<lambda>(c, r). bindR (bind B c a) (\<lambda>c'. if type_id (result_type c') \<noteq> Boolean
        then Inl (BindingError ''CASE WHEN condition must be boolean'')
        else bindR (bind B r a) (\<lambda>r'. Inr (c', r')))) wts = Inr bs"
    "(case els of None \<Rightarrow> Inr None | Some e \<Rightarrow> bindR (bind B e a) (\<lambda>e'. Inr (Some e'))) = Inr els'"
    "bind_case bs els' = Inr x"
    by (simp only: bind.simps bindR_eq_Inr) blast
  have "fits (binder_columns B) a x \<and> \<not> is_literal_expr x"
  proof (rule bind_case_fits[OF c(3)])
    show "\<forall>(c, r) \<in> set bs. fits (binder_columns B) a c \<and> tid c = Boolean \<and> fits (binder_columns B) a r"
    proof (intro ballI, clarify)
      fix c' r' assume "(c', r') \<in> set bs"
      from mapR_result_mem[OF c(1) this] obtain c0 r0 where "(c0, r0) \<in> set wts" "bind B c0 a = Inr c'"
        "tid c' = Boolean" "bind B r0 a = Inr r'"
        by (auto simp: bindR_eq_Inr split: if_splits)
      with assms(2,3) show "fits (binder_columns B) a c' \<and> tid c' = Boolean \<and> fits (binder_columns B) a r'"
        by (auto simp: bind_goal_def)
    qed
    show "\<forall>e. els' = Some e \<longrightarrow> fits (binder_columns B) a e"
      using c(1,2) assms(4) by (cases els) (auto simp: bindR_eq_Inr bind_goal_def)
  qed
  then show ?thesis by (rule bind_goalI)
qed

lemma bind_sound: "bind B e a = Inr x \<Longrightarrow> ast_ok e \<Longrightarrow> bind_goal B e a x"
proof (induction B e a arbitrary: x rule: bind.induct)
  case (1 B name tab a)
  then show ?case using bind_column_fits by (intro bind_goalI) simp
next
  case (3 B l a)
  then show ?case using bind_literal_fits[of l] by (auto simp: bind_goal_def)
next
  case (4 B op l r a)
  consider (nl) r' where "is_untyped_null l" "\<not> is_untyped_null r" "bind B r a = Inr r'"
      "combine_binary op (make_null (result_type r')) r' = Inr x"
    | (nr) l' where "is_untyped_null r" "\<not> is_untyped_null l" "bind B l a = Inr l'"
      "combine_binary op l' (make_null (result_type l')) = Inr x"
    | (both) l' r' where "\<not> (is_untyped_null l \<and> \<not> is_untyped_null r)"
      "\<not> (is_untyped_null r \<and> \<not> is_untyped_null l)" "bind B l a = Inr l'" "bind B r a = Inr r'"
      "combine_binary op l' r' = Inr x"
    using 4(5) by (auto simp: bindR_eq_Inr split: if_splits)
  then have "fits (binder_columns B) a x \<and> \<not> is_literal_expr x"
  proof cases
    case nl
    then have "bind_goal B r a r'" using 4(1,6) by simp
    then show ?thesis using combine_binary_fits[OF nl(4)] apart_null(1) make_null_fits
      by (auto simp: bind_goal_def)
  next
    case nr
    then have "bind_goal B l a l'" using 4(2,6) by simp
    then show ?thesis using combine_binary_fits[OF nr(4)] apart_null(2) make_null_fits
      by (auto simp: bind_goal_def)
  next
    case both
    then have "bind_goal B l a l'" "bind_goal B r a r'" using 4(3,4,6) by auto
    then show ?thesis using combine_binary_fits[OF both(5)] apart_bound by (auto simp: bind_goal_def)
  qed
  then show ?case by (rule bind_goalI)
next
  case (5 B op e a)
  then show ?case using bind_unary_fits
    by (intro bind_goalI) (auto simp: bindR_eq_Inr bind_goal_def)
next
  case (6 B v l u a)
  from 6(4) obtain v' l' u' where b: "bind B v a = Inr v'" "bind B l a = Inr l'" "bind B u a = Inr u'"
    "bind_between v' l' u' = Inr x" by (auto simp: bindR_eq_Inr)
  have "bind_goal B v a v'" "bind_goal B l a l'" "bind_goal B u a u'" using 6 b by auto
  then show ?case using bind_between_fits[OF b(4)] 6(5)
    by (intro bind_goalI) (auto simp: bind_goal_def)
next
  case (7 B f arg a)
  show ?case
  proof (cases "f = AggCountStar")
    case True
    with 7 show ?thesis by (intro bind_goalI) (auto simp: fits_def split: if_splits)
  next
    case False
    with 7(2) obtain e y where e: "a" "arg = Some e" "\<not> contains_aggregate e" "bind B e False = Inr y"
      "bind_aggregate f y = Inr x"
      by (auto simp: bindR_eq_Inr split: if_splits option.splits)
    then have "bind_goal B e False y" using 7 False by auto
    then show ?thesis using bind_aggregate_fits[OF e(5)] e(1)
      by (intro bind_goalI) (auto simp: bind_goal_def)
  qed
next
  case (8 B v p neg a)
  from 8(2) obtain v' s where v: "bind B v a = Inr v'" "x = Like v' s neg"
    by (auto simp: bindR_eq_Inr split: if_splits AstExpr.splits ast_literal.splits)
  then have "bind_goal B v a v'" using 8 by simp
  then show ?case using v(2) by (intro bind_goalI) (auto simp: bind_goal_def fits_def)
next
  case (9 B v items sub neg a)
  from 9(3) obtain v' res r where v: "sub = None" "items \<noteq> []" "bind B v a = Inr v'"
    "foldl (\<lambda>acc item. bindR acc (\<lambda>r.
        bindR (if is_untyped_null item then Inr (make_null (result_type v')) else bind B item a) (\<lambda>b.
        bindR (in_step v' r b) (\<lambda>x. Inr (Some x))))) (Inr None) items = Inr (Some r)"
    "x = (if neg then Unary UNot r (boolean_type False) else r)"
    by (auto simp: bindR_eq_Inr split: if_splits option.splits)
  have g: "bind_goal B v a v'" using 9 v by simp
  have "fits (binder_columns B) a b \<and> \<not> dec_lit b" if "item \<in> set items" "bind B item a = Inr b" for item b
  proof (cases "is_untyped_null item")
    case True
    then have "item = AstLiteral LitNull" by (cases item rule: is_untyped_null.cases) auto
    with that(2) show ?thesis by (auto simp: make_null_def fits_def)
  next
    case False
    have "ast_ok item" using 9(4) that(1) by (auto simp: list_all_iff)
    with 9(2)[OF _ v(2,3) that(1) _ False that(2)] v(1) show ?thesis by (auto simp: bind_goal_def)
  qed
  with in_fold_fits[OF v(4)] g have "fits (binder_columns B) a r \<and> \<not> is_literal_expr r \<and> tid r = Boolean"
    by (auto simp: bind_goal_def)
  with v(5) show ?case by (intro bind_goalI) (auto simp: fits_def)
next
  case (10 B wts els a)
  show ?case
  proof (rule bind_case_branches[OF 10(4)])
    fix c r y assume m: "(c, r) \<in> set wts" and y: "bind B c a = Inr y"
    have ok: "ast_ok c" "ast_ok r" using 10(5) m by (auto simp: list_all_iff)
    show "bind_goal B c a y" using 10(1)[OF m refl y ok(1)] .
    fix z assume "tid y = Boolean" "bind B r a = Inr z"
    then show "bind_goal B r a z" using 10(2)[OF m refl y _ _ ok(2)] by simp
  next
    fix e y bs assume e: "els = Some e" "bind B e a = Inr y"
      and m: "mapR (\<lambda>(c, r). bindR (bind B c a) (\<lambda>c'. if tid c' \<noteq> Boolean
        then Inl (BindingError ''CASE WHEN condition must be boolean'')
        else bindR (bind B r a) (\<lambda>r'. Inr (c', r')))) wts = Inr bs"
    show "bind_goal B e a y" using 10(3)[OF m e] 10(5) e(1) by simp
  qed
next
  case (11 B e name p s a)
  then show ?case by (intro bind_goalI) (auto simp: bindR_eq_Inr bind_goal_def fits_def)
next
  case (12 B p e a)
  then show ?case by (intro bind_goalI) (auto simp: bindR_eq_Inr bind_goal_def fits_def split: if_splits)
next
  case (13 B e s n a)
  then show ?case by (intro bind_goalI) (auto simp: bindR_eq_Inr bind_goal_def fits_def split: if_splits)
qed auto

section \<open>Unqualified names\<close>

fun sources_width :: "(string \<times> Schema \<times> JoinType) list \<Rightarrow> nat" where
  "sources_width [] = 0"
| "sources_width ((al, s, jt) # rest) = next_offset 0 s jt + sources_width rest"

definition mentions :: "string \<Rightarrow> string \<times> Schema \<times> JoinType \<Rightarrow> bool" where
  "mentions name src \<longleftrightarrow> find_field (fst (snd src)) name \<noteq> None"

lemma find_plain_taken:
  "find_plain off name srcs (Some k) = Inr r \<Longrightarrow> r = Some k \<and> filter (mentions name) srcs = []"
proof (induction srcs arbitrary: off)
  case (Cons src srcs)
  then show ?case by (cases src) (auto simp: mentions_def split: option.splits)
qed simp

lemma find_plain_Some:
  "find_plain off name srcs found = Inr (Some i) \<Longrightarrow>
     (found = Some i \<and> filter (mentions name) srcs = []) \<or>
     (\<exists>pre al s jt post j. srcs = pre @ (al, s, jt) # post \<and> filter (mentions name) srcs = [(al, s, jt)] \<and>
        find_field s name = Some j \<and> i = off + sources_width pre + j)"
proof (induction off name srcs found rule: find_plain.induct)
  case (2 off name al s jt rest found)
  show ?case
  proof (cases "find_field s name")
    case None
    with 2 have "(found = Some i \<and> filter (mentions name) rest = []) \<or>
       (\<exists>pre al' s' jt' post j. rest = pre @ (al', s', jt') # post \<and>
          filter (mentions name) rest = [(al', s', jt')] \<and> find_field s' name = Some j \<and>
          i = next_offset off s jt + sources_width pre + j)" by simp
    then show ?thesis
    proof (elim disjE exE conjE)
      fix pre al' s' jt' post j
      assume r: "rest = pre @ (al', s', jt') # post" "filter (mentions name) rest = [(al', s', jt')]"
        "find_field s' name = Some j" "i = next_offset off s jt + sources_width pre + j"
      have "(al, s, jt) # rest = ((al, s, jt) # pre) @ (al', s', jt') # post" using r(1) by simp
      moreover have "i = off + sources_width ((al, s, jt) # pre) + j" using r(4) by (simp add: next_offset_def)
      moreover have "filter (mentions name) ((al, s, jt) # rest) = [(al', s', jt')]"
        using r(2) None by (simp add: mentions_def)
      ultimately show ?thesis using r(3) by blast
    next
      assume "found = Some i" "filter (mentions name) rest = []"
      moreover have "\<not> mentions name (al, s, jt)" using None by (simp add: mentions_def)
      ultimately show ?thesis by simp
    qed
  next
    case (Some k)
    with 2 have f: "found = None" "find_plain (next_offset off s jt) name rest (Some (off + k)) = Inr (Some i)"
      by (auto split: if_splits)
    from find_plain_taken[OF f(2)] have "(al, s, jt) # rest = [] @ (al, s, jt) # rest \<and>
      filter (mentions name) ((al, s, jt) # rest) = [(al, s, jt)] \<and> find_field s name = Some k \<and>
      i = off + sources_width [] + k" using Some by (simp add: mentions_def)
    then show ?thesis by blast
  qed
qed simp

lemma resolve_combined_at:
  assumes "list_all (\<lambda>(al, s, jt). widens jt) pre" "j < length s"
  shows "resolve_combined off (off + sources_width pre + j) name (pre @ (al, s, jt) # post) =
    resolve_column s (off + sources_width pre) name"
  using assms
proof (induction pre arbitrary: off)
  case (Cons src pre)
  obtain al' s' jt' where src: "src = (al', s', jt')" by (cases src)
  from Cons.IH[of "off + length s'"] Cons.prems src show ?case by (simp add: next_offset_def add.assoc)
qed simp

section \<open>Properties\<close>

text \<open>
  C14. Whatever the binder accepts is well typed, reads only columns of the FROM clause at their
  type, and contains an aggregate only where the clause allows one: the casts it inserts make
  every operator's operands agree.
\<close>

theorem bind_well_typed:
  assumes "bind B e allow_aggregates = Inr x" "ast_ok e"
  shows "wt x \<and> set (col_refs x) \<subseteq> (\<lambda>(f, i). (i, ftype f)) ` set (all_fields_with_index B) \<and>
    (allow_aggregates \<or> agg_free x)"
  using bind_sound[OF assms] by (auto simp: bind_goal_def fits_def binder_columns_def)

definition demo_sources :: "(string \<times> Schema \<times> JoinType) list" where
  "demo_sources =
     [(''a'', [\<lparr>fname = ''k'', ftype = int64_type True\<rparr>, \<lparr>fname = ''x'', ftype = int32_type True\<rparr>], Inner),
      (''b'', [\<lparr>fname = ''k'', ftype = int64_type True\<rparr>, \<lparr>fname = ''y'', ftype = float64_type True\<rparr>], LeftOuter)]"

text \<open>\<open>a.x + y > 5\<close>: both operands of the sum are cast to double.\<close>

theorem bind_well_typed_witness:
  "\<exists>x. bind (JoinSources demo_sources)
      (AstBinary AGt (AstBinary AAdd (AstColumnRef ''x'' (Some ''a'')) (AstColumnRef ''y'' None))
        (AstLiteral (LitInteger 5))) False = Inr x \<and> wt x \<and> agg_free x \<and> map fst (col_refs x) = [1, 3]"
proof -
  let ?e = "AstBinary AGt (AstBinary AAdd (AstColumnRef ''x'' (Some ''a'')) (AstColumnRef ''y'' None))
        (AstLiteral (LitInteger 5))"
  have "case bind (JoinSources demo_sources) ?e False of Inl _ \<Rightarrow> False
      | Inr x \<Rightarrow> map fst (col_refs x) = [1, 3]" by code_simp
  then obtain x where x: "bind (JoinSources demo_sources) ?e False = Inr x" "map fst (col_refs x) = [1, 3]"
    by (auto split: sum.splits)
  moreover have "ast_ok ?e" by (simp add: in_int64_def int64_min_def int64_max_def)
  ultimately show ?thesis using bind_well_typed[OF x(1)] by auto
qed

text \<open>
  A column name without a qualifier binds in a join only when exactly one source has it, and
  then to that source's column at its place in the combined row.
\<close>

theorem unqualified_name_unique:
  assumes "bind_column (JoinSources srcs) name None = Inr x" "list_all (\<lambda>(al, s, jt). widens jt) srcs"
  shows "\<exists>pre al s jt post j. srcs = pre @ (al, s, jt) # post \<and>
    filter (\<lambda>(al, s, jt). find_field s name \<noteq> None) srcs = [(al, s, jt)] \<and>
    find_field s name = Some j \<and> x = Column (fname (s ! j)) (sources_width pre + j) (ftype (s ! j))"
proof -
  have eq: "(\<lambda>(al, s, jt). find_field s name \<noteq> None) = mentions name" by (auto simp: mentions_def)
  from assms(1) obtain i where i: "find_plain 0 name srcs None = Inr (Some i)"
    "resolve_combined 0 i name srcs = Inr x" by (auto simp: bindR_eq_Inr split: option.splits)
  from find_plain_Some[OF i(1)] obtain pre al s jt post j where d: "srcs = pre @ (al, s, jt) # post"
    "filter (mentions name) srcs = [(al, s, jt)]" "find_field s name = Some j" "i = sources_width pre + j"
    by auto
  have "j < length s" using find_field_Some[OF d(3)] by simp
  moreover have "list_all (\<lambda>(al, s, jt). widens jt) pre" using assms(2) d(1) by simp
  ultimately have "resolve_column s (sources_width pre) name = Inr x"
    using i(2) resolve_combined_at[of pre j s 0 name al jt post] d(1,4) by simp
  then have "x = Column (fname (s ! j)) (sources_width pre + j) (ftype (s ! j))"
    using d(3) by (auto simp: resolve_column_def bindR_eq_Inr atR_eq_Inr)
  then show ?thesis unfolding eq using d(1-3) by (intro exI conjI)
qed

theorem unqualified_name_unique_witness:
  "\<exists>pre al s jt post j. demo_sources = pre @ (al, s, jt) # post \<and>
    filter (\<lambda>(al, s, jt). find_field s ''y'' \<noteq> None) demo_sources = [(al, s, jt)] \<and>
    find_field s ''y'' = Some j \<and>
    Column ''y'' 3 (float64_type True) = Column (fname (s ! j)) (sources_width pre + j) (ftype (s ! j))"
proof (rule unqualified_name_unique)
  show "bind_column (JoinSources demo_sources) ''y'' None = Inr (Column ''y'' 3 (float64_type True))"
    by code_simp
qed (simp add: demo_sources_def widens_def)

end
