(* ===== verification/Subquery.thy ===== *)
theory Subquery
  imports Binder
begin

text \<open>
  The subquery resolver of \<^verbatim>\<open>src/sql/subquery_resolver.cpp\<close>: scalar and IN subqueries replaced by
  the values they evaluate to, EXISTS turned into semi and anti join steps, and correlated scalar
  subqueries into joins with a grouped derived table. What evaluates a subquery is an argument, as
  in the code; it may throw.
\<close>

section \<open>Conjunctions\<close>

fun collect_and_conjuncts :: "AstExpr \<Rightarrow> AstExpr list" where
  "collect_and_conjuncts (AstBinary AAnd l r) = collect_and_conjuncts l @ collect_and_conjuncts r"
| "collect_and_conjuncts e = [e]"

fun rebuild_and :: "AstExpr list \<Rightarrow> AstExpr option" where
  "rebuild_and [] = None"
| "rebuild_and (c # cs) = Some (foldl (AstBinary AAnd) c cs)"

section \<open>Evaluated subqueries\<close>

fun resolve_subqueries ::
  "AstExpr \<Rightarrow> (AstSelectStatement \<Rightarrow> ast_literal result) \<Rightarrow> AstExpr result" where
  "resolve_subqueries (AstSubquery stmt) ev = bindR (ev stmt) (\<lambda>v. Inr (AstLiteral v))"
| "resolve_subqueries (AstBinary op l r) ev =
     bindR (resolve_subqueries l ev) (\<lambda>l'. bindR (resolve_subqueries r ev) (\<lambda>r'. Inr (AstBinary op l' r')))"
| "resolve_subqueries (AstUnary op e) ev = bindR (resolve_subqueries e ev) (\<lambda>e'. Inr (AstUnary op e'))"
| "resolve_subqueries (AstCast e n p s) ev = bindR (resolve_subqueries e ev) (\<lambda>e'. Inr (AstCast e' n p s))"
| "resolve_subqueries (AstExtract p e) ev = bindR (resolve_subqueries e ev) (\<lambda>e'. Inr (AstExtract p e'))"
| "resolve_subqueries (AstSubstring e s n) ev =
     bindR (resolve_subqueries e ev) (\<lambda>e'. Inr (AstSubstring e' s n))"
| "resolve_subqueries (AstBetween v l u) ev =
     bindR (resolve_subqueries v ev) (\<lambda>v'.
     bindR (resolve_subqueries l ev) (\<lambda>l'.
     bindR (resolve_subqueries u ev) (\<lambda>u'. Inr (AstBetween v' l' u'))))"
| "resolve_subqueries (AstLike v p neg) ev =
     bindR (resolve_subqueries v ev) (\<lambda>v'. bindR (resolve_subqueries p ev) (\<lambda>p'. Inr (AstLike v' p' neg)))"
| "resolve_subqueries (AstIn v items sub neg) ev =
     bindR (resolve_subqueries v ev) (\<lambda>v'.
     bindR (mapR (\<lambda>e. resolve_subqueries e ev) items) (\<lambda>items'. Inr (AstIn v' items' sub neg)))"
| "resolve_subqueries (AstCase wts els) ev =
     bindR (mapR (\<lambda>(c, r). bindR (resolve_subqueries c ev) (\<lambda>c'.
                            bindR (resolve_subqueries r ev) (\<lambda>r'. Inr (c', r')))) wts) (\<lambda>wts'.
     case els of
       None \<Rightarrow> Inr (AstCase wts' None)
     | Some e \<Rightarrow> bindR (resolve_subqueries e ev) (\<lambda>e'. Inr (AstCase wts' (Some e'))))"
| "resolve_subqueries (AstAggregate f arg) ev =
     (case arg of
        None \<Rightarrow> Inr (AstAggregate f None)
      | Some e \<Rightarrow> bindR (resolve_subqueries e ev) (\<lambda>e'. Inr (AstAggregate f (Some e'))))"
| "resolve_subqueries e ev = Inr e"

fun resolve_in_subqueries ::
  "AstExpr \<Rightarrow> (AstSelectStatement \<Rightarrow> ast_literal list result) \<Rightarrow> AstExpr result" where
  "resolve_in_subqueries (AstIn v items sub neg) ev =
     bindR (resolve_in_subqueries v ev) (\<lambda>v'.
     case sub of
       Some stmt \<Rightarrow> bindR (ev stmt) (\<lambda>values.
         if values = [] then Inr (AstLiteral (LitBoolean neg))
         else Inr (AstIn v' (map AstLiteral values) None neg))
     | None \<Rightarrow> bindR (mapR (\<lambda>e. resolve_in_subqueries e ev) items) (\<lambda>items'. Inr (AstIn v' items' None neg)))"
| "resolve_in_subqueries (AstBinary op l r) ev =
     bindR (resolve_in_subqueries l ev) (\<lambda>l'. bindR (resolve_in_subqueries r ev) (\<lambda>r'. Inr (AstBinary op l' r')))"
| "resolve_in_subqueries (AstUnary op e) ev = bindR (resolve_in_subqueries e ev) (\<lambda>e'. Inr (AstUnary op e'))"
| "resolve_in_subqueries (AstCast e n p s) ev =
     bindR (resolve_in_subqueries e ev) (\<lambda>e'. Inr (AstCast e' n p s))"
| "resolve_in_subqueries (AstExtract p e) ev = bindR (resolve_in_subqueries e ev) (\<lambda>e'. Inr (AstExtract p e'))"
| "resolve_in_subqueries (AstSubstring e s n) ev =
     bindR (resolve_in_subqueries e ev) (\<lambda>e'. Inr (AstSubstring e' s n))"
| "resolve_in_subqueries (AstBetween v l u) ev =
     bindR (resolve_in_subqueries v ev) (\<lambda>v'.
     bindR (resolve_in_subqueries l ev) (\<lambda>l'.
     bindR (resolve_in_subqueries u ev) (\<lambda>u'. Inr (AstBetween v' l' u'))))"
| "resolve_in_subqueries (AstLike v p neg) ev =
     bindR (resolve_in_subqueries v ev) (\<lambda>v'.
     bindR (resolve_in_subqueries p ev) (\<lambda>p'. Inr (AstLike v' p' neg)))"
| "resolve_in_subqueries (AstCase wts els) ev =
     bindR (mapR (\<lambda>(c, r). bindR (resolve_in_subqueries c ev) (\<lambda>c'.
                            bindR (resolve_in_subqueries r ev) (\<lambda>r'. Inr (c', r')))) wts) (\<lambda>wts'.
     case els of
       None \<Rightarrow> Inr (AstCase wts' None)
     | Some e \<Rightarrow> bindR (resolve_in_subqueries e ev) (\<lambda>e'. Inr (AstCase wts' (Some e'))))"
| "resolve_in_subqueries (AstAggregate f arg) ev =
     (case arg of
        None \<Rightarrow> Inr (AstAggregate f None)
      | Some e \<Rightarrow> bindR (resolve_in_subqueries e ev) (\<lambda>e'. Inr (AstAggregate f (Some e'))))"
| "resolve_in_subqueries e ev = Inr e"

section \<open>EXISTS\<close>

text \<open>The join clause of a statement, made from its FROM source when it has none.\<close>

definition promoted_join :: "AstSelectStatement \<Rightarrow> AstJoinClause" where
  "promoted_join stmt =
     (case join_clause stmt of
        Some j \<Rightarrow> j
      | None \<Rightarrow> AstJoin (from_paths stmt) (case from_alias stmt of None \<Rightarrow> [] | Some a \<Rightarrow> a) [])"

definition add_join_steps :: "AstSelectStatement \<Rightarrow> AstJoinStep list \<Rightarrow> AstExpr option \<Rightarrow> AstSelectStatement" where
  "add_join_steps stmt steps w =
     (let j = promoted_join stmt
      in AstSelect (select_list stmt) (from_paths stmt) (from_alias stmt)
           (Some (AstJoin (first_paths j) (first_alias j) (join_steps j @ steps)))
           (from_subquery stmt) w (group_by stmt) (having_clause stmt) (order_by stmt) (limit_clause stmt))"

text \<open>Neither a derived table nor a single source without an alias has a name to correlate with.\<close>

definition has_outer_scope :: "AstSelectStatement \<Rightarrow> bool" where
  "has_outer_scope stmt \<longleftrightarrow>
     where_clause stmt \<noteq> None \<and> from_subquery stmt = None \<and>
     (join_clause stmt \<noteq> None \<or> from_alias stmt \<noteq> None)"

definition exists_step :: "AstExpr \<Rightarrow> AstJoinStep option" where
  "exists_step conjunct =
     (case conjunct of
        AstExists sub negated \<Rightarrow>
          (case (where_clause sub, from_alias sub) of
             (Some w, Some a) \<Rightarrow>
               if join_clause sub = None \<and> from_subquery sub = None \<and> group_by sub = [] \<and>
                  having_clause sub = None \<and> order_by sub = [] \<and> limit_clause sub = None
               then Some (AstStep (from_paths sub) a w (if negated then LeftAnti else LeftSemi) None)
               else None
           | _ \<Rightarrow> None)
      | _ \<Rightarrow> None)"

definition rewrite_exists_subqueries :: "AstSelectStatement \<Rightarrow> AstSelectStatement" where
  "rewrite_exists_subqueries stmt =
     (if \<not> has_outer_scope stmt then stmt
      else
        let conjuncts = collect_and_conjuncts (the (where_clause stmt));
            remaining = filter (\<lambda>c. exists_step c = None) conjuncts;
            new_steps = List.map_filter exists_step conjuncts
        in if new_steps = [] then stmt else add_join_steps stmt new_steps (rebuild_and remaining))"

section \<open>Correlated scalar subqueries\<close>

fun strip_table_qualifier :: "AstExpr \<Rightarrow> AstExpr" where
  "strip_table_qualifier (AstColumnRef n t) = AstColumnRef n None"
| "strip_table_qualifier (AstBinary op l r) = AstBinary op (strip_table_qualifier l) (strip_table_qualifier r)"
| "strip_table_qualifier (AstUnary op e) = AstUnary op (strip_table_qualifier e)"
| "strip_table_qualifier (AstCast e n p s) = AstCast (strip_table_qualifier e) n p s"
| "strip_table_qualifier (AstExtract p e) = AstExtract p (strip_table_qualifier e)"
| "strip_table_qualifier (AstSubstring e s n) = AstSubstring (strip_table_qualifier e) s n"
| "strip_table_qualifier (AstBetween v l u) =
     AstBetween (strip_table_qualifier v) (strip_table_qualifier l) (strip_table_qualifier u)"
| "strip_table_qualifier (AstLike v p neg) = AstLike (strip_table_qualifier v) (strip_table_qualifier p) neg"
| "strip_table_qualifier (AstIn v items sub neg) =
     AstIn (strip_table_qualifier v) (map strip_table_qualifier items) sub neg"
| "strip_table_qualifier (AstCase wts els) =
     AstCase (map (\<lambda>(c, r). (strip_table_qualifier c, strip_table_qualifier r)) wts)
       (map_option strip_table_qualifier els)"
| "strip_table_qualifier (AstAggregate f arg) = AstAggregate f (map_option strip_table_qualifier arg)"
| "strip_table_qualifier e = e"

definition outer_aliases :: "AstSelectStatement \<Rightarrow> string list" where
  "outer_aliases stmt =
     (case join_clause stmt of
        Some j \<Rightarrow> first_alias j # map step_alias (join_steps j)
      | None \<Rightarrow> (case from_alias stmt of Some a \<Rightarrow> [a] | None \<Rightarrow> []))"

definition is_outer_alias :: "string option \<Rightarrow> string list \<Rightarrow> bool" where
  "is_outer_alias table aliases \<longleftrightarrow> (case table of None \<Rightarrow> False | Some t \<Rightarrow> t \<in> set aliases)"

fun is_comparison_op :: "AstBinaryOp \<Rightarrow> bool" where
  "is_comparison_op AEq = True" | "is_comparison_op ANotEq = True" | "is_comparison_op ALt = True"
| "is_comparison_op ALtEq = True" | "is_comparison_op AGt = True" | "is_comparison_op AGtEq = True"
| "is_comparison_op _ = False"

record ScalarSubqueryComparison =
  outer_expr :: AstExpr
  subquery_on_right :: bool
  sc_op :: AstBinaryOp
  sc_inner :: AstSelectStatement

fun match_scalar_subquery_comparison :: "AstExpr \<Rightarrow> ScalarSubqueryComparison option" where
  "match_scalar_subquery_comparison (AstBinary op l r) =
     (if \<not> is_comparison_op op then None
      else case (l, r) of
             (AstSubquery _, AstSubquery _) \<Rightarrow> None
           | (_, AstSubquery s) \<Rightarrow> Some \<lparr>outer_expr = l, subquery_on_right = True, sc_op = op, sc_inner = s\<rparr>
           | (AstSubquery s, _) \<Rightarrow> Some \<lparr>outer_expr = r, subquery_on_right = False, sc_op = op, sc_inner = s\<rparr>
           | _ \<Rightarrow> None)"
| "match_scalar_subquery_comparison _ = None"

text \<open>An equation of an outer with an inner column: the outer column first.\<close>

fun correlation :: "string list \<Rightarrow> AstExpr \<Rightarrow> (AstExpr \<times> AstExpr) option" where
  "correlation scope (AstBinary AEq (AstColumnRef m t) (AstColumnRef n u)) =
     (if is_outer_alias t scope \<and> \<not> is_outer_alias u scope then Some (AstColumnRef m t, AstColumnRef n u)
      else if is_outer_alias u scope \<and> \<not> is_outer_alias t scope then Some (AstColumnRef n u, AstColumnRef m t)
      else None)"
| "correlation scope _ = None"

record DecorrelatedSubquery =
  derived_select :: AstSelectStatement
  derived_alias :: string
  join_condition :: AstExpr
  extra_where_conjuncts :: "AstExpr list"
  value_column_name :: string

definition key_equation :: "string \<Rightarrow> nat \<Rightarrow> AstExpr \<Rightarrow> AstExpr" where
  "key_equation alias i outer =
     AstBinary AEq outer (AstColumnRef (''__corr_key_'' @ int_str (int i)) (Some alias))"

definition try_decorrelate :: "AstSelectStatement \<Rightarrow> string list \<Rightarrow> int \<Rightarrow> DecorrelatedSubquery option" where
  "try_decorrelate inner scope synthetic_id =
     (case (select_list inner, where_clause inner) of
        ([item], Some w) \<Rightarrow>
          if from_subquery inner \<noteq> None \<or> group_by inner \<noteq> [] \<or> having_clause inner \<noteq> None \<or>
             order_by inner \<noteq> [] \<or> limit_clause inner \<noteq> None \<or>
             (join_clause inner = None \<and> from_alias inner = None)
          then None
          else
            let conjuncts = collect_and_conjuncts w;
                keys = List.map_filter (correlation scope) conjuncts;
                remaining = filter (\<lambda>c. correlation scope c = None) conjuncts;
                adapt = (if join_clause inner = None then strip_table_qualifier else (\<lambda>e. e));
                alias = ''__corr_subq_'' @ int_str synthetic_id;
                inner_keys = map (adapt \<circ> snd) keys
            in case keys of
                 [] \<Rightarrow> None
               | (outer0, _) # others \<Rightarrow> Some
                   \<lparr>derived_select =
                      AstSelect
                        (map (\<lambda>(i, e). (e, Some (''__corr_key_'' @ int_str (int i)))) (enumerate 0 inner_keys)
                         @ [(adapt (fst item), Some ''__corr_val_0'')])
                        (from_paths inner) (from_alias inner) (join_clause inner) None
                        (rebuild_and (map adapt remaining)) inner_keys None [] None,
                    derived_alias = alias,
                    join_condition = key_equation alias 0 outer0,
                    extra_where_conjuncts =
                      map (\<lambda>(i, k). key_equation alias i (fst k)) (enumerate 1 others),
                    value_column_name = ''__corr_val_0''\<rparr>
      | _ \<Rightarrow> None)"

text \<open>The conjuncts in order, with the number of subqueries decorrelated so far.\<close>

fun decorrelate_conjuncts ::
  "string list \<Rightarrow> int \<Rightarrow> AstExpr list \<Rightarrow> AstExpr list \<times> AstJoinStep list \<times> AstExpr list" where
  "decorrelate_conjuncts scope k [] = ([], [], [])"
| "decorrelate_conjuncts scope k (c # cs) =
     (case match_scalar_subquery_comparison c of
        None \<Rightarrow> (let (cs', steps, extra) = decorrelate_conjuncts scope k cs in (c # cs', steps, extra))
      | Some m \<Rightarrow>
          (case try_decorrelate (sc_inner m) scope k of
             None \<Rightarrow> (let (cs', steps, extra) = decorrelate_conjuncts scope k cs in (c # cs', steps, extra))
           | Some d \<Rightarrow>
               let (cs', steps, extra) = decorrelate_conjuncts scope (k + 1) cs;
                   value_ref = AstColumnRef (value_column_name d) (Some (derived_alias d));
                   c' = (if subquery_on_right m then AstBinary (sc_op m) (outer_expr m) value_ref
                         else AstBinary (sc_op m) value_ref (outer_expr m));
                   step = AstStep [] (derived_alias d) (join_condition d) Inner (Some (derived_select d))
               in (c' # cs', step # steps, extra_where_conjuncts d @ extra)))"

definition rewrite_correlated_scalar_subqueries :: "AstSelectStatement \<Rightarrow> AstSelectStatement" where
  "rewrite_correlated_scalar_subqueries stmt =
     (if \<not> has_outer_scope stmt then stmt
      else
        let (conjuncts, new_steps, extra) =
              decorrelate_conjuncts (outer_aliases stmt) 0 (collect_and_conjuncts (the (where_clause stmt)))
        in if new_steps = [] then stmt else add_join_steps stmt new_steps (rebuild_and (conjuncts @ extra)))"

section \<open>Nesting\<close>

definition maxl :: "nat list \<Rightarrow> nat" where
  "maxl xs = foldr max xs 0"

lemma maxl_simps [simp]: "maxl [] = 0" "maxl (x # xs) = max x (maxl xs)" "maxl (xs @ ys) = max (maxl xs) (maxl ys)"
proof -
  show "maxl [] = 0" "maxl (x # xs) = max x (maxl xs)" by (simp_all add: maxl_def)
  show "maxl (xs @ ys) = max (maxl xs) (maxl ys)" by (induction xs) (auto simp: maxl_def)
qed

lemma maxl_mem: "x \<in> set xs \<Longrightarrow> x \<le> maxl xs"
  by (induction xs) auto

lemma maxl_le: "(\<And>x. x \<in> set xs \<Longrightarrow> x \<le> n) \<Longrightarrow> maxl xs \<le> n"
  by (induction xs) auto

definition opt0 :: "nat option \<Rightarrow> nat" where
  "opt0 x = (case x of None \<Rightarrow> 0 | Some n \<Rightarrow> n)"

lemma opt0_simps [simp]: "opt0 None = 0" "opt0 (Some n) = n"
  by (simp_all add: opt0_def)

text \<open>How deep statements are nested in an expression and in a statement.\<close>

primrec expr_depth :: "AstExpr \<Rightarrow> nat"
  and stmt_depth :: "AstSelectStatement \<Rightarrow> nat"
  and join_depth :: "AstJoinClause \<Rightarrow> nat"
  and step_depth :: "AstJoinStep \<Rightarrow> nat" where
  "expr_depth (AstColumnRef n t) = 0"
| "expr_depth AstStar = 0"
| "expr_depth (AstLiteral v) = 0"
| "expr_depth (AstBinary op l r) = max (expr_depth l) (expr_depth r)"
| "expr_depth (AstUnary op e) = expr_depth e"
| "expr_depth (AstBetween v l u) = max (expr_depth v) (max (expr_depth l) (expr_depth u))"
| "expr_depth (AstAggregate f arg) = opt0 (map_option expr_depth arg)"
| "expr_depth (AstLike v p neg) = max (expr_depth v) (expr_depth p)"
| "expr_depth (AstIn v items sub neg) =
     max (expr_depth v) (max (maxl (map expr_depth items)) (opt0 (map_option stmt_depth sub)))"
| "expr_depth (AstCase wts els) =
     max (maxl (map (\<lambda>p. max (fst p) (snd p)) (map (map_prod expr_depth expr_depth) wts)))
       (opt0 (map_option expr_depth els))"
| "expr_depth (AstCast e n p s) = expr_depth e"
| "expr_depth (AstExtract p e) = expr_depth e"
| "expr_depth (AstSubstring e s n) = expr_depth e"
| "expr_depth (AstSubquery s) = stmt_depth s"
| "expr_depth (AstExists s neg) = stmt_depth s"
| "stmt_depth (AstSelect items paths alias j sub w g h ob lim) =
     Suc (maxl [maxl (map fst (map (map_prod expr_depth id) items)), opt0 (map_option join_depth j),
       opt0 (map_option stmt_depth sub), opt0 (map_option expr_depth w),
       maxl (map expr_depth g), opt0 (map_option expr_depth h),
       maxl (map fst (map (map_prod expr_depth id) ob))])"
| "join_depth (AstJoin paths alias steps) = maxl (map step_depth steps)"
| "step_depth (AstStep paths alias c jt d) = max (expr_depth c) (opt0 (map_option stmt_depth d))"

definition opt_depth :: "AstExpr option \<Rightarrow> nat" where
  "opt_depth e = opt0 (map_option expr_depth e)"

lemma opt_depth_simps [simp]: "opt_depth None = 0" "opt_depth (Some e) = expr_depth e"
  by (simp_all add: opt_depth_def)

lemma stmt_depth_parts:
  "stmt_depth stmt = Suc (maxl [maxl (map (expr_depth \<circ> fst) (select_list stmt)),
     opt0 (map_option join_depth (join_clause stmt)), opt0 (map_option stmt_depth (from_subquery stmt)), opt_depth (where_clause stmt),
     maxl (map expr_depth (group_by stmt)), opt_depth (having_clause stmt),
     maxl (map (expr_depth \<circ> fst) (order_by stmt))])"
  by (cases stmt) (simp add: opt_depth_def comp_def)

lemma part_depth:
  "opt_depth (where_clause stmt) < stmt_depth stmt" "opt_depth (having_clause stmt) < stmt_depth stmt"
  "opt0 (map_option join_depth (join_clause stmt)) < stmt_depth stmt"
  "opt0 (map_option stmt_depth (from_subquery stmt)) < stmt_depth stmt"
  unfolding stmt_depth_parts[of stmt] by (simp_all add: less_Suc_eq_le le_max_iff_disj)

lemma join_depth_steps: "join_depth j = maxl (map step_depth (join_steps j))"
  by (cases j) simp

lemma conjunct_depth: "maxl (map expr_depth (collect_and_conjuncts e)) = expr_depth e"
  by (induction e rule: collect_and_conjuncts.induct) auto

lemma foldl_and_depth: "expr_depth (foldl (AstBinary AAnd) c cs) = max (expr_depth c) (maxl (map expr_depth cs))"
  by (induction cs arbitrary: c) auto

lemma rebuild_depth: "opt_depth (rebuild_and cs) = maxl (map expr_depth cs)"
  by (cases cs) (simp_all add: foldl_and_depth)

lemma strip_depth [simp]: "expr_depth (strip_table_qualifier e) = expr_depth e"
proof (induction e rule: strip_table_qualifier.induct)
  case (9 v items sub neg)
  then show ?case by (simp add: comp_def cong: map_cong)
next
  case (10 wts els)
  have "max (expr_depth (strip_table_qualifier (fst x))) (expr_depth (strip_table_qualifier (snd x)))
      = max (expr_depth (fst x)) (expr_depth (snd x))" if "x \<in> set wts" for x
    using 10(1,2)[of x "fst x" "snd x"] that by (cases x) simp
  then show ?case using 10(3) by (cases els) (simp_all add: comp_def case_prod_beta cong: map_cong)
next
  case (11 f arg)
  then show ?case by (cases arg) simp_all
qed simp_all

lemma map_filter_Cons:
  "List.map_filter f (x # xs) = (case f x of None \<Rightarrow> List.map_filter f xs | Some y \<Rightarrow> y # List.map_filter f xs)"
  by (simp add: List.map_filter_def split: option.splits)

lemma map_filter_Nil [simp]: "List.map_filter f [] = []"
  by (simp add: List.map_filter_def)

lemma exists_step_depth: "exists_step c = Some st \<Longrightarrow> step_depth st \<le> expr_depth c"
proof -
  assume e: "exists_step c = Some st"
  then obtain sub neg where c: "c = AstExists sub neg" by (cases c) (auto simp: exists_step_def)
  with e obtain w where w: "where_clause sub = Some w" "step_depth st = expr_depth w"
    by (auto simp: exists_step_def split: option.splits if_splits)
  with c part_depth(1)[of sub] show ?thesis by simp
qed

lemma add_join_steps_depth:
  assumes "opt_depth w \<le> opt_depth (where_clause stmt)" "\<And>st. st \<in> set steps \<Longrightarrow> step_depth st \<le> opt_depth (where_clause stmt)"
  shows "stmt_depth (add_join_steps stmt steps w) \<le> stmt_depth stmt"
proof -
  have "maxl (map step_depth steps) \<le> opt_depth (where_clause stmt)" by (rule maxl_le) (use assms(2) in auto)
  moreover have "maxl (map step_depth (join_steps (promoted_join stmt)))
      = opt0 (map_option join_depth (join_clause stmt))"
    by (simp add: promoted_join_def join_depth_steps split: option.split)
  ultimately show ?thesis using assms(1)
    unfolding stmt_depth_parts[of stmt] stmt_depth_parts[of "add_join_steps stmt steps w"]
    by (simp add: add_join_steps_def Let_def) linarith
qed

lemma conjuncts_of_where:
  assumes "where_clause stmt = Some w" "c \<in> set (collect_and_conjuncts w)"
  shows "expr_depth c \<le> opt_depth (where_clause stmt)"
  using assms maxl_mem[of "expr_depth c" "map expr_depth (collect_and_conjuncts w)"] conjunct_depth[of w] by auto

lemma filter_depth: "maxl (map expr_depth (filter P cs)) \<le> maxl (map expr_depth cs)"
  by (rule maxl_le) (auto intro: maxl_mem)

lemma rewrite_exists_depth: "stmt_depth (rewrite_exists_subqueries stmt) \<le> stmt_depth stmt"
proof (cases "where_clause stmt")
  case (Some w)
  let ?cs = "collect_and_conjuncts w"
  have steps: "step_depth st \<le> opt_depth (where_clause stmt)" if "st \<in> set (List.map_filter exists_step ?cs)" for st
    using that conjuncts_of_where[OF Some] exists_step_depth
    by (auto simp: List.map_filter_def) (meson order_trans)
  have "opt_depth (rebuild_and (filter (\<lambda>c. exists_step c = None) ?cs)) \<le> opt_depth (where_clause stmt)"
    using filter_depth[of _ ?cs] Some by (simp add: rebuild_depth conjunct_depth)
  from add_join_steps_depth[OF this steps] show ?thesis
    using Some by (auto simp: rewrite_exists_subqueries_def Let_def)
qed (simp add: rewrite_exists_subqueries_def has_outer_scope_def)

lemma correlation_depth:
  "correlation scope c = Some (a, b) \<Longrightarrow> expr_depth a = 0 \<and> expr_depth b = 0"
  by (induction scope c rule: correlation.induct) (auto split: if_splits)

lemma enumerate_depth:
  "maxl (map (\<lambda>x. expr_depth (f (snd x))) (enumerate n xs)) = maxl (map (\<lambda>x. expr_depth (f x)) xs)"
  by (induction xs arbitrary: n) simp_all

lemma try_decorrelate_depth:
  assumes "try_decorrelate inner scope k = Some d"
  shows "stmt_depth (derived_select d) \<le> stmt_depth inner" "expr_depth (join_condition d) = 0"
    "maxl (map expr_depth (extra_where_conjuncts d)) = 0"
proof -
  from assms obtain item w where i: "select_list inner = [item]" "where_clause inner = Some w"
    by (auto simp: try_decorrelate_def split: list.splits option.splits)
  let ?cs = "collect_and_conjuncts w"
  let ?keys = "List.map_filter (correlation scope) ?cs"
  define adapt where "adapt = (if join_clause inner = None then strip_table_qualifier else (\<lambda>e. e))"
  have ad [simp]: "expr_depth (adapt e) = expr_depth e" for e by (simp add: adapt_def)
  have k0: "expr_depth (fst x) = 0 \<and> expr_depth (snd x) = 0" if "x \<in> set ?keys" for x
    using that correlation_depth[of scope _ "fst x" "snd x"] by (auto simp: List.map_filter_def)
  obtain o0 i0 others where ks: "?keys = (o0, i0) # others"
    using assms i by (cases ?keys) (auto simp: try_decorrelate_def Let_def split: if_splits)
  have d: "derived_select d = AstSelect
      (map (\<lambda>(i, e). (e, Some (''__corr_key_'' @ int_str (int i)))) (enumerate 0 (map (adapt \<circ> snd) ?keys))
         @ [(adapt (fst item), Some ''__corr_val_0'')])
      (from_paths inner) (from_alias inner) (join_clause inner) None
      (rebuild_and (map adapt (filter (\<lambda>c. correlation scope c = None) ?cs))) (map (adapt \<circ> snd) ?keys) None [] None"
    "join_condition d = key_equation (''__corr_subq_'' @ int_str k) 0 o0"
    "extra_where_conjuncts d = map (\<lambda>(i, x). key_equation (''__corr_subq_'' @ int_str k) i (fst x)) (enumerate 1 others)"
    using assms i ks by (auto simp: try_decorrelate_def Let_def adapt_def split: if_splits)
  show "expr_depth (join_condition d) = 0" using k0[of "(o0, i0)"] ks by (simp add: d(2) key_equation_def)
  have "expr_depth (fst (snd x)) = 0" if "x \<in> set (enumerate 1 others)" for x
  proof -
    have "snd x \<in> set others" using that map_snd_enumerate[of 1 others] by (metis image_eqI list.set_map)
    then show ?thesis using k0[of "snd x"] ks by simp
  qed
  then have "maxl (map expr_depth (extra_where_conjuncts d)) \<le> 0"
    unfolding d(3) by (intro maxl_le) (force simp: key_equation_def)
  then show "maxl (map expr_depth (extra_where_conjuncts d)) = 0" by simp
  have keys: "maxl (map expr_depth (map (adapt \<circ> snd) ?keys)) = 0"
    using maxl_le[of "map expr_depth (map (adapt \<circ> snd) ?keys)" 0] k0 by auto
  have w: "maxl (map expr_depth (filter (\<lambda>c. correlation scope c = None) ?cs)) \<le> expr_depth w"
    using filter_depth[of _ ?cs] by (simp add: conjunct_depth)
  have "maxl (map (\<lambda>x. expr_depth (snd x)) (enumerate 0 (map (adapt \<circ> snd) ?keys))) = 0"
    using enumerate_depth[of "\<lambda>e. e" 0 "map (adapt \<circ> snd) ?keys"] keys by simp
  with keys w show "stmt_depth (derived_select d) \<le> stmt_depth inner"
    unfolding stmt_depth_parts[of inner] d(1)
    by (simp add: i rebuild_depth opt_depth_def[symmetric] case_prod_beta comp_def) linarith
qed

lemma match_depth:
  "match_scalar_subquery_comparison c = Some m \<Longrightarrow>
     stmt_depth (sc_inner m) \<le> expr_depth c \<and> expr_depth (outer_expr m) \<le> expr_depth c"
  by (induction c rule: match_scalar_subquery_comparison.induct) (auto split: if_splits AstExpr.splits)

lemma decorrelate_depth:
  assumes "decorrelate_conjuncts scope k cs = (cs', steps, extra)" "\<And>c. c \<in> set cs \<Longrightarrow> expr_depth c \<le> n"
  shows "maxl (map expr_depth cs') \<le> n \<and> (\<forall>st \<in> set steps. step_depth st \<le> n) \<and> maxl (map expr_depth extra) = 0"
  using assms
proof (induction cs arbitrary: k cs' steps extra)
  case (Cons c cs)
  have c: "expr_depth c \<le> n" using Cons.prems by simp
  show ?case
  proof (cases "match_scalar_subquery_comparison c")
    case None
    with Cons c show ?thesis by (auto split: prod.splits)
  next
    case (Some m)
    note m = match_depth[OF Some]
    show ?thesis
    proof (cases "try_decorrelate (sc_inner m) scope k")
      case None
      with Some Cons c show ?thesis by (auto split: prod.splits)
    next
      case (Some d)
      note d = try_decorrelate_depth[OF Some]
      obtain cs'' steps' extra' where r: "decorrelate_conjuncts scope (k + 1) cs = (cs'', steps', extra')"
        by (cases "decorrelate_conjuncts scope (k + 1) cs") auto
      have n: "expr_depth (outer_expr m) \<le> n" "stmt_depth (derived_select d) \<le> n" using m d(1) c by auto
      show ?thesis
        using Cons.IH[OF r] Cons.prems n d(2,3) r \<open>match_scalar_subquery_comparison c = Some m\<close> Some
        by (auto simp: Let_def)
    qed
  qed
qed auto

lemma rewrite_correlated_depth: "stmt_depth (rewrite_correlated_scalar_subqueries stmt) \<le> stmt_depth stmt"
proof (cases "where_clause stmt")
  case (Some w)
  let ?cs = "collect_and_conjuncts w"
  obtain cs' steps extra where r: "decorrelate_conjuncts (outer_aliases stmt) 0 ?cs = (cs', steps, extra)"
    by (cases "decorrelate_conjuncts (outer_aliases stmt) 0 ?cs") auto
  have d: "maxl (map expr_depth cs') \<le> expr_depth w \<and> (\<forall>st \<in> set steps. step_depth st \<le> expr_depth w) \<and>
      maxl (map expr_depth extra) = 0"
    by (rule decorrelate_depth[OF r]) (use conjuncts_of_where[OF Some] Some in auto)
  have "opt_depth (rebuild_and (cs' @ extra)) \<le> opt_depth (where_clause stmt)"
    using d Some by (simp add: rebuild_depth)
  from add_join_steps_depth[OF this, of steps] d show ?thesis
    using Some by (auto simp: rewrite_correlated_scalar_subqueries_def r)
qed (simp add: rewrite_correlated_scalar_subqueries_def has_outer_scope_def)

section \<open>The statements an expression evaluates\<close>

fun scalar_subs :: "AstExpr \<Rightarrow> AstSelectStatement list" where
  "scalar_subs (AstSubquery s) = [s]"
| "scalar_subs (AstBinary op l r) = scalar_subs l @ scalar_subs r"
| "scalar_subs (AstUnary op e) = scalar_subs e"
| "scalar_subs (AstCast e n p s) = scalar_subs e"
| "scalar_subs (AstExtract p e) = scalar_subs e"
| "scalar_subs (AstSubstring e s n) = scalar_subs e"
| "scalar_subs (AstBetween v l u) = scalar_subs v @ scalar_subs l @ scalar_subs u"
| "scalar_subs (AstLike v p neg) = scalar_subs v @ scalar_subs p"
| "scalar_subs (AstIn v items sub neg) = scalar_subs v @ concat (map scalar_subs items)"
| "scalar_subs (AstCase wts els) =
     concat (map (\<lambda>(c, r). scalar_subs c @ scalar_subs r) wts)
     @ (case els of None \<Rightarrow> [] | Some e \<Rightarrow> scalar_subs e)"
| "scalar_subs (AstAggregate f arg) = (case arg of None \<Rightarrow> [] | Some e \<Rightarrow> scalar_subs e)"
| "scalar_subs e = []"

fun in_subs :: "AstExpr \<Rightarrow> AstSelectStatement list" where
  "in_subs (AstIn v items sub neg) =
     in_subs v @ (case sub of Some s \<Rightarrow> [s] | None \<Rightarrow> concat (map in_subs items))"
| "in_subs (AstBinary op l r) = in_subs l @ in_subs r"
| "in_subs (AstUnary op e) = in_subs e"
| "in_subs (AstCast e n p s) = in_subs e"
| "in_subs (AstExtract p e) = in_subs e"
| "in_subs (AstSubstring e s n) = in_subs e"
| "in_subs (AstBetween v l u) = in_subs v @ in_subs l @ in_subs u"
| "in_subs (AstLike v p neg) = in_subs v @ in_subs p"
| "in_subs (AstCase wts els) =
     concat (map (\<lambda>(c, r). in_subs c @ in_subs r) wts)
     @ (case els of None \<Rightarrow> [] | Some e \<Rightarrow> in_subs e)"
| "in_subs (AstAggregate f arg) = (case arg of None \<Rightarrow> [] | Some e \<Rightarrow> in_subs e)"
| "in_subs e = []"

lemma ast_parts_depth:
  "x \<in> set items \<Longrightarrow> expr_depth x \<le> expr_depth (AstIn v items sub neg)"
  "(c, r) \<in> set wts \<Longrightarrow> expr_depth c \<le> expr_depth (AstCase wts els)"
  "(c, r) \<in> set wts \<Longrightarrow> expr_depth r \<le> expr_depth (AstCase wts els)"
proof -
  show "expr_depth x \<le> expr_depth (AstIn v items sub neg)" if "x \<in> set items"
    using maxl_mem[of "expr_depth x" "map expr_depth items"] that by simp
  have "max (expr_depth c) (expr_depth r) \<le> maxl (map (\<lambda>p. max (expr_depth (fst p)) (expr_depth (snd p))) wts)"
    if "(c, r) \<in> set wts"
    by (rule maxl_mem) (use that in force)
  then show "(c, r) \<in> set wts \<Longrightarrow> expr_depth c \<le> expr_depth (AstCase wts els)"
    "(c, r) \<in> set wts \<Longrightarrow> expr_depth r \<le> expr_depth (AstCase wts els)"
    by (simp_all add: comp_def le_max_iff_disj)
qed

lemma scalar_subs_depth: "s \<in> set (scalar_subs e) \<Longrightarrow> stmt_depth s \<le> expr_depth e"
proof (induction e rule: scalar_subs.induct)
  case (9 v items sub neg)
  then consider "s \<in> set (scalar_subs v)" | x where "x \<in> set items" "s \<in> set (scalar_subs x)"
    by (auto split: option.splits)
  then show ?case
  proof cases
    case 1
    then show ?thesis using "9.IH"(1) by simp
  next
    case (2 x)
    then show ?thesis using "9.IH"(2) ast_parts_depth(1) order_trans by blast
  qed
next
  case (10 wts els)
  then consider c r where "(c, r) \<in> set wts" "s \<in> set (scalar_subs c) \<or> s \<in> set (scalar_subs r)"
    | x where "els = Some x" "s \<in> set (scalar_subs x)"
    by (auto split: option.splits)
  then show ?case
  proof cases
    case (1 c r)
    then have "stmt_depth s \<le> expr_depth c \<or> stmt_depth s \<le> expr_depth r" using "10.IH"(1,2) by blast
    then show ?thesis using ast_parts_depth(2,3)[OF 1(1), of els] order_trans by blast
  next
    case (2 x)
    then show ?thesis using "10.IH"(3) by simp
  qed
next
  case (11 f arg)
  then show ?case by (cases arg) simp_all
qed auto

lemma in_subs_depth: "s \<in> set (in_subs e) \<Longrightarrow> stmt_depth s \<le> expr_depth e"
proof (induction e rule: in_subs.induct)
  case (1 v items sub neg)
  then consider "s \<in> set (in_subs v)" | x where "x \<in> set items" "sub = None" "s \<in> set (in_subs x)" | "sub = Some s"
    by (auto split: option.splits)
  then show ?case
  proof cases
    case 1
    then show ?thesis using "1.IH"(1) by simp
  next
    case (2 x)
    then show ?thesis using "1.IH"(2) ast_parts_depth(1) order_trans by blast
  next
    case 3
    then show ?thesis by simp
  qed
next
  case (9 wts els)
  then consider c r where "(c, r) \<in> set wts" "s \<in> set (in_subs c) \<or> s \<in> set (in_subs r)"
    | x where "els = Some x" "s \<in> set (in_subs x)"
    by (auto split: option.splits)
  then show ?case
  proof cases
    case (1 c r)
    then have "stmt_depth s \<le> expr_depth c \<or> stmt_depth s \<le> expr_depth r" using "9.IH"(1,2) by blast
    then show ?thesis using ast_parts_depth(2,3)[OF 1(1), of els] order_trans by blast
  next
    case (2 x)
    then show ?thesis using "9.IH"(3) by simp
  qed
next
  case (10 f arg)
  then show ?case by (cases arg) simp_all
qed auto

lemma resolve_subqueries_eval_cong:
  "(\<And>s. s \<in> set (scalar_subs e) \<Longrightarrow> ev s = ev' s) \<Longrightarrow> resolve_subqueries e ev = resolve_subqueries e ev'"
proof (induction e rule: scalar_subs.induct)
  case (9 v items sub neg)
  have "mapR (\<lambda>e. resolve_subqueries e ev) items = mapR (\<lambda>e. resolve_subqueries e ev') items"
    by (rule mapR_cong[OF refl], rule 9(2)) (use 9(3) in auto)
  then show ?case using 9(1,3) by simp
next
  case (10 wts els)
  have "bindR (resolve_subqueries c ev) (\<lambda>c'. bindR (resolve_subqueries r ev) (\<lambda>r'. Inr (c', r')))
      = bindR (resolve_subqueries c ev') (\<lambda>c'. bindR (resolve_subqueries r ev') (\<lambda>r'. Inr (c', r')))"
    if "(c, r) \<in> set wts" for c r
  proof -
    have "resolve_subqueries c ev = resolve_subqueries c ev'" "resolve_subqueries r ev = resolve_subqueries r ev'"
      using 10(1,2)[OF that refl] 10(4) that by force+
    then show ?thesis by simp
  qed
  then have "mapR (\<lambda>(c, r). bindR (resolve_subqueries c ev) (\<lambda>c'. bindR (resolve_subqueries r ev) (\<lambda>r'. Inr (c', r')))) wts
      = mapR (\<lambda>(c, r). bindR (resolve_subqueries c ev') (\<lambda>c'. bindR (resolve_subqueries r ev') (\<lambda>r'. Inr (c', r')))) wts"
    by (intro mapR_cong refl) auto
  then show ?case using 10(3,4) by (cases els) simp_all
next
  case (11 f arg)
  then show ?case by (cases arg) simp_all
qed auto

lemma resolve_subqueries_cong [fundef_cong]:
  "e = e' \<Longrightarrow> (\<And>s. s \<in> set (scalar_subs e') \<Longrightarrow> ev s = ev' s) \<Longrightarrow> resolve_subqueries e ev = resolve_subqueries e' ev'"
  using resolve_subqueries_eval_cong by blast

lemma resolve_in_subqueries_eval_cong:
  "(\<And>s. s \<in> set (in_subs e) \<Longrightarrow> ev s = ev' s) \<Longrightarrow> resolve_in_subqueries e ev = resolve_in_subqueries e ev'"
proof (induction e rule: in_subs.induct)
  case (1 v items sub neg)
  show ?case
  proof (cases sub)
    case None
    then have "mapR (\<lambda>e. resolve_in_subqueries e ev) items = mapR (\<lambda>e. resolve_in_subqueries e ev') items"
      by (intro mapR_cong[OF refl] 1(2)) (use 1(3) in auto)
    then show ?thesis using 1(1,3) None by simp
  qed (use 1(1,3) in simp)
next
  case (9 wts els)
  have "bindR (resolve_in_subqueries c ev) (\<lambda>c'. bindR (resolve_in_subqueries r ev) (\<lambda>r'. Inr (c', r')))
      = bindR (resolve_in_subqueries c ev') (\<lambda>c'. bindR (resolve_in_subqueries r ev') (\<lambda>r'. Inr (c', r')))"
    if "(c, r) \<in> set wts" for c r
  proof -
    have "resolve_in_subqueries c ev = resolve_in_subqueries c ev'" "resolve_in_subqueries r ev = resolve_in_subqueries r ev'"
      using 9(1,2)[OF that refl] 9(4) that by force+
    then show ?thesis by simp
  qed
  then have "mapR (\<lambda>(c, r). bindR (resolve_in_subqueries c ev) (\<lambda>c'. bindR (resolve_in_subqueries r ev) (\<lambda>r'. Inr (c', r')))) wts
      = mapR (\<lambda>(c, r). bindR (resolve_in_subqueries c ev') (\<lambda>c'. bindR (resolve_in_subqueries r ev') (\<lambda>r'. Inr (c', r')))) wts"
    by (intro mapR_cong refl) auto
  then show ?case using 9(3,4) by (cases els) simp_all
next
  case (10 f arg)
  then show ?case by (cases arg) simp_all
qed auto

lemma resolve_in_subqueries_cong [fundef_cong]:
  "e = e' \<Longrightarrow> (\<And>s. s \<in> set (in_subs e') \<Longrightarrow> ev s = ev' s) \<Longrightarrow> resolve_in_subqueries e ev = resolve_in_subqueries e' ev'"
  using resolve_in_subqueries_eval_cong by blast

text \<open>A pass leaves none of its own subqueries, and adds none of the other's.\<close>

lemma mapR_concat_subset:
  assumes "mapR f xs = Inr ys" "\<And>x y. x \<in> set xs \<Longrightarrow> f x = Inr y \<Longrightarrow> set (g y) \<subseteq> set (h x)"
  shows "set (concat (map g ys)) \<subseteq> set (concat (map h xs))"
  using assms mapR_result_mem[OF assms(1)] by fastforce

lemma resolve_subqueries_subs:
  "resolve_subqueries e ev = Inr e' \<Longrightarrow> set (scalar_subs e') = {} \<and> set (in_subs e') \<subseteq> set (in_subs e)"
proof (induction e arbitrary: e' rule: scalar_subs.induct)
  case (9 v items sub neg)
  then obtain v' items' where r: "resolve_subqueries v ev = Inr v'"
    "mapR (\<lambda>e. resolve_subqueries e ev) items = Inr items'" "e' = AstIn v' items' sub neg"
    by (auto simp: bindR_eq_Inr)
  have "set (concat (map scalar_subs items')) \<subseteq> set (concat (map (\<lambda>x. []) items))"
    "set (concat (map in_subs items')) \<subseteq> set (concat (map in_subs items))"
    by (rule mapR_concat_subset[OF r(2)]; use 9(2) in auto)+
  then show ?case using 9(1)[OF r(1)] r(3) by (cases sub) auto
next
  case (10 wts els)
  then obtain wts' els' where r: "mapR (\<lambda>(c, r). bindR (resolve_subqueries c ev) (\<lambda>c'.
      bindR (resolve_subqueries r ev) (\<lambda>r'. Inr (c', r')))) wts = Inr wts'" "e' = AstCase wts' els'"
    "(els = None \<and> els' = None) \<or> (\<exists>x x'. els = Some x \<and> els' = Some x' \<and> resolve_subqueries x ev = Inr x')"
    by (cases els) (auto simp: bindR_eq_Inr)
  have one: "set (scalar_subs (fst y) @ scalar_subs (snd y)) \<subseteq> {} \<and>
      set (in_subs (fst y) @ in_subs (snd y)) \<subseteq> set (in_subs (fst x) @ in_subs (snd x))"
    if "x \<in> set wts" "(case x of (c, r) \<Rightarrow> bindR (resolve_subqueries c ev) (\<lambda>c'.
      bindR (resolve_subqueries r ev) (\<lambda>r'. Inr (c', r')))) = Inr y" for x y
  proof -
    obtain c r where x: "x = (c, r)" by force
    show ?thesis using that 10(1,2)[of x c r] unfolding x by (auto simp: bindR_eq_Inr)
  qed
  have "set (concat (map (\<lambda>y. scalar_subs (fst y) @ scalar_subs (snd y)) wts')) \<subseteq> set (concat (map (\<lambda>x. []) wts))"
    by (rule mapR_concat_subset[OF r(1)]) (use one in fastforce)
  moreover have "set (concat (map (\<lambda>y. in_subs (fst y) @ in_subs (snd y)) wts'))
      \<subseteq> set (concat (map (\<lambda>x. in_subs (fst x) @ in_subs (snd x)) wts))"
    by (rule mapR_concat_subset[OF r(1)]) (use one in blast)
  ultimately show ?case using r(2,3) 10(3) by (fastforce simp: case_prod_beta)
next
  case (11 f arg)
  then show ?case by (cases arg) (fastforce simp: bindR_eq_Inr)+
qed (auto simp: bindR_eq_Inr)

lemma resolve_in_subqueries_subs:
  "resolve_in_subqueries e ev = Inr e' \<Longrightarrow> set (in_subs e') = {} \<and> set (scalar_subs e') \<subseteq> set (scalar_subs e)"
proof (induction e arbitrary: e' rule: in_subs.induct)
  case (1 v items sub neg)
  show ?case
  proof (cases sub)
    case None
    then obtain v' items' where r: "resolve_in_subqueries v ev = Inr v'"
      "mapR (\<lambda>e. resolve_in_subqueries e ev) items = Inr items'" "e' = AstIn v' items' None neg"
      using 1(3) by (auto simp: bindR_eq_Inr)
    have "set (concat (map in_subs items')) \<subseteq> set (concat (map (\<lambda>x. []) items))"
      "set (concat (map scalar_subs items')) \<subseteq> set (concat (map scalar_subs items))"
      by (rule mapR_concat_subset[OF r(2)]; use 1(2)[OF None] in auto)+
    then show ?thesis using 1(1)[OF r(1)] r(3) by auto
  next
    case (Some s)
    have "concat (map (scalar_subs \<circ> AstLiteral) vs) = []" "concat (map (in_subs \<circ> AstLiteral) vs) = []" for vs
      by (induction vs) auto
    then show ?thesis using 1(1,3) Some by (auto simp: bindR_eq_Inr split: if_splits)
  qed
next
  case (9 wts els)
  then obtain wts' els' where r: "mapR (\<lambda>(c, r). bindR (resolve_in_subqueries c ev) (\<lambda>c'.
      bindR (resolve_in_subqueries r ev) (\<lambda>r'. Inr (c', r')))) wts = Inr wts'" "e' = AstCase wts' els'"
    "(els = None \<and> els' = None) \<or> (\<exists>x x'. els = Some x \<and> els' = Some x' \<and> resolve_in_subqueries x ev = Inr x')"
    by (cases els) (auto simp: bindR_eq_Inr)
  have one: "set (in_subs (fst y) @ in_subs (snd y)) \<subseteq> {} \<and>
      set (scalar_subs (fst y) @ scalar_subs (snd y)) \<subseteq> set (scalar_subs (fst x) @ scalar_subs (snd x))"
    if "x \<in> set wts" "(case x of (c, r) \<Rightarrow> bindR (resolve_in_subqueries c ev) (\<lambda>c'.
      bindR (resolve_in_subqueries r ev) (\<lambda>r'. Inr (c', r')))) = Inr y" for x y
  proof -
    obtain c r where x: "x = (c, r)" by force
    show ?thesis using that 9(1,2)[of x c r] unfolding x by (auto simp: bindR_eq_Inr)
  qed
  have "set (concat (map (\<lambda>y. in_subs (fst y) @ in_subs (snd y)) wts')) \<subseteq> set (concat (map (\<lambda>x. []) wts))"
    by (rule mapR_concat_subset[OF r(1)]) (use one in fastforce)
  moreover have "set (concat (map (\<lambda>y. scalar_subs (fst y) @ scalar_subs (snd y)) wts'))
      \<subseteq> set (concat (map (\<lambda>x. scalar_subs (fst x) @ scalar_subs (snd x)) wts))"
    by (rule mapR_concat_subset[OF r(1)]) (use one in blast)
  ultimately show ?case using r(2,3) 9(3) by (fastforce simp: case_prod_beta)
next
  case (10 f arg)
  then show ?case by (cases arg) (fastforce simp: bindR_eq_Inr)+
qed (auto simp: bindR_eq_Inr)

section \<open>Properties\<close>

text \<open>
  C22. After the two passes over a WHERE clause no subquery is left in it for the binder: neither a
  scalar subquery nor an \<open>IN (SELECT ...)\<close>, whatever the nesting.
\<close>

theorem where_subqueries_resolved:
  assumes "resolve_subqueries w ev = Inr w1" "resolve_in_subqueries w1 ev' = Inr w2"
  shows "scalar_subs w2 = [] \<and> in_subs w2 = []"
  using resolve_subqueries_subs[OF assms(1)] resolve_in_subqueries_subs[OF assms(2)] by auto

definition demo_where :: AstExpr where
  "demo_where =
     AstBinary AAnd
       (AstBinary AGt (AstColumnRef ''x'' None)
         (AstSubquery (AstSelect [(AstStar, None)] [''t''] None None None None [] None [] None)))
       (AstIn (AstColumnRef ''y'' None) []
         (Some (AstSelect [(AstStar, None)] [''u''] None None None None [] None [] None)) True)"

theorem where_subqueries_resolved_witness:
  "\<exists>w1 w2. resolve_subqueries demo_where (\<lambda>s. Inr (LitInteger 3)) = Inr w1 \<and>
     resolve_in_subqueries w1 (\<lambda>s. Inr []) = Inr w2 \<and> scalar_subs w2 = [] \<and> in_subs w2 = [] \<and>
     w2 = AstBinary AAnd (AstBinary AGt (AstColumnRef ''x'' None) (AstLiteral (LitInteger 3)))
            (AstLiteral (LitBoolean True))"
proof -
  obtain w1 w2 where w: "resolve_subqueries demo_where (\<lambda>s. Inr (LitInteger 3)) = Inr w1"
    "resolve_in_subqueries w1 (\<lambda>s. Inr []) = Inr w2"
    "w2 = AstBinary AAnd (AstBinary AGt (AstColumnRef ''x'' None) (AstLiteral (LitInteger 3)))
            (AstLiteral (LitBoolean True))"
    by (simp add: demo_where_def)
  then show ?thesis using where_subqueries_resolved[OF w(1,2)] by blast
qed

text \<open>The conjuncts of a rebuilt conjunction are those it was built from.\<close>

lemma collect_foldl:
  "collect_and_conjuncts (foldl (AstBinary AAnd) c cs)
   = collect_and_conjuncts c @ concat (map collect_and_conjuncts cs)"
  by (induction cs arbitrary: c) auto

lemma collect_atomic: "c \<in> set (collect_and_conjuncts e) \<Longrightarrow> collect_and_conjuncts c = [c]"
  by (induction e rule: collect_and_conjuncts.induct) auto

lemma collect_rebuild:
  assumes "\<And>c. c \<in> set cs \<Longrightarrow> collect_and_conjuncts c = [c]"
  shows "(case rebuild_and cs of None \<Rightarrow> [] | Some e \<Rightarrow> collect_and_conjuncts e) = cs"
proof (cases cs)
  case (Cons c rest)
  have "concat (map collect_and_conjuncts rest) = rest"
    using assms Cons by (induction rest arbitrary: c cs) auto
  then show ?thesis using assms Cons by (simp add: collect_foldl)
qed simp


text \<open>\<open>SELECT * FROM o WHERE x > 1 AND NOT EXISTS (SELECT * FROM l WHERE l.k = o.k)\<close>\<close>

definition demo_exists :: AstSelectStatement where
  "demo_exists = AstSelect [(AstStar, None)] [''o''] (Some ''o'') None None
     (Some (AstBinary AAnd (AstBinary AGt (AstColumnRef ''x'' None) (AstLiteral (LitInteger 1)))
       (AstExists (AstSelect [(AstStar, None)] [''l''] (Some ''l'') None None
         (Some (AstBinary AEq (AstColumnRef ''k'' (Some ''l'')) (AstColumnRef ''k'' (Some ''o'')))) [] None [] None) True)))
     [] None [] None"


end
