(* ===== verification/BindQuery.thy ===== *)
theory BindQuery
  imports Binder Rewrite
begin

text \<open>
  The statement half of \<^verbatim>\<open>src/planner/binder.cpp\<close>: the clauses of a SELECT bound in order, and the ON
  condition of each join step split into the equality key, a filter of the new source and the
  residual of a semi or anti join. The lemmas show that a bound query is well typed clause by
  clause and that splitting an ON condition keeps the join's result, for every join type.
\<close>

section \<open>Bound queries\<close>

record BoundSelectItem =
  bs_expr :: expression
  output_name :: string

record BoundOrderByItem =
  bo_expr :: expression
  bo_ascending :: bool

record JoinStepKeys =
  combined_key_index :: nat
  source_key_index :: nat
  right_prefilter :: "expression option"
  residual_predicate :: "expression option"

record BoundJoinStep =
  bj_source_paths :: "string list"
  bj_keys :: JoinStepKeys
  bj_type :: JoinType

record BoundJoin =
  first_source_paths :: "string list"
  bj_steps :: "BoundJoinStep list"

record BoundQuery =
  bq_select_list :: "BoundSelectItem list"
  bq_output_schema :: Schema
  bq_source_paths :: "string list"
  bq_join :: "BoundJoin option"
  bq_where :: "expression option"
  bq_group_by :: "expression list"
  bq_having :: "expression option"
  bq_order_by :: "BoundOrderByItem list"
  bq_limit :: "int option"
  is_aggregate_query :: bool

section \<open>Clauses\<close>

definition add_select_item :: "BoundSelectItem list \<Rightarrow> expression \<Rightarrow> string \<Rightarrow> BoundSelectItem list result" where
  "add_select_item acc e name =
     (if name \<in> set (map output_name acc) then Inl (BindingError (''duplicate output column name '' @ name))
      else Inr (acc @ [\<lparr>bs_expr = e, output_name = name\<rparr>]))"

fun add_star :: "BoundSelectItem list \<Rightarrow> (Field \<times> nat) list \<Rightarrow> BoundSelectItem list result" where
  "add_star acc [] = Inr acc"
| "add_star acc ((f, i) # fs) =
     bindR (add_select_item acc (Column (fname f) i (ftype f)) (fname f)) (\<lambda>acc'. add_star acc' fs)"

definition item_name :: "AstExpr \<Rightarrow> string option \<Rightarrow> expression \<Rightarrow> string" where
  "item_name item al bound =
     (case al of Some n \<Rightarrow> n
      | None \<Rightarrow> (case item of AstColumnRef n tab \<Rightarrow> n | _ \<Rightarrow> to_string bound))"

text \<open>\<open>n\<close> is the length of the whole SELECT list.\<close>

fun bind_select :: "Binder \<Rightarrow> nat \<Rightarrow> BoundSelectItem list \<Rightarrow> (AstExpr \<times> string option) list \<Rightarrow>
    BoundSelectItem list result" where
  "bind_select B n acc [] = Inr acc"
| "bind_select B n acc ((item, al) # items) =
     (if item = AstStar
      then if n \<noteq> 1 then Inl (BindingError ''* cannot be combined with other SELECT-list items'')
           else bindR (add_star acc (all_fields_with_index B)) (\<lambda>acc'. bind_select B n acc' items)
      else bindR (bind B item True) (\<lambda>bound.
           bindR (add_select_item acc bound (item_name item al bound)) (\<lambda>acc'.
           bind_select B n acc' items)))"

definition select_schema :: "BoundSelectItem list \<Rightarrow> Schema" where
  "select_schema items = map (\<lambda>it. \<lparr>fname = output_name it, ftype = result_type (bs_expr it)\<rparr>) items"

definition bind_where :: "Binder \<Rightarrow> AstExpr option \<Rightarrow> expression option result" where
  "bind_where B w =
     (case w of None \<Rightarrow> Inr None
      | Some e \<Rightarrow>
          if contains_aggregate e then Inl (BindingError ''aggregate functions are not allowed in WHERE'')
          else bindR (bind B e False) (\<lambda>p.
               if type_id (result_type p) \<noteq> Boolean
               then Inl (BindingError ''WHERE clause must be a boolean expression'')
               else Inr (Some p)))"

text \<open>
  \<open>alias_to_select_index\<close>: output names are distinct, so the first position is the only one.
\<close>

definition alias_index :: "BoundSelectItem list \<Rightarrow> string \<Rightarrow> nat option" where
  "alias_index items name = find_field (select_schema items) name"

text \<open>A GROUP BY item: the key expression, and the SELECT item it names when it is an alias.\<close>

definition bind_group_item ::
  "Binder \<Rightarrow> BoundSelectItem list \<Rightarrow> AstExpr \<Rightarrow> (expression \<times> nat option) result" where
  "bind_group_item B items item =
     (case item of
        AstColumnRef name tab \<Rightarrow>
          bindR (if tab \<noteq> None then Inr True
                 else bindR (find_field_by_plain_name B name) (\<lambda>i. Inr (i \<noteq> None))) (\<lambda>is_column.
          if is_column then bindR (bind B item False) (\<lambda>e. Inr (e, None))
          else case alias_index items name of
            Some i \<Rightarrow> bindR (atR items i) (\<lambda>it. Inr (bs_expr it, Some i))
          | None \<Rightarrow> Inl (BindingError (''unknown column in GROUP BY '' @ name)))
      | _ \<Rightarrow> Inl (BindingError ''GROUP BY expressions must be plain column references in this version''))"

fun is_column_ref :: "AstExpr \<Rightarrow> bool" where
  "is_column_ref (AstColumnRef name tab) \<longleftrightarrow> True"
| "is_column_ref _ \<longleftrightarrow> False"

definition check_grouped ::
  "(AstExpr \<times> string option) list \<Rightarrow> BoundSelectItem list \<Rightarrow> string list \<Rightarrow> nat list \<Rightarrow> unit result" where
  "check_grouped ast_items items keys aliased =
     (if list_ex (\<lambda>i. fst (ast_items ! i) \<noteq> AstStar \<and> i \<notin> set aliased \<and>
          references_ungrouped_column (bs_expr (items ! i)) keys False) [0 ..< length ast_items]
      then Inl (BindingError ''column referenced in SELECT list must appear in GROUP BY'')
      else Inr ())"

definition bind_having :: "Binder \<Rightarrow> bool \<Rightarrow> string list \<Rightarrow> AstExpr option \<Rightarrow> expression option result" where
  "bind_having B agg keys h =
     (case h of None \<Rightarrow> Inr None
      | Some e \<Rightarrow>
          if \<not> agg then Inl (BindingError ''HAVING requires GROUP BY or an aggregate function'')
          else bindR (bind B e True) (\<lambda>p.
               if type_id (result_type p) \<noteq> Boolean
               then Inl (BindingError ''HAVING clause must be a boolean expression'')
               else if references_ungrouped_column p keys False
               then Inl (BindingError ''column referenced in HAVING must appear in GROUP BY'')
               else Inr (Some p)))"

definition bind_order_item :: "Binder \<Rightarrow> bool \<Rightarrow> Schema \<Rightarrow> AstExpr \<times> bool \<Rightarrow> BoundOrderByItem result" where
  "bind_order_item B agg out item =
     (case item of (e, asc) \<Rightarrow>
        if agg
        then case e of
            AstColumnRef name tab \<Rightarrow>
              (case find_field out name of
                 None \<Rightarrow> Inl (BindingError (''ORDER BY after GROUP BY: not an output column '' @ name))
               | Some i \<Rightarrow> bindR (atR out i) (\<lambda>f.
                   Inr \<lparr>bo_expr = Column (fname f) i (ftype f), bo_ascending = asc\<rparr>))
          | _ \<Rightarrow> Inl (BindingError ''ORDER BY after GROUP BY only supports a plain SELECT-list output name'')
        else bindR (bind B e True) (\<lambda>b. Inr \<lparr>bo_expr = b, bo_ascending = asc\<rparr>))"

definition bind_query_common :: "AstSelectStatement \<Rightarrow> Binder \<Rightarrow> bool \<Rightarrow> BoundQuery result" where
  "bind_query_common stmt B agg =
     (if \<not> list_all is_column_ref (group_by stmt)
      then Inl (BindingError ''GROUP BY expressions must be plain column references in this version'')
      else
        bindR (bind_select B (length (select_list stmt)) [] (select_list stmt)) (\<lambda>items.
        bindR (bind_where B (where_clause stmt)) (\<lambda>w.
        bindR (mapR (bind_group_item B items) (group_by stmt)) (\<lambda>gs.
        let keys = map (structural_key \<circ> fst) gs;
            aliased = concat (map (\<lambda>(e, i). case i of None \<Rightarrow> [] | Some k \<Rightarrow> [k]) gs)
        in bindR (if agg then check_grouped (select_list stmt) items keys aliased else Inr ()) (\<lambda>_.
        bindR (bind_having B agg keys (having_clause stmt)) (\<lambda>h.
        bindR (mapR (bind_order_item B agg (select_schema items)) (order_by stmt)) (\<lambda>os.
        Inr \<lparr>bq_select_list = items, bq_output_schema = select_schema items, bq_source_paths = [],
          bq_join = None, bq_where = w, bq_group_by = map fst gs, bq_having = h, bq_order_by = os,
          bq_limit = limit_clause stmt, is_aggregate_query = agg\<rparr>)))))))"

section \<open>Join conditions\<close>

fun collect_join_condition_conjuncts :: "expression \<Rightarrow> expression list" where
  "collect_join_condition_conjuncts (Binary And l r t) =
     collect_join_condition_conjuncts l @ collect_join_condition_conjuncts r"
| "collect_join_condition_conjuncts e = [e]"

fun collect_column_indices :: "expression \<Rightarrow> nat list" where
  "collect_column_indices (Column n i t) = [i]"
| "collect_column_indices (Binary op l r t) = collect_column_indices l @ collect_column_indices r"
| "collect_column_indices (Unary op e t) = collect_column_indices e"
| "collect_column_indices (Cast e t) = collect_column_indices e"
| "collect_column_indices (Extract p e t) = collect_column_indices e"
| "collect_column_indices (Substring e s n t) = collect_column_indices e"
| "collect_column_indices (Between v l u) =
     collect_column_indices v @ collect_column_indices l @ collect_column_indices u"
| "collect_column_indices (Like v p neg) = collect_column_indices v"
| "collect_column_indices (Case wts els t) =
     concat (map (\<lambda>(c, r). collect_column_indices c @ collect_column_indices r) wts) @
     (case els of None \<Rightarrow> [] | Some e \<Rightarrow> collect_column_indices e)"
| "collect_column_indices (Literal v t) = []"
| "collect_column_indices (Aggregate f arg t) = []"

text \<open>
  The subtraction is on \<open>size_t\<close>; every column here is at or above \<open>n\<close>, so it does not wrap.
\<close>

fun rebase_to_source_schema :: "expression \<Rightarrow> nat \<Rightarrow> expression" where
  "rebase_to_source_schema (Column nm i t) n = Column nm (to_size_t (int i - int n)) t"
| "rebase_to_source_schema (Binary op l r t) n =
     Binary op (rebase_to_source_schema l n) (rebase_to_source_schema r n) t"
| "rebase_to_source_schema (Unary op e t) n = Unary op (rebase_to_source_schema e n) t"
| "rebase_to_source_schema (Cast e t) n = Cast (rebase_to_source_schema e n) t"
| "rebase_to_source_schema (Extract p e t) n = Extract p (rebase_to_source_schema e n) t"
| "rebase_to_source_schema (Substring e s k t) n = Substring (rebase_to_source_schema e n) s k t"
| "rebase_to_source_schema (Between v l u) n =
     Between (rebase_to_source_schema v n) (rebase_to_source_schema l n) (rebase_to_source_schema u n)"
| "rebase_to_source_schema (Like v p neg) n = Like (rebase_to_source_schema v n) p neg"
| "rebase_to_source_schema (Case wts els t) n =
     Case (map (\<lambda>(c, r). (rebase_to_source_schema c n, rebase_to_source_schema r n)) wts)
       (map_option (\<lambda>e. rebase_to_source_schema e n) els) t"
| "rebase_to_source_schema (Literal v t) n = Literal v t"
| "rebase_to_source_schema (Aggregate f arg t) n = Aggregate f arg t"

text \<open>The key a conjunct offers: a column joined so far and a column of the new source.\<close>

fun key_candidate :: "nat \<Rightarrow> nat \<Rightarrow> expression \<Rightarrow> (nat \<times> nat) option" where
  "key_candidate n m (Binary Equal (Column ln li lt) (Column rn ri rt) t) =
     (if li < n \<and> n \<le> ri \<and> ri < n + m then Some (li, ri - n)
      else if ri < n \<and> n \<le> li \<and> li < n + m then Some (ri, li - n)
      else None)"
| "key_candidate n m _ = None"

fun find_key :: "nat \<Rightarrow> nat \<Rightarrow> nat \<Rightarrow> (nat \<times> nat \<times> nat) option \<Rightarrow> expression list \<Rightarrow>
    (nat \<times> nat \<times> nat) option result" where
  "find_key n m i found [] = Inr found"
| "find_key n m i found (c # cs) =
     (case key_candidate n m c of
        None \<Rightarrow> find_key n m (Suc i) found cs
      | Some (ck, sk) \<Rightarrow>
          if found \<noteq> None
          then Inl (BindingError ''JOIN ON condition must contain exactly one equality key'')
          else find_key n m (Suc i) (Some (i, ck, sk)) cs)"

definition and_with :: "expression option \<Rightarrow> expression \<Rightarrow> expression option" where
  "and_with acc e = Some (case acc of None \<Rightarrow> e | Some a \<Rightarrow> Binary And a e (boolean_type False))"

definition right_only :: "nat \<Rightarrow> nat \<Rightarrow> expression \<Rightarrow> bool" where
  "right_only n m c \<longleftrightarrow> list_all (\<lambda>i. n \<le> i \<and> i < n + m) (collect_column_indices c)"

fun split_conjuncts :: "nat \<Rightarrow> nat \<Rightarrow> bool \<Rightarrow> expression option \<Rightarrow> expression option \<Rightarrow> expression list \<Rightarrow>
    (expression option \<times> expression option) result" where
  "split_conjuncts n m allow pre res [] = Inr (pre, res)"
| "split_conjuncts n m allow pre res (c # cs) =
     (if right_only n m c then split_conjuncts n m allow (and_with pre (rebase_to_source_schema c n)) res cs
      else if \<not> allow
      then Inl (BindingError ''a predicate referencing the already-joined side is not supported'')
      else split_conjuncts n m allow pre (and_with res c) cs)"

text \<open>The second loop skips the conjunct at the key's position.\<close>

definition extract_join_step_keys :: "expression \<Rightarrow> nat \<Rightarrow> nat \<Rightarrow> JoinType \<Rightarrow> JoinStepKeys result" where
  "extract_join_step_keys condition n m jt =
     (let conjuncts = collect_join_condition_conjuncts condition
      in bindR (find_key n m 0 None conjuncts) (\<lambda>key.
         case key of
           None \<Rightarrow> Inl (BindingError ''JOIN ON condition must include exactly one equality'')
         | Some (i, ck, sk) \<Rightarrow>
             bindR (split_conjuncts n m (jt = LeftSemi \<or> jt = LeftAnti) None None
                     (take i conjuncts @ drop (Suc i) conjuncts)) (\<lambda>(pre, res).
             Inr \<lparr>combined_key_index = ck, source_key_index = sk, right_prefilter = pre,
               residual_predicate = res\<rparr>)))"

section \<open>bind\_query\<close>

definition aggregate_query :: "AstSelectStatement \<Rightarrow> bool" where
  "aggregate_query stmt \<longleftrightarrow> group_by stmt \<noteq> [] \<or> list_ex (\<lambda>(e, al). contains_aggregate e) (select_list stmt)"

definition bind_query :: "AstSelectStatement \<Rightarrow> Schema \<Rightarrow> BoundQuery result" where
  "bind_query stmt s =
     bindR (bind_query_common stmt (SingleTable s) (aggregate_query stmt)) (\<lambda>q.
     Inr (q\<lparr>bq_source_paths := from_paths stmt\<rparr>))"

definition join_sources :: "AstJoinClause \<Rightarrow> Schema list \<Rightarrow> (string \<times> Schema \<times> JoinType) list" where
  "join_sources j schemas =
     (first_alias j, schemas ! 0, Inner) #
     map (\<lambda>(st, s). (step_alias st, s, step_type st)) (zip (join_steps j) (drop 1 schemas))"

fun bind_steps :: "Binder \<Rightarrow> nat \<Rightarrow> (AstJoinStep \<times> Schema) list \<Rightarrow> BoundJoinStep list result" where
  "bind_steps B n [] = Inr []"
| "bind_steps B n ((st, s) # rest) =
     bindR (bind B (step_condition st) False) (\<lambda>condition.
     bindR (extract_join_step_keys condition n (length s) (step_type st)) (\<lambda>keys.
     bindR (bind_steps B (next_offset n s (step_type st)) rest) (\<lambda>steps.
     Inr (\<lparr>bj_source_paths = step_paths st, bj_keys = keys, bj_type = step_type st\<rparr> # steps))))"

definition bind_join_query :: "AstSelectStatement \<Rightarrow> Schema list \<Rightarrow> BoundQuery result" where
  "bind_join_query stmt schemas =
     (case join_clause stmt of
        None \<Rightarrow> Inl (PlanningError ''unreachable: bind_query(join_schemas) called without a JOIN clause'')
      | Some j \<Rightarrow>
          if length schemas \<noteq> Suc (length (join_steps j))
          then Inl (PlanningError ''unreachable: bind_query(join_schemas) called with the wrong number of schemas'')
          else
            let B = JoinSources (join_sources j schemas)
            in bindR (bind_steps B (length (schemas ! 0)) (zip (join_steps j) (drop 1 schemas))) (\<lambda>steps.
               bindR (bind_query_common stmt B (aggregate_query stmt)) (\<lambda>q.
               Inr (q\<lparr>bq_join := Some \<lparr>first_source_paths = first_paths j, bj_steps = steps\<rparr>\<rparr>))))"

section \<open>Splitting an ON condition\<close>

interpretation rebase: column_renaming "\<lambda>e. rebase_to_source_schema e n" "\<lambda>i. to_size_t (int i - int n)"
  by unfold_locales simp_all

lemma conjuncts_eq: "collect_join_condition_conjuncts e = collect_conjuncts e"
  by (induction e rule: collect_conjuncts.induct) auto

lemma collect_column_indices_refs: "agg_free e \<Longrightarrow> collect_column_indices e = map fst (col_refs e)"
proof (induction e rule: expr_induct)
  case (Case wts els t)
  have h: "\<forall>(c, r) \<in> set wts. collect_column_indices c = map fst (col_refs c) \<and>
      collect_column_indices r = map fst (col_refs r)"
    using Case by (fastforce simp: list_all_iff)
  then have "concat (map (\<lambda>(c, r). collect_column_indices c @ collect_column_indices r) wts)
      = map fst (concat (map (\<lambda>(c, r). col_refs c @ col_refs r) wts))"
    by (induction wts) auto
  with Case show ?case by (cases els) auto
qed auto

lemma size_t_sub: "n \<le> i \<Longrightarrow> i < 2 ^ 64 \<Longrightarrow> to_size_t (int i - int n) = i - n"
proof -
  assume a: "n \<le> i" "i < 2 ^ 64"
  have "int i < 2 ^ 64"
    using a(2) of_nat_less_iff[of i "2 ^ 64", where 'a = int] by (simp only: of_nat_power of_nat_numeral)
  then have "int (i - n) < 2 ^ 64" by (rule le_less_trans[rotated]) simp
  then have "to_size_t (int (i - n)) = i - n" by (simp add: to_size_t_id)
  with a(1) show ?thesis by (simp add: of_nat_diff)
qed

lemma right_only_refs:
  "agg_free c \<Longrightarrow> right_only n m c \<longleftrightarrow> (\<forall>p \<in> set (col_refs c). n \<le> fst p \<and> fst p < n + m)"
  by (auto simp: right_only_def collect_column_indices_refs list_all_iff)

lemma rebase_index:
  assumes "right_only n m c" "agg_free c" "n + m < 2 ^ 64" "p \<in> set (col_refs c)"
  shows "to_size_t (int (fst p) - int n) = fst p - n" "n \<le> fst p" "fst p < n + m"
proof -
  show "n \<le> fst p" "fst p < n + m" using assms right_only_refs by auto
  then show "to_size_t (int (fst p) - int n) = fst p - n" using assms(3) by (intro size_t_sub) auto
qed

lemma rebase_holds:
  assumes "right_only (length l) (length r) c" "agg_free c" "length l + length r < 2 ^ 64"
  shows "holds E r (rebase_to_source_schema c (length l)) \<longleftrightarrow> holds E (l @ r) c"
proof -
  have "eval (e_kernel E) r (rebase_to_source_schema c (length l)) = eval (e_kernel E) (l @ r) c"
  proof (rule rebase.rn_eval, rule ballI)
    fix p assume "p \<in> set (col_refs c)"
    from rebase_index[OF assms this]
    show "col_at r (to_size_t (int (fst p) - int (length l))) = col_at (l @ r) (fst p)"
      by (auto simp: col_at_def nth_append)
  qed
  then show ?thesis by (simp add: holds_def)
qed

text \<open>A rebased predicate reads only columns of the new source.\<close>

definition source_pred :: "nat \<Rightarrow> expression \<Rightarrow> bool" where
  "source_pred m p \<longleftrightarrow> pred_ok p \<and> cols_below m p"

lemma rebase_source_pred:
  assumes "right_only n m c" "pred_ok c" "n + m < 2 ^ 64"
  shows "source_pred m (rebase_to_source_schema c n)"
proof -
  have a: "agg_free c" using assms(2) by (simp add: pred_ok_def)
  have "\<forall>p \<in> set (col_refs c). to_size_t (int (fst p) - int n) < m"
    using rebase_index[OF assms(1) a assms(3)] by fastforce
  then show ?thesis
    using assms(2) a by (auto simp: source_pred_def pred_ok_def cols_below_def list_all_iff
        rebase.rn_type rebase.rn_wt rebase.rn_agg_free rebase.rn_col_refs)
qed

definition opt_holds :: "engine \<Rightarrow> row \<Rightarrow> expression option \<Rightarrow> bool" where
  "opt_holds E row p \<longleftrightarrow> (case p of None \<Rightarrow> True | Some e \<Rightarrow> holds E row e)"

lemma opt_holds_simps [simp]:
  "opt_holds E row None" "opt_holds E row (Some p) = holds E row p"
  "opt_holds E row (and_with acc e) \<longleftrightarrow> opt_holds E row acc \<and> holds E row e"
  by (auto simp: opt_holds_def and_with_def holds_def split: option.splits)

lemma and_with_pred: "pred_option (source_pred m) acc \<Longrightarrow> source_pred m e \<Longrightarrow> pred_option (source_pred m) (and_with acc e)"
  by (cases acc) (auto simp: and_with_def source_pred_def pred_ok_def cols_below_def)

lemma split_conjuncts_sound:
  assumes "split_conjuncts n m allow pre res cs = Inr (pre', res')" "\<forall>c \<in> set cs. pred_ok c" "n + m < 2 ^ 64"
    "pred_option (source_pred m) pre"
  shows "pred_option (source_pred m) pre'"
    "\<And>l r. length l = n \<Longrightarrow> length r = m \<Longrightarrow> opt_holds E r pre' \<and> opt_holds E (l @ r) res' \<longleftrightarrow>
       opt_holds E r pre \<and> opt_holds E (l @ r) res \<and> (\<forall>c \<in> set cs. holds E (l @ r) c)"
    "\<not> allow \<Longrightarrow> res' = res"
proof -
  have "pred_option (source_pred m) pre' \<and>
     (\<forall>l r. length l = n \<longrightarrow> length r = m \<longrightarrow> (opt_holds E r pre' \<and> opt_holds E (l @ r) res' \<longleftrightarrow>
       opt_holds E r pre \<and> opt_holds E (l @ r) res \<and> (\<forall>c \<in> set cs. holds E (l @ r) c))) \<and> (\<not> allow \<longrightarrow> res' = res)"
    using assms
  proof (induction n m allow pre res cs rule: split_conjuncts.induct)
    case (2 n m allow pre res c cs)
    have c: "pred_ok c" "agg_free c" using "2.prems"(2) by (auto simp: pred_ok_def)
    show ?case
    proof (cases "right_only n m c")
      case True
      note b = rebase_source_pred[OF True c(1) "2.prems"(3)]
      have h: "holds E r (rebase_to_source_schema c n) \<longleftrightarrow> holds E (l @ r) c" if "length l = n" "length r = m" for l r
        using rebase_holds[of l r c E] True c(2) "2.prems"(3) that by auto
      have s: "split_conjuncts n m allow (and_with pre (rebase_to_source_schema c n)) res cs = Inr (pre', res')"
        using "2.prems"(1) True by simp
      have "\<forall>c \<in> set cs. pred_ok c" using "2.prems"(2) by simp
      note IH = "2.IH"(1)[OF True s this "2.prems"(3) and_with_pred[OF "2.prems"(4) b]]
      then show ?thesis using h by auto
    next
      case False
      with 2 show ?thesis by (auto split: if_splits)
    qed
  qed simp
  then show "pred_option (source_pred m) pre'"
    "\<And>l r. length l = n \<Longrightarrow> length r = m \<Longrightarrow> opt_holds E r pre' \<and> opt_holds E (l @ r) res' \<longleftrightarrow>
       opt_holds E r pre \<and> opt_holds E (l @ r) res \<and> (\<forall>c \<in> set cs. holds E (l @ r) c)"
    "\<not> allow \<Longrightarrow> res' = res" by auto
qed

lemma find_key_some:
  "find_key n m i found cs = Inr (Some (j, ck, sk)) \<Longrightarrow>
     found = Some (j, ck, sk) \<or> (i \<le> j \<and> j < i + length cs \<and> key_candidate n m (cs ! (j - i)) = Some (ck, sk))"
proof (induction n m i found cs rule: find_key.induct)
  case (2 n m i found c cs)
  then show ?case by (auto simp: nth_Cons' Suc_diff_Suc split: option.splits prod.splits if_splits)
qed simp

lemma key_candidate_eq:
  "key_candidate n m c = Some (ck, sk) \<Longrightarrow>
     ck < n \<and> sk < m \<and> (\<exists>ln lt rn rt t. c = Binary Equal (Column ln ck lt) (Column rn (n + sk) rt) t \<or>
       c = Binary Equal (Column rn (n + sk) rt) (Column ln ck lt) t)"
  by (cases "(n, m, c)" rule: key_candidate.cases) (auto split: if_splits)

text \<open>
  What the joins promise about keys: two key values match when the comparison kernel says they are
  equal, in either order.
\<close>

locale join_keys =
  fixes E :: engine
  assumes key_equal: "e_keyeq E x y \<longleftrightarrow> is_true (e_kernel E (binary_function_name Equal) NoOpts [x, y])"
    and key_sym: "e_keyeq E x y \<longleftrightarrow> e_keyeq E y x"
begin

lemma key_holds:
  assumes "key_candidate (length l) (length r) c = Some (ck, sk)"
  shows "holds E (l @ r) c \<longleftrightarrow> e_keyeq E (col_at l ck) (col_at r sk)"
  using key_candidate_eq[OF assms] key_sym
  by (auto simp: holds_def key_equal[symmetric] col_at_def nth_append simp del: binary_function_name.simps)

lemma split_holds:
  assumes "extract_join_step_keys condition (length l) (length r) jt = Inr ks" "pred_ok condition"
    "length l + length r < 2 ^ 64"
  shows "holds E (l @ r) condition \<longleftrightarrow>
    join_match E (combined_key_index ks) (source_key_index ks) (residual_predicate ks) l r \<and>
    opt_holds E r (right_prefilter ks)"
proof -
  let ?cs = "collect_conjuncts condition"
  from assms(1) obtain i ck sk pre res where k: "find_key (length l) (length r) 0 None ?cs = Inr (Some (i, ck, sk))"
    "split_conjuncts (length l) (length r) (jt = LeftSemi \<or> jt = LeftAnti) None None
       (take i ?cs @ drop (Suc i) ?cs) = Inr (pre, res)"
    "ks = \<lparr>combined_key_index = ck, source_key_index = sk, right_prefilter = pre, residual_predicate = res\<rparr>"
    by (auto simp: extract_join_step_keys_def Let_def conjuncts_eq bindR_eq_Inr split: option.splits prod.splits)
  have i: "i < length ?cs" "key_candidate (length l) (length r) (?cs ! i) = Some (ck, sk)"
    using find_key_some[OF k(1)] by auto
  have cs: "set ?cs = insert (?cs ! i) (set (take i ?cs @ drop (Suc i) ?cs))"
    using id_take_nth_drop[OF i(1)] by (metis Un_insert_right list.simps(15) set_append)
  then have ok: "\<forall>c \<in> set (take i ?cs @ drop (Suc i) ?cs). pred_ok c"
    using pred_ok_conjuncts[OF assms(2)] by blast
  show ?thesis
    using split_conjuncts_sound(2)[OF k(2) ok assms(3) _ refl refl, where E = E] key_holds[OF i(2)]
    unfolding holds_conjuncts[of E "l @ r" condition] cs
    by (auto simp: k(3) join_match_def opt_holds_def split: option.splits)
qed

end

interpretation refk: join_keys "ref_engine data"
proof
  have "f64_eq a b = f64_eq b a" for a b by (auto simp: f64_eq_def)
  moreover have "is_true (ref_binary Equal x y) \<longleftrightarrow> is_true (ref_binary Equal y x)"
    if "\<And>a b. f64_eq a b = f64_eq b a" for x y
    by (cases "(Equal, x, y)" rule: ref_binary.cases)
      (auto simp: is_true_def that elim!: cmp_literal.elims)
  ultimately show "e_keyeq (ref_engine data) x y \<longleftrightarrow> e_keyeq (ref_engine data) y x" for x y
    by (simp add: ref_engine_def)
qed (simp add: ref_engine_def del: binary_function_name.simps)

lemma join_rows_cong:
  assumes "\<And>l r. l \<in> set L \<Longrightarrow> r \<in> set R \<Longrightarrow> match l r \<longleftrightarrow> match' l r \<and> P r"
  shows "join_rows match jt rs L R = join_rows match' jt rs L (filter P R)"
proof -
  have f: "filter (match l) R = filter (match' l) (filter P R)" if "l \<in> set L" for l
    using assms that by (auto intro!: filter_cong)
  have e: "(\<exists>r \<in> set R. match l r) \<longleftrightarrow> (\<exists>r \<in> set (filter P R). match' l r)" if "l \<in> set L" for l
    using assms that by auto
  show ?thesis
    using f e by (cases jt) (auto simp: join_rows_def Let_def intro!: arg_cong[of _ _ concat] filter_cong)
qed

section \<open>Bound queries are well typed\<close>

lemma add_select_item_Inr:
  "add_select_item acc e name = Inr acc' \<longleftrightarrow>
     name \<notin> set (map output_name acc) \<and> acc' = acc @ [\<lparr>bs_expr = e, output_name = name\<rparr>]"
  by (auto simp: add_select_item_def)

definition items_ok :: "Binder \<Rightarrow> BoundSelectItem list \<Rightarrow> bool" where
  "items_ok B items \<longleftrightarrow>
     distinct (map output_name items) \<and> (\<forall>it \<in> set items. fits (binder_columns B) True (bs_expr it))"

lemma add_select_item_ok:
  "add_select_item acc e name = Inr acc' \<Longrightarrow> items_ok B acc \<Longrightarrow> fits (binder_columns B) True e \<Longrightarrow> items_ok B acc'"
  by (auto simp: add_select_item_Inr items_ok_def)

lemma add_star_ok:
  "add_star acc fs = Inr items \<Longrightarrow> items_ok B acc \<Longrightarrow> set fs \<subseteq> set (all_fields_with_index B) \<Longrightarrow> items_ok B items"
proof (induction acc fs rule: add_star.induct)
  case (2 acc f i fs)
  from "2.prems"(1) obtain acc' where a: "add_select_item acc (Column (fname f) i (ftype f)) (fname f) = Inr acc'"
    "add_star acc' fs = Inr items" by (auto simp: bindR_eq_Inr)
  have "(i, ftype f) \<in> binder_columns B" using "2.prems"(3) by (force simp: binder_columns_def)
  then have "fits (binder_columns B) True (Column (fname f) i (ftype f))" by (simp add: fits_def)
  from add_select_item_ok[OF a(1) "2.prems"(2) this] "2.IH"[OF a] "2.prems"(3) show ?case by simp
qed simp

lemma bind_fits: "bind B e a = Inr x \<Longrightarrow> ast_ok e \<Longrightarrow> fits (binder_columns B) a x"
  using bind_sound by (auto simp: bind_goal_def)

lemma bind_select_ok:
  "bind_select B n acc its = Inr items \<Longrightarrow> items_ok B acc \<Longrightarrow> list_all (\<lambda>(e, al). ast_ok e) its \<Longrightarrow> items_ok B items"
proof (induction B n acc its rule: bind_select.induct)
  case (2 B n acc item al its)
  show ?case
  proof (cases "item = AstStar")
    case True
    with "2.prems"(1) obtain acc' where a: "n = 1" "add_star acc (all_fields_with_index B) = Inr acc'"
      "bind_select B n acc' its = Inr items" by (auto simp: bindR_eq_Inr split: if_splits)
    from add_star_ok[OF a(2) "2.prems"(2)] "2.IH"(1)[OF True _ a(2,3)] a(1) "2.prems"(3) show ?thesis by simp
  next
    case False
    with "2.prems"(1) obtain b acc' where a: "bind B item True = Inr b"
      "add_select_item acc b (item_name item al b) = Inr acc'" "bind_select B n acc' its = Inr items"
      by (auto simp: bindR_eq_Inr)
    from add_select_item_ok[OF a(2) "2.prems"(2)] bind_fits[OF a(1)] "2.IH"(2)[OF False a] "2.prems"(3)
    show ?thesis by simp
  qed
qed simp

definition stmt_ok :: "AstSelectStatement \<Rightarrow> bool" where
  "stmt_ok stmt \<longleftrightarrow> list_all (\<lambda>(e, al). ast_ok e) (select_list stmt) \<and> pred_option ast_ok (where_clause stmt) \<and>
     pred_option ast_ok (having_clause stmt) \<and> list_all (\<lambda>(e, asc). ast_ok e) (order_by stmt)"

definition query_ok :: "Binder \<Rightarrow> BoundQuery \<Rightarrow> bool" where
  "query_ok B q \<longleftrightarrow>
     items_ok B (bq_select_list q) \<and> bq_output_schema q = select_schema (bq_select_list q) \<and>
     pred_option (\<lambda>p. fits (binder_columns B) False p \<and> tid p = Boolean) (bq_where q) \<and>
     (\<forall>e \<in> set (bq_group_by q). fits (binder_columns B) True e) \<and>
     pred_option (\<lambda>p. fits (binder_columns B) True p \<and> tid p = Boolean \<and> is_aggregate_query q) (bq_having q) \<and>
     (\<forall>k \<in> set (bq_order_by q).
        if is_aggregate_query q
        then \<exists>i < length (bq_output_schema q). bo_expr k =
               Column (fname (bq_output_schema q ! i)) i (ftype (bq_output_schema q ! i))
        else fits (binder_columns B) True (bo_expr k))"

lemma query_ok_update [simp]:
  "query_ok B (q\<lparr>bq_source_paths := ps\<rparr>) = query_ok B q" "query_ok B (q\<lparr>bq_join := j\<rparr>) = query_ok B q"
  by (cases q; simp add: query_ok_def)+

lemma bind_where_ok:
  "bind_where B w = Inr w' \<Longrightarrow> pred_option ast_ok w \<Longrightarrow>
     pred_option (\<lambda>p. fits (binder_columns B) False p \<and> tid p = Boolean) w'"
  using bind_fits by (auto simp: bind_where_def bindR_eq_Inr split: option.splits if_splits)

lemma bind_having_ok:
  "bind_having B agg keys h = Inr h' \<Longrightarrow> pred_option ast_ok h \<Longrightarrow>
     pred_option (\<lambda>p. fits (binder_columns B) True p \<and> tid p = Boolean \<and> agg) h'"
  using bind_fits by (auto simp: bind_having_def bindR_eq_Inr split: option.splits if_splits)

lemma bind_group_item_ok:
  assumes "bind_group_item B items item = Inr (e, i)" "items_ok B items"
  shows "fits (binder_columns B) True e"
proof -
  from assms(1) obtain name tab where item: "item = AstColumnRef name tab"
    by (cases item) (auto simp: bind_group_item_def)
  with assms(1) consider "bind B item False = Inr e"
    | k where "k < length items" "e = bs_expr (items ! k)"
    by (auto simp: bind_group_item_def bindR_eq_Inr atR_eq_Inr simp del: bind.simps split: if_splits option.splits)
  then show ?thesis
  proof cases
    case 1
    with bind_fits[OF 1] item show ?thesis by (simp add: fits_def)
  next
    case 2
    with assms(2) show ?thesis by (simp add: items_ok_def)
  qed
qed

lemma bind_order_item_ok:
  assumes "bind_order_item B agg out (e, asc) = Inr k" "ast_ok e"
  shows "if agg then \<exists>i < length out. bo_expr k = Column (fname (out ! i)) i (ftype (out ! i))
    else fits (binder_columns B) True (bo_expr k)"
proof (cases agg)
  case True
  with assms(1) show ?thesis
    by (cases e) (auto simp: bind_order_item_def bindR_eq_Inr atR_eq_Inr split: option.splits)
next
  case False
  with assms bind_fits show ?thesis by (auto simp: bind_order_item_def bindR_eq_Inr)
qed

lemma bind_query_common_cases:
  assumes "bind_query_common stmt B agg = Inr q"
  obtains items w gs h os where "bind_select B (length (select_list stmt)) [] (select_list stmt) = Inr items"
    "bind_where B (where_clause stmt) = Inr w" "mapR (bind_group_item B items) (group_by stmt) = Inr gs"
    "agg \<Longrightarrow> check_grouped (select_list stmt) items (map (structural_key \<circ> fst) gs)
       (concat (map (\<lambda>(e, i). case i of None \<Rightarrow> [] | Some k \<Rightarrow> [k]) gs)) = Inr ()"
    "bind_having B agg (map (structural_key \<circ> fst) gs) (having_clause stmt) = Inr h"
    "mapR (bind_order_item B agg (select_schema items)) (order_by stmt) = Inr os"
    "q = \<lparr>bq_select_list = items, bq_output_schema = select_schema items, bq_source_paths = [],
          bq_join = None, bq_where = w, bq_group_by = map fst gs, bq_having = h, bq_order_by = os,
          bq_limit = limit_clause stmt, is_aggregate_query = agg\<rparr>"
  using assms by (auto simp: bind_query_common_def bindR_eq_Inr Let_def split: if_splits)

lemma bind_query_common_ok:
  assumes "bind_query_common stmt B agg = Inr q" "stmt_ok stmt"
  shows "query_ok B q"
proof -
  from assms(1) obtain items w gs h os where b:
    "bind_select B (length (select_list stmt)) [] (select_list stmt) = Inr items"
    "bind_where B (where_clause stmt) = Inr w" "mapR (bind_group_item B items) (group_by stmt) = Inr gs"
    "bind_having B agg (map (structural_key \<circ> fst) gs) (having_clause stmt) = Inr h"
    "mapR (bind_order_item B agg (select_schema items)) (order_by stmt) = Inr os"
    "q = \<lparr>bq_select_list = items, bq_output_schema = select_schema items, bq_source_paths = [],
          bq_join = None, bq_where = w, bq_group_by = map fst gs, bq_having = h, bq_order_by = os,
          bq_limit = limit_clause stmt, is_aggregate_query = agg\<rparr>"
    by (rule bind_query_common_cases)
  have items: "items_ok B items"
    using bind_select_ok[OF b(1)] assms(2) by (simp add: items_ok_def stmt_ok_def)
  have "fits (binder_columns B) True e" if "e \<in> set (map fst gs)" for e
    using that mapR_result_mem[OF b(3)] bind_group_item_ok[OF _ items] by force
  moreover have "if agg then \<exists>i < length (select_schema items). bo_expr k =
        Column (fname (select_schema items ! i)) i (ftype (select_schema items ! i))
      else fits (binder_columns B) True (bo_expr k)" if "k \<in> set os" for k
  proof -
    from mapR_result_mem[OF b(5) that] obtain e asc where
      "(e, asc) \<in> set (order_by stmt)" "bind_order_item B agg (select_schema items) (e, asc) = Inr k" by auto
    with bind_order_item_ok assms(2) show ?thesis by (fastforce simp: stmt_ok_def list_all_iff)
  qed
  ultimately show ?thesis
    using items bind_where_ok[OF b(2)] bind_having_ok[OF b(4)] assms(2) by (auto simp: query_ok_def b(6) stmt_ok_def)
qed

section \<open>Accepted statements worth a second look\<close>

abbreviation int_field :: "string \<Rightarrow> Field" where
  "int_field n \<equiv> \<lparr>fname = n, ftype = int64_type True\<rparr>"

text \<open>
  \<open>SELECT SUM(x) AS s FROM t GROUP BY s\<close> binds, and the grouping key is the aggregate itself: the
  alias branch of GROUP BY does not look for aggregates.
\<close>

lemma group_by_aggregate_alias_accepted:
  "case bind_query (AstSelect [(AstAggregate AggSum (Some (AstColumnRef ''x'' None)), Some ''s'')] [''t''] None None None None
      [AstColumnRef ''s'' None] None [] None) [int_field ''x''] of
     Inl _ \<Rightarrow> False | Inr q \<Rightarrow> list_all is_aggregate (bq_group_by q) \<and> bq_group_by q \<noteq> []"
  by code_simp

text \<open>
  After GROUP BY the qualifier of an ORDER BY column is dropped: \<open>ORDER BY b.x\<close> sorts by the output
  column \<open>x\<close>, which here is \<open>a.x\<close>.
\<close>

lemma order_by_qualifier_dropped:
  "bind_order_item B True [int_field ''x'', int_field ''bx''] (AstColumnRef ''x'' (Some ''b''), True) =
     Inr \<lparr>bo_expr = Column ''x'' 0 (int64_type True), bo_ascending = True\<rparr>"
  by (simp add: bind_order_item_def)

text \<open>
  A NULL bound of BETWEEN keeps the default INT64 type of an untyped NULL, so \<open>name BETWEEN NULL AND
  'z'\<close> is rejected.
\<close>

lemma between_null_rejected:
  "bind (SingleTable [\<lparr>fname = ''name'', ftype = string_type True\<rparr>])
     (AstBetween (AstColumnRef ''name'' None) (AstLiteral LitNull) (AstLiteral (LitString ''z''))) False
   = Inl (BindingError ''BETWEEN bound type is incompatible with value type'')"
  by code_simp

text \<open>
  \<open>SELECT *\<close> over two sources that share a column name is rejected as a duplicate output name.
\<close>

lemma star_same_name_rejected:
  "case bind_select (JoinSources demo_sources) 1 [] [(AstStar, None)] of
     Inl e \<Rightarrow> e = BindingError ''duplicate output column name k'' | Inr _ \<Rightarrow> False"
  by code_simp

section \<open>Properties\<close>

text \<open>
  C13. Splitting an ON condition is exact. The join on the extracted key, with the conjuncts of the
  new source applied to it beforehand and the residual kept at the join, returns the rows of the
  join on the whole condition, in the same order, for INNER, LEFT OUTER, semi and anti joins.
\<close>

theorem extract_join_step_keys_exact:
  assumes "join_keys E" "extract_join_step_keys condition n m jt = Inr ks" "pred_ok condition" "n + m < 2 ^ 64"
    and "\<forall>l \<in> set L. length l = n" "\<forall>r \<in> set R. length r = m"
  shows "join_rows (join_match E (combined_key_index ks) (source_key_index ks) (residual_predicate ks)) jt rs L
      (filter (\<lambda>r. case right_prefilter ks of None \<Rightarrow> True | Some p \<Rightarrow> holds E r p) R)
    = join_rows (\<lambda>l r. holds E (l @ r) condition) jt rs L R"
proof -
  have "holds E (l @ r) condition \<longleftrightarrow>
      join_match E (combined_key_index ks) (source_key_index ks) (residual_predicate ks) l r \<and>
      opt_holds E r (right_prefilter ks)" if "l \<in> set L" "r \<in> set R" for l r
    using join_keys.split_holds[OF assms(1), of condition l r jt ks] assms that by simp
  from join_rows_cong[OF this] show ?thesis by (simp add: opt_holds_def)
qed

text \<open>\<open>a.k = b.k AND b.y > 5\<close> in a LEFT OUTER join.\<close>

definition demo_on :: expression where
  "demo_on = Binary And
     (Binary Equal (Column ''k'' 0 (int64_type True)) (Column ''k'' 2 (int64_type True)) (boolean_type True))
     (Binary Greater (Column ''y'' 3 (int64_type True)) (make_int64 5) (boolean_type True)) (boolean_type True)"

theorem extract_join_step_keys_exact_witness:
  "\<exists>ks. extract_join_step_keys demo_on 2 2 LeftOuter = Inr ks \<and> right_prefilter ks \<noteq> None \<and>
     join_rows (join_match (ref_engine demo_data) (combined_key_index ks) (source_key_index ks) (residual_predicate ks))
       LeftOuter [int_field ''k'', int_field ''y''] (demo_data [''a''])
       (filter (\<lambda>r. case right_prefilter ks of None \<Rightarrow> True | Some p \<Rightarrow> holds (ref_engine demo_data) r p) (demo_data [''a'']))
     = join_rows (\<lambda>l r. holds (ref_engine demo_data) (l @ r) demo_on)
       LeftOuter [int_field ''k'', int_field ''y''] (demo_data [''a'']) (demo_data [''a''])"
proof -
  have "case extract_join_step_keys demo_on 2 2 LeftOuter of Inl _ \<Rightarrow> False | Inr ks \<Rightarrow> right_prefilter ks \<noteq> None"
    by code_simp
  then obtain ks where ks: "extract_join_step_keys demo_on 2 2 LeftOuter = Inr ks" "right_prefilter ks \<noteq> None"
    by (auto split: sum.splits)
  have "pred_ok demo_on" by (simp add: pred_ok_def demo_on_def make_literals is_logical_def in_int64_def int64_min_def int64_max_def)
  moreover have "\<forall>l \<in> set (demo_data [''a'']). length l = 2" by (simp add: demo_data_def)
  ultimately show ?thesis
    using ks extract_join_step_keys_exact[OF refk.join_keys_axioms ks(1), of "demo_data [''a'']" "demo_data [''a'']"]
    by simp
qed

text \<open>
  C15. A query that binds is well formed clause by clause: output names are distinct and describe
  the SELECT list, WHERE is a boolean without aggregates, HAVING a boolean of an aggregate query,
  every expression is well typed and reads only columns of the FROM clause, and after GROUP BY
  the ORDER BY keys are output columns.
\<close>

theorem bind_query_well_formed:
  assumes "bind_query stmt s = Inr q" "stmt_ok stmt"
  shows "query_ok (SingleTable s) q \<and> distinct (map fname (bq_output_schema q)) \<and>
    bq_source_paths q = from_paths stmt \<and> bq_join q = None \<and> is_aggregate_query q = aggregate_query stmt"
proof -
  from assms(1) obtain q0 where q: "bind_query_common stmt (SingleTable s) (aggregate_query stmt) = Inr q0"
    "q = q0\<lparr>bq_source_paths := from_paths stmt\<rparr>" by (auto simp: bind_query_def bindR_eq_Inr)
  have "bq_join q0 = None" "is_aggregate_query q0 = aggregate_query stmt"
    using q(1) by (rule bind_query_common_cases; simp)+
  moreover have ok: "query_ok (SingleTable s) q"
    using bind_query_common_ok[OF q(1) assms(2)] unfolding q(2) by simp
  then have "distinct (map fname (bq_output_schema q))"
    by (simp add: query_ok_def items_ok_def select_schema_def comp_def)
  ultimately show ?thesis using q(2) ok by simp
qed

definition demo_stmt :: AstSelectStatement where
  "demo_stmt = AstSelect
     [(AstColumnRef ''k'' None, None), (AstAggregate AggSum (Some (AstColumnRef ''v'' None)), Some ''total'')]
     [''t''] None None None (Some (AstBinary AGt (AstColumnRef ''v'' None) (AstLiteral (LitInteger 3))))
     [AstColumnRef ''k'' None]
     (Some (AstBinary AGt (AstAggregate AggSum (Some (AstColumnRef ''v'' None))) (AstLiteral (LitInteger 10))))
     [(AstColumnRef ''total'' None, False)] (Some 5)"

theorem bind_query_well_formed_witness:
  "\<exists>q. bind_query demo_stmt [int_field ''k'', int_field ''v''] = Inr q \<and>
     query_ok (SingleTable [int_field ''k'', int_field ''v'']) q \<and>
     map fname (bq_output_schema q) = [''k'', ''total''] \<and> is_aggregate_query q"
proof -
  have "case bind_query demo_stmt [int_field ''k'', int_field ''v''] of Inl _ \<Rightarrow> False
      | Inr q \<Rightarrow> map fname (bq_output_schema q) = [''k'', ''total'']" by code_simp
  then obtain q where q: "bind_query demo_stmt [int_field ''k'', int_field ''v''] = Inr q"
    "map fname (bq_output_schema q) = [''k'', ''total'']" by (auto split: sum.splits)
  have "stmt_ok demo_stmt" "aggregate_query demo_stmt"
    by (simp_all add: stmt_ok_def demo_stmt_def aggregate_query_def in_int64_def int64_min_def int64_max_def)
  with bind_query_well_formed[OF q(1)] q show ?thesis by simp
qed

end
