(* ===== verification/Annotate.thy ===== *)
theory Annotate
  imports Pruning
begin

text \<open>
  The second half of \<^verbatim>\<open>src/optimizer/optimizer.cpp\<close>: \<open>annotate_scan\<close>, which tells every scan
  the columns the plan above it reads and the predicates its files may be pruned with, and
  \<open>optimize\<close>, which runs it on the rewritten plan. The lemmas show that a plan executed on scans
  that deliver nothing but the required columns returns the same rows, and that a valid query
  over a derived table can make the annotation fail.
\<close>

section \<open>\<open>annotate_scan\<close> and \<open>optimize\<close>\<close>

text \<open>The set of indices is a list without repetition; the scans of the result are annotated.\<close>

definition set_union :: "nat list \<Rightarrow> nat list \<Rightarrow> nat list" where
  "set_union a b = remdups (a @ b)"

definition collect_all :: "expression list \<Rightarrow> nat list \<Rightarrow> nat list" where
  "collect_all es req = foldl (\<lambda>acc e. set_union acc (collect_columns e)) req es"

definition annotate_leaf :: "LogicalScan \<Rightarrow> nat list \<Rightarrow> PushablePredicate list \<Rightarrow> plan result" where
  "annotate_leaf s req preds =
     bindR (mapR (\<lambda>i. bindR (atR (scan_schema s) i) (\<lambda>f. Inr (fname f))) req) (\<lambda>columns.
     Inr (LScan (s\<lparr>required_columns := sort columns, pushable_predicates := preds\<rparr>)))"

definition left_required :: "nat \<Rightarrow> nat \<Rightarrow> expression option \<Rightarrow> nat list \<Rightarrow> nat list" where
  "left_required left_count lk res req =
     set_union (filter (\<lambda>i. i < left_count) req)
       (lk # (case res of None \<Rightarrow> [] | Some e \<Rightarrow> filter (\<lambda>i. i < left_count) (collect_columns e)))"

definition right_required :: "nat \<Rightarrow> nat \<Rightarrow> expression option \<Rightarrow> nat list \<Rightarrow> nat list" where
  "right_required left_count rk res req =
     set_union (map (\<lambda>i. i - left_count) (filter (\<lambda>i. \<not> i < left_count) req))
       (rk # (case res of None \<Rightarrow> []
              | Some e \<Rightarrow> map (\<lambda>i. i - left_count) (filter (\<lambda>i. \<not> i < left_count) (collect_columns e))))"

fun is_aggregate_node :: "plan \<Rightarrow> bool" where
  "is_aggregate_node (LAggregate c g a) \<longleftrightarrow> True"
| "is_aggregate_node _ \<longleftrightarrow> False"

fun annotate_scan :: "plan \<Rightarrow> nat list \<Rightarrow> PushablePredicate list \<Rightarrow> plan result" where
  "annotate_scan (LFilter c p est) req preds =
     (if is_aggregate_node c
      then bindR (annotate_scan c req preds) (\<lambda>c'. Inr (LFilter c' p est))
      else bindR (annotate_scan c (collect_all [p] req) (preds @ collect_pushable_predicates p))
             (\<lambda>c'. Inr (LFilter c' p est)))"
| "annotate_scan (LSort c keys) req preds =
     bindR (annotate_scan c (collect_all (map skey keys) req) preds) (\<lambda>c'. Inr (LSort c' keys))"
| "annotate_scan (LAggregate c g a) req preds =
     bindR (annotate_scan c (collect_all (map nexpr a) (collect_all (map nexpr g) req)) preds)
       (\<lambda>c'. Inr (LAggregate c' g a))"
| "annotate_scan (LProjection c items) req preds =
     bindR (annotate_scan c
              (if is_aggregate_node c then req else collect_all (map nexpr items) req) preds)
       (\<lambda>c'. Inr (LProjection c' items))"
| "annotate_scan (LLimit c n) req preds = bindR (annotate_scan c req preds) (\<lambda>c'. Inr (LLimit c' n))"
| "annotate_scan (LJoin l r lk rk jt res) req preds =
     (let left_count = length (output_schema l)
      in bindR (annotate_scan l (left_required left_count lk res req) []) (\<lambda>l'.
         bindR (annotate_scan r (right_required left_count rk res req) []) (\<lambda>r'.
         Inr (LJoin l' r' lk rk jt res))))"
| "annotate_scan (LScan s) req preds = annotate_leaf s req preds"

definition optimize :: "plan \<Rightarrow> plan result" where
  "optimize p = annotate_scan (rewrite_plan p) [] []"

section \<open>Executing narrowed scans\<close>

text \<open>A scan that reads the required columns only: the others are NULL.\<close>

definition mask_row :: "LogicalScan \<Rightarrow> row \<Rightarrow> row" where
  "mask_row s row =
     map (\<lambda>(f, d). if fname f \<in> set (required_columns s) then d
                   else Scalar (to_arrow_type (ftype f)) LNull)
       (zip (scan_schema s) row)"

fun exec_narrow :: "engine \<Rightarrow> plan \<Rightarrow> row list" where
  "exec_narrow E (LScan s) = map (mask_row s) (e_data E (source_paths s))"
| "exec_narrow E (LJoin l r lk rk jt res) =
     join_rows (join_match E lk rk res) jt (output_schema r) (exec_narrow E l) (exec_narrow E r)"
| "exec_narrow E (LFilter c p est) = filter (\<lambda>row. holds E row p) (exec_narrow E c)"
| "exec_narrow E (LProjection c items) = map (eval_items E items) (exec_narrow E c)"
| "exec_narrow E (LAggregate c g a) =
     map (\<lambda>(k, rows). k @ map (\<lambda>it. eval_agg E rows (nexpr it)) a) (group_rows E g (exec_narrow E c))"
| "exec_narrow E (LSort c keys) =
     e_sort E (map ascending keys)
       (map (\<lambda>row. (map (\<lambda>k. eval (e_kernel E) row (skey k)) keys, row)) (exec_narrow E c))"
| "exec_narrow E (LLimit c n) = take (nat n) (exec_narrow E c)"

text \<open>Rows that agree on the columns \<open>I\<close>.\<close>

definition agree :: "nat set \<Rightarrow> row \<Rightarrow> row \<Rightarrow> bool" where
  "agree I r r' \<longleftrightarrow> length r' = length r \<and> (\<forall>i \<in> I. col_at r' i = col_at r i)"

lemma agree_mono: "agree J r r' \<Longrightarrow> I \<subseteq> J \<Longrightarrow> agree I r r'"
  by (auto simp: agree_def)

lemma collect_columns_set: "set (collect_columns e) = fst ` set (col_refs e)"
  by (simp add: collect_columns_def)

lemma collect_all_set: "set (collect_all es req) = set req \<union> (\<Union>e \<in> set es. fst ` set (col_refs e))"
  by (induction es arbitrary: req)
     (auto simp: collect_all_def set_union_def collect_columns_set)

lemma agree_eval: "agree I r r' \<Longrightarrow> fst ` set (col_refs e) \<subseteq> I \<Longrightarrow> eval K r' e = eval K r e"
  by (rule keep.rn_eval) (auto simp: agree_def)

lemma agree_items:
  "agree I r r' \<Longrightarrow> (\<Union>it \<in> set items. fst ` set (col_refs (nexpr it))) \<subseteq> I \<Longrightarrow>
     eval_items E items r' = eval_items E items r"
  unfolding eval_items_def by (intro map_cong refl agree_eval) auto

lemma list_all2_map_eq:
  "list_all2 R xs ys \<Longrightarrow> (\<And>x y. R x y \<Longrightarrow> f y = f x) \<Longrightarrow> map f ys = map f xs"
  by (induction rule: list_all2_induct) auto

lemma list_all2_maps:
  "list_all2 A xs ys \<Longrightarrow> (\<And>x y. A x y \<Longrightarrow> B (f x) (g y)) \<Longrightarrow> list_all2 B (map f xs) (map g ys)"
  by (induction rule: list_all2_induct) auto

lemma list_all2_filters:
  "list_all2 R xs ys \<Longrightarrow> (\<And>x y. R x y \<Longrightarrow> Q y = P x \<and> S x y) \<Longrightarrow>
     list_all2 S (filter P xs) (filter Q ys)"
  by (induction rule: list_all2_induct) auto

lemmas list_all2_filter = list_all2_filters[where S = R and R = R and Q = P and P = P for R P]

lemma annotate_leaf_agree:
  assumes "annotate_leaf s req preds = Inr p'" "plan_wf E (LScan s)"
  shows "list_all2 (agree (set req)) (exec_plan E (LScan s)) (exec_narrow E p')"
proof -
  from assms(1) obtain cols where c:
    "mapR (\<lambda>i. bindR (atR (scan_schema s) i) (\<lambda>f. Inr (fname f))) req = Inr cols"
    "p' = LScan (s\<lparr>required_columns := sort cols, pushable_predicates := preds\<rparr>)"
    by (auto simp: annotate_leaf_def bindR_eq_Inr)
  have i: "i < length (scan_schema s) \<and> fname (scan_schema s ! i) \<in> set cols" if "i \<in> set req" for i
    using c(1) that by (induction req arbitrary: cols) (auto simp: bindR_eq_Inr atR_eq_Inr)
  have "agree (set req) row (mask_row (s\<lparr>required_columns := sort cols, pushable_predicates := preds\<rparr>) row)"
    if "length row = length (scan_schema s)" for row
    using that i by (auto simp: agree_def mask_row_def col_at_def)
  with assms(2) c(2) show ?thesis
    by (auto simp: list_all_iff list.rel_map list_all2_same)
qed


section \<open>Joins on agreeing rows\<close>

lemma agree_append:
  assumes "agree (set (left_required (length l) lk res req)) l l'"
    and "agree (set (right_required (length l) rk res req)) r r'"
  shows "agree (set req) (l @ r) (l' @ r')"
    and "case res of None \<Rightarrow> True | Some e \<Rightarrow> agree (fst ` set (col_refs e)) (l @ r) (l' @ r')"
    and "col_at l' lk = col_at l lk" "col_at r' rk = col_at r rk"
proof -
  have col: "col_at (a @ b) i = (if i < length a then col_at a i else col_at b (i - length a))" for a b i
    by (auto simp: col_at_def nth_append)
  have len: "length l' = length l" "length r' = length r" using assms by (auto simp: agree_def)
  have I: "agree I (l @ r) (l' @ r')"
    if "\<And>i. i \<in> I \<Longrightarrow> i < length l \<Longrightarrow> i \<in> set (left_required (length l) lk res req)"
      "\<And>i. i \<in> I \<Longrightarrow> \<not> i < length l \<Longrightarrow> i - length l \<in> set (right_required (length l) rk res req)" for I
    using assms that len by (auto simp: agree_def col)
  show "agree (set req) (l @ r) (l' @ r')"
    by (rule I) (auto simp: left_required_def right_required_def set_union_def)
  show "case res of None \<Rightarrow> True | Some e \<Rightarrow> agree (fst ` set (col_refs e)) (l @ r) (l' @ r')"
  proof (cases res)
    case (Some e)
    have "agree (fst ` set (col_refs e)) (l @ r) (l' @ r')"
      by (rule I; simp add: Some left_required_def right_required_def set_union_def collect_columns_set; blast)
    with Some show ?thesis by simp
  qed simp
  show "col_at l' lk = col_at l lk" "col_at r' rk = col_at r rk"
    using assms by (auto simp: agree_def left_required_def right_required_def set_union_def)
qed

lemma agree_join_match:
  assumes "agree (set (left_required (length l) lk res req)) l l'"
    and "agree (set (right_required (length l) rk res req)) r r'"
  shows "join_match E lk rk res l' r' = join_match E lk rk res l r"
  using agree_append[OF assms] agree_eval[of _ "l @ r" "l' @ r'"]
  by (auto simp: join_match_def holds_def split: option.splits)

lemma list_all2_concat: "list_all2 (list_all2 R) xss yss \<Longrightarrow> list_all2 R (concat xss) (concat yss)"
  by (induction rule: list_all2_induct) (auto intro: list_all2_appendI)

lemma agree_null_row:
  assumes "agree (set (left_required (length l) lk res req)) l l'"
  shows "agree (set req) (l @ null_row rs) (l' @ null_row rs)"
  by (rule agree_append(1)[OF assms, of rk "null_row rs"]) (simp add: agree_def)

lemma agree_semi:
  assumes "agree (set (left_required (length l) lk res req)) l l'"
  shows "agree (set req) l l'"
proof -
  have "i \<in> set (left_required (length l) lk res req)" if "i \<in> set req" "i < length l" for i
    using that by (simp add: left_required_def set_union_def)
  moreover have "col_at l' i = col_at l i" if "\<not> i < length l" for i
    using that assms by (simp add: agree_def col_at_def)
  ultimately show ?thesis using assms unfolding agree_def by blast
qed

text \<open>Joining related rows.\<close>

lemma join_rows_related:
  assumes L: "list_all2 A L L'" and R: "list_all2 B R R'"
    and m: "\<And>l l' r r'. A l l' \<Longrightarrow> B r r' \<Longrightarrow> m' l' r' = m l r"
    and both: "\<And>l l' r r'. A l l' \<Longrightarrow> B r r' \<Longrightarrow> jt = Inner \<or> jt = LeftOuter \<Longrightarrow> C (l @ r) (l' @ r')"
    and none: "\<And>l l'. A l l' \<Longrightarrow> jt = LeftOuter \<Longrightarrow> C (l @ null_row rs) (l' @ null_row rs')"
    and semi: "\<And>l l'. A l l' \<Longrightarrow> jt = LeftSemi \<or> jt = LeftAnti \<Longrightarrow> C l l'"
  shows "list_all2 C (join_rows m jt rs L R) (join_rows m' jt rs' L' R')"
proof -
  have ms: "list_all2 B (filter (m l) R) (filter (m' l') R')" if "A l l'" for l l'
    by (rule list_all2_filters[OF R]) (use m[OF that] in blast)
  have ex: "(\<exists>r \<in> set R'. m' l' r) = (\<exists>r \<in> set R. m l r)" if "A l l'" for l l'
    using ms[OF that] by (auto simp: filter_empty_conv dest!: list_all2_lengthD)
      (metis filter_empty_conv length_0_conv)+
  have in_l: "list_all2 C (map (\<lambda>r. l @ r) (filter (m l) R)) (map (\<lambda>r. l' @ r) (filter (m' l') R'))"
    if "A l l'" "jt = Inner \<or> jt = LeftOuter" for l l'
    by (rule list_all2_maps[OF ms[OF that(1)]]) (use both that in blast)
  show ?thesis
  proof (cases jt)
    case Inner
    then show ?thesis unfolding join_rows_def
      by (auto intro!: list_all2_concat list_all2_maps[OF L] in_l)
  next
    case LeftOuter
    have "list_all2 C
        (let ms = filter (m l) R in if ms = [] then [l @ null_row rs] else map (\<lambda>r. l @ r) ms)
        (let ms = filter (m' l') R' in if ms = [] then [l' @ null_row rs'] else map (\<lambda>r. l' @ r) ms)"
      if "A l l'" for l l'
      using in_l[OF that] none[OF that] LeftOuter list_all2_lengthD[OF ms[OF that]] by (auto simp: Let_def)
    then show ?thesis unfolding join_rows_def LeftOuter
      by (auto intro!: list_all2_concat list_all2_maps[OF L])
  next
    case LeftSemi
    then show ?thesis using ex semi by (auto simp: join_rows_def intro!: list_all2_filters[OF L])
  next
    case LeftAnti
    have "list_all2 C (filter (\<lambda>l. \<not> (\<exists>r \<in> set R. m l r)) L) (filter (\<lambda>l. \<not> (\<exists>r \<in> set R'. m' l r)) L')"
      by (rule list_all2_filters[OF L]) (use ex semi LeftAnti in blast)
    then show ?thesis by (simp add: join_rows_def LeftAnti)
  qed
qed

lemma join_rows_agree:
  assumes "list_all2 (agree (set (left_required n lk res req))) L L'" "\<forall>l \<in> set L. length l = n"
    and R: "list_all2 (agree (set (right_required n rk res req))) R R'"
  shows "list_all2 (agree (set req)) (join_rows (join_match E lk rk res) jt rs L R)
      (join_rows (join_match E lk rk res) jt rs L' R')"
proof (rule join_rows_related[OF _ R])
  show "list_all2 (\<lambda>l l'. agree (set (left_required n lk res req)) l l' \<and> length l = n) L L'"
    using assms(1,2) by (induction rule: list_all2_induct) auto
  show "join_match E lk rk res l' r' = join_match E lk rk res l r"
    if "agree (set (left_required n lk res req)) l l' \<and> length l = n"
      "agree (set (right_required n rk res req)) r r'" for l l' r r'
    using that by (intro agree_join_match) auto
qed (auto intro: agree_append(1) agree_null_row agree_semi)

section \<open>Grouping and sorting agreeing rows\<close>

lemma aggregate_related:
  assumes rows: "list_all2 A rows rows'" and g: "\<And>r r'. A r r' \<Longrightarrow> eval_items E g' r' = eval_items E g r"
    and ne: "g' = [] \<longleftrightarrow> g = []"
    and a: "\<And>xs xs'. list_all2 A xs xs' \<Longrightarrow>
      map (\<lambda>it. eval_agg E xs' (nexpr it)) a' = map (\<lambda>it. eval_agg E xs (nexpr it)) a"
  shows "map (\<lambda>(k, rows). k @ map (\<lambda>it. eval_agg E rows (nexpr it)) a') (group_rows E g' rows')
    = map (\<lambda>(k, rows). k @ map (\<lambda>it. eval_agg E rows (nexpr it)) a) (group_rows E g rows)"
proof (cases "g = []")
  case True
  then show ?thesis using a[OF rows] ne by (simp add: group_rows_def)
next
  case False
  have keys: "map (eval_items E g') rows' = map (eval_items E g) rows"
    using rows by (induction rule: list_all2_induct) (auto simp: g)
  have "list_all2 A (filter (\<lambda>row. eval_items E g row = k) rows) (filter (\<lambda>row. eval_items E g' row = k) rows')" for k
    by (rule list_all2_filters[OF rows]) (simp add: g)
  then show ?thesis using a False ne by (simp add: group_rows_def keys)
qed

lemma agree_aggregate:
  assumes "list_all2 (agree I) rows rows'"
    and "(\<Union>e \<in> nexpr ` set g. fst ` set (col_refs e)) \<subseteq> I"
    and "(\<Union>e \<in> nexpr ` set a. fst ` set (col_refs e)) \<subseteq> I"
  shows "map (\<lambda>(k, rows). k @ map (\<lambda>it. eval_agg E rows (nexpr it)) a) (group_rows E g rows')
    = map (\<lambda>(k, rows). k @ map (\<lambda>it. eval_agg E rows (nexpr it)) a) (group_rows E g rows)"
proof (rule aggregate_related[OF assms(1)])
  show "eval_items E g r' = eval_items E g r" if "agree I r r'" for r r'
    using that assms(2) by (intro agree_items) auto
  fix xs xs' assume xs: "list_all2 (agree I) xs xs'"
  have len: "map (\<lambda>row. c) xs' = map (\<lambda>row. c) xs" for c :: datum
    by (rule list_all2_map_eq[OF xs]) (rule refl)
  have ev: "map (\<lambda>row. eval (e_kernel E) row e) xs' = map (\<lambda>row. eval (e_kernel E) row e) xs"
    if "fst ` set (col_refs e) \<subseteq> I" for e
    by (rule list_all2_map_eq[OF xs]) (rule agree_eval[OF _ that])
  have "eval_agg E xs' (nexpr it) = eval_agg E xs (nexpr it)" if "it \<in> set a" for it
  proof -
    have sub: "fst ` set (col_refs (nexpr it)) \<subseteq> I" using assms(3) that by blast
    show ?thesis
    proof (cases "nexpr it")
      case (Aggregate f arg t)
      then show ?thesis using ev sub len by (cases arg) (simp_all add: eval_agg_def)
    qed (simp_all add: eval_agg_def)
  qed
  then show "map (\<lambda>it. eval_agg E xs' (nexpr it)) a = map (\<lambda>it. eval_agg E xs (nexpr it)) a" by simp
qed simp

text \<open>A sort moves rows by their keys alone.\<close>

locale natural_sort = sort_engine +
  assumes sort_natural: "e_sort E fl (map (\<lambda>(k, r). (k, f r)) kr) = map f (e_sort E fl kr)"
begin

lemma sort_related:
  assumes "list_all2 A rows rows'" "\<And>r r'. A r r' \<Longrightarrow> key' r' = key r"
  shows "list_all2 A (e_sort E fl (map (\<lambda>r. (key r, r)) rows)) (e_sort E fl (map (\<lambda>r. (key' r, r)) rows'))"
proof -
  let ?enc = "\<lambda>i. [Scalar AInt64 (LInt (int i))]"
  define dec :: "row \<Rightarrow> nat" where "dec r = (case r of [Scalar t (LInt i)] \<Rightarrow> nat i | _ \<Rightarrow> 0)" for r
  let ?n = "length rows"
  let ?idx = "map (\<lambda>i. (key (rows ! i), ?enc i)) [0 ..< ?n]"
  have dec: "dec (?enc i) = i" for i by (simp add: dec_def)
  have len: "length rows' = ?n" using assms(1) by (simp add: list_all2_lengthD)
  have nth: "A (rows ! i) (rows' ! i)" if "i < ?n" for i using assms(1) that by (simp add: list_all2_nthD)
  have sh: "map (\<lambda>r. (k r, r)) xs = map (\<lambda>i. (k (xs ! i), xs ! i)) [0 ..< length xs]"
    for k :: "row \<Rightarrow> datum list" and xs :: "row list"
    by (simp add: map_equality_iff)
  have "map (\<lambda>r. (key r, r)) rows = map (\<lambda>(k, r). (k, rows ! dec r)) ?idx"
    by (subst sh) (simp add: dec)
  moreover have "map (\<lambda>r. (key' r, r)) rows' = map (\<lambda>(k, r). (k, rows' ! dec r)) ?idx"
    using assms(2)[OF nth] by (subst sh) (simp add: dec len)
  ultimately have e: "e_sort E fl (map (\<lambda>r. (key r, r)) rows) = map (\<lambda>r. rows ! dec r) (e_sort E fl ?idx)"
    "e_sort E fl (map (\<lambda>r. (key' r, r)) rows') = map (\<lambda>r. rows' ! dec r) (e_sort E fl ?idx)"
    by (simp_all only: sort_natural)
  have "A (rows ! dec r) (rows' ! dec r)" if "r \<in> set (e_sort E fl ?idx)" for r
    using that nth by (auto simp: sort_set dec)
  then show ?thesis unfolding e list.rel_map by (simp add: list_all2_same)
qed

end


section \<open>The annotated plan\<close>

lemma annotate_schema: "annotate_scan p req preds = Inr p' \<Longrightarrow> output_schema p' = output_schema p"
proof (induction p arbitrary: req preds p')
  case (LScan s)
  then show ?case by (auto simp: annotate_leaf_def bindR_eq_Inr)
next
  case (LJoin l r lk rk jt res)
  then show ?case by (fastforce simp: bindR_eq_Inr Let_def)
next
  case (LFilter c p est)
  then show ?case by (auto simp: bindR_eq_Inr split: if_splits)
qed (auto simp: bindR_eq_Inr)

context natural_sort
begin

text \<open>
  Above an aggregate the indices describe its output, which it produces in full: its rows do not
  only agree on the required columns, they are the same.
\<close>

lemma annotate_agree:
  assumes "annotate_scan p req preds = Inr p'" "plan_wf E p"
  shows "list_all2 (agree (set req)) (exec_plan E p) (exec_narrow E p') \<and>
    (is_aggregate_node p \<longrightarrow> exec_narrow E p' = exec_plan E p)"
  using assms
proof (induction p arbitrary: req preds p')
  case (LScan s)
  then show ?case using annotate_leaf_agree by simp
next
  case (LJoin l r lk rk jt res)
  let ?n = "length (output_schema l)"
  from LJoin.prems(1) obtain l' r' where a: "annotate_scan l (left_required ?n lk res req) [] = Inr l'"
    "annotate_scan r (right_required ?n rk res req) [] = Inr r'" "p' = LJoin l' r' lk rk jt res"
    by (auto simp: bindR_eq_Inr Let_def)
  have "list_all2 (agree (set req)) (exec_plan E (LJoin l r lk rk jt res))
      (join_rows (join_match E lk rk res) jt (output_schema r) (exec_narrow E l') (exec_narrow E r'))"
    unfolding exec_plan.simps
    by (rule join_rows_agree[where n = ?n]) (use LJoin a exec_width in auto)
  then show ?case using a(3) annotate_schema[OF a(2)] by simp
next
  case (LFilter c q est)
  show ?case
  proof (cases "is_aggregate_node c")
    case True
    with LFilter show ?thesis
      by (auto simp: bindR_eq_Inr list_all2_same agree_def)
  next
    case False
    with LFilter.prems obtain c' where c: "annotate_scan c (collect_all [q] req) (preds @ collect_pushable_predicates q) = Inr c'"
      "p' = LFilter c' q est" by (auto simp: bindR_eq_Inr)
    have "list_all2 (agree (set (collect_all [q] req))) (exec_plan E c) (exec_narrow E c')"
      using LFilter.IH[OF c(1)] LFilter.prems(2) by simp
    then have "list_all2 (agree (set req)) (filter (\<lambda>row. holds E row q) (exec_plan E c))
        (filter (\<lambda>row. holds E row q) (exec_narrow E c'))"
      by (rule list_all2_filters)
         (auto simp: holds_def collect_all_set agree_eval[where I = "set req \<union> fst ` set (col_refs q)"]
            intro: agree_mono)
    then show ?thesis using c(2) by simp
  qed
next
  case (LProjection c items)
  let ?req = "if is_aggregate_node c then req else collect_all (map nexpr items) req"
  from LProjection.prems obtain c' where c: "annotate_scan c ?req preds = Inr c'" "p' = LProjection c' items"
    by (auto simp: bindR_eq_Inr)
  note IH = LProjection.IH[OF c(1)]
  have "map (eval_items E items) (exec_narrow E c') = map (eval_items E items) (exec_plan E c)"
  proof (cases "is_aggregate_node c")
    case True
    with IH LProjection.prems(2) show ?thesis by simp
  next
    case False
    then have "list_all2 (agree (set (collect_all (map nexpr items) req))) (exec_plan E c) (exec_narrow E c')"
      using IH LProjection.prems(2) by simp
    then show ?thesis
      by (rule list_all2_map_eq) (rule agree_items, assumption, auto simp: collect_all_set)
  qed
  then show ?case using c(2) by (simp add: list_all2_same agree_def)
next
  case (LAggregate c g a)
  let ?req = "collect_all (map nexpr a) (collect_all (map nexpr g) req)"
  from LAggregate.prems obtain c' where c: "annotate_scan c ?req preds = Inr c'" "p' = LAggregate c' g a"
    by (auto simp: bindR_eq_Inr)
  have "list_all2 (agree (set ?req)) (exec_plan E c) (exec_narrow E c')"
    using LAggregate.IH[OF c(1)] LAggregate.prems(2) by simp
  then have "exec_narrow E p' = exec_plan E (LAggregate c g a)"
    unfolding c(2) exec_narrow.simps exec_plan.simps
    by (rule agree_aggregate) (auto simp: collect_all_set)
  then show ?case by (simp add: list_all2_same agree_def)
next
  case (LSort c keys)
  let ?req = "collect_all (map skey keys) req"
  from LSort.prems obtain c' where c: "annotate_scan c ?req preds = Inr c'" "p' = LSort c' keys"
    by (auto simp: bindR_eq_Inr)
  have IH: "list_all2 (agree (set ?req)) (exec_plan E c) (exec_narrow E c')"
    using LSort.IH[OF c(1)] LSort.prems(2) by simp
  have "list_all2 (agree (set ?req)) (exec_plan E (LSort c keys)) (exec_narrow E (LSort c' keys))"
    unfolding exec_narrow.simps exec_plan.simps
  proof (rule sort_related[OF IH])
    fix r r' assume "agree (set ?req) r r'"
    then show "map (\<lambda>k. eval (e_kernel E) r' (skey k)) keys = map (\<lambda>k. eval (e_kernel E) r (skey k)) keys"
      by (intro map_cong refl agree_eval) (auto simp: collect_all_set)
  qed
  then have "list_all2 (agree (set req)) (exec_plan E (LSort c keys)) (exec_narrow E (LSort c' keys))"
    by (rule list_all2_mono) (auto simp: collect_all_set intro: agree_mono)
  then show ?case using c(2) by simp
next
  case (LLimit c n)
  then show ?case by (auto simp: bindR_eq_Inr intro!: list_all2_takeI)
qed

end

lemma insert_row_natural:
  "insert_row fl (fst x, f (snd x)) (map (\<lambda>(k, r). (k, f r)) ys)
   = map (\<lambda>(k, r). (k, f r)) (insert_row fl x ys)"
  by (induction fl x ys rule: insert_row.induct) (auto split: prod.splits)

interpretation refs: natural_sort "ref_engine data"
proof
  have "foldr (insert_row fl) (map (\<lambda>(k, r). (k, f r)) kr) []
      = map (\<lambda>(k, r). (k, f r)) (foldr (insert_row fl) kr [])" for fl f kr
  proof (induction kr)
    case (Cons x kr)
    then show ?case using insert_row_natural[of fl x f] by (cases x) simp
  qed simp
  then show "e_sort (ref_engine data) fl (map (\<lambda>(k, r). (k, f r)) kr)
      = map f (e_sort (ref_engine data) fl kr)" for fl f kr
    by (simp add: ref_engine_def ref_sort_def comp_def case_prod_beta)
qed

text \<open>The columns a query returns are computed from the required columns alone.\<close>

fun produces_rows :: "plan \<Rightarrow> bool" where
  "produces_rows (LProjection c items) \<longleftrightarrow> True"
| "produces_rows (LAggregate c g a) \<longleftrightarrow> True"
| "produces_rows (LLimit c n) \<longleftrightarrow> produces_rows c"
| "produces_rows (LSort c keys) \<longleftrightarrow> produces_rows c"
| "produces_rows _ \<longleftrightarrow> False"

context natural_sort
begin

lemma annotate_exact:
  "produces_rows p \<Longrightarrow> annotate_scan p req preds = Inr p' \<Longrightarrow> plan_wf E p \<Longrightarrow>
     exec_narrow E p' = exec_plan E p"
proof (induction p arbitrary: p' req rule: produces_rows.induct)
  case (1 c items)
  then obtain c' where c: "p' = LProjection c' items"
    "annotate_scan c (if is_aggregate_node c then req else collect_all (map nexpr items) req) preds = Inr c'"
    by (auto simp: bindR_eq_Inr)
  note A = annotate_agree[OF c(2)]
  show ?case
  proof (cases "is_aggregate_node c")
    case True
    with A 1(3) c(1) show ?thesis by simp
  next
    case False
    then have "list_all2 (agree (set (collect_all (map nexpr items) req))) (exec_plan E c) (exec_narrow E c')"
      using A 1(3) by simp
    then have "map (eval_items E items) (exec_narrow E c') = map (eval_items E items) (exec_plan E c)"
      by (rule list_all2_map_eq) (rule agree_items, assumption, auto simp: collect_all_set)
    then show ?thesis using c(1) by simp
  qed
next
  case (2 c g a)
  then show ?case using annotate_agree[OF 2(2,3)] by simp
next
  case (3 c n)
  then show ?case by (auto simp: bindR_eq_Inr)
next
  case (4 c keys)
  from 4(3) obtain c' where c: "p' = LSort c' keys"
    "annotate_scan c (collect_all (map skey keys) req) preds = Inr c'" by (auto simp: bindR_eq_Inr)
  with 4(1)[OF _ c(2)] 4(2,4) show ?case by simp
qed auto

end

lemma produces_insert_limit: "produces_rows (insert_limit p n) = produces_rows p"
  by (cases p) auto

lemma produces_rewrite: "produces_rows p \<Longrightarrow> produces_rows (rewrite_plan p)"
  by (induction p rule: produces_rows.induct) (auto simp: produces_insert_limit)

lemma optimize_exact:
  assumes "query_engine E" "natural_sort E" "plan_wf E p" "produces_rows p" "optimize p = Inr p'"
  shows "exec_narrow E p' = exec_plan E p"
proof -
  note r = query_engine.rewrite_refines[OF assms(1,3), unfolded refines_def]
  have "exec_narrow E p' = exec_plan E (rewrite_plan p)"
    using natural_sort.annotate_exact[OF assms(2) produces_rewrite[OF assms(4)]] assms(5) r
    by (simp add: optimize_def)
  with r show ?thesis by simp
qed

text \<open>
  A query that ends in a projection or an aggregate returns the same rows from the optimised
  plan, when its scans deliver only the columns \<open>annotate_scan\<close> marked as required, as from the
  plan that was bound: no column that a filter, join key, residual predicate, grouping, aggregate,
  sort key or result column reads is ever left out.
\<close>

theorem optimize_reads_required_columns:
  assumes "query_engine E" "natural_sort E" "plan_wf E p" "produces_rows p"
    and "optimize p = Inr p'"
  shows "exec_narrow E p' = exec_plan E p"
  using assms by (rule optimize_exact)


definition demo_query :: plan where
  "demo_query =
     LProjection
       (LFilter (logical_scan [''a''] [demo_field ''k'', demo_field ''x''] [])
         (Binary Greater (Column ''x'' 1 (int64_type True)) (make_int64 15) (boolean_type True)) None)
       [\<lparr>nexpr = Column ''k'' 0 (int64_type True), nname = ''k''\<rparr>]"

theorem optimize_reads_required_columns_witness:
  "\<exists>q. optimize demo_query = Inr q \<and> exec_narrow (ref_engine demo_data) q = [[int64_datum 2]]"
proof -
  have w: "plan_wf (ref_engine demo_data) demo_query"
    by (simp add: demo_query_def logical_scan_def ref_engine_def demo_data_def cols_below_def
        make_literals in_int64_def int64_min_def int64_max_def)
  have r: "rewrite_plan demo_query = demo_query"
    by (simp add: demo_query_def logical_scan_def simplify_item_def make_literals Let_def
        simplify_binary_def simplify_logical_def)
  obtain q where q: "optimize demo_query = Inr q"
    unfolding optimize_def r
    by (simp add: demo_query_def logical_scan_def collect_all_def set_union_def collect_columns_def
        annotate_leaf_def make_literals)
  have "exec_narrow (ref_engine demo_data) q = exec_plan (ref_engine demo_data) demo_query"
    by (rule optimize_reads_required_columns[OF refq.query_engine_axioms refs.natural_sort_axioms w _ q])
       (simp add: demo_query_def)
  moreover have "exec_plan (ref_engine demo_data) demo_query = [[int64_datum 2]]"
    by (simp add: demo_query_def logical_scan_def ref_engine_def demo_data_def holds_def eval_items_def
        make_literals literal_to_arrow_datum_def ref_kernel_def binop_of_name_def)
  ultimately show ?thesis using q by simp
qed

text \<open>\<open>SELECT c FROM (SELECT x AS a, x AS b, x AS c FROM t) WHERE c > 0\<close>\<close>

definition derived_query :: plan where
  "derived_query =
     LProjection
       (LFilter
         (LProjection (logical_scan [''b''] [demo_field ''x''] [])
           (map (\<lambda>n. \<lparr>nexpr = Column ''x'' 0 (int64_type True), nname = n\<rparr>) [''a'', ''b'', ''c'']))
         (Binary Greater (Column ''c'' 2 (int64_type True)) (make_int64 0) (boolean_type True)) None)
       [\<lparr>nexpr = Column ''c'' 2 (int64_type True), nname = ''c''\<rparr>]"

text \<open>
  Indices into the output of a derived table are collected as if they were columns of its
  scan: a filter on the third column of a derived table over a file with one column makes
  \<open>optimize\<close> read past the scan's schema, which throws, although the plan is well formed and has
  rows to return.
\<close>

theorem optimize_fails_on_derived_table:
  "optimize derived_query = Inl StdOutOfRange
   \<and> plan_wf (ref_engine (\<lambda>paths. [[int64_datum 7]])) derived_query
   \<and> exec_plan (ref_engine (\<lambda>paths. [[int64_datum 7]])) derived_query = [[int64_datum 7]]"
proof (intro conjI)
  show "optimize derived_query = Inl StdOutOfRange"
    by (simp add: optimize_def derived_query_def logical_scan_def simplify_item_def make_literals Let_def
        simplify_binary_def simplify_logical_def collect_all_def set_union_def collect_columns_def
        annotate_leaf_def atR_def)
  show "plan_wf (ref_engine (\<lambda>paths. [[int64_datum 7]])) derived_query"
    by (simp add: derived_query_def logical_scan_def ref_engine_def cols_below_def items_schema_def
        make_literals in_int64_def int64_min_def int64_max_def)
  show "exec_plan (ref_engine (\<lambda>paths. [[int64_datum 7]])) derived_query = [[int64_datum 7]]"
    by (simp add: derived_query_def logical_scan_def ref_engine_def holds_def eval_items_def
        make_literals literal_to_arrow_datum_def ref_kernel_def binop_of_name_def)
qed


text \<open>\<open>SELECT a FROM (SELECT b AS a, a AS b FROM t) WHERE a > 10\<close>\<close>

definition renaming_query :: plan where
  "renaming_query =
     LProjection
       (LFilter
         (LProjection (logical_scan [''b''] [demo_field ''a'', demo_field ''b''] [])
           [\<lparr>nexpr = Column ''b'' 1 (int64_type True), nname = ''a''\<rparr>,
            \<lparr>nexpr = Column ''a'' 0 (int64_type True), nname = ''b''\<rparr>])
         (Binary Greater (Column ''a'' 0 (int64_type True)) (make_int64 10) (boolean_type True)) None)
       [\<lparr>nexpr = Column ''a'' 0 (int64_type True), nname = ''a''\<rparr>]"

definition renaming_group :: RowGroupMetadata where
  "renaming_group =
     \<lparr>rg_index = 0, rg_row_count = 1, compressed_size_bytes = 64, uncompressed_size_bytes = 128,
      column_statistics = [(''a'', int_stats 5 5), (''b'', int_stats 20 20)]\<rparr>"

fun scan_predicates :: "plan \<Rightarrow> PushablePredicate list" where
  "scan_predicates (LScan s) = pushable_predicates s"
| "scan_predicates (LJoin l r lk rk jt res) = scan_predicates l @ scan_predicates r"
| "scan_predicates (LFilter c p est) = scan_predicates c"
| "scan_predicates (LProjection c items) = scan_predicates c"
| "scan_predicates (LAggregate c g a) = scan_predicates c"
| "scan_predicates (LSort c keys) = scan_predicates c"
| "scan_predicates (LLimit c n) = scan_predicates c"

text \<open>
  A predicate on an output column of a derived table reaches the scan under the output
  column's name: for the query above, the predicate \<open>a > 10\<close> on the renamed column \<open>b\<close> is checked
  against the statistics of the file's own column \<open>a\<close>, and the row group with the only matching
  row is skipped.
\<close>

theorem pushdown_through_renaming:
  "\<exists>q. optimize renaming_query = Inr q
     \<and> skip_reason renaming_group (scan_predicates q) \<noteq> None
     \<and> exec_plan (ref_engine (\<lambda>paths. [[int64_datum 5, int64_datum 20]])) renaming_query = [[int64_datum 20]]"
proof -
  obtain q where q: "optimize renaming_query = Inr q" "scan_predicates q =
      [\<lparr>pp_column = ''a'', pp_op = Greater, pp_literal = make_int64 10\<rparr>]"
    by (simp add: optimize_def renaming_query_def logical_scan_def simplify_item_def make_literals Let_def
        simplify_binary_def simplify_logical_def collect_all_def set_union_def collect_columns_def
        annotate_leaf_def atR_def)
  have "f64_lt (f64_of_int 5) (f64_of_int 10)" by (simp add: int_key_strict)
  then have "f64_cmp (f64_of_int 5) (f64_of_int 10) \<le> 0" by (auto simp: f64_cmp_sign f64_lt_def)
  then have "skip_reason renaming_group (scan_predicates q) \<noteq> None"
    by (simp add: q(2) renaming_group_def predicate_proves_empty_def int_stats_def make_int64_def
        compare_literals_def op_proves_empty_def)
  moreover have "exec_plan (ref_engine (\<lambda>paths. [[int64_datum 5, int64_datum 20]])) renaming_query
      = [[int64_datum 20]]"
    by (simp add: renaming_query_def logical_scan_def ref_engine_def holds_def eval_items_def
        make_literals literal_to_arrow_datum_def ref_kernel_def binop_of_name_def)
  ultimately show ?thesis using q(1) by blast
qed

end
