(* ===== verification/LogicalPlanner.thy ===== *)
theory LogicalPlanner
  imports BindQuery Annotate
begin

text \<open>
  The logical planner of \<^verbatim>\<open>src/planner/logical_planner.cpp\<close>: the plan of a bound query, with every
  aggregate of the SELECT list and HAVING computed once in a \<open>LogicalAggregate\<close> and every reference
  to it or to a grouping key replaced by a column of that node. \<open>run_query\<close> is the meaning of a
  bound query that does not mention plans, and the plan built returns its rows.
\<close>

section \<open>Aggregates\<close>

text \<open>
  \<open>aggregates\<close> and \<open>aggregate_positions\<close>, which the C++ passes by reference: the slots in order,
  and the slot of each structural key.
\<close>

type_synonym agg_state = "NamedExpression list \<times> (string \<times> nat) list"

definition register_aggregate :: "expression \<Rightarrow> string \<Rightarrow> agg_state \<Rightarrow> nat \<times> agg_state" where
  "register_aggregate e name st =
     (case st of (aggregates, positions) \<Rightarrow>
        let key = structural_key e
        in case map_of positions key of
          Some i \<Rightarrow> (i, st)
        | None \<Rightarrow> (length aggregates,
                   (aggregates @ [\<lparr>nexpr = e, nname = name\<rparr>], (key, length aggregates) # positions)))"

text \<open>
  The operands of a rebuilt node are arguments of one call, whose order of evaluation C++ leaves
  open: \<open>rtl\<close> says whether the compiler evaluates them from right to left. The order decides which
  slot an aggregate gets.
\<close>

definition seq2 :: "bool \<Rightarrow> ('s \<Rightarrow> 'a \<times> 's) \<Rightarrow> ('s \<Rightarrow> 'b \<times> 's) \<Rightarrow> 's \<Rightarrow> ('a \<times> 'b) \<times> 's" where
  "seq2 rtl f g s =
     (if rtl then case g s of (y, s1) \<Rightarrow> (case f s1 of (x, s2) \<Rightarrow> ((x, y), s2))
      else case f s of (x, s1) \<Rightarrow> (case g s1 of (y, s2) \<Rightarrow> ((x, y), s2)))"

fun map_state :: "('a \<Rightarrow> 's \<Rightarrow> 'b \<times> 's) \<Rightarrow> 'a list \<Rightarrow> 's \<Rightarrow> 'b list \<times> 's" where
  "map_state f [] s = ([], s)"
| "map_state f (x # xs) s = (case f x s of (y, s1) \<Rightarrow> case map_state f xs s1 of (ys, s2) \<Rightarrow> (y # ys, s2))"

lemma map_state_cong [fundef_cong]:
  "xs = ys \<Longrightarrow> (\<And>x s. x \<in> set ys \<Longrightarrow> f x s = g x s) \<Longrightarrow> s = s' \<Longrightarrow> map_state f xs s = map_state g ys s'"
  by (induction ys arbitrary: xs s s') (auto split: prod.splits)

record grouping =
  group_items :: "NamedExpression list"
  group_by_positions :: "(string \<times> nat) list"

text \<open>A later key of the same structural key takes over its position.\<close>

definition make_grouping :: "expression list \<Rightarrow> grouping" where
  "make_grouping keys =
     \<lparr>group_items = map (\<lambda>e. \<lparr>nexpr = e, nname = to_string e\<rparr>) keys,
      group_by_positions = rev (zip (map structural_key keys) [0 ..< length keys])\<rparr>"

text \<open>A reference to the grouping key of the same structural key, if there is one.\<close>

definition group_ref :: "grouping \<Rightarrow> expression \<Rightarrow> expression option" where
  "group_ref G e =
     (case map_of (group_by_positions G) (structural_key e) of
        None \<Rightarrow> None
      | Some i \<Rightarrow> Some (Column (nname (group_items G ! i)) i (result_type e)))"

definition agg_name :: "nat \<Rightarrow> string" where
  "agg_name n = ''__kernellake_agg_'' @ int_str (int n)"

definition aggregate_ref :: "grouping \<Rightarrow> expression \<Rightarrow> string \<Rightarrow> agg_state \<Rightarrow> expression \<times> agg_state" where
  "aggregate_ref G e name st =
     (case register_aggregate e name st of (i, st') \<Rightarrow>
        (Column (nname (fst st' ! i)) (length (group_items G) + i) (result_type e), st'))"

fun rewrite_aggregate_refs :: "bool \<Rightarrow> grouping \<Rightarrow> expression \<Rightarrow> agg_state \<Rightarrow> expression \<times> agg_state" where
  "rewrite_aggregate_refs rtl G e st =
     (case group_ref G e of
        Some c \<Rightarrow> (c, st)
      | None \<Rightarrow>
          (case e of
             Aggregate f arg t \<Rightarrow> aggregate_ref G e (agg_name (length (fst st))) st
           | Binary op l r t \<Rightarrow>
               (case seq2 rtl (\<lambda>s. rewrite_aggregate_refs rtl G l s) (\<lambda>s. rewrite_aggregate_refs rtl G r s) st of
                  ((l', r'), st') \<Rightarrow> (Binary op l' r' t, st'))
           | Unary op x t \<Rightarrow> (case rewrite_aggregate_refs rtl G x st of (x', st') \<Rightarrow> (Unary op x' t, st'))
           | Cast x t \<Rightarrow> (case rewrite_aggregate_refs rtl G x st of (x', st') \<Rightarrow> (Cast x' t, st'))
           | Between v l u \<Rightarrow>
               (case seq2 rtl (\<lambda>s. rewrite_aggregate_refs rtl G v s)
                  (seq2 rtl (\<lambda>s. rewrite_aggregate_refs rtl G l s) (\<lambda>s. rewrite_aggregate_refs rtl G u s)) st of
                  ((v', l', u'), st') \<Rightarrow> (Between v' l' u', st'))
           | Like v p neg \<Rightarrow> (case rewrite_aggregate_refs rtl G v st of (v', st') \<Rightarrow> (Like v' p neg, st'))
           | Case wts els t \<Rightarrow>
               (case map_state (\<lambda>(c, r) s. seq2 False (\<lambda>s. rewrite_aggregate_refs rtl G c s)
                       (\<lambda>s. rewrite_aggregate_refs rtl G r s) s) wts st of
                  (wts', st1) \<Rightarrow>
                    (case els of
                       None \<Rightarrow> (Case wts' None t, st1)
                     | Some x \<Rightarrow> (case rewrite_aggregate_refs rtl G x st1 of (x', st2) \<Rightarrow> (Case wts' (Some x') t, st2))))
           | Extract p x t \<Rightarrow> (case rewrite_aggregate_refs rtl G x st of (x', st') \<Rightarrow> (Extract p x' t, st'))
           | Substring x s n t \<Rightarrow> (case rewrite_aggregate_refs rtl G x st of (x', st') \<Rightarrow> (Substring x' s n t, st'))
           | Column n i t \<Rightarrow> (e, st)
           | Literal v t \<Rightarrow> (e, st)))"

section \<open>Plans\<close>

definition to_sort_keys :: "BoundOrderByItem list \<Rightarrow> SortKey list" where
  "to_sort_keys items = map (\<lambda>it. \<lparr>skey = bo_expr it, ascending = bo_ascending it\<rparr>) items"

text \<open>A SELECT item that is an aggregate call names its slot; any other is rewritten.\<close>

definition rewrite_item :: "bool \<Rightarrow> grouping \<Rightarrow> BoundSelectItem \<Rightarrow> agg_state \<Rightarrow> expression \<times> agg_state" where
  "rewrite_item rtl G it st =
     (if is_aggregate (bs_expr it) then aggregate_ref G (bs_expr it) (output_name it) st
      else rewrite_aggregate_refs rtl G (bs_expr it) st)"

definition rewrite_having :: "bool \<Rightarrow> grouping \<Rightarrow> expression option \<Rightarrow> agg_state \<Rightarrow> expression option \<times> agg_state" where
  "rewrite_having rtl G h st =
     (case h of None \<Rightarrow> (None, st)
      | Some p \<Rightarrow> (case rewrite_aggregate_refs rtl G p st of (p', st') \<Rightarrow> (Some p', st')))"

definition filter_on :: "plan \<Rightarrow> expression option \<Rightarrow> plan" where
  "filter_on p c = (case c of None \<Rightarrow> p | Some e \<Rightarrow> LFilter p e None)"

definition sort_on :: "plan \<Rightarrow> BoundOrderByItem list \<Rightarrow> plan" where
  "sort_on p os = (if os = [] then p else LSort p (to_sort_keys os))"

definition named_items :: "expression list \<Rightarrow> BoundSelectItem list \<Rightarrow> NamedExpression list" where
  "named_items es items = map (\<lambda>(e, it). \<lparr>nexpr = e, nname = output_name it\<rparr>) (zip es items)"

definition aggregate_plan :: "bool \<Rightarrow> plan \<Rightarrow> BoundQuery \<Rightarrow> plan" where
  "aggregate_plan rtl p q =
     (let G = make_grouping (bq_group_by q)
      in case map_state (rewrite_item rtl G) (bq_select_list q) ([], []) of (es, st1) \<Rightarrow>
         case rewrite_having rtl G (bq_having q) st1 of (h, (aggregates, _)) \<Rightarrow>
           LProjection (filter_on (LAggregate p (group_items G) aggregates) h) (named_items es (bq_select_list q)))"

definition finish_logical_plan :: "bool \<Rightarrow> plan \<Rightarrow> BoundQuery \<Rightarrow> plan" where
  "finish_logical_plan rtl p q =
     (let p1 = filter_on p (bq_where q);
          p2 = (if is_aggregate_query q then sort_on (aggregate_plan rtl p1 q) (bq_order_by q)
                else LProjection (sort_on p1 (bq_order_by q))
                       (named_items (map bs_expr (bq_select_list q)) (bq_select_list q)))
      in case bq_limit q of None \<Rightarrow> p2 | Some n \<Rightarrow> LLimit p2 n)"

definition build_logical_plan :: "bool \<Rightarrow> BoundQuery \<Rightarrow> Schema \<Rightarrow> PartitionColumn list \<Rightarrow> plan result" where
  "build_logical_plan rtl q s parts =
     (if bq_join q \<noteq> None
      then Inl (PlanningError ''unreachable: build_logical_plan(source_schema) called for a JOIN query'')
      else Inr (finish_logical_plan rtl (logical_scan (bq_source_paths q) s parts) q))"

text \<open>The right side of a step: a plan built before, or a scan; filtered when ON asks for it.\<close>

definition step_source :: "BoundJoinStep \<Rightarrow> Schema \<Rightarrow> PartitionColumn list \<Rightarrow> plan option \<Rightarrow> plan" where
  "step_source st s parts sub =
     filter_on (case sub of Some p \<Rightarrow> p | None \<Rightarrow> logical_scan (bj_source_paths st) s parts)
       (right_prefilter (bj_keys st))"

fun join_chain :: "plan \<Rightarrow> (BoundJoinStep \<times> Schema \<times> PartitionColumn list \<times> plan option) list \<Rightarrow> plan" where
  "join_chain p [] = p"
| "join_chain p ((st, s, parts, sub) # rest) =
     join_chain (LJoin p (step_source st s parts sub) (combined_key_index (bj_keys st))
       (source_key_index (bj_keys st)) (bj_type st) (residual_predicate (bj_keys st))) rest"

definition build_join_plan ::
  "bool \<Rightarrow> BoundQuery \<Rightarrow> Schema list \<Rightarrow> PartitionColumn list list \<Rightarrow> plan option list \<Rightarrow> plan result" where
  "build_join_plan rtl q schemas parts subs =
     (case bq_join q of
        None \<Rightarrow> Inl (PlanningError ''unreachable: build_logical_plan(join_schemas) called without a JOIN clause'')
      | Some j \<Rightarrow>
          if length schemas \<noteq> Suc (length (bj_steps j))
          then Inl (PlanningError ''unreachable: the wrong number of schemas for this JOIN chain'')
          else if parts \<noteq> [] \<and> length parts \<noteq> length schemas
          then Inl (PlanningError ''unreachable: a mismatched partition_columns_per_source count'')
          else if subs \<noteq> [] \<and> length subs \<noteq> length schemas
          then Inl (PlanningError ''unreachable: a mismatched join_subplans count'')
          else
            let parts_for = (\<lambda>i. if parts = [] then [] else parts ! i);
                sub_for = (\<lambda>i. if subs = [] then None else subs ! i)
            in Inr (finish_logical_plan rtl
                 (join_chain (logical_scan (first_source_paths j) (schemas ! 0) (parts_for 0))
                   (map (\<lambda>i. (bj_steps j ! i, schemas ! Suc i, parts_for (Suc i), sub_for (Suc i)))
                      [0 ..< length (bj_steps j)])) q))"

definition build_derived_plan :: "bool \<Rightarrow> BoundQuery \<Rightarrow> plan \<Rightarrow> plan result" where
  "build_derived_plan rtl q p =
     (if bq_join q \<noteq> None
      then Inl (PlanningError ''unreachable: build_logical_plan(source_plan) called for a JOIN query'')
      else Inr (finish_logical_plan rtl p q))"

declare rewrite_aggregate_refs.simps [simp del]

section \<open>The meaning of a bound query\<close>

text \<open>
  The value of an expression on a group: aggregates range over the rows of the group, and columns
  outside aggregates are read from one of them, \<open>row\<close>.
\<close>

fun group_eval :: "engine \<Rightarrow> row list \<Rightarrow> row \<Rightarrow> expression \<Rightarrow> datum" where
  "group_eval E rows row (Aggregate f arg t) = eval_agg E rows (Aggregate f arg t)"
| "group_eval E rows row (Column n i t) = eval (e_kernel E) row (Column n i t)"
| "group_eval E rows row (Literal v t) = eval (e_kernel E) row (Literal v t)"
| "group_eval E rows row (Binary op l r t) =
     (case op of And \<Rightarrow> and3 (group_eval E rows row l) (group_eval E rows row r)
      | Or \<Rightarrow> or3 (group_eval E rows row l) (group_eval E rows row r)
      | _ \<Rightarrow> e_kernel E (binary_function_name op) NoOpts [group_eval E rows row l, group_eval E rows row r])"
| "group_eval E rows row (Unary op e t) =
     (case op of UNot \<Rightarrow> not3 (group_eval E rows row e)
      | UNegate \<Rightarrow> e_kernel E ''negate'' NoOpts [group_eval E rows row e]
      | UIsNull \<Rightarrow> bool_datum (is_null_datum (group_eval E rows row e))
      | UIsNotNull \<Rightarrow> bool_datum (\<not> is_null_datum (group_eval E rows row e)))"
| "group_eval E rows row (Cast e t) = e_kernel E ''cast'' (CastTo (to_arrow_type t)) [group_eval E rows row e]"
| "group_eval E rows row (Extract p e t) = e_kernel E (extract_function_name p) NoOpts [group_eval E rows row e]"
| "group_eval E rows row (Substring e s n t) =
     e_kernel E ''utf8_slice_codeunits'' (Slice (s - 1) (s - 1 + n)) [group_eval E rows row e]"
| "group_eval E rows row (Between v l u) =
     and3 (e_kernel E ''greater_equal'' NoOpts [group_eval E rows row v, group_eval E rows row l])
          (e_kernel E ''less_equal'' NoOpts [group_eval E rows row v, group_eval E rows row u])"
| "group_eval E rows row (Like v p neg) =
     (let m = e_kernel E ''match_like'' (MatchSubstring p) [group_eval E rows row v] in if neg then not3 m else m)"
| "group_eval E rows row (Case wts els t) =
     case_pick (map (\<lambda>(c, r). (group_eval E rows row c, group_eval E rows row r)) wts)
       (map_option (group_eval E rows row) els)
       (case wts of [] \<Rightarrow> na_datum | (c, r) # _ \<Rightarrow> null_like (group_eval E rows row r))"

lemma group_eval_agg_free: "agg_free e \<Longrightarrow> group_eval E rows row e = eval (e_kernel E) row e"
proof (induction e rule: expr_induct)
  case (Binary op l r t)
  then show ?case by (cases op) auto
next
  case (Unary op e t)
  then show ?case by (cases op) auto
next
  case (Case wts els t)
  have m: "map (\<lambda>(c, r). (group_eval E rows row c, group_eval E rows row r)) wts
      = map (\<lambda>(c, r). (eval (e_kernel E) row c, eval (e_kernel E) row r)) wts"
    using Case by (fastforce simp: list_all_iff)
  have e: "map_option (group_eval E rows row) els = map_option (eval (e_kernel E) row) els"
    using Case by (cases els) auto
  have h: "(case wts of [] \<Rightarrow> na_datum | (c, r) # _ \<Rightarrow> null_like (group_eval E rows row r))
      = (case wts of [] \<Rightarrow> na_datum | (c, r) # _ \<Rightarrow> null_like (eval (e_kernel E) row r))"
    using Case.IH(1)[of "fst (hd wts)" "snd (hd wts)"] Case.prems by (cases wts) auto
  show ?case by (simp only: group_eval.simps eval.simps m e h)
qed auto

section \<open>Threading the slots\<close>

text \<open>
  \<open>runs I P f\<close>: from a state with \<open>I\<close>, \<open>f\<close> ends in one with \<open>I\<close> that only adds slots, and its result
  has \<open>P\<close> for the slots there.
\<close>

definition runs :: "(agg_state \<Rightarrow> bool) \<Rightarrow> (NamedExpression list \<Rightarrow> 'a \<Rightarrow> bool) \<Rightarrow> (agg_state \<Rightarrow> 'a \<times> agg_state) \<Rightarrow> bool" where
  "runs I P f \<longleftrightarrow> (\<forall>st x st'. I st \<longrightarrow> f st = (x, st') \<longrightarrow>
     I st' \<and> (\<exists>new. fst st' = fst st @ new) \<and> P (fst st') x)"

definition keeps :: "(NamedExpression list \<Rightarrow> 'a \<Rightarrow> bool) \<Rightarrow> bool" where
  "keeps P \<longleftrightarrow> (\<forall>a new x. P a x \<longrightarrow> P (a @ new) x)"

lemma runsD:
  "runs I P f \<Longrightarrow> I st \<Longrightarrow> f st = (x, st') \<Longrightarrow> I st' \<and> (\<exists>new. fst st' = fst st @ new) \<and> P (fst st') x"
  unfolding runs_def by blast

lemma runs_return: "(\<And>st. I st \<Longrightarrow> P (fst st) x) \<Longrightarrow> runs I P (\<lambda>st. (x, st))"
  by (auto simp: runs_def)

lemma runs_map:
  assumes "runs I P f" "\<And>a x. P a x \<Longrightarrow> Q a (h x)"
  shows "runs I Q (\<lambda>st. case f st of (x, st') \<Rightarrow> (h x, st'))"
  using assms unfolding runs_def by (fastforce split: prod.splits)

lemma runs_bind:
  assumes "runs I P f" "\<And>x. runs I (Q x) (g x)" "keeps P" "\<And>a x y. P a x \<Longrightarrow> Q x a y \<Longrightarrow> R a y"
  shows "runs I R (\<lambda>st. case f st of (x, st1) \<Rightarrow> g x st1)"
  unfolding runs_def
proof (intro allI impI)
  fix st y st2 assume I: "I st" and b: "(case f st of (x, st1) \<Rightarrow> g x st1) = (y, st2)"
  obtain x st1 where f: "f st = (x, st1)" by (cases "f st")
  note F = runsD[OF assms(1) I f]
  with b f have g: "g x st1 = (y, st2)" by simp
  have G: "I st2 \<and> (\<exists>new. fst st2 = fst st1 @ new) \<and> Q x (fst st2) y" using runsD[OF assms(2) _ g] F by blast
  moreover have "P (fst st2) x" using F G assms(3) unfolding keeps_def by metis
  ultimately show "I st2 \<and> (\<exists>new. fst st2 = fst st @ new) \<and> R (fst st2) y" using F assms(4) by fastforce
qed

lemma runs_seq2:
  assumes "runs I P f" "runs I Q g" "keeps P" "keeps Q"
  shows "runs I (\<lambda>a (x, y). P a x \<and> Q a y) (seq2 rtl f g)"
proof (cases rtl)
  case True
  have s: "seq2 rtl f g = (\<lambda>st. case g st of (y, s1) \<Rightarrow> (case f s1 of (x, s2) \<Rightarrow> ((x, y), s2)))"
    using True by (auto simp: seq2_def)
  show ?thesis unfolding s
    by (rule runs_bind[where P = Q and Q = "\<lambda>y a p. P a (fst p) \<and> snd p = y"])
       (use assms in \<open>auto intro!: runs_map[where P = P]\<close>)
next
  case False
  have s: "seq2 rtl f g = (\<lambda>st. case f st of (x, s1) \<Rightarrow> (case g s1 of (y, s2) \<Rightarrow> ((x, y), s2)))"
    using False by (auto simp: seq2_def)
  show ?thesis unfolding s
    by (rule runs_bind[where P = P and Q = "\<lambda>x a p. Q a (snd p) \<and> fst p = x"])
       (use assms in \<open>auto intro!: runs_map[where P = Q]\<close>)
qed

lemma runs_map_state:
  assumes "\<And>x. x \<in> set xs \<Longrightarrow> runs I (P x) (f x)" "\<And>x. keeps (P x)"
  shows "runs I (\<lambda>a ys. list_all2 (\<lambda>x y. P x a y) xs ys) (map_state f xs)"
  using assms(1)
proof (induction xs)
  case Nil
  have s: "map_state f [] = (\<lambda>st. ([], st))" by auto
  show ?case unfolding s by (rule runs_return) simp
next
  case (Cons x xs)
  have s: "map_state f (x # xs) =
      (\<lambda>st. case f x st of (y, s1) \<Rightarrow> (case map_state f xs s1 of (ys, s2) \<Rightarrow> (y # ys, s2)))" by auto
  show ?case unfolding s
  proof (rule runs_bind)
    show "runs I (P x) (f x)" using Cons.prems by simp
    show "runs I (\<lambda>a zs. \<exists>ys. zs = y # ys \<and> list_all2 (\<lambda>x y. P x a y) xs ys)
        (\<lambda>s1. case map_state f xs s1 of (ys, s2) \<Rightarrow> (y # ys, s2))" for y
      by (rule runs_map[OF Cons.IH]) (use Cons.prems in auto)
  qed (use assms(2) in auto)
qed

lemma keeps_seq2: "keeps P \<Longrightarrow> keeps Q \<Longrightarrow> keeps (\<lambda>a (x, y). P a x \<and> Q a y)"
  by (auto simp: keeps_def)

section \<open>Rewriting keeps values\<close>

function subexprs :: "expression \<Rightarrow> expression list" where
  "subexprs e = e # concat (map subexprs (children e))"
  by pat_completeness auto
termination
  by (relation "measure size") (auto simp: children_size)

declare subexprs.simps [simp del]

lemma subexprs_in: "set (subexprs e) \<subseteq> S \<Longrightarrow> e \<in> S \<and> (\<forall>c \<in> set (children e). set (subexprs c) \<subseteq> S)"
  by (subst (asm) subexprs.simps) auto

definition agg_inv :: "expression set \<Rightarrow> agg_state \<Rightarrow> bool" where
  "agg_inv S st \<longleftrightarrow>
     (\<forall>key i. map_of (snd st) key = Some i \<longrightarrow> i < length (fst st) \<and> structural_key (nexpr (fst st ! i)) = key) \<and>
     (\<forall>a \<in> set (fst st). nexpr a \<in> S \<and> is_aggregate (nexpr a))"

text \<open>The aggregate's output row of a group: the grouping keys, then the slots.\<close>

definition slot_row :: "engine \<Rightarrow> expression list \<Rightarrow> row list \<Rightarrow> row \<Rightarrow> NamedExpression list \<Rightarrow> row" where
  "slot_row E keys rows row aggs =
     map (eval (e_kernel E) row) keys @ map (\<lambda>a. eval_agg E rows (nexpr a)) aggs"

definition stands :: "engine \<Rightarrow> expression list \<Rightarrow> row list \<Rightarrow> row \<Rightarrow> expression \<Rightarrow> NamedExpression list \<Rightarrow>
    expression \<Rightarrow> bool" where
  "stands E keys rows row e aggs e' \<longleftrightarrow>
     result_type e' = result_type e \<and> agg_free e' \<and> (dec_lit e' \<longrightarrow> dec_lit e) \<and> (wt e \<longrightarrow> wt e') \<and>
     cols_below (length keys + length aggs) e' \<and>
     eval (e_kernel E) (slot_row E keys rows row aggs) e' = group_eval E rows row e"

lemma keeps_stands: "keeps (stands E keys rows row e)"
proof (unfold keeps_def, intro allI impI)
  fix a new e' assume s: "stands E keys rows row e a e'"
  have "eval (e_kernel E) (slot_row E keys rows row (a @ new)) e' = eval (e_kernel E) (slot_row E keys rows row a) e'"
    by (rule keep.rn_eval)
       (use s in \<open>auto simp: stands_def cols_below_def list_all_iff col_at_def slot_row_def nth_append\<close>)
  with s show "stands E keys rows row e (a @ new) e'"
    by (auto simp: stands_def cols_below_def list_all_iff)
qed

lemma make_grouping_position:
  assumes "map_of (group_by_positions (make_grouping keys)) k = Some i"
  shows "i < length keys \<and> structural_key (keys ! i) = k"
proof -
  have "(k, i) \<in> set (zip (map structural_key keys) [0 ..< length keys])"
    using map_of_SomeD[OF assms] by (simp add: make_grouping_def)
  then show ?thesis by (auto simp: in_set_zip)
qed

lemma make_grouping_none:
  "map_of (group_by_positions (make_grouping keys)) k = None \<longleftrightarrow> k \<notin> set (map structural_key keys)"
  by (simp add: make_grouping_def map_of_eq_None_iff set_zip_leftD) (force simp: in_set_zip in_set_conv_nth set_zip)

lemma group_ref_stands:
  assumes "group_ref (make_grouping keys) e = Some c" "inj_on structural_key S" "set keys \<subseteq> S" "e \<in> S"
    "\<forall>g \<in> set keys. agg_free g"
  shows "stands E keys rows row e aggs c"
proof -
  from assms(1) obtain i where i: "map_of (group_by_positions (make_grouping keys)) (structural_key e) = Some i"
    "c = Column (nname (group_items (make_grouping keys) ! i)) i (result_type e)"
    by (auto simp: group_ref_def split: option.splits)
  note p = make_grouping_position[OF i(1)]
  then have e: "keys ! i = e" using assms(2-4) nth_mem[of i keys] by (meson inj_onD subsetD)
  then have "agg_free e" using p assms(5) by auto
  with p e i(2) show ?thesis
    by (auto simp: stands_def cols_below_def slot_row_def nth_append group_eval_agg_free)
qed

lemma aggregate_ref_runs:
  assumes "is_aggregate e" "e \<in> S" "inj_on structural_key S"
  shows "runs (agg_inv S) (stands E keys rows row e) (\<lambda>st. aggregate_ref (make_grouping keys) e (f st) st)"
  unfolding runs_def
proof (intro allI impI)
  fix st x st' assume I: "agg_inv S st" and r: "aggregate_ref (make_grouping keys) e (f st) st = (x, st')"
  obtain aggs pos where st: "st = (aggs, pos)" by (cases st)
  from r obtain i where i: "register_aggregate e (f st) st = (i, st')"
    "x = Column (nname (fst st' ! i)) (length keys + i) (result_type e)"
    by (auto simp: aggregate_ref_def make_grouping_def split: prod.splits)
  have *: "agg_inv S st' \<and> (\<exists>new. fst st' = fst st @ new) \<and> i < length (fst st') \<and> nexpr (fst st' ! i) = e"
  proof (cases "map_of pos (structural_key e)")
    case None
    with i st I assms(1,2) show ?thesis
      by (auto simp: register_aggregate_def Let_def agg_inv_def nth_append less_Suc_eq split: if_splits)
  next
    case (Some j)
    with i(1) st have "st' = st" "i = j" by (auto simp: register_aggregate_def Let_def)
    moreover from I Some st have "j < length aggs" "structural_key (nexpr (aggs ! j)) = structural_key e"
      "nexpr (aggs ! j) \<in> S" by (auto simp: agg_inv_def)
    ultimately show ?thesis using st I assms(2,3) by (auto simp: inj_on_def)
  qed
  obtain g arg t where "e = Aggregate g arg t" using assms(1) by (cases e) auto
  with * i(2) show "agg_inv S st' \<and> (\<exists>new. fst st' = fst st @ new) \<and> stands E keys rows row e (fst st') x"
    by (auto simp: stands_def cols_below_def slot_row_def nth_append)
qed

lemma stands_Case:
  assumes "list_all2 (\<lambda>(c, r) (c', r'). stands E keys rows row c a c' \<and> stands E keys rows row r a r') wts wts'"
    "rel_option (\<lambda>e e'. stands E keys rows row e a e') els els'"
  shows "stands E keys rows row (Case wts els t) a (Case wts' els' t)"
proof -
  let ?K = "e_kernel E" and ?r = "slot_row E keys rows row a"
  have m: "map (\<lambda>(c, r). (eval ?K ?r c, eval ?K ?r r)) wts' =
      map (\<lambda>(c, r). (group_eval E rows row c, group_eval E rows row r)) wts"
    using assms(1) by (induction rule: list_all2_induct) (auto simp: stands_def)
  have h: "(case wts' of [] \<Rightarrow> na_datum | (c, r) # _ \<Rightarrow> null_like (eval ?K ?r r)) =
      (case wts of [] \<Rightarrow> na_datum | (c, r) # _ \<Rightarrow> null_like (group_eval E rows row r))"
    using assms(1) by (cases wts; cases wts') (auto simp: stands_def)
  have e: "map_option (eval ?K ?r) els' = map_option (group_eval E rows row) els"
    using assms(2) by (cases els; cases els') (auto simp: stands_def)
  have v: "eval ?K ?r (Case wts' els' t) = group_eval E rows row (Case wts els t)"
    by (simp only: eval.simps group_eval.simps m h e)
  have "list_all (\<lambda>(c, r). agg_free c \<and> agg_free r) wts'"
    "list_all (\<lambda>(i, t). i < length keys + length a) (concat (map (\<lambda>(c, r). col_refs c @ col_refs r) wts'))"
    "list_all (\<lambda>(c, r). wt c \<and> wt r \<and> tid c = Boolean \<and> tid r = type_id t) wts \<longrightarrow>
       list_all (\<lambda>(c, r). wt c \<and> wt r \<and> tid c = Boolean \<and> tid r = type_id t) wts'"
    "wts \<noteq> [] \<longrightarrow> wts' \<noteq> []"
    using assms(1) by (induction rule: list_all2_induct) (auto simp: stands_def cols_below_def)
  with v assms(2) show ?thesis
    by (cases els; cases els') (auto simp: stands_def cols_below_def)
qed

definition grouped :: "expression list \<Rightarrow> expression \<Rightarrow> bool" where
  "grouped keys e \<longleftrightarrow> structural_key e \<in> set (map structural_key keys) \<or>
     \<not> references_ungrouped_column e (map structural_key keys) False"

lemma group_ref_none:
  "group_ref (make_grouping keys) e = None \<longleftrightarrow> structural_key e \<notin> set (map structural_key keys)"
  unfolding make_grouping_none[symmetric] by (simp add: group_ref_def split: option.splits)

lemma grouped_child:
  assumes "group_ref (make_grouping keys) e = None" "grouped keys e" "c \<in> set (children e)" "\<not> is_aggregate e"
  shows "grouped keys c"
  using assms unfolding grouped_def group_ref_none
  by (cases e) (fastforce simp: list_ex_iff split: option.splits)+

lemma stands_Binary:
  "stands E keys rows row l a l' \<Longrightarrow> stands E keys rows row r a r' \<Longrightarrow>
     stands E keys rows row (Binary op l r t) a (Binary op l' r' t)"
  by (cases op) (auto simp: stands_def cols_below_def)

lemma stands_Unary:
  "stands E keys rows row x a x' \<Longrightarrow> stands E keys rows row (Unary op x t) a (Unary op x' t)"
  by (cases op) (auto simp: stands_def cols_below_def)

lemma stands_Between:
  "stands E keys rows row v a v' \<Longrightarrow> stands E keys rows row l a l' \<Longrightarrow> stands E keys rows row u a u' \<Longrightarrow>
     stands E keys rows row (Between v l u) a (Between v' l' u')"
  by (auto simp: stands_def cols_below_def)

lemma stands_others:
  assumes "stands E keys rows row x a x'"
  shows "stands E keys rows row (Cast x t) a (Cast x' t)" "stands E keys rows row (Extract p x t) a (Extract p x' t)"
    "stands E keys rows row (Substring x s n t) a (Substring x' s n t)"
    "stands E keys rows row (Like x q neg) a (Like x' q neg)"
  using assms by (auto simp: stands_def cols_below_def)

lemma stands_Literal: "stands E keys rows row (Literal v t) a (Literal v t)"
  by (simp add: stands_def cols_below_def)

text \<open>What one level of the rewriting does, once no grouping key matches.\<close>

lemma rewrite_ref:
  "group_ref G e = Some c \<Longrightarrow> rewrite_aggregate_refs rtl G e = (\<lambda>st. (c, st))"
  by (rule ext, subst rewrite_aggregate_refs.simps) simp

lemma rewrite_nodes:
  assumes "group_ref G e = None"
  shows "e = Aggregate f arg t \<Longrightarrow> rewrite_aggregate_refs rtl G e =
      (\<lambda>st. aggregate_ref G e (agg_name (length (fst st))) st)"
    "e = Literal v t \<Longrightarrow> rewrite_aggregate_refs rtl G e = (\<lambda>st. (Literal v t, st))"
    "e = Binary op l r t \<Longrightarrow> rewrite_aggregate_refs rtl G e =
      (\<lambda>st. case seq2 rtl (rewrite_aggregate_refs rtl G l) (rewrite_aggregate_refs rtl G r) st of
         (p, st') \<Rightarrow> (Binary op (fst p) (snd p) t, st'))"
    "e = Between x l r \<Longrightarrow> rewrite_aggregate_refs rtl G e =
      (\<lambda>st. case seq2 rtl (rewrite_aggregate_refs rtl G x)
           (seq2 rtl (rewrite_aggregate_refs rtl G l) (rewrite_aggregate_refs rtl G r)) st of
         (p, st') \<Rightarrow> (Between (fst p) (fst (snd p)) (snd (snd p)), st'))"
    "e = Unary uop x t \<Longrightarrow> rewrite_aggregate_refs rtl G e =
      (\<lambda>st. case rewrite_aggregate_refs rtl G x st of (x', st') \<Rightarrow> (Unary uop x' t, st'))"
    "e = Cast x t \<Longrightarrow> rewrite_aggregate_refs rtl G e =
      (\<lambda>st. case rewrite_aggregate_refs rtl G x st of (x', st') \<Rightarrow> (Cast x' t, st'))"
    "e = Extract dp x t \<Longrightarrow> rewrite_aggregate_refs rtl G e =
      (\<lambda>st. case rewrite_aggregate_refs rtl G x st of (x', st') \<Rightarrow> (Extract dp x' t, st'))"
    "e = Substring x b n t \<Longrightarrow> rewrite_aggregate_refs rtl G e =
      (\<lambda>st. case rewrite_aggregate_refs rtl G x st of (x', st') \<Rightarrow> (Substring x' b n t, st'))"
    "e = Like x q neg \<Longrightarrow> rewrite_aggregate_refs rtl G e =
      (\<lambda>st. case rewrite_aggregate_refs rtl G x st of (x', st') \<Rightarrow> (Like x' q neg, st'))"
    "e = Case wts els t \<Longrightarrow> rewrite_aggregate_refs rtl G e =
      (\<lambda>st. case map_state (\<lambda>(c, r). seq2 False (rewrite_aggregate_refs rtl G c) (rewrite_aggregate_refs rtl G r)) wts st of
         (wts', st1) \<Rightarrow> (case rewrite_having rtl G els st1 of (els', st2) \<Rightarrow> (Case wts' els' t, st2)))"
  using assms
  by (intro ext, subst rewrite_aggregate_refs.simps,
      simp add: rewrite_having_def split: prod.split option.split)+

lemma rewrite_having_runs:
  assumes "\<And>p. h = Some p \<Longrightarrow> runs I (stands E keys rows row p) (rewrite_aggregate_refs rtl G p)"
  shows "runs I (\<lambda>a h'. rel_option (\<lambda>e e'. stands E keys rows row e a e') h h') (rewrite_having rtl G h)"
proof (cases h)
  case None
  then have s: "rewrite_having rtl G h = (\<lambda>st. (None, st))" by (auto simp: rewrite_having_def)
  show ?thesis unfolding s by (rule runs_return) (simp add: None)
next
  case (Some p)
  then have s: "rewrite_having rtl G h = (\<lambda>st. case rewrite_aggregate_refs rtl G p st of (p', st') \<Rightarrow> (Some p', st'))"
    by (auto simp: rewrite_having_def)
  show ?thesis unfolding s by (rule runs_map[OF assms[OF Some]]) (simp add: Some)
qed

lemma rewrite_runs:
  assumes "inj_on structural_key S" "set keys \<subseteq> S" "\<forall>g \<in> set keys. agg_free g"
  shows "set (subexprs e) \<subseteq> S \<Longrightarrow> grouped keys e \<Longrightarrow>
    runs (agg_inv S) (stands E keys rows row e) (rewrite_aggregate_refs rtl (make_grouping keys) e)"
proof (induction e rule: expr_children_induct)
  case (step e)
  let ?G = "make_grouping keys" and ?rw = "rewrite_aggregate_refs rtl (make_grouping keys)"
  have S: "e \<in> S" "\<forall>c \<in> set (children e). set (subexprs c) \<subseteq> S" using subexprs_in[OF step.prems(1)] by auto
  show ?case
  proof (cases "group_ref ?G e")
    case (Some c)
    show ?thesis unfolding rewrite_ref[OF Some]
      by (rule runs_return, rule group_ref_stands[OF Some assms(1,2) S(1) assms(3)])
  next
    case None
    have IH: "runs (agg_inv S) (stands E keys rows row c) (?rw c)" if "c \<in> set (children e)" "\<not> is_aggregate e" for c
      using step.IH[OF that(1)] S(2) that grouped_child[OF None step.prems(2)] by blast
    note u = rewrite_nodes[OF None]
    show ?thesis
    proof (cases e)
      case (Aggregate f arg t)
      then show ?thesis unfolding u(1)[OF Aggregate] by (intro aggregate_ref_runs S(1) assms(1)) simp
    next
      case (Column n i t)
      with None step.prems(2) show ?thesis by (auto simp: grouped_def group_ref_none)
    next
      case (Literal v t)
      show ?thesis unfolding u(2)[OF Literal] by (rule runs_return) (simp add: Literal stands_Literal)
    next
      case (Binary op l r t)
      show ?thesis unfolding u(3)[OF Binary]
        by (rule runs_map[OF runs_seq2[OF IH[of l] IH[of r] keeps_stands keeps_stands]])
           (auto simp: Binary intro: stands_Binary)
    next
      case (Between v l m)
      show ?thesis unfolding u(4)[OF Between]
        by (rule runs_map[OF runs_seq2[OF IH[of v] runs_seq2[OF IH[of l] IH[of m] keeps_stands keeps_stands]
              keeps_stands keeps_seq2[OF keeps_stands keeps_stands]]])
           (auto simp: Between intro: stands_Between)
    next
      case (Unary op x t)
      show ?thesis unfolding u(5)[OF Unary]
        by (rule runs_map[OF IH[of x]]) (auto simp: Unary intro: stands_Unary)
    next
      case (Cast x t)
      show ?thesis unfolding u(6)[OF Cast] by (rule runs_map[OF IH[of x]]) (auto simp: Cast intro: stands_others)
    next
      case (Extract p x t)
      show ?thesis unfolding u(7)[OF Extract] by (rule runs_map[OF IH[of x]]) (auto simp: Extract intro: stands_others)
    next
      case (Substring x b n t)
      show ?thesis unfolding u(8)[OF Substring] by (rule runs_map[OF IH[of x]]) (auto simp: Substring intro: stands_others)
    next
      case (Like x q neg)
      show ?thesis unfolding u(9)[OF Like] by (rule runs_map[OF IH[of x]]) (auto simp: Like intro: stands_others)
    next
      case (Case wts els t)
      let ?P = "\<lambda>x a y. stands E keys rows row (fst x) a (fst y) \<and> stands E keys rows row (snd x) a (snd y)"
      have na: "\<not> is_aggregate e" by (simp add: Case)
      have b: "runs (agg_inv S) (?P p) ((\<lambda>(c, r). seq2 False (?rw c) (?rw r)) p)" if "p \<in> set wts" for p
      proof -
        obtain c r where p: "p = (c, r)" by (cases p)
        have "c \<in> set (children e)" "r \<in> set (children e)" using that p Case by force+
        from runs_seq2[OF IH[OF this(1) na] IH[OF this(2) na] keeps_stands keeps_stands, of False]
        show ?thesis by (simp add: p case_prod_unfold)
      qed
      have k: "keeps (?P p)" for p using keeps_stands unfolding keeps_def by blast
      have o: "runs (agg_inv S) (\<lambda>a els'. rel_option (\<lambda>e e'. stands E keys rows row e a e') els els')
          (rewrite_having rtl ?G els)"
        by (rule rewrite_having_runs) (use IH na Case in auto)
      show ?thesis unfolding u(10)[OF Case]
      proof (rule runs_bind[OF runs_map_state[OF b k]])
        show "keeps (\<lambda>a ys. list_all2 (\<lambda>x y. ?P x a y) wts ys)"
          using k unfolding keeps_def by (auto elim!: list_all2_mono)
        show "runs (agg_inv S) (\<lambda>a y. \<exists>els'. y = Case wts' els' t \<and> rel_option (\<lambda>e e'. stands E keys rows row e a e') els els')
          (\<lambda>st1. case rewrite_having rtl ?G els st1 of (els', st2) \<Rightarrow> (Case wts' els' t, st2))" for wts'
          by (rule runs_map[OF o]) auto
      qed (auto simp: Case case_prod_unfold intro!: stands_Case)
    qed
  qed
qed

section \<open>Queries\<close>

text \<open>The row a group's ungrouped columns are read from; an empty group only exists without GROUP BY.\<close>

definition rep_row :: "row list \<Rightarrow> row" where
  "rep_row rows = (case rows of [] \<Rightarrow> [] | r # _ \<Rightarrow> r)"

definition sort_rows :: "engine \<Rightarrow> BoundOrderByItem list \<Rightarrow> row list \<Rightarrow> row list" where
  "sort_rows E os rows =
     (if os = [] then rows
      else e_sort E (map bo_ascending os)
        (map (\<lambda>row. (map (\<lambda>it. eval (e_kernel E) row (bo_expr it)) os, row)) rows))"

definition select_row :: "(expression \<Rightarrow> datum) \<Rightarrow> BoundQuery \<Rightarrow> row" where
  "select_row f q = map (\<lambda>it. f (bs_expr it)) (bq_select_list q)"

definition run_groups :: "engine \<Rightarrow> row list \<Rightarrow> BoundQuery \<Rightarrow> row list" where
  "run_groups E rows q =
     map (\<lambda>(k, rs). select_row (group_eval E rs (rep_row rs)) q)
       (filter (\<lambda>(k, rs). case bq_having q of None \<Rightarrow> True | Some p \<Rightarrow> is_true (group_eval E rs (rep_row rs) p))
         (group_rows E (group_items (make_grouping (bq_group_by q))) rows))"

definition run_query :: "engine \<Rightarrow> row list \<Rightarrow> BoundQuery \<Rightarrow> row list" where
  "run_query E rows q =
     (let kept = filter (\<lambda>r. opt_holds E r (bq_where q)) rows;
          out = (if is_aggregate_query q then sort_rows E (bq_order_by q) (run_groups E kept q)
                 else map (\<lambda>r. select_row (eval (e_kernel E) r) q) (sort_rows E (bq_order_by q) kept))
      in case bq_limit q of None \<Rightarrow> out | Some n \<Rightarrow> take (nat n) out)"

text \<open>Every expression whose structural key the planner compares.\<close>

definition query_exprs :: "BoundQuery \<Rightarrow> expression list" where
  "query_exprs q = concat (map subexprs
     (map bs_expr (bq_select_list q) @ bq_group_by q @ (case bq_having q of None \<Rightarrow> [] | Some p \<Rightarrow> [p])))"

definition keys_distinguish :: "expression list \<Rightarrow> bool" where
  "keys_distinguish es \<longleftrightarrow> list_all (\<lambda>x. list_all (\<lambda>y. structural_key x = structural_key y \<longrightarrow> x = y) es) es"

definition grouping_ok :: "BoundQuery \<Rightarrow> bool" where
  "grouping_ok q \<longleftrightarrow> keys_distinguish (query_exprs q) \<and> list_all agg_free (bq_group_by q) \<and>
     list_all (\<lambda>it. grouped (bq_group_by q) (bs_expr it)) (bq_select_list q) \<and>
     pred_option (grouped (bq_group_by q)) (bq_having q)"

lemma keys_distinguish_inj: "keys_distinguish es \<Longrightarrow> inj_on structural_key (set es)"
  by (auto simp: keys_distinguish_def list_all_iff inj_on_def)

lemma subexprs_self: "e \<in> set (subexprs e)"
  by (subst subexprs.simps) simp

lemma query_exprs_sub:
  "it \<in> set (bq_select_list q) \<Longrightarrow> set (subexprs (bs_expr it)) \<subseteq> set (query_exprs q)"
  "bq_having q = Some p \<Longrightarrow> set (subexprs p) \<subseteq> set (query_exprs q)"
  "set (bq_group_by q) \<subseteq> set (query_exprs q)"
  using subexprs_self by (fastforce simp: query_exprs_def)+

lemma rewrite_item_runs:
  assumes "inj_on structural_key S" "set keys \<subseteq> S" "\<forall>g \<in> set keys. agg_free g"
    "set (subexprs (bs_expr it)) \<subseteq> S" "grouped keys (bs_expr it)"
  shows "runs (agg_inv S) (stands E keys rows row (bs_expr it)) (rewrite_item rtl (make_grouping keys) it)"
proof (cases "is_aggregate (bs_expr it)")
  case True
  then have s: "rewrite_item rtl (make_grouping keys) it =
      (\<lambda>st. aggregate_ref (make_grouping keys) (bs_expr it) (output_name it) st)" by (auto simp: rewrite_item_def)
  show ?thesis unfolding s
    by (rule aggregate_ref_runs[OF True _ assms(1)]) (use assms(4) subexprs_self in blast)
next
  case False
  then have s: "rewrite_item rtl (make_grouping keys) it = rewrite_aggregate_refs rtl (make_grouping keys) (bs_expr it)"
    by (auto simp: rewrite_item_def)
  show ?thesis unfolding s by (rule rewrite_runs[OF assms])
qed

text \<open>What \<open>aggregate_plan\<close> finds after rewriting the SELECT list and HAVING.\<close>

definition plan_parts :: "bool \<Rightarrow> BoundQuery \<Rightarrow> expression list \<Rightarrow> expression option \<Rightarrow> NamedExpression list \<Rightarrow> bool" where
  "plan_parts rtl q es h aggs \<longleftrightarrow>
    (\<forall>p. aggregate_plan rtl p q =
       LProjection (filter_on (LAggregate p (group_items (make_grouping (bq_group_by q))) aggs) h)
         (named_items es (bq_select_list q))) \<and>
    (\<forall>E rows row. list_all2 (\<lambda>it e'. stands E (bq_group_by q) rows row (bs_expr it) aggs e') (bq_select_list q) es \<and>
       rel_option (\<lambda>e e'. stands E (bq_group_by q) rows row e aggs e') (bq_having q) h) \<and>
    (\<forall>a \<in> set aggs. nexpr a \<in> set (query_exprs q) \<and> is_aggregate (nexpr a))"

lemma plan_partsD:
  assumes "plan_parts rtl q es h aggs"
  shows "aggregate_plan rtl p q =
       LProjection (filter_on (LAggregate p (group_items (make_grouping (bq_group_by q))) aggs) h)
         (named_items es (bq_select_list q))"
    "list_all2 (\<lambda>it e'. stands E (bq_group_by q) rows row (bs_expr it) aggs e') (bq_select_list q) es"
    "rel_option (\<lambda>e e'. stands E (bq_group_by q) rows row e aggs e') (bq_having q) h"
    "\<forall>a \<in> set aggs. nexpr a \<in> set (query_exprs q) \<and> is_aggregate (nexpr a)"
  using assms unfolding plan_parts_def by blast+

lemma aggregate_plan_parts:
  assumes "grouping_ok q"
  shows "\<exists>es h aggs. plan_parts rtl q es h aggs"
proof -
  let ?S = "set (query_exprs q)" and ?keys = "bq_group_by q"
  let ?G = "make_grouping (bq_group_by q)"
  have a: "inj_on structural_key ?S" "set ?keys \<subseteq> ?S" "\<forall>g \<in> set ?keys. agg_free g"
    using assms query_exprs_sub(3) by (auto simp: grouping_ok_def list_all_iff keys_distinguish_inj)
  obtain es st1 where m: "map_state (rewrite_item rtl ?G) (bq_select_list q) ([], []) = (es, st1)"
    by (cases "map_state (rewrite_item rtl ?G) (bq_select_list q) ([], [])")
  obtain h st2 where w: "rewrite_having rtl ?G (bq_having q) st1 = (h, st2)"
    by (cases "rewrite_having rtl ?G (bq_having q) st1")
  have items: "runs (agg_inv ?S) (stands E ?keys rows row (bs_expr it)) (rewrite_item rtl ?G it)"
    if "it \<in> set (bq_select_list q)" for it E rows row
    by (rule rewrite_item_runs[OF a]) (use assms that query_exprs_sub(1) in \<open>auto simp: grouping_ok_def list_all_iff\<close>)
  have 0: "agg_inv ?S ([], [])" by (simp add: agg_inv_def)
  have M: "agg_inv ?S st1 \<and>
      list_all2 (\<lambda>it e'. stands E ?keys rows row (bs_expr it) (fst st1) e') (bq_select_list q) es" for E rows row
    using runsD[OF runs_map_state[where P = "\<lambda>it. stands E ?keys rows row (bs_expr it)", OF items keeps_stands] 0 m]
    by blast
  have "runs (agg_inv ?S) (\<lambda>a h'. rel_option (\<lambda>e e'. stands E ?keys rows row e a e') (bq_having q) h')
      (rewrite_having rtl ?G (bq_having q))" for E rows row
    by (rule rewrite_having_runs, rule rewrite_runs[OF a])
       (use assms query_exprs_sub(2) in \<open>auto simp: grouping_ok_def\<close>)
  from runsD[OF this _ w] M have W: "agg_inv ?S st2 \<and> (\<exists>new. fst st2 = fst st1 @ new) \<and>
      rel_option (\<lambda>e e'. stands E ?keys rows row e (fst st2) e') (bq_having q) h" for E rows row by blast
  obtain new where n: "fst st2 = fst st1 @ new" and I: "agg_inv ?S st2" using W by blast
  have "list_all2 (\<lambda>it e'. stands E ?keys rows row (bs_expr it) (fst st2) e') (bq_select_list q) es" for E rows row
    using M[of E rows row] keeps_stands unfolding n keeps_def by (auto elim!: list_all2_mono)
  moreover have "aggregate_plan rtl p q =
      LProjection (filter_on (LAggregate p (group_items ?G) (fst st2)) h) (named_items es (bq_select_list q))" for p
    by (simp add: aggregate_plan_def m w split: prod.splits)
  moreover have "\<forall>a \<in> set (fst st2). nexpr a \<in> ?S \<and> is_aggregate (nexpr a)" using I by (simp add: agg_inv_def)
  ultimately show ?thesis using W
    by (intro exI[of _ es] exI[of _ h] exI[of _ "fst st2"]) (simp add: plan_parts_def)
qed

lemma group_rows_rep:
  assumes "(k, rs) \<in> set (group_rows E g rows)"
  shows "k = eval_items E g (rep_row rs)"
proof (cases "g = []")
  case True
  with assms show ?thesis by (simp add: group_rows_def eval_items_def)
next
  case False
  with assms obtain r where r: "r \<in> set rows" "k = eval_items E g r"
    "rs = filter (\<lambda>row. eval_items E g row = k) rows" by (auto simp: group_rows_def)
  then have "rs \<noteq> []" by (auto simp: filter_empty_conv)
  then obtain r' rest where c: "rs = r' # rest" by (cases rs) auto
  then have "r' \<in> set (filter (\<lambda>row. eval_items E g row = k) rows)" using r(3) by (metis list.set_intros(1))
  then show ?thesis using c by (simp add: rep_row_def)
qed

lemma exec_filter_on: "exec_plan E (filter_on p c) = filter (\<lambda>r. opt_holds E r c) (exec_plan E p)"
  by (cases c) (auto simp: filter_on_def)

lemma exec_sort_on: "exec_plan E (sort_on p os) = sort_rows E os (exec_plan E p)"
  by (simp add: sort_on_def sort_rows_def to_sort_keys_def comp_def)

lemma exec_aggregate_plan:
  assumes "grouping_ok q"
  shows "exec_plan E (aggregate_plan rtl p q) = run_groups E (exec_plan E p) q"
proof -
  from aggregate_plan_parts[OF assms, of rtl] obtain es h aggs where "plan_parts rtl q es h aggs" by blast
  note P = plan_partsD[OF this]
  let ?g = "group_items (make_grouping (bq_group_by q))"
  let ?out = "\<lambda>(k, rs). k @ map (\<lambda>it. eval_agg E rs (nexpr it)) aggs"
  have slot: "?out (k, rs) = slot_row E (bq_group_by q) rs (rep_row rs) aggs"
    if "(k, rs) \<in> set (group_rows E ?g rows)" for k rs rows
    using group_rows_rep[OF that] by (simp add: slot_row_def eval_items_def make_grouping_def comp_def)
  have H: "opt_holds E (slot_row E (bq_group_by q) rs (rep_row rs) aggs) h \<longleftrightarrow>
      (case bq_having q of None \<Rightarrow> True | Some p \<Rightarrow> is_true (group_eval E rs (rep_row rs) p))" for rs
    using P(3)[where E = E and rows = rs and row = "rep_row rs"] by (cases h; cases "bq_having q") (auto simp: stands_def holds_def)
  have L: "eval_items E (named_items es (bq_select_list q)) (slot_row E (bq_group_by q) rs (rep_row rs) aggs)
      = select_row (group_eval E rs (rep_row rs)) q" for rs
    using P(2)[where E = E and rows = rs and row = "rep_row rs"] unfolding eval_items_def named_items_def select_row_def
    by (induction rule: list_all2_induct) (auto simp: stands_def)
  have "exec_plan E (aggregate_plan rtl p q) =
      map (eval_items E (named_items es (bq_select_list q)))
        (filter (\<lambda>r. opt_holds E r h) (map ?out (group_rows E ?g (exec_plan E p))))"
    by (simp add: P(1) exec_filter_on)
  also have "map ?out (group_rows E ?g (exec_plan E p)) =
      map (\<lambda>(k, rs). slot_row E (bq_group_by q) rs (rep_row rs) aggs) (group_rows E ?g (exec_plan E p))"
    using slot by (intro map_cong) auto
  finally show ?thesis
    by (simp add: run_groups_def filter_map comp_def case_prod_unfold H L)
qed

text \<open>The plan of a bound query returns the rows the query means.\<close>

lemma exec_finish_logical_plan:
  assumes "is_aggregate_query q \<Longrightarrow> grouping_ok q"
  shows "exec_plan E (finish_logical_plan rtl p q) = run_query E (exec_plan E p) q"
proof -
  have "eval_items E (named_items (map bs_expr (bq_select_list q)) (bq_select_list q)) =
      (\<lambda>r. select_row (eval (e_kernel E) r) q)"
    by (rule ext) (simp add: eval_items_def named_items_def select_row_def zip_map1 zip_same_conv_map comp_def)
  then show ?thesis using assms
    by (auto simp: finish_logical_plan_def run_query_def Let_def exec_filter_on exec_sort_on exec_aggregate_plan
        split: option.splits)
qed

section \<open>Plans are well formed\<close>

lemma wt_child: "wt e \<Longrightarrow> c \<in> set (children e) \<Longrightarrow> wt c"
  by (cases e) (auto simp: list_all_iff split: option.splits)

lemma wt_subexprs: "wt e \<Longrightarrow> x \<in> set (subexprs e) \<Longrightarrow> wt x"
proof (induction e rule: expr_children_induct)
  case (step e)
  from step.prems(2) consider "x = e" | c where "c \<in> set (children e)" "x \<in> set (subexprs c)"
    by (subst (asm) subexprs.simps) auto
  then show ?case using step.IH step.prems(1) wt_child by cases auto
qed

lemma filter_on_schema [simp]: "output_schema (filter_on p c) = output_schema p"
  by (cases c) (auto simp: filter_on_def)

lemma sort_on_schema [simp]: "output_schema (sort_on p os) = output_schema p"
  by (simp add: sort_on_def)

lemma items_schema_named:
  "list_all2 (\<lambda>it e'. result_type e' = result_type (bs_expr it)) items es \<Longrightarrow>
     items_schema (named_items es items) = select_schema items"
  unfolding items_schema_def named_items_def select_schema_def by (induction rule: list_all2_induct) auto

lemma finish_schema:
  assumes "is_aggregate_query q \<Longrightarrow> grouping_ok q"
  shows "output_schema (finish_logical_plan rtl p q) = select_schema (bq_select_list q)"
proof (cases "is_aggregate_query q")
  case True
  from aggregate_plan_parts[OF assms[OF True], of rtl] obtain es h aggs where "plan_parts rtl q es h aggs" by blast
  note P = plan_partsD[OF this]
  have "list_all2 (\<lambda>it e'. result_type e' = result_type (bs_expr it)) (bq_select_list q) es"
    using P(2)[of "ref_engine demo_data" "[]" "[]"] by (rule list_all2_mono) (simp add: stands_def)
  then show ?thesis using True P(1)
    by (simp add: finish_logical_plan_def Let_def items_schema_named split: option.splits)
next
  case False
  have "list_all2 (\<lambda>it e'. result_type e' = result_type (bs_expr it)) (bq_select_list q) (map bs_expr (bq_select_list q))"
    by (simp add: list_all2_map2 list_all2_same)
  with False show ?thesis by (simp add: finish_logical_plan_def Let_def items_schema_named split: option.splits)
qed

lemma filter_on_wf:
  "plan_wf E p \<Longrightarrow> pred_option (\<lambda>c. wt c \<and> tid c = Boolean \<and> agg_free c \<and> cols_below (length (output_schema p)) c) c \<Longrightarrow>
     plan_wf E (filter_on p c)"
  by (cases c) (auto simp: filter_on_def)

lemma sort_on_wf: "plan_wf E p \<Longrightarrow> \<forall>k \<in> set os. wt (bo_expr k) \<Longrightarrow> plan_wf E (sort_on p os)"
  by (auto simp: sort_on_def to_sort_keys_def list_all_iff)

definition query_wt :: "BoundQuery \<Rightarrow> bool" where
  "query_wt q \<longleftrightarrow> (\<forall>it \<in> set (bq_select_list q). wt (bs_expr it)) \<and> (\<forall>g \<in> set (bq_group_by q). wt g) \<and>
     pred_option (\<lambda>p. wt p \<and> tid p = Boolean) (bq_having q) \<and> (\<forall>k \<in> set (bq_order_by q). wt (bo_expr k)) \<and>
     pred_option (\<lambda>p. wt p \<and> tid p = Boolean \<and> agg_free p) (bq_where q)"

lemma query_exprs_wt:
  assumes "query_wt q" "x \<in> set (query_exprs q)"
  shows "wt x"
proof -
  let ?es = "map bs_expr (bq_select_list q) @ bq_group_by q @ (case bq_having q of None \<Rightarrow> [] | Some p \<Rightarrow> [p])"
  from assms(2) obtain e where e: "e \<in> set ?es" "x \<in> set (subexprs e)" by (auto simp: query_exprs_def)
  have "wt e" using e(1) assms(1) by (cases "bq_having q") (auto simp: query_wt_def)
  then show ?thesis using e(2) by (rule wt_subexprs)
qed

lemma aggregate_plan_wf:
  assumes "grouping_ok q" "query_wt q" "plan_wf E p"
  shows "plan_wf E (aggregate_plan rtl p q)"
proof -
  from aggregate_plan_parts[OF assms(1), of rtl] obtain es h aggs where "plan_parts rtl q es h aggs" by blast
  note P = plan_partsD[OF this]
  let ?g = "group_items (make_grouping (bq_group_by q))"
  have A: "plan_wf E (LAggregate p ?g aggs)"
    using assms(2,3) P(4) query_exprs_wt[OF assms(2)] by (auto simp: list_all_iff make_grouping_def query_wt_def)
  have "pred_option (\<lambda>c. wt c \<and> tid c = Boolean \<and> agg_free c \<and> cols_below (length (output_schema (LAggregate p ?g aggs))) c) h"
    using P(3) assms(2)
    by (cases h; cases "bq_having q") (auto simp: stands_def query_wt_def items_schema_def make_grouping_def)
  note F = filter_on_wf[OF A this]
  have "wt e" if e: "e \<in> set es" for e
  proof -
    from e obtain i where i: "i < length es" "e = es ! i" by (auto simp: in_set_conv_nth)
    with P(2)[of E "[]" "[]"] have l: "i < length (bq_select_list q)"
      and s: "stands E (bq_group_by q) [] [] (bs_expr (bq_select_list q ! i)) aggs (es ! i)"
      by (auto simp: list_all2_conv_all_nth)
    have "wt (bs_expr (bq_select_list q ! i))" using assms(2) l by (simp add: query_wt_def)
    with s i(2) show ?thesis by (simp add: stands_def)
  qed
  with F show ?thesis unfolding P(1)
    by (auto simp: list_all_iff named_items_def dest: set_zip_leftD)
qed

lemma finish_wf:
  assumes "is_aggregate_query q \<Longrightarrow> grouping_ok q" "query_wt q" "plan_wf E p"
    "pred_option (cols_below (length (output_schema p))) (bq_where q)"
  shows "plan_wf E (finish_logical_plan rtl p q)"
proof -
  have w: "plan_wf E (filter_on p (bq_where q))"
    by (rule filter_on_wf[OF assms(3)]) (use assms(2,4) in \<open>cases "bq_where q"; auto simp: query_wt_def\<close>)
  have o: "\<forall>k \<in> set (bq_order_by q). wt (bo_expr k)" using assms(2) by (simp add: query_wt_def)
  have i: "list_all (\<lambda>it. wt (nexpr it)) (named_items (map bs_expr (bq_select_list q)) (bq_select_list q))"
    using assms(2) by (auto simp: list_all_iff named_items_def query_wt_def zip_map1 zip_same_conv_map)
  show ?thesis
    using sort_on_wf[OF aggregate_plan_wf[OF assms(1,2) w] o] sort_on_wf[OF w o] i
    by (auto simp: finish_logical_plan_def Let_def split: option.splits)
qed

section \<open>From the binder\<close>

definition no_star :: "AstSelectStatement \<Rightarrow> bool" where
  "no_star stmt \<longleftrightarrow> list_all (\<lambda>(e, al). e \<noteq> AstStar) (select_list stmt)"

lemma bind_select_length:
  "bind_select B n acc its = Inr items \<Longrightarrow> list_all (\<lambda>(e, al). e \<noteq> AstStar) its \<Longrightarrow>
     length items = length acc + length its"
proof (induction B n acc its rule: bind_select.induct)
  case (2 B n acc item al its)
  then show ?case by (auto simp: bindR_eq_Inr add_select_item_Inr)
qed simp

lemma bind_group_item_alias:
  "bind_group_item B items item = Inr (e, Some i) \<Longrightarrow> e = bs_expr (items ! i)"
  by (cases item)
     (auto simp: bind_group_item_def bindR_eq_Inr atR_eq_Inr simp del: bind.simps split: if_splits option.splits)

lemma bind_query_common_grouped:
  assumes "bind_query_common stmt B True = Inr q" "no_star stmt"
  shows "list_all (\<lambda>it. grouped (bq_group_by q) (bs_expr it)) (bq_select_list q)"
    "pred_option (grouped (bq_group_by q)) (bq_having q)"
proof -
  from assms(1) obtain items w gs h os where b:
    "bind_select B (length (select_list stmt)) [] (select_list stmt) = Inr items"
    "mapR (bind_group_item B items) (group_by stmt) = Inr gs"
    "check_grouped (select_list stmt) items (map (structural_key \<circ> fst) gs)
       (concat (map (\<lambda>(e, i). case i of None \<Rightarrow> [] | Some k \<Rightarrow> [k]) gs)) = Inr ()"
    "bind_having B True (map (structural_key \<circ> fst) gs) (having_clause stmt) = Inr h"
    "q = \<lparr>bq_select_list = items, bq_output_schema = select_schema items, bq_source_paths = [],
          bq_join = None, bq_where = w, bq_group_by = map fst gs, bq_having = h, bq_order_by = os,
          bq_limit = limit_clause stmt, is_aggregate_query = True\<rparr>"
    by (rule bind_query_common_cases) blast
  have len: "length items = length (select_list stmt)"
    using bind_select_length[OF b(1)] assms(2) by (simp add: no_star_def)
  have "grouped (map fst gs) (bs_expr (items ! i))" if i: "i < length items" for i
  proof -
    have "fst (select_list stmt ! i) \<noteq> AstStar"
      using assms(2) i len by (auto simp: no_star_def list_all_length case_prod_unfold)
    moreover have "fst (select_list stmt ! i) = AstStar \<or>
        i \<in> set (concat (map (\<lambda>(e, i). case i of None \<Rightarrow> [] | Some k \<Rightarrow> [k]) gs)) \<or>
        \<not> references_ungrouped_column (bs_expr (items ! i)) (map (structural_key \<circ> fst) gs) False"
      using b(3) i len unfolding check_grouped_def list_ex_iff by (simp split: if_splits)
    ultimately consider "i \<in> set (concat (map (\<lambda>(e, i). case i of None \<Rightarrow> [] | Some k \<Rightarrow> [k]) gs))"
      | "\<not> references_ungrouped_column (bs_expr (items ! i)) (map (structural_key \<circ> fst) gs) False"
      by blast
    then show ?thesis
    proof cases
      case 1
      then obtain e where m: "(e, Some i) \<in> set gs" by (auto split: option.splits)
      with mapR_result_mem[OF b(2) m] bind_group_item_alias have "e = bs_expr (items ! i)" by blast
      with m show ?thesis by (force simp: grouped_def)
    qed (simp add: grouped_def)
  qed
  then show "list_all (\<lambda>it. grouped (bq_group_by q) (bs_expr it)) (bq_select_list q)"
    by (simp add: b(5) list_all_length)
  show "pred_option (grouped (bq_group_by q)) (bq_having q)"
    using b(4) by (auto simp: b(5) bind_having_def bindR_eq_Inr grouped_def split: option.splits if_splits)
qed

lemma query_ok_wt: "query_ok B q \<Longrightarrow> query_wt q"
  unfolding query_ok_def query_wt_def items_ok_def fits_def
  by (cases "bq_where q"; cases "bq_having q") (auto split: if_splits)

section \<open>Joins\<close>

text \<open>The rows of a FROM clause: each source joined on its whole ON condition, from left to right.\<close>

fun run_joins :: "engine \<Rightarrow> Binder \<Rightarrow> row list \<Rightarrow> (AstJoinStep \<times> Schema) list \<Rightarrow> row list" where
  "run_joins E B L [] = L"
| "run_joins E B L ((st, s) # rest) =
     (case bind B (step_condition st) False of
        Inl _ \<Rightarrow> []
      | Inr c \<Rightarrow> run_joins E B
          (join_rows (\<lambda>l r. holds E (l @ r) c) (step_type st) s L (e_data E (step_paths st))) rest)"

lemma key_condition_Boolean:
  assumes "extract_join_step_keys c n m jt = Inr ks" "wt c"
  shows "tid c = Boolean"
proof (cases "\<exists>l r t. c = Binary And l r t")
  case True
  with assms(2) show ?thesis by auto
next
  case False
  then have "collect_conjuncts c = [c]" by (cases c rule: collect_conjuncts.cases) auto
  with assms(1) obtain i ck sk where "find_key n m 0 None [c] = Inr (Some (i, ck, sk))"
    by (auto simp: extract_join_step_keys_def Let_def conjuncts_eq bindR_eq_Inr simp del: find_key.simps
        split: option.splits)
  then have "\<exists>ck sk. key_candidate n m c = Some (ck, sk)" by (auto split: option.splits)
  then obtain l r t where "c = Binary Equal l r t" using key_candidate_eq by blast
  with assms(2) show ?thesis by simp
qed

lemma join_rows_width:
  assumes "\<forall>l \<in> set L. length l = n" "\<forall>r \<in> set R. length r = length s"
  shows "\<forall>x \<in> set (join_rows match jt s L R). length x = next_offset n s jt"
  using assms by (cases jt) (auto simp: join_rows_def null_row_def next_offset_def widens_def Let_def split: if_splits)

lemma prefilter_source:
  assumes "extract_join_step_keys c n m jt = Inr ks" "pred_ok c" "n + m < 2 ^ 64"
  shows "pred_option (source_pred m) (right_prefilter ks)"
proof -
  let ?cs = "collect_conjuncts c"
  from assms(1) obtain i pre res where
    k: "split_conjuncts n m (jt = LeftSemi \<or> jt = LeftAnti) None None (take i ?cs @ drop (Suc i) ?cs) = Inr (pre, res)"
    "right_prefilter ks = pre"
    by (auto simp: extract_join_step_keys_def Let_def conjuncts_eq bindR_eq_Inr split: option.splits prod.splits)
  have "\<forall>c \<in> set (take i ?cs @ drop (Suc i) ?cs). pred_ok c"
    using pred_ok_conjuncts[OF assms(2)] by (auto dest: in_set_takeD in_set_dropD)
  from split_conjuncts_sound(1)[OF k(1) this assms(3)] k(2) show ?thesis by simp
qed

text \<open>Sources that fit the schemas the binder was given, in a chain whose rows stay within \<open>size_t\<close>.\<close>

fun sources_fit :: "engine \<Rightarrow> nat \<Rightarrow> (AstJoinStep \<times> Schema) list \<Rightarrow> bool" where
  "sources_fit E n [] \<longleftrightarrow> True"
| "sources_fit E n ((st, s) # rest) \<longleftrightarrow>
     ast_ok (step_condition st) \<and> n + length s < 2 ^ 63 \<and>
     list_all (\<lambda>r. length r = length s) (e_data E (step_paths st)) \<and> sources_fit E (next_offset n s (step_type st)) rest"

lemma join_chain_exec:
  assumes "join_keys E"
  shows "bind_steps B n steps = Inr bs \<Longrightarrow> sources_fit E n steps \<Longrightarrow> plan_wf E p \<Longrightarrow> length (output_schema p) = n \<Longrightarrow>
    \<forall>l \<in> set (exec_plan E p). length l = n \<Longrightarrow> length parts = length steps \<Longrightarrow>
    exec_plan E (join_chain p (zip bs (zip (map snd steps) (zip parts (replicate (length steps) None))))) =
      run_joins E B (exec_plan E p) steps \<and>
    plan_wf E (join_chain p (zip bs (zip (map snd steps) (zip parts (replicate (length steps) None))))) \<and>
    length (output_schema (join_chain p (zip bs (zip (map snd steps) (zip parts (replicate (length steps) None)))))) =
      n + sources_width (map (\<lambda>(st, s). (step_alias st, s, step_type st)) steps)"
proof (induction B n steps arbitrary: bs p parts rule: bind_steps.induct)
  case (2 B n st s rest)
  from "2.prems"(1) obtain c ks bs' where b: "bind B (step_condition st) False = Inr c"
    "extract_join_step_keys c n (length s) (step_type st) = Inr ks"
    "bind_steps B (next_offset n s (step_type st)) rest = Inr bs'"
    "bs = \<lparr>bj_source_paths = step_paths st, bj_keys = ks, bj_type = step_type st\<rparr> # bs'"
    by (auto simp: bindR_eq_Inr)
  obtain pc parts' where parts: "parts = pc # parts'" "length parts' = length rest"
    using "2.prems"(6) by (cases parts) auto
  have fit: "ast_ok (step_condition st)" "n + length s < 2 ^ 64" "n + length s < 2 ^ 63"
    "\<forall>r \<in> set (e_data E (step_paths st)). length r = length s"
    "sources_fit E (next_offset n s (step_type st)) rest"
    using "2.prems"(2) by (auto simp: list_all_iff)
  have f: "fits (binder_columns B) False c" using bind_fits[OF b(1) fit(1)] .
  then have ok: "pred_ok c" using key_condition_Boolean[OF b(2)] by (simp add: pred_ok_def fits_def)
  let ?src = "step_source \<lparr>bj_source_paths = step_paths st, bj_keys = ks, bj_type = step_type st\<rparr> s pc None"
  let ?j = "LJoin p ?src (combined_key_index ks) (source_key_index ks) (step_type st) (residual_predicate ks)"
  have src: "exec_plan E ?src = filter (\<lambda>r. opt_holds E r (right_prefilter ks)) (e_data E (step_paths st))"
    "output_schema ?src = s"
    by (simp_all add: step_source_def exec_filter_on logical_scan_def)
  have j: "exec_plan E ?j =
      join_rows (\<lambda>l r. holds E (l @ r) c) (step_type st) s (exec_plan E p) (e_data E (step_paths st))"
    unfolding exec_plan.simps src
    by (rule join_rows_cong[symmetric])
       (use join_keys.split_holds[OF assms _ ok] b(2) fit "2.prems"(5) in auto)
  have "pred_option (\<lambda>e. wt e \<and> tid e = Boolean \<and> agg_free e \<and>
      cols_below (length (output_schema (logical_scan (step_paths st) s pc))) e) (right_prefilter ks)"
    using prefilter_source[OF b(2) ok fit(2)]
    by (cases "right_prefilter ks") (auto simp: logical_scan_def source_pred_def pred_ok_def)
  moreover have "plan_wf E (logical_scan (step_paths st) s pc)"
    using fit(4) by (simp add: logical_scan_def list_all_iff)
  ultimately have wsrc: "plan_wf E ?src" by (simp add: step_source_def filter_on_wf)
  have wj: "plan_wf E ?j" using "2.prems"(3,4) wsrc fit(3) by (simp add: src(2))
  have lj: "length (output_schema ?j) = next_offset n s (step_type st)"
    using "2.prems"(4) by (simp add: src(2) join_schema_def next_offset_def widens_def)
  have rj: "\<forall>l \<in> set (exec_plan E ?j). length l = next_offset n s (step_type st)"
    unfolding j by (rule join_rows_width) (use "2.prems"(5) fit(4) in auto)
  from "2.IH"[OF b(1,2,3) fit(5) wj lj rj parts(2)] show ?case
    unfolding j by (simp add: b(1,4) parts(1) next_offset_def del: exec_plan.simps)
qed simp

lemma join_plan_steps:
  assumes "length bs = length ss" "parts = [] \<or> length parts = Suc (length bs)"
  shows "map (\<lambda>i. (bs ! i, (s0 # ss) ! Suc i, (if parts = [] then [] else parts ! Suc i), None :: plan option)) [0 ..< length bs] =
    zip bs (zip ss (zip (if parts = [] then replicate (length bs) [] else drop 1 parts) (replicate (length bs) None)))"
  using assms by (intro nth_equalityI) auto

lemma bind_steps_length: "bind_steps B n steps = Inr bs \<Longrightarrow> length bs = length steps"
  by (induction B n steps arbitrary: bs rule: bind_steps.induct) (auto simp: bindR_eq_Inr)

lemma finish_produces_rows: "produces_rows (finish_logical_plan rtl p q)"
  by (auto simp: finish_logical_plan_def aggregate_plan_def sort_on_def Let_def split: option.split prod.split)

section \<open>Properties\<close>

text \<open>The hypotheses under which grouping by structural keys is sound: see \<open>dedup_confuses_doubles\<close>.\<close>

definition planner_ok :: "AstSelectStatement \<Rightarrow> BoundQuery \<Rightarrow> bool" where
  "planner_ok stmt q \<longleftrightarrow> (is_aggregate_query q \<longrightarrow>
     no_star stmt \<and> keys_distinguish (query_exprs q) \<and> list_all agg_free (bq_group_by q))"

lemma planner_ok_grouping:
  assumes "bind_query_common stmt B agg = Inr q0" "planner_ok stmt q0" "is_aggregate_query q0"
  shows "grouping_ok q0"
proof -
  have "is_aggregate_query q0 = agg" using assms(1) by (rule bind_query_common_cases) simp
  with assms bind_query_common_grouped[of stmt B q0] show ?thesis by (simp add: grouping_ok_def planner_ok_def)
qed

lemma where_below:
  assumes "query_ok B q" "\<And>i t. (i, t) \<in> binder_columns B \<Longrightarrow> i < n"
  shows "pred_option (cols_below n) (bq_where q)"
  using assms by (cases "bq_where q") (auto simp: query_ok_def fits_def cols_below_def list_all_iff)

lemma query_update [simp]:
  "grouping_ok (q\<lparr>bq_source_paths := ps\<rparr>) = grouping_ok q" "grouping_ok (q\<lparr>bq_join := j\<rparr>) = grouping_ok q"
  "planner_ok stmt (q\<lparr>bq_source_paths := ps\<rparr>) = planner_ok stmt q"
  "planner_ok stmt (q\<lparr>bq_join := j\<rparr>) = planner_ok stmt q"
  by (cases q; simp add: grouping_ok_def planner_ok_def query_exprs_def)+

lemma planned_query:
  assumes "bind_query stmt s = Inr q" "stmt_ok stmt" "planner_ok stmt q"
    and "list_all (\<lambda>r. length r = length s) (e_data E (from_paths stmt))"
  shows "\<exists>p. build_logical_plan rtl q s parts = Inr p \<and>
    exec_plan E p = run_query E (e_data E (from_paths stmt)) q \<and>
    output_schema p = bq_output_schema q \<and> plan_wf E p"
proof -
  from assms(1) obtain q0 where q0: "bind_query_common stmt (SingleTable s) (aggregate_query stmt) = Inr q0"
    "q = q0\<lparr>bq_source_paths := from_paths stmt\<rparr>" by (auto simp: bind_query_def bindR_eq_Inr)
  have j: "bq_join q = None" using q0(1) unfolding q0(2) by (rule bind_query_common_cases) simp
  have ok: "query_ok (SingleTable s) q" using bind_query_common_ok[OF q0(1) assms(2)] q0(2) by simp
  have g: "is_aggregate_query q \<Longrightarrow> grouping_ok q"
    using planner_ok_grouping[OF q0(1)] assms(3) unfolding q0(2) by simp
  let ?scan = "logical_scan (from_paths stmt) s parts"
  have scan: "exec_plan E ?scan = e_data E (from_paths stmt)" "output_schema ?scan = s" "plan_wf E ?scan"
    using assms(4) by (simp_all add: logical_scan_def)
  have "pred_option (cols_below (length (output_schema ?scan))) (bq_where q)"
    by (rule where_below[OF ok]) (auto simp: scan(2) binder_columns_def in_set_zip)
  from finish_wf[OF g query_ok_wt[OF ok] scan(3) this]
  have "plan_wf E (finish_logical_plan rtl ?scan q)" .
  moreover have "output_schema (finish_logical_plan rtl ?scan q) = bq_output_schema q"
    using finish_schema[OF g] ok by (simp add: query_ok_def)
  ultimately show ?thesis
    using exec_finish_logical_plan[OF g] scan(1) j by (simp add: build_logical_plan_def q0(2))
qed

text \<open>
  C11. A query over one table is planned as it is meant: the plan built from the bound query
  returns the rows of \<open>run_query\<close> over the table's rows (filtered, grouped with HAVING, sorted,
  projected, limited), under the query's output schema, and is well formed. The order in which
  the compiler evaluates arguments, and so the order of the aggregate slots, does not matter.
\<close>

theorem build_logical_plan_sound:
  assumes "bind_query stmt s = Inr q" "stmt_ok stmt" "planner_ok stmt q"
    and "list_all (\<lambda>r. length r = length s) (e_data E (from_paths stmt))"
  shows "\<exists>p. build_logical_plan rtl q s parts = Inr p \<and>
    exec_plan E p = run_query E (e_data E (from_paths stmt)) q \<and>
    output_schema p = bq_output_schema q \<and> plan_wf E p"
  using assms by (rule planned_query)

definition sales_data :: "string list \<Rightarrow> row list" where
  "sales_data paths = [[int64_datum 1, int64_datum 9], [int64_datum 2, int64_datum 4], [int64_datum 1, int64_datum 8],
     [int64_datum 2, int64_datum 1]]"

text \<open>\<open>SELECT k, SUM(v) AS total FROM t WHERE v > 3 GROUP BY k HAVING SUM(v) > 10 ORDER BY total DESC LIMIT 5\<close>.\<close>

theorem build_logical_plan_sound_witness:
  "\<exists>q p. bind_query demo_stmt [int_field ''k'', int_field ''v''] = Inr q \<and>
     build_logical_plan True q [int_field ''k'', int_field ''v''] [] = Inr p \<and>
     exec_plan (ref_engine sales_data) p = run_query (ref_engine sales_data) (sales_data [''t'']) q \<and>
     exec_plan (ref_engine sales_data) p = [[int64_datum 1, int64_datum 17]]"
proof -
  let ?s = "[int_field ''k'', int_field ''v'']"
  have "case bind_query demo_stmt ?s of Inl _ \<Rightarrow> False
      | Inr q \<Rightarrow> planner_ok demo_stmt q \<and> from_paths demo_stmt = [''t''] \<and>
          run_query (ref_engine sales_data) (sales_data [''t'']) q = [[int64_datum 1, int64_datum 17]]"
    by code_simp
  then obtain q where q: "bind_query demo_stmt ?s = Inr q" "planner_ok demo_stmt q" "from_paths demo_stmt = [''t'']"
    "run_query (ref_engine sales_data) (sales_data [''t'']) q = [[int64_datum 1, int64_datum 17]]"
    by (auto split: sum.splits)
  have "stmt_ok demo_stmt"
    by (simp add: stmt_ok_def demo_stmt_def in_int64_def int64_min_def int64_max_def)
  moreover have "list_all (\<lambda>r. length r = length ?s) (e_data (ref_engine sales_data) (from_paths demo_stmt))"
    by (simp add: ref_engine_def sales_data_def)
  ultimately show ?thesis
    using build_logical_plan_sound[OF q(1) _ q(2), of "ref_engine sales_data" True "[]"] q
    by (auto simp: ref_engine_def)
qed

text \<open>
  C12. A query over joined tables is planned as it is meant: the left-deep chain of joins, each on
  its extracted key with the new source filtered first and the residual at the join, returns the
  rows of joining every source on its whole ON condition, and the rest of the plan the rows of
  \<open>run_query\<close> over them.
\<close>

theorem build_join_plan_sound:
  assumes "join_keys E" "join_clause stmt = Some j" "bind_join_query stmt schemas = Inr q" "stmt_ok stmt" "planner_ok stmt q"
    and "list_all (\<lambda>r. length r = length (schemas ! 0)) (e_data E (first_paths j))"
    and "sources_fit E (length (schemas ! 0)) (zip (join_steps j) (drop 1 schemas))"
    and "pred_option (cols_below (sources_width (join_sources j schemas))) (bq_where q)"
    and "parts = [] \<or> length parts = length schemas"
  shows "\<exists>p. build_join_plan rtl q schemas parts [] = Inr p \<and>
    exec_plan E p = run_query E (run_joins E (JoinSources (join_sources j schemas)) (e_data E (first_paths j))
      (zip (join_steps j) (drop 1 schemas))) q \<and>
    output_schema p = bq_output_schema q \<and> plan_wf E p"
proof -
  let ?B = "JoinSources (join_sources j schemas)" and ?steps = "zip (join_steps j) (drop 1 schemas)"
  have len: "length schemas = Suc (length (join_steps j))"
    using assms(2,3) by (auto simp: bind_join_query_def split: if_splits)
  from assms(2,3) len obtain bs q0 where b: "bind_steps ?B (length (schemas ! 0)) ?steps = Inr bs"
    "bind_query_common stmt ?B (aggregate_query stmt) = Inr q0"
    "q = q0\<lparr>bq_join := Some \<lparr>first_source_paths = first_paths j, bj_steps = bs\<rparr>\<rparr>"
    by (auto simp: bind_join_query_def bindR_eq_Inr Let_def)
  obtain s0 ss where ss: "schemas = s0 # ss" "length ss = length (join_steps j)" using len by (cases schemas) auto
  have lb: "length bs = length ss" using bind_steps_length[OF b(1)] ss by simp
  have ok: "query_ok ?B q" using bind_query_common_ok[OF b(2) assms(4)] b(3) by simp
  have g: "is_aggregate_query q \<Longrightarrow> grouping_ok q"
    using planner_ok_grouping[OF b(2)] assms(5) unfolding b(3) by simp
  define pf where "pf = (if parts = [] then replicate (length bs) [] else drop 1 parts)"
  let ?scan = "logical_scan (first_paths j) s0 (if parts = [] then [] else parts ! 0)"
  let ?p = "join_chain ?scan (zip bs (zip (map snd ?steps) (zip pf (replicate (length ?steps) None))))"
  have scan: "exec_plan E ?scan = e_data E (first_paths j)" "output_schema ?scan = s0" "plan_wf E ?scan"
    using assms(6) by (simp_all add: logical_scan_def ss(1))
  have rows: "\<forall>l \<in> set (exec_plan E ?scan). length l = length (schemas ! 0)"
    using assms(6) scan(1) by (simp add: list_all_iff)
  have pl: "length pf = length ?steps" using assms(9) lb ss by (auto simp: pf_def)
  have "length (output_schema ?scan) = length (schemas ! 0)" by (simp add: scan(2) ss(1))
  note C = join_chain_exec[OF assms(1) b(1) assms(7) scan(3) this rows pl]
  have "pred_option (cols_below (length (output_schema ?p))) (bq_where q)"
    using C assms(8) ss by (simp add: join_sources_def next_offset_def widens_def)
  from finish_wf[OF g query_ok_wt[OF ok] _ this] C
  have "plan_wf E (finish_logical_plan rtl ?p q)" by simp
  moreover have "output_schema (finish_logical_plan rtl ?p q) = bq_output_schema q"
    using finish_schema[OF g] ok by (simp add: query_ok_def)
  moreover have "build_join_plan rtl q schemas parts [] = Inr (finish_logical_plan rtl ?p q)"
    using join_plan_steps[of bs ss parts s0] lb ss assms(9)
    by (auto simp: build_join_plan_def b(3) Let_def pf_def)
  ultimately show ?thesis using exec_finish_logical_plan[OF g, where p = ?p] C scan(1) by simp
qed

definition demo_join_stmt :: AstSelectStatement where
  "demo_join_stmt = AstSelect
     [(AstColumnRef ''x'' None, None), (AstColumnRef ''y'' None, None)] [] None
     (Some (AstJoin [''a''] ''a'' [AstStep [''a''] ''b''
        (AstBinary AAnd (AstBinary AEq (AstColumnRef ''k'' (Some ''a'')) (AstColumnRef ''k'' (Some ''b'')))
          (AstBinary AGt (AstColumnRef ''y'' (Some ''b'')) (AstLiteral (LitInteger 15)))) LeftOuter None]))
     None None [] None [] None"

theorem build_join_plan_sound_witness:
  "\<exists>q p. bind_join_query demo_join_stmt [[int_field ''k'', int_field ''x''], [int_field ''k'', int_field ''y'']] = Inr q \<and>
     build_join_plan False q [[int_field ''k'', int_field ''x''], [int_field ''k'', int_field ''y'']] [] [] = Inr p \<and>
     exec_plan (ref_engine demo_data) p = [[int64_datum 10, Scalar AInt64 LNull], [int64_datum 20, int64_datum 20]]"
proof -
  let ?ss = "[[int_field ''k'', int_field ''x''], [int_field ''k'', int_field ''y'']]"
  let ?E = "ref_engine demo_data"
  let ?j = "the (join_clause demo_join_stmt)"
  have "case bind_join_query demo_join_stmt ?ss of Inl _ \<Rightarrow> False
      | Inr q \<Rightarrow> planner_ok demo_join_stmt q \<and> bq_where q = None \<and>
          run_query ?E (run_joins ?E (JoinSources (join_sources ?j ?ss)) (e_data ?E (first_paths ?j))
            (zip (join_steps ?j) (drop 1 ?ss))) q
          = [[int64_datum 10, Scalar AInt64 LNull], [int64_datum 20, int64_datum 20]]"
    by code_simp
  then obtain q where q: "bind_join_query demo_join_stmt ?ss = Inr q" "planner_ok demo_join_stmt q" "bq_where q = None"
    "run_query ?E (run_joins ?E (JoinSources (join_sources ?j ?ss)) (e_data ?E (first_paths ?j))
        (zip (join_steps ?j) (drop 1 ?ss))) q
      = [[int64_datum 10, Scalar AInt64 LNull], [int64_datum 20, int64_datum 20]]"
    by (auto split: sum.splits)
  have j: "join_clause demo_join_stmt = Some ?j" by (simp add: demo_join_stmt_def)
  have "stmt_ok demo_join_stmt" by (simp add: stmt_ok_def demo_join_stmt_def)
  moreover have "sources_fit ?E (length (?ss ! 0)) (zip (join_steps ?j) (drop 1 ?ss))"
    "list_all (\<lambda>r. length r = length (?ss ! 0)) (e_data ?E (first_paths ?j))"
    by (simp_all add: demo_join_stmt_def ref_engine_def demo_data_def in_int64_def int64_min_def int64_max_def)
  moreover have "pred_option (cols_below (sources_width (join_sources ?j ?ss))) (bq_where q)" by (simp add: q(3))
  ultimately show ?thesis
    using build_join_plan_sound[OF refk.join_keys_axioms[of demo_data] j q(1) _ q(2), where parts = "[]" and rtl = False] q(1,4)
    by auto
qed

definition tiny :: "nat \<Rightarrow> f64" where
  "tiny n = word_of_int ((1023 - int n) * 2 ^ 52)"

definition demo_dedup :: AstSelectStatement where
  "demo_dedup = AstSelect
     [(AstAggregate AggSum (Some (AstBinary AMultiply (AstColumnRef ''x'' None) (AstLiteral (LitFloat (tiny 30))))), Some ''a''),
      (AstAggregate AggSum (Some (AstBinary AMultiply (AstColumnRef ''x'' None) (AstLiteral (LitFloat (tiny 31))))), Some ''b'')]
     [''t''] None None None None [] None [] None"

text \<open>
  Aggregates are identified by a text in which a double literal has six decimals, so
  \<open>SELECT SUM(x * u) AS a, SUM(x * v) AS b\<close> with \<open>u\<close> the 30th and \<open>v\<close> the 31st power of one half
  gets one slot, and the plan returns the first sum in both columns.
\<close>

theorem dedup_confuses_doubles:
  "case bind_query demo_dedup [\<lparr>fname = ''x'', ftype = float64_type False\<rparr>] of
     Inl _ \<Rightarrow> False
   | Inr q \<Rightarrow>
       (case build_logical_plan False q [\<lparr>fname = ''x'', ftype = float64_type False\<rparr>] [] of
          Inl _ \<Rightarrow> False
        | Inr p \<Rightarrow>
            let E = ref_engine (\<lambda>paths. [[f64_datum (f64_of_int 1073741824)]])
            in run_query E (e_data E [''t'']) q = [[f64_datum (tiny 0), f64_datum (tiny 1)]] \<and>
               exec_plan E p = [[f64_datum (tiny 0), f64_datum (tiny 0)]])"
  by code_simp

text \<open>
  \<open>SELECT * FROM t GROUP BY b\<close> over columns \<open>a\<close> and \<open>b\<close> is accepted, because the check for
  ungrouped columns skips a star, and its plan returns the values of \<open>b\<close> under the name \<open>a\<close>.
\<close>

theorem star_group_by_reads_wrong_column:
  "case bind_query (AstSelect [(AstStar, None)] [''t''] None None None None [AstColumnRef ''b'' None] None [] None)
      [int_field ''a'', int_field ''b''] of
     Inl _ \<Rightarrow> False
   | Inr q \<Rightarrow>
       (case build_logical_plan False q [int_field ''a'', int_field ''b''] [] of
          Inl _ \<Rightarrow> False
        | Inr p \<Rightarrow>
            map fname (output_schema p) = [''a'', ''b''] \<and>
            exec_plan (ref_engine (\<lambda>paths. [[int64_datum 1, int64_datum 2]])) p = [[int64_datum 2, int64_datum 2]])"
  by code_simp

end
