(* ===== verification/PhysicalPlan.thy ===== *)
theory PhysicalPlan
  imports TableResolution
begin

text \<open>
  The physical plan of \<^verbatim>\<open>include/kernellake/planner/physical_plan.hpp\<close> and its text form, and the
  physical planner of \<^verbatim>\<open>src/io/physical_planner.cpp\<close>: scans narrowed to the required columns, with
  the row groups that survive pruning, joins with the smaller side to build, and every column
  reference above a scan or a join moved to where the narrowed column ended up.
\<close>

section \<open>Nodes\<close>

record PhysicalFileFragment =
  pf_file :: string
  file_row_count :: int
  total_row_groups :: int
  pf_selected_row_groups :: "int list"
  pf_skipped_row_groups :: "int list"
  pruning_reasons :: "string list"
  pf_partition_values :: "literal list"

type_synonym column_map = "nat option list"

record ParquetScanNode =
  ps_fragments :: "PhysicalFileFragment list"
  ps_columns :: "string list"
  ps_schema :: Schema
  files_considered :: int
  ps_partition_columns :: "PartitionColumn list"
  original_column_map :: column_map

datatype pplan =
    PScan ParquetScanNode
  | PJoin pplan pplan nat nat JoinType "expression option" column_map "int option"
  | PFilter pplan expression
  | PProjection pplan "NamedExpression list"
  | PHashAggregate pplan "NamedExpression list" "NamedExpression list"
  | PScalarAggregate pplan "NamedExpression list"
  | PSort pplan "SortKey list"
  | PLimit pplan int
  | PResult pplan

fun p_output_schema :: "pplan \<Rightarrow> Schema" where
  "p_output_schema (PScan s) = ps_schema s"
| "p_output_schema (PJoin l r lk rk jt res cm est) = join_schema (p_output_schema l) (p_output_schema r) jt"
| "p_output_schema (PFilter c p) = p_output_schema c"
| "p_output_schema (PProjection c items) = items_schema items"
| "p_output_schema (PHashAggregate c g a) = items_schema g @ items_schema a"
| "p_output_schema (PScalarAggregate c a) = items_schema a"
| "p_output_schema (PSort c keys) = p_output_schema c"
| "p_output_schema (PLimit c n) = p_output_schema c"
| "p_output_schema (PResult c) = p_output_schema c"

fun p_children :: "pplan \<Rightarrow> pplan list" where
  "p_children (PScan s) = []"
| "p_children (PJoin l r lk rk jt res cm est) = [l, r]"
| "p_children (PFilter c p) = [c]"
| "p_children (PProjection c items) = [c]"
| "p_children (PHashAggregate c g a) = [c]"
| "p_children (PScalarAggregate c a) = [c]"
| "p_children (PSort c keys) = [c]"
| "p_children (PLimit c n) = [c]"
| "p_children (PResult c) = [c]"

fun p_node_name :: "pplan \<Rightarrow> string" where
  "p_node_name (PScan s) = ''ParquetScan''"
| "p_node_name (PJoin l r lk rk jt res cm est) = ''HashJoin''"
| "p_node_name (PFilter c p) = ''Filter''"
| "p_node_name (PProjection c items) = ''Projection''"
| "p_node_name (PHashAggregate c g a) = ''HashAggregate''"
| "p_node_name (PScalarAggregate c a) = ''ScalarAggregate''"
| "p_node_name (PSort c keys) = ''Sort''"
| "p_node_name (PLimit c n) = ''Limit''"
| "p_node_name (PResult c) = ''ArrowResult''"

definition p_scan_attributes :: "ParquetScanNode \<Rightarrow> (string \<times> string) list" where
  "p_scan_attributes s =
     (let total = foldl (\<lambda>n f. n + total_row_groups f) 0 (ps_fragments s);
          selected = foldl (\<lambda>n f. n + int (length (pf_selected_row_groups f))) 0 (ps_fragments s)
      in [(''files'', int_str (int (length (ps_fragments s))) @ ''/'' @ int_str (files_considered s)),
          (''row_groups'', int_str selected @ ''/'' @ int_str total),
          (''columns'', join_names (ps_columns s))])"

fun p_explain_attributes :: "pplan \<Rightarrow> (string \<times> string) list result" where
  "p_explain_attributes (PScan s) = Inr (p_scan_attributes s)"
| "p_explain_attributes (PJoin l r lk rk jt res cm est) =
     bindR (atR (p_output_schema l) lk) (\<lambda>lf.
     bindR (atR (p_output_schema r) rk) (\<lambda>rf.
     Inr [(''type'', jointype_str jt), (''left_key'', fname lf), (''right_key'', fname rf)]))"
| "p_explain_attributes (PFilter c p) = Inr [(''predicate'', to_string p)]"
| "p_explain_attributes (PProjection c items) = Inr [(''items'', join_named_expressions items)]"
| "p_explain_attributes (PHashAggregate c g a) =
     Inr [(''group_by'', join_names (map nname g)), (''aggregates'', join_named_expressions a)]"
| "p_explain_attributes (PScalarAggregate c a) = Inr [(''aggregates'', join_named_expressions a)]"
| "p_explain_attributes (PSort c keys) =
     Inr [(''order_by'', comma_list (map (\<lambda>k. to_string (skey k) @
            (if ascending k then '' ASC'' else '' DESC'')) keys))]"
| "p_explain_attributes (PLimit c n) = Inr [(''limit'', int_str n)]"
| "p_explain_attributes (PResult c) = Inr []"

lemma p_children_size [termination_simp]: "c \<in> set (p_children p) \<Longrightarrow> size c < size p"
  by (cases p) auto

function p_explain_text_recursive :: "pplan \<Rightarrow> string \<Rightarrow> string result" where
  "p_explain_text_recursive node prefix =
     bindR (p_explain_attributes node) (\<lambda>attrs.
     let attr_prefix = prefix @ ''    '';
         attr_lines = concat (map (\<lambda>(k, v). attr_prefix @ k @ '': '' @ v @ newline) attrs)
     in bindR (mapR (\<lambda>c. bindR (p_explain_text_recursive c attr_prefix)
                          (\<lambda>s. Inr (attr_prefix @ tree_corner @ s))) (p_children node)) (\<lambda>kids.
        Inr (p_node_name node @ newline @ attr_lines @ concat kids)))"
  by pat_completeness auto
termination
  by (relation "measure (\<lambda>(node, prefix). size node)") (auto simp: p_children_size)

declare p_explain_text_recursive.simps [simp del]

definition p_explain_text :: "pplan \<Rightarrow> string result" where
  "p_explain_text root = p_explain_text_recursive root []"

section \<open>Remapping columns\<close>

text \<open>Expressions are rebuilt with every column at the index \<open>f\<close> gives it, or the error \<open>f\<close> throws.\<close>

fun remap_columns_via :: "expression \<Rightarrow> (string \<Rightarrow> nat \<Rightarrow> nat result) \<Rightarrow> expression result" where
  "remap_columns_via (Column n i t) f = bindR (f n i) (\<lambda>j. Inr (Column n j t))"
| "remap_columns_via (Binary op l r t) f =
     bindR (remap_columns_via l f) (\<lambda>l'. bindR (remap_columns_via r f) (\<lambda>r'. Inr (Binary op l' r' t)))"
| "remap_columns_via (Unary op e t) f = bindR (remap_columns_via e f) (\<lambda>e'. Inr (Unary op e' t))"
| "remap_columns_via (Cast e t) f = bindR (remap_columns_via e f) (\<lambda>e'. Inr (Cast e' t))"
| "remap_columns_via (Between v l u) f =
     bindR (remap_columns_via v f) (\<lambda>v'.
     bindR (remap_columns_via l f) (\<lambda>l'.
     bindR (remap_columns_via u f) (\<lambda>u'. Inr (Between v' l' u'))))"
| "remap_columns_via (Aggregate g arg t) f =
     (case arg of
        None \<Rightarrow> Inr (Aggregate g None t)
      | Some e \<Rightarrow> bindR (remap_columns_via e f) (\<lambda>e'. Inr (Aggregate g (Some e') t)))"
| "remap_columns_via (Like v p neg) f = bindR (remap_columns_via v f) (\<lambda>v'. Inr (Like v' p neg))"
| "remap_columns_via (Case wts els t) f =
     bindR (mapR (\<lambda>(c, r). bindR (remap_columns_via c f) (\<lambda>c'.
                            bindR (remap_columns_via r f) (\<lambda>r'. Inr (c', r')))) wts) (\<lambda>wts'.
     case els of
       None \<Rightarrow> Inr (Case wts' None t)
     | Some e \<Rightarrow> bindR (remap_columns_via e f) (\<lambda>e'. Inr (Case wts' (Some e') t)))"
| "remap_columns_via (Extract p e t) f = bindR (remap_columns_via e f) (\<lambda>e'. Inr (Extract p e' t))"
| "remap_columns_via (Substring e s n t) f =
     bindR (remap_columns_via e f) (\<lambda>e'. Inr (Substring e' s n t))"
| "remap_columns_via (Literal v t) f = Inr (Literal v t)"

definition lookup_map :: "column_map \<Rightarrow> nat \<Rightarrow> nat option" where
  "lookup_map cm i = (if i < length cm then cm ! i else None)"

definition resolve_in :: "string \<Rightarrow> column_map \<Rightarrow> string \<Rightarrow> nat \<Rightarrow> nat result" where
  "resolve_in place cm n i =
     (case lookup_map cm i of
        Some j \<Rightarrow> Inr j
      | None \<Rightarrow> Inl (PlanningError (''physical planner: column '' @ [CHR 0x27] @ n @ [CHR 0x27] @ '' referenced '' @ place
          @ '' pruned column list (internal error)'')))"

definition remap_columns :: "expression \<Rightarrow> column_map \<Rightarrow> expression result" where
  "remap_columns e cm = remap_columns_via e (resolve_in ''above the scan but missing from its'' cm)"

definition residual_index :: "column_map \<Rightarrow> column_map \<Rightarrow> nat \<Rightarrow> nat \<Rightarrow> string \<Rightarrow> nat \<Rightarrow> nat result" where
  "residual_index lm rm left_original_count left_narrowed_count n i =
     (if i < left_original_count
      then resolve_in ''by a JOIN's residual predicate but missing from the left side's'' lm n i
      else bindR (resolve_in ''by a JOIN's residual predicate but missing from the right side's'' rm n
                   (i - left_original_count)) (\<lambda>j. Inr (left_narrowed_count + j)))"

definition remap_join_residual_predicate ::
  "expression \<Rightarrow> column_map \<Rightarrow> column_map \<Rightarrow> nat \<Rightarrow> nat \<Rightarrow> expression result" where
  "remap_join_residual_predicate e lm rm left_original_count left_narrowed_count =
     remap_columns_via e (residual_index lm rm left_original_count left_narrowed_count)"

definition remap_named :: "NamedExpression list \<Rightarrow> column_map \<Rightarrow> NamedExpression list result" where
  "remap_named items cm =
     mapR (\<lambda>it. bindR (remap_columns (nexpr it) cm) (\<lambda>e. Inr \<lparr>nexpr = e, nname = nname it\<rparr>)) items"

definition remap_keys :: "SortKey list \<Rightarrow> column_map \<Rightarrow> SortKey list result" where
  "remap_keys keys cm =
     mapR (\<lambda>k. bindR (remap_columns (skey k) cm) (\<lambda>e. Inr \<lparr>skey = e, ascending = ascending k\<rparr>)) keys"

definition is_identity_projection :: "NamedExpression list \<Rightarrow> Schema \<Rightarrow> bool" where
  "is_identity_projection items s \<longleftrightarrow>
     length items = length s \<and>
     list_all (\<lambda>i. case nexpr (items ! i) of
         Column n k t \<Rightarrow> k = i \<and> nname (items ! i) = fname (s ! i)
       | _ \<Rightarrow> False) [0 ..< length items]"

section \<open>Row estimates\<close>

definition f64_ratio :: "int \<Rightarrow> int \<Rightarrow> f64" where
  "f64_ratio a b = f64_div (f64_of_int a) (f64_of_int b)"

fun estimate_selectivity :: "expression \<Rightarrow> f64" where
  "estimate_selectivity (Binary op l r t) =
     (case op of
        And \<Rightarrow> f64_mul (estimate_selectivity l) (estimate_selectivity r)
      | Or \<Rightarrow>
          let a = estimate_selectivity l; b = estimate_selectivity r;
              x = f64_sub (f64_add a b) (f64_mul a b)
          in if f64_lt x (f64_of_int 1) then x else f64_of_int 1
      | Equal \<Rightarrow> f64_ratio 1 10
      | NotEqual \<Rightarrow> f64_ratio 9 10
      | Less \<Rightarrow> f64_ratio 33 100
      | LessEqual \<Rightarrow> f64_ratio 33 100
      | Greater \<Rightarrow> f64_ratio 33 100
      | GreaterEqual \<Rightarrow> f64_ratio 33 100
      | _ \<Rightarrow> f64_of_int 1)"
| "estimate_selectivity (Between v l u) = f64_ratio 1 4"
| "estimate_selectivity (Unary op e t) =
     (case op of
        UNot \<Rightarrow> f64_sub (f64_of_int 1) (estimate_selectivity e)
      | UIsNull \<Rightarrow> f64_ratio 5 100
      | UIsNotNull \<Rightarrow> f64_ratio 95 100
      | _ \<Rightarrow> f64_of_int 1)"
| "estimate_selectivity (Like v p neg) = f64_ratio 1 4"
| "estimate_selectivity _ = f64_of_int 1"

text \<open>\<open>std::llround\<close>: halves away from zero.\<close>

definition f64_llround :: "f64 \<Rightarrow> int" where
  "f64_llround w =
     (let m = (2 * f64_num w + f64_den w) div (2 * f64_den w) in if f64_sign w then - m else m)"

fun estimate_row_count :: "pplan \<Rightarrow> int option" where
  "estimate_row_count (PScan s) = Some (foldl (\<lambda>n f. n + file_row_count f) 0 (ps_fragments s))"
| "estimate_row_count (PFilter c p) =
     (case estimate_row_count c of
        None \<Rightarrow> None
      | Some n \<Rightarrow> Some (f64_llround (f64_mul (f64_of_int n) (estimate_selectivity p))))"
| "estimate_row_count (PJoin l r lk rk jt res cm est) =
     (case (estimate_row_count l, estimate_row_count r) of
        (Some a, Some b) \<Rightarrow> Some (max a b)
      | _ \<Rightarrow> None)"
| "estimate_row_count (PProjection c items) = estimate_row_count c"
| "estimate_row_count (PHashAggregate c g a) = estimate_row_count c"
| "estimate_row_count (PScalarAggregate c a) = estimate_row_count c"
| "estimate_row_count (PSort c keys) = estimate_row_count c"
| "estimate_row_count (PLimit c n) = estimate_row_count c"
| "estimate_row_count (PResult c) = estimate_row_count c"

section \<open>Boundaries\<close>

definition identity_boundary :: "pplan \<Rightarrow> column_map" where
  "identity_boundary p = map Some [0 ..< length (p_output_schema p)]"

text \<open>
  Of a \<open>ScanBoundary\<close> only the column map is read. The generic descent into the children finds a
  boundary in the first child that has one.
\<close>

fun find_scan_boundary :: "pplan \<Rightarrow> column_map option" where
  "find_scan_boundary (PScan s) = Some (original_column_map s)"
| "find_scan_boundary (PJoin l r lk rk jt res cm est) = Some cm"
| "find_scan_boundary (PProjection c items) = Some (identity_boundary (PProjection c items))"
| "find_scan_boundary (PHashAggregate c g a) = Some (identity_boundary (PHashAggregate c g a))"
| "find_scan_boundary (PScalarAggregate c a) = Some (identity_boundary (PScalarAggregate c a))"
| "find_scan_boundary (PFilter c p) = find_scan_boundary c"
| "find_scan_boundary (PSort c keys) = find_scan_boundary c"
| "find_scan_boundary (PLimit c n) = find_scan_boundary c"
| "find_scan_boundary (PResult c) = find_scan_boundary c"

fun references_scan_schema :: "plan \<Rightarrow> bool" where
  "references_scan_schema (LSort c keys) \<longleftrightarrow> references_scan_schema c"
| "references_scan_schema (LLimit c n) \<longleftrightarrow> references_scan_schema c"
| "references_scan_schema (LFilter c p est) \<longleftrightarrow>
     (case c of LAggregate _ _ _ \<Rightarrow> False | _ \<Rightarrow> True)"
| "references_scan_schema (LScan s) \<longleftrightarrow> True"
| "references_scan_schema (LJoin l r lk rk jt res) \<longleftrightarrow> True"
| "references_scan_schema (LProjection c items) \<longleftrightarrow> False"
| "references_scan_schema (LAggregate c g a) \<longleftrightarrow> False"

section \<open>Scans\<close>

text \<open>
  The loop over the scan's fields: the narrowed fields, the columns to read, the kept partition
  columns with their positions, and the map from original to narrowed indices.
\<close>

record narrowing =
  nw_fields :: Schema
  nw_columns :: "string list"
  nw_partitions :: "(PartitionColumn \<times> nat) list"
  nw_map :: column_map

fun find_partition :: "nat \<Rightarrow> PartitionColumn list \<Rightarrow> string \<Rightarrow> (PartitionColumn \<times> nat) option" where
  "find_partition k [] name = None"
| "find_partition k (c # cs) name = (if pname c = name then Some (c, k) else find_partition (Suc k) cs name)"

definition narrow_field :: "string list \<Rightarrow> PartitionColumn list \<Rightarrow> narrowing \<Rightarrow> Field \<Rightarrow> narrowing" where
  "narrow_field required parts w f =
     (if fname f \<notin> set required then w\<lparr>nw_map := nw_map w @ [None]\<rparr>
      else
        let w' = w\<lparr>nw_fields := nw_fields w @ [f], nw_map := nw_map w @ [Some (length (nw_fields w))]\<rparr>
        in case find_partition 0 parts (fname f) of
             Some p \<Rightarrow> w'\<lparr>nw_partitions := nw_partitions w' @ [p]\<rparr>
           | None \<Rightarrow> w'\<lparr>nw_columns := nw_columns w' @ [fname f]\<rparr>)"

definition narrow_scan :: "LogicalScan \<Rightarrow> narrowing" where
  "narrow_scan s =
     foldl (narrow_field (required_columns s) (partition_columns s))
       \<lparr>nw_fields = [], nw_columns = [], nw_partitions = [], nw_map = []\<rparr> (scan_schema s)"

text \<open>A scan that needs no column at all keeps the first one, for the row count.\<close>

definition keep_one_column :: "LogicalScan \<Rightarrow> narrowing \<Rightarrow> narrowing" where
  "keep_one_column s w =
     (case scan_schema s of
        f # _ \<Rightarrow>
          if nw_columns w = [] \<and> nw_partitions w = []
          then w\<lparr>nw_map := (nw_map w)[0 := Some (length (nw_fields w))], nw_fields := nw_fields w @ [f],
                  nw_columns := nw_columns w @ [fname f]\<rparr>
          else w
      | [] \<Rightarrow> w)"

text \<open>
  The fragment of a file, unless pruning skips all its row groups. \<open>operator[]\<close> on the partition
  values is unchecked; a resolved table has one value per partition column.
\<close>

definition file_fragment :: "LogicalScan \<Rightarrow> narrowing \<Rightarrow> ResolvedFile \<Rightarrow> PhysicalFileFragment list" where
  "file_fragment s w file =
     (let meta = rf_metadata file; d = evaluate_pruning meta (pushable_predicates s)
      in if selected_row_groups d = [] \<and> row_groups meta \<noteq> [] then []
         else [\<lparr>pf_file = fm_path meta, file_row_count = fm_row_count meta,
                total_row_groups = int (length (row_groups meta)),
                pf_selected_row_groups = selected_row_groups d, pf_skipped_row_groups = skipped_row_groups d,
                pruning_reasons = reasons d,
                pf_partition_values = map (\<lambda>(c, k). rf_partition_values file ! k) (nw_partitions w)\<rparr>])"

definition convert_scan :: "ObjectStore \<Rightarrow> TableSourceResolver option \<Rightarrow> LogicalScan \<Rightarrow> pplan result" where
  "convert_scan store extra s =
     bindR (resolve_table_or_delegate store (source_paths s) extra (pushable_predicates s)) (\<lambda>resolved.
     let w = narrow_scan s;
         fragments = concat (map (file_fragment s w) (rt_files resolved));
         w' = keep_one_column s w
     in Inr (PScan \<lparr>ps_fragments = fragments, ps_columns = nw_columns w', ps_schema = nw_fields w',
               files_considered = int (length (rt_files resolved)),
               ps_partition_columns = map fst (nw_partitions w'), original_column_map = nw_map w'\<rparr>))"

section \<open>\<open>convert\<close>\<close>

text \<open>The INNER join of a smaller left side is built from the left: its children change places.\<close>

definition swap_for_build_side :: "JoinType \<Rightarrow> int option \<Rightarrow> int option \<Rightarrow> bool" where
  "swap_for_build_side jt le re \<longleftrightarrow>
     jt = Inner \<and> (case (le, re) of (Some a, Some b) \<Rightarrow> a < b | _ \<Rightarrow> False)"

definition shift_map :: "nat \<Rightarrow> column_map \<Rightarrow> column_map" where
  "shift_map offset cm = map (map_option (\<lambda>j. offset + j)) cm"

definition combined_column_map :: "bool \<Rightarrow> JoinType \<Rightarrow> column_map \<Rightarrow> column_map \<Rightarrow> nat \<Rightarrow> nat \<Rightarrow> column_map" where
  "combined_column_map swap jt lm rm left_narrowed_count right_narrowed_count =
     shift_map (if swap then right_narrowed_count else 0) lm @
     (if jt = LeftSemi \<or> jt = LeftAnti then [] else shift_map (if swap then 0 else left_narrowed_count) rm)"

definition convert_join ::
  "pplan \<Rightarrow> pplan \<Rightarrow> nat \<Rightarrow> nat \<Rightarrow> JoinType \<Rightarrow> expression option \<Rightarrow> pplan result" where
  "convert_join left right lk rk jt res =
     (case (find_scan_boundary left, find_scan_boundary right) of
        (Some lm, Some rm) \<Rightarrow>
          (case (lookup_map lm lk, lookup_map rm rk) of
             (Some lk', Some rk') \<Rightarrow>
               let le = estimate_row_count left; re = estimate_row_count right;
                   swap = swap_for_build_side jt le re;
                   est = (if le \<noteq> None \<and> re \<noteq> None then (if swap then le else re) else None);
                   ln = length (p_output_schema left); rn = length (p_output_schema right);
                   cm = combined_column_map swap jt lm rm ln rn
               in bindR (case res of
                           None \<Rightarrow> Inr None
                         | Some e \<Rightarrow> bindR (remap_join_residual_predicate e lm rm (length lm) ln) (\<lambda>e'. Inr (Some e')))
                    (\<lambda>res'.
                    Inr (if swap then PJoin right left rk' lk' jt res' cm est
                         else PJoin left right lk' rk' jt res' cm est))
           | _ \<Rightarrow> Inl (PlanningError ''physical planner: JOIN key column missing from its pruned column list (internal error)''))
      | _ \<Rightarrow> Inl (PlanningError ''physical planner: JOIN child has no identifiable scan/join schema (internal error)''))"

text \<open>The map to apply above a converted child, when the logical child speaks of scan columns.\<close>

definition boundary_for :: "plan \<Rightarrow> pplan \<Rightarrow> column_map option" where
  "boundary_for logical physical =
     (if references_scan_schema logical then find_scan_boundary physical else None)"

fun convert :: "ObjectStore \<Rightarrow> TableSourceResolver option \<Rightarrow> plan \<Rightarrow> pplan result" where
  "convert store extra (LScan s) = convert_scan store extra s"
| "convert store extra (LJoin l r lk rk jt res) =
     bindR (convert store extra l) (\<lambda>left.
     bindR (convert store extra r) (\<lambda>right. convert_join left right lk rk jt res))"
| "convert store extra (LFilter c p est) =
     bindR (convert store extra c) (\<lambda>child.
     bindR (case boundary_for c child of None \<Rightarrow> Inr p | Some cm \<Rightarrow> remap_columns p cm) (\<lambda>p'.
     Inr (PFilter child p')))"
| "convert store extra (LProjection c items) =
     bindR (convert store extra c) (\<lambda>child.
     bindR (case boundary_for c child of None \<Rightarrow> Inr items | Some cm \<Rightarrow> remap_named items cm) (\<lambda>items'.
     Inr (if is_identity_projection items' (p_output_schema child) then child
          else PProjection child items')))"
| "convert store extra (LAggregate c g a) =
     bindR (convert store extra c) (\<lambda>child.
     bindR (case boundary_for c child of None \<Rightarrow> Inr a | Some cm \<Rightarrow> remap_named a cm) (\<lambda>a'.
     if g = [] then Inr (PScalarAggregate child a')
     else bindR (case boundary_for c child of None \<Rightarrow> Inr g | Some cm \<Rightarrow> remap_named g cm) (\<lambda>g'.
          Inr (PHashAggregate child g' a'))))"
| "convert store extra (LSort c keys) =
     bindR (convert store extra c) (\<lambda>child.
     bindR (case boundary_for c child of None \<Rightarrow> Inr keys | Some cm \<Rightarrow> remap_keys keys cm) (\<lambda>keys'.
     Inr (PSort child keys')))"
| "convert store extra (LLimit c n) = bindR (convert store extra c) (\<lambda>child. Inr (PLimit child n))"

definition build_physical_plan :: "ObjectStore \<Rightarrow> TableSourceResolver option \<Rightarrow> plan \<Rightarrow> pplan result" where
  "build_physical_plan store extra p = bindR (convert store extra p) (\<lambda>pp. Inr (PResult pp))"

end
