(* ===== verification/PhysicalExec.thy ===== *)
theory PhysicalExec
  imports PhysicalPlan Annotate "HOL-Library.Multiset"
begin

text \<open>
  What a physical plan may return, and that it is what the logical plan means. An executor is free
  in the order of the rows of a scan, a join and an aggregate, so both plans denote the lists of
  rows they may return; a sort orders whatever order it is given, and a limit keeps a prefix.
\<close>

section \<open>Remapped expressions\<close>

fun rename_columns :: "(nat \<Rightarrow> nat) \<Rightarrow> expression \<Rightarrow> expression" where
  "rename_columns ix (Column n i t) = Column n (ix i) t"
| "rename_columns ix (Literal v t) = Literal v t"
| "rename_columns ix (Binary op l r t) = Binary op (rename_columns ix l) (rename_columns ix r) t"
| "rename_columns ix (Unary op e t) = Unary op (rename_columns ix e) t"
| "rename_columns ix (Cast e t) = Cast (rename_columns ix e) t"
| "rename_columns ix (Extract p e t) = Extract p (rename_columns ix e) t"
| "rename_columns ix (Substring e s n t) = Substring (rename_columns ix e) s n t"
| "rename_columns ix (Between v l u) =
     Between (rename_columns ix v) (rename_columns ix l) (rename_columns ix u)"
| "rename_columns ix (Like v p neg) = Like (rename_columns ix v) p neg"
| "rename_columns ix (Case wts els t) =
     Case (map (\<lambda>(c, r). (rename_columns ix c, rename_columns ix r)) wts) (map_option (rename_columns ix) els) t"
| "rename_columns ix (Aggregate f arg t) = Aggregate f (map_option (rename_columns ix) arg) t"

interpretation ren: column_renaming "rename_columns ix" ix
  by unfold_locales auto

text \<open>A resolver that finds the columns \<open>ok\<close>, at the places \<open>ix\<close>.\<close>

locale resolver =
  fixes f :: "string \<Rightarrow> nat \<Rightarrow> nat result" and ok :: "nat \<Rightarrow> bool" and ix :: "nat \<Rightarrow> nat"
  assumes resolves: "f n i = Inr j \<longleftrightarrow> ok i \<and> j = ix i"
begin

lemma remap_via:
  "remap_columns_via e f = Inr e' \<longleftrightarrow> (\<forall>p \<in> set (col_refs e). ok (fst p)) \<and> e' = rename_columns ix e"
proof (induction e arbitrary: e' rule: expr_induct)
  case (Case wts els t)
  let ?ok = "\<lambda>e. \<forall>p \<in> set (col_refs e). ok (fst p)" and ?rn = "rename_columns ix"
  let ?step = "\<lambda>(c, r). bindR (remap_columns_via c f) (\<lambda>c'. bindR (remap_columns_via r f) (\<lambda>r'. Inr (c', r')))"
  have one: "?step w = Inr w' \<longleftrightarrow> ?ok (fst w) \<and> ?ok (snd w) \<and> w' = (?rn (fst w), ?rn (snd w))"
    if "w \<in> set wts" for w w'
    using Case.IH(1)[of "fst w" "snd w"] that by (cases w) (auto simp: bindR_eq_Inr)
  have br: "mapR ?step ws = Inr ws' \<longleftrightarrow>
      (\<forall>w \<in> set ws. ?ok (fst w) \<and> ?ok (snd w)) \<and> ws' = map (\<lambda>w. (?rn (fst w), ?rn (snd w))) ws"
    if "set ws \<subseteq> set wts" for ws ws'
    using that
  proof (induction ws arbitrary: ws')
    case (Cons w ws)
    then show ?case using one[of w] by (auto simp only: mapR.simps bindR_eq_Inr sum.inject set_simps
        list.map subset_insertI insert_subset ball_simps)
  qed auto
  have refs: "?ok (Case wts els t) \<longleftrightarrow> (\<forall>w \<in> set wts. ?ok (fst w) \<and> ?ok (snd w)) \<and>
      (case els of None \<Rightarrow> True | Some e \<Rightarrow> ?ok e)"
    by (cases els) fastforce+
  show ?case
    unfolding refs using br[OF subset_refl] Case.IH(2)
    by (cases els) (auto simp: bindR_eq_Inr case_prod_beta)
next
  case (Aggregate g arg t)
  then show ?case by (cases arg) (auto simp: bindR_eq_Inr)
qed (auto simp: bindR_eq_Inr resolves)

end

definition moved :: "column_map \<Rightarrow> row \<Rightarrow> row \<Rightarrow> bool" where
  "moved cm r r' \<longleftrightarrow> (\<forall>i j. lookup_map cm i = Some j \<longrightarrow> col_at r' j = col_at r i)"

lemma resolver_in: "resolver (resolve_in place cm) (\<lambda>i. lookup_map cm i \<noteq> None) (\<lambda>i. the (lookup_map cm i))"
  by unfold_locales (auto simp: resolve_in_def split: option.splits)

lemmas remap_iff = resolver.remap_via[OF resolver_in]

lemma remap_columns_iff:
  "remap_columns e cm = Inr e' \<longleftrightarrow> (\<forall>p \<in> set (col_refs e). lookup_map cm (fst p) \<noteq> None) \<and>
     e' = rename_columns (\<lambda>i. the (lookup_map cm i)) e"
  by (simp add: remap_columns_def remap_iff)

lemma remap_columns_eval:
  assumes "remap_columns e cm = Inr e'" "moved cm r r'"
  shows "eval K r' e' = eval K r e"
  using assms by (auto simp: remap_columns_iff moved_def intro!: ren.rn_eval)

lemma remap_columns_type: "remap_columns e cm = Inr e' \<Longrightarrow> result_type e' = result_type e"
  by (auto simp: remap_columns_iff ren.rn_type)


section \<open>Rows in any order\<close>

text \<open>What a logical plan may return.\<close>

inductive returns :: "engine \<Rightarrow> plan \<Rightarrow> row list \<Rightarrow> bool" for E where
  Scan: "mset rows = mset (e_data E (source_paths s)) \<Longrightarrow> returns E (LScan s) rows"
| Join: "returns E l L \<Longrightarrow> returns E r R \<Longrightarrow>
    mset rows = mset (join_rows (join_match E lk rk res) jt (output_schema r) L R) \<Longrightarrow>
    returns E (LJoin l r lk rk jt res) rows"
| Filter: "returns E c C \<Longrightarrow> returns E (LFilter c p est) (filter (\<lambda>row. holds E row p) C)"
| Projection: "returns E c C \<Longrightarrow> returns E (LProjection c items) (map (eval_items E items) C)"
| Aggregate: "returns E c C \<Longrightarrow>
    mset rows = mset (map (\<lambda>(k, rows). k @ map (\<lambda>it. eval_agg E rows (nexpr it)) a) (group_rows E g C)) \<Longrightarrow>
    returns E (LAggregate c g a) rows"
| Sort: "returns E c C \<Longrightarrow> mset C' = mset C \<Longrightarrow>
    returns E (LSort c keys) (e_sort E (map ascending keys)
      (map (\<lambda>row. (map (\<lambda>k. eval (e_kernel E) row (skey k)) keys, row)) C'))"
| Limit: "returns E c C \<Longrightarrow> returns E (LLimit c n) (take (nat n) C)"

inductive_simps returns_simps:
  "returns E (LScan s) rows"
  "returns E (LJoin l r lk rk jt res) rows"
  "returns E (LFilter c p est) rows"
  "returns E (LProjection c items) rows"
  "returns E (LAggregate c g a) rows"
  "returns E (LSort c keys) rows"
  "returns E (LLimit c n) rows"

text \<open>
  What a physical plan may return; \<open>D\<close> is the reader, which delivers the rows of a scan's
  fragments with the columns of its schema.
\<close>

inductive p_returns :: "engine \<Rightarrow> (ParquetScanNode \<Rightarrow> row list) \<Rightarrow> pplan \<Rightarrow> row list \<Rightarrow> bool" for E D where
  PScan: "mset rows = mset (D n) \<Longrightarrow> p_returns E D (PScan n) rows"
| PJoin: "p_returns E D l L \<Longrightarrow> p_returns E D r R \<Longrightarrow>
    mset rows = mset (join_rows (join_match E lk rk res) jt (p_output_schema r) L R) \<Longrightarrow>
    p_returns E D (PJoin l r lk rk jt res cm est) rows"
| PFilter: "p_returns E D c C \<Longrightarrow> p_returns E D (PFilter c p) (filter (\<lambda>row. holds E row p) C)"
| PProjection: "p_returns E D c C \<Longrightarrow> p_returns E D (PProjection c items) (map (eval_items E items) C)"
| PHashAggregate: "p_returns E D c C \<Longrightarrow>
    mset rows = mset (map (\<lambda>(k, rows). k @ map (\<lambda>it. eval_agg E rows (nexpr it)) a) (group_rows E g C)) \<Longrightarrow>
    p_returns E D (PHashAggregate c g a) rows"
| PScalarAggregate: "p_returns E D c C \<Longrightarrow>
    p_returns E D (PScalarAggregate c a) [map (\<lambda>it. eval_agg E C (nexpr it)) a]"
| PSort: "p_returns E D c C \<Longrightarrow> mset C' = mset C \<Longrightarrow>
    p_returns E D (PSort c keys) (e_sort E (map ascending keys)
      (map (\<lambda>row. (map (\<lambda>k. eval (e_kernel E) row (skey k)) keys, row)) C'))"
| PLimit: "p_returns E D c C \<Longrightarrow> p_returns E D (PLimit c n) (take (nat n) C)"
| PResult: "p_returns E D c C \<Longrightarrow> p_returns E D (PResult c) C"

inductive_simps p_returns_simps:
  "p_returns E D (PScan n) rows"
  "p_returns E D (PJoin l r lk rk jt res cm est) rows"
  "p_returns E D (PFilter c p) rows"
  "p_returns E D (PProjection c items) rows"
  "p_returns E D (PHashAggregate c g a) rows"
  "p_returns E D (PScalarAggregate c a) rows"
  "p_returns E D (PSort c keys) rows"
  "p_returns E D (PLimit c n) rows"
  "p_returns E D (PResult c) rows"

text \<open>The rows of \<open>exec_plan\<close> are among those a plan may return.\<close>

lemma exec_plan_returned: "returns E p (exec_plan E p)"
  by (induction p) (auto simp: returns_simps)

lemma reorder_related:
  assumes "list_all2 R xs ys" "mset ys' = mset ys"
  shows "\<exists>xs'. mset xs' = mset xs \<and> list_all2 R xs' ys'"
proof -
  have "list_all2 (\<lambda>y x. R x y) ys xs"
    using assms(1) by (simp add: list_all2_conv_all_nth)
  from list_all2_reorder_left_invariance[OF this assms(2)] obtain xs' where
    "list_all2 (\<lambda>y x. R x y) ys' xs'" "mset xs' = mset xs" by blast
  then have "list_all2 R xs' ys'" by (simp add: list_all2_conv_all_nth)
  with \<open>mset xs' = mset xs\<close> show ?thesis by blast
qed

text \<open>An INNER join built from its other side returns the same pairs.\<close>

lemma mset_pairs_Cons:
  "mset (concat (map (\<lambda>y. (if P y then [f y] else []) @ g y) ys))
   = mset (map f (filter P ys)) + mset (concat (map g ys))"
  by (induction ys) auto

lemma mset_pairs_swap:
  "mset (concat (map (\<lambda>x. map (f x) (filter (P x) ys)) xs))
   = mset (concat (map (\<lambda>y. map (\<lambda>x. f x y) (filter (\<lambda>x. P x y) xs)) ys))"
proof (induction xs)
  case (Cons x xs)
  have "map (\<lambda>y. map (\<lambda>x. f x y) (filter (\<lambda>x. P x y) (x # xs))) ys
      = map (\<lambda>y. (if P x y then [f x y] else []) @ map (\<lambda>x. f x y) (filter (\<lambda>x. P x y) xs)) ys"
    by simp
  with Cons show ?case by (simp only: mset_pairs_Cons) simp
qed (induction ys, auto)

lemma join_rows_swap:
  assumes "list_all2 A L L'" "list_all2 B R R'"
    and "\<And>l l' r r'. A l l' \<Longrightarrow> B r r' \<Longrightarrow> m' r' l' = m l r"
    and "\<And>l l' r r'. A l l' \<Longrightarrow> B r r' \<Longrightarrow> C (l @ r) (r' @ l')"
  shows "\<exists>zs. list_all2 C (join_rows m Inner rs L R) zs \<and> mset zs = mset (join_rows m' Inner rs' R' L')"
proof (intro exI conjI)
  let ?zs = "concat (map (\<lambda>l'. map (\<lambda>r'. r' @ l') (filter (\<lambda>r'. m' r' l') R')) L')"
  have "list_all2 C (map (\<lambda>r. l @ r) (filter (m l) R)) (map (\<lambda>r'. r' @ l') (filter (\<lambda>r'. m' r' l') R'))"
    if "A l l'" for l l'
    by (rule list_all2_maps[OF list_all2_filters[OF assms(2)]]) (use assms(3,4)[OF that] in auto)
  then show "list_all2 C (join_rows m Inner rs L R) ?zs"
    by (auto simp: join_rows_def intro!: list_all2_concat list_all2_maps[OF assms(1)])
  show "mset ?zs = mset (join_rows m' Inner rs' R' L')"
    by (simp only: join_rows_def JoinType.case mset_pairs_swap[of "\<lambda>l' r'. r' @ l'" "\<lambda>l' r'. m' r' l'" R' L'])
qed

section \<open>Where columns are\<close>

text \<open>Plans whose columns are those of the scans and joins below, before narrowing.\<close>

fun over_scan :: "plan \<Rightarrow> bool" where
  "over_scan (LScan s) \<longleftrightarrow> True"
| "over_scan (LJoin l r lk rk jt res) \<longleftrightarrow> True"
| "over_scan (LFilter c p est) \<longleftrightarrow> over_scan c"
| "over_scan (LSort c keys) \<longleftrightarrow> over_scan c"
| "over_scan (LLimit c n) \<longleftrightarrow> over_scan c"
| "over_scan (LProjection c items) \<longleftrightarrow> False"
| "over_scan (LAggregate c g a) \<longleftrightarrow> False"

lemma over_scan_references: "over_scan p \<Longrightarrow> references_scan_schema p"
proof (induction p)
  case (LFilter c p est)
  then show ?case by (cases c) auto
qed auto

definition side_ok :: "ObjectStore \<Rightarrow> TableSourceResolver option \<Rightarrow> plan \<Rightarrow> bool" where
  "side_ok store extra c \<longleftrightarrow> over_scan c \<or>
     (case convert store extra c of
        Inl _ \<Rightarrow> True
      | Inr pp \<Rightarrow> find_scan_boundary pp = Some (identity_boundary pp))"

text \<open>A projected column carries the type it has below.\<close>

definition typed_items :: "plan \<Rightarrow> NamedExpression list \<Rightarrow> bool" where
  "typed_items c items \<longleftrightarrow>
     list_all (\<lambda>it. list_all (\<lambda>(i, t). i < length (output_schema c) \<and>
       to_arrow_type t = to_arrow_type (ftype (output_schema c ! i))) (col_refs (nexpr it))) items"

text \<open>
  The plans for which the search for a scan boundary finds the right one: below a join, and below
  a node that takes its columns for scan columns, a derived table has kept its own projection or
  aggregate.
\<close>

fun boundaries_ok :: "ObjectStore \<Rightarrow> TableSourceResolver option \<Rightarrow> plan \<Rightarrow> bool" where
  "boundaries_ok store extra (LScan s) \<longleftrightarrow> distinct (map fname (scan_schema s))"
| "boundaries_ok store extra (LJoin l r lk rk jt res) \<longleftrightarrow>
     boundaries_ok store extra l \<and> boundaries_ok store extra r \<and>
     side_ok store extra l \<and> side_ok store extra r \<and>
     (res = None \<or> jt = LeftSemi \<or> jt = LeftAnti)"
| "boundaries_ok store extra (LFilter c p est) \<longleftrightarrow>
     boundaries_ok store extra c \<and> (\<not> references_scan_schema c \<or> side_ok store extra c)"
| "boundaries_ok store extra (LProjection c items) \<longleftrightarrow>
     boundaries_ok store extra c \<and> (\<not> references_scan_schema c \<or> side_ok store extra c) \<and>
     typed_items c items"
| "boundaries_ok store extra (LAggregate c g a) \<longleftrightarrow>
     boundaries_ok store extra c \<and> (\<not> references_scan_schema c \<or> side_ok store extra c)"
| "boundaries_ok store extra (LSort c keys) \<longleftrightarrow>
     boundaries_ok store extra c \<and> (\<not> references_scan_schema c \<or> side_ok store extra c)"
| "boundaries_ok store extra (LLimit c n) \<longleftrightarrow> boundaries_ok store extra c"

text \<open>The map that describes a converted plan, and what it says of the schemas.\<close>

definition boundary_map :: "plan \<Rightarrow> pplan \<Rightarrow> column_map" where
  "boundary_map p pp = (if over_scan p then the (find_scan_boundary pp) else identity_boundary pp)"

definition placed :: "column_map \<Rightarrow> Schema \<Rightarrow> Schema \<Rightarrow> bool" where
  "placed cm s s' \<longleftrightarrow> length cm = length s \<and>
     (\<forall>i j. lookup_map cm i = Some j \<longrightarrow>
        j < length s' \<and> to_arrow_type (ftype (s' ! j)) = to_arrow_type (ftype (s ! i)))"

definition converts :: "plan \<Rightarrow> pplan \<Rightarrow> bool" where
  "converts p pp \<longleftrightarrow> placed (boundary_map p pp) (output_schema p) (p_output_schema pp) \<and>
     (over_scan p \<longrightarrow> find_scan_boundary pp \<noteq> None) \<and>
     (\<not> over_scan p \<longrightarrow> length (p_output_schema pp) = length (output_schema p))"

lemma lookup_identity [simp]:
  "lookup_map (identity_boundary pp) i = (if i < length (p_output_schema pp) then Some i else None)"
  by (simp add: lookup_map_def identity_boundary_def)

lemma lookup_bound: "lookup_map cm i = Some j \<Longrightarrow> i < length cm \<and> cm ! i = Some j"
  by (simp add: lookup_map_def split: if_splits)

lemma lookup_append:
  "lookup_map (a @ b) i = (if i < length a then lookup_map a i else lookup_map b (i - length a))"
  by (auto simp: lookup_map_def nth_append)

lemma lookup_shift: "lookup_map (shift_map k cm) i = map_option (\<lambda>j. k + j) (lookup_map cm i)"
  by (simp add: lookup_map_def shift_map_def)

lemma length_shift: "length (shift_map k cm) = length cm"
  by (simp add: shift_map_def)

lemma boundary_found:
  assumes "side_ok store extra c" "convert store extra c = Inr pp" "converts c pp"
  shows "find_scan_boundary pp = Some (boundary_map c pp)"
  using assms by (auto simp: side_ok_def boundary_map_def converts_def)

lemma boundary_for_cases:
  assumes "\<not> references_scan_schema c \<or> side_ok store extra c" "convert store extra c = Inr pp" "converts c pp"
  shows "boundary_for c pp = Some (boundary_map c pp) \<or> (boundary_for c pp = None \<and> \<not> over_scan c)"
  using boundary_found[OF _ assms(2,3)] assms(1) over_scan_references[of c] by (auto simp: boundary_for_def)

section \<open>Narrowed scans\<close>

definition narrowed :: "Schema \<Rightarrow> narrowing \<Rightarrow> bool" where
  "narrowed s w \<longleftrightarrow> length (nw_map w) = length s \<and>
     (\<forall>i j. lookup_map (nw_map w) i = Some j \<longrightarrow> j < length (nw_fields w) \<and> nw_fields w ! j = s ! i)"

lemma narrowed_step:
  assumes "narrowed s w"
  shows "narrowed (s @ [f]) (narrow_field required parts w f)"
proof -
  have "narrowed (s @ [f]) (w\<lparr>nw_map := nw_map w @ [None]\<rparr>)"
    and "narrowed (s @ [f]) (w\<lparr>nw_fields := nw_fields w @ [f], nw_map := nw_map w @ [Some (length (nw_fields w))]\<rparr>)"
    using assms by (auto simp: narrowed_def lookup_append lookup_map_def nth_append split: if_splits)
  then show ?thesis by (auto simp: narrow_field_def Let_def narrowed_def split: option.splits)
qed

lemma narrowed_fold:
  "narrowed s w \<Longrightarrow> narrowed (s @ fs) (foldl (narrow_field required parts) w fs)"
proof (induction fs arbitrary: s w)
  case (Cons f fs)
  then show ?case using Cons.IH[OF narrowed_step[OF Cons.prems]] by simp
qed simp

lemma narrowed_scan: "narrowed (scan_schema s) (narrow_scan s)"
  unfolding narrow_scan_def using narrowed_fold[of "[]"] by (simp add: narrowed_def lookup_map_def)

lemma narrowed_keep:
  assumes "narrowed (scan_schema s) w"
  shows "narrowed (scan_schema s) (keep_one_column s w)"
proof (cases "scan_schema s")
  case (Cons f fs)
  have "lookup_map ((nw_map w)[0 := Some k]) i = (if i = 0 then Some k else lookup_map (nw_map w) i)" for i k
    using assms Cons by (auto simp: lookup_map_def narrowed_def)
  then show ?thesis using assms Cons
    by (auto simp: keep_one_column_def narrowed_def nth_append less_SucI)
qed (use assms in \<open>simp add: keep_one_column_def\<close>)

text \<open>The reader delivers the columns of the scan's schema by name.\<close>

definition read_scan :: "engine \<Rightarrow> LogicalScan \<Rightarrow> ParquetScanNode \<Rightarrow> row list" where
  "read_scan E s n =
     map (\<lambda>row. map (\<lambda>f. case find_field (scan_schema s) (fname f) of
                             None \<Rightarrow> na_datum | Some i \<Rightarrow> col_at row i) (ps_schema n))
       (e_data E (source_paths s))"

fun plan_scans :: "plan \<Rightarrow> LogicalScan list" where
  "plan_scans (LScan s) = [s]"
| "plan_scans (LJoin l r lk rk jt res) = plan_scans l @ plan_scans r"
| "plan_scans (LFilter c p est) = plan_scans c"
| "plan_scans (LProjection c items) = plan_scans c"
| "plan_scans (LAggregate c g a) = plan_scans c"
| "plan_scans (LSort c keys) = plan_scans c"
| "plan_scans (LLimit c n) = plan_scans c"

definition reads_scans ::
  "engine \<Rightarrow> (ParquetScanNode \<Rightarrow> row list) \<Rightarrow> ObjectStore \<Rightarrow> TableSourceResolver option \<Rightarrow> plan \<Rightarrow> bool" where
  "reads_scans E D store extra p \<longleftrightarrow>
     list_all (\<lambda>s. case convert_scan store extra s of
         Inr (PScan n) \<Rightarrow> D n = read_scan E s n
       | _ \<Rightarrow> True) (plan_scans p)"

lemma convert_scan_narrowed:
  assumes "convert_scan store extra s = Inr pp"
  obtains n where "pp = PScan n" "ps_schema n = nw_fields (keep_one_column s (narrow_scan s))"
    "original_column_map n = nw_map (keep_one_column s (narrow_scan s))"
  using assms by (auto simp: convert_scan_def bindR_eq_Inr Let_def)

lemma read_scan_moved:
  assumes "convert_scan store extra s = Inr (PScan n)" "distinct (map fname (scan_schema s))"
  shows "list_all2 (\<lambda>r r'. length r' = length (ps_schema n) \<and> moved (original_column_map n) r r')
    (e_data E (source_paths s)) (read_scan E s n)"
proof -
  have w: "narrowed (scan_schema s) (keep_one_column s (narrow_scan s))"
    by (rule narrowed_keep[OF narrowed_scan])
  have n: "ps_schema n = nw_fields (keep_one_column s (narrow_scan s))"
    "original_column_map n = nw_map (keep_one_column s (narrow_scan s))"
    using convert_scan_narrowed[OF assms(1)] by auto
  have "j < length (ps_schema n) \<and> find_field (scan_schema s) (fname (ps_schema n ! j)) = Some i"
    if "lookup_map (original_column_map n) i = Some j" for i j
    using w that lookup_bound[OF that] find_field_distinct[OF assms(2)] unfolding n narrowed_def by auto
  then show ?thesis
    by (auto simp: read_scan_def moved_def col_at_def[of "map _ _"] list.rel_map intro!: list_all2_refl)
qed


section \<open>Schemas of converted plans\<close>

definition remap_opt :: "column_map option \<Rightarrow> expression \<Rightarrow> expression result" where
  "remap_opt b e = (case b of None \<Rightarrow> Inr e | Some cm \<Rightarrow> remap_columns e cm)"

lemma remap_opt_type: "remap_opt b e = Inr e' \<Longrightarrow> result_type e' = result_type e"
  by (auto simp: remap_opt_def remap_columns_type split: option.splits)

lemma remap_named_opt:
  "(case b of None \<Rightarrow> Inr items | Some cm \<Rightarrow> remap_named items cm) = Inr items' \<longleftrightarrow>
     list_all2 (\<lambda>it it'. nname it' = nname it \<and> remap_opt b (nexpr it) = Inr (nexpr it')) items items'"
proof (cases b)
  case None
  have "items = items' \<longleftrightarrow> list_all2 (=) items items'" by (simp add: list.rel_eq)
  then show ?thesis using None
    by (auto simp: remap_opt_def list_all2_conv_all_nth intro!: nth_equalityI NamedExpression.equality)
next
  case (Some cm)
  have "bindR (remap_columns (nexpr it) cm) (\<lambda>e. Inr \<lparr>nexpr = e, nname = nname it\<rparr>) = Inr it' \<longleftrightarrow>
      nname it' = nname it \<and> remap_columns (nexpr it) cm = Inr (nexpr it')" for it it' :: NamedExpression
    by (cases it') (auto simp: bindR_eq_Inr)
  with Some show ?thesis by (simp add: remap_named_def mapR_eq_Inr remap_opt_def)
qed

lemma remap_keys_opt:
  "(case b of None \<Rightarrow> Inr keys | Some cm \<Rightarrow> remap_keys keys cm) = Inr keys' \<longleftrightarrow>
     list_all2 (\<lambda>k k'. ascending k' = ascending k \<and> remap_opt b (skey k) = Inr (skey k')) keys keys'"
proof (cases b)
  case None
  have "keys = keys' \<longleftrightarrow> list_all2 (=) keys keys'" by (simp add: list.rel_eq)
  then show ?thesis using None
    by (auto simp: remap_opt_def list_all2_conv_all_nth intro!: nth_equalityI SortKey.equality)
next
  case (Some cm)
  have "bindR (remap_columns (skey k) cm) (\<lambda>e. Inr \<lparr>skey = e, ascending = ascending k\<rparr>) = Inr k' \<longleftrightarrow>
      ascending k' = ascending k \<and> remap_columns (skey k) cm = Inr (skey k')" for k k' :: SortKey
    by (cases k') (auto simp: bindR_eq_Inr)
  with Some show ?thesis by (simp add: remap_keys_def mapR_eq_Inr remap_opt_def)
qed

lemma items_schema_remapped:
  "list_all2 (\<lambda>it it'. nname it' = nname it \<and> remap_opt b (nexpr it) = Inr (nexpr it')) items items' \<Longrightarrow>
     items_schema items' = items_schema items"
  by (induction rule: list_all2_induct) (auto simp: items_schema_def remap_opt_type)

lemma placed_identity:
  assumes "length s' = length s"
    "\<And>i. i < length s \<Longrightarrow> to_arrow_type (ftype (s' ! i)) = to_arrow_type (ftype (s ! i))"
    "s' = p_output_schema pp"
  shows "placed (identity_boundary pp) s s'"
  using assms by (auto simp: placed_def split: if_splits) (simp add: identity_boundary_def)

lemma nullable_arrow_type [simp]: "to_arrow_type (t\<lparr>nullable := b\<rparr>) = to_arrow_type t"
  by (cases "type_id t") auto

text \<open>Maps of two sides, side by side.\<close>

lemma placed_append:
  assumes l: "placed lm sl sl'" and r: "placed rm sr sr'"
  shows "placed (lm @ shift_map (length sl') rm) (sl @ sr) (sl' @ sr')"
    and "placed (shift_map (length sr') lm @ rm) (sl @ sr) (sr' @ sl')"
proof -
  show "placed (lm @ shift_map (length sl') rm) (sl @ sr) (sl' @ sr')"
    using l r by (fastforce simp: placed_def length_shift lookup_append lookup_shift nth_append split: if_splits)
  show "placed (shift_map (length sr') lm @ rm) (sl @ sr) (sr' @ sl')"
    using l r by (fastforce simp: placed_def length_shift lookup_append lookup_shift nth_append split: if_splits)
qed

lemma shift_map_0 [simp]: "shift_map 0 cm = cm"
  unfolding shift_map_def
proof (rule map_idI)
  show "map_option (\<lambda>j. 0 + j) x = x" for x :: "nat option" by (cases x) auto
qed

lemma placed_like:
  assumes "placed cm s s'" "map (to_arrow_type \<circ> ftype) s = map (to_arrow_type \<circ> ftype) t"
    "map (to_arrow_type \<circ> ftype) s' = map (to_arrow_type \<circ> ftype) t'"
  shows "placed cm t t'"
proof -
  have len: "length s = length t" "length s' = length t'" using assms(2,3) map_eq_imp_length_eq by blast+
  have "to_arrow_type (ftype (s ! i)) = to_arrow_type (ftype (t ! i))" if "i < length s" for i
    using arg_cong[OF assms(2), of "\<lambda>x. x ! i"] that len by simp
  moreover have "to_arrow_type (ftype (s' ! i)) = to_arrow_type (ftype (t' ! i))" if "i < length s'" for i
    using arg_cong[OF assms(3), of "\<lambda>x. x ! i"] that len by simp
  ultimately show ?thesis using assms(1) len by (auto simp: placed_def dest!: lookup_bound)
      (metis lookup_map_def)
qed

lemma placed_join:
  assumes l: "placed lm sl sl'" and r: "placed rm sr sr'" and sw: "swap \<Longrightarrow> jt = Inner"
  shows "placed (combined_column_map swap jt lm rm (length sl') (length sr')) (join_schema sl sr jt)
    (if swap then join_schema sr' sl' jt else join_schema sl' sr' jt)"
proof (cases "jt = LeftSemi \<or> jt = LeftAnti")
  case True
  then show ?thesis using l sw by (auto simp: combined_column_map_def join_schema_def)
next
  case False
  have ty: "map (to_arrow_type \<circ> ftype) (join_schema a b jt) = map (to_arrow_type \<circ> ftype) (a @ b)" for a b
    using False by (simp add: join_schema_def)
  show ?thesis
  proof (cases swap)
    case True
    then show ?thesis using placed_append(2)[OF l r] sw
      by (simp add: combined_column_map_def join_schema_def)
  next
    case False
    with placed_append(1)[OF l r] \<open>\<not> (jt = LeftSemi \<or> jt = LeftAnti)\<close> show ?thesis
      by (auto simp: combined_column_map_def intro: placed_like[OF _ ty[symmetric] ty[symmetric]])
  qed
qed

lemma remapped_column:
  assumes "boundary_for c pp = Some (boundary_map c pp) \<or> (boundary_for c pp = None \<and> \<not> over_scan c)"
    and "remap_opt (boundary_for c pp) e = Inr (Column n i t)" "converts c pp" "i < length (p_output_schema pp)"
  obtains k where "e = Column n k t" "lookup_map (boundary_map c pp) k = Some i"
proof -
  from assms(2) obtain k where k: "e = Column n k t"
    by (cases e) (auto simp: remap_opt_def remap_columns_iff split: option.splits)
  moreover have "lookup_map (boundary_map c pp) k = Some i"
    using assms(1)
  proof
    assume "boundary_for c pp = Some (boundary_map c pp)"
    then show ?thesis using assms(2) k by (auto simp: remap_opt_def remap_columns_iff)
  next
    assume "boundary_for c pp = None \<and> \<not> over_scan c"
    then show ?thesis using assms(2,4) k by (auto simp: remap_opt_def boundary_map_def)
  qed
  ultimately show ?thesis using that by blast
qed

lemma identity_item:
  assumes "is_identity_projection items s" "i < length s"
  shows "\<exists>n t. nexpr (items ! i) = Column n i t"
proof -
  from assms have "case nexpr (items ! i) of Column n k t \<Rightarrow> k = i \<and> nname (items ! i) = fname (s ! i) | _ \<Rightarrow> False"
    by (auto simp: is_identity_projection_def list_all_iff)
  then show ?thesis by (cases "nexpr (items ! i)") auto
qed

lemma projection_converts:
  assumes b: "boundary_for c pp = Some (boundary_map c pp) \<or> (boundary_for c pp = None \<and> \<not> over_scan c)"
    and c: "converts c pp" and ty: "typed_items c items"
    and items: "list_all2 (\<lambda>it it'. nname it' = nname it \<and>
      remap_opt (boundary_for c pp) (nexpr it) = Inr (nexpr it')) items items'"
    and id: "is_identity_projection items' (p_output_schema pp)"
  shows "converts (LProjection c items) pp"
proof -
  let ?s = "p_output_schema pp"
  have len: "length items' = length ?s" "length items' = length items"
    using id items by (auto simp: is_identity_projection_def dest: list_all2_lengthD)
  have ty_i: "to_arrow_type (ftype (?s ! i)) = to_arrow_type (result_type (nexpr (items ! i)))" if i: "i < length ?s" for i
  proof -
    from identity_item[OF id i] obtain n t where col: "nexpr (items' ! i) = Column n i t" by blast
    have "remap_opt (boundary_for c pp) (nexpr (items ! i)) = Inr (Column n i t)"
      using items i len col by (auto dest!: list_all2_nthD)
    from remapped_column[OF b this c i] obtain k where k: "nexpr (items ! i) = Column n k t"
      "lookup_map (boundary_map c pp) k = Some i" .
    moreover have "items ! i \<in> set items" using i len by simp
    ultimately show ?thesis using ty c by (auto simp: typed_items_def converts_def placed_def list_all_iff)
  qed
  have "placed (identity_boundary pp) (items_schema items) ?s"
    using len ty_i by (intro placed_identity) (auto simp: items_schema_def)
  then show ?thesis using len by (simp add: converts_def boundary_map_def items_schema_def)
qed

lemma same_schema_converts:
  assumes "p_output_schema pp = output_schema p" "\<not> over_scan p"
  shows "converts p pp"
  using assms by (auto simp: converts_def boundary_map_def intro!: placed_identity)

lemma convert_join_cases:
  assumes "convert_join left right lk rk jt res = Inr pp"
    and b: "find_scan_boundary left = Some lm" "find_scan_boundary right = Some rm"
  obtains swap lk' rk' res' cm est where "swap \<Longrightarrow> jt = Inner"
    "lookup_map lm lk = Some lk'" "lookup_map rm rk = Some rk'"
    "cm = combined_column_map swap jt lm rm (length (p_output_schema left)) (length (p_output_schema right))"
    "(res = None \<and> res' = None) \<or> (\<exists>e e'. res = Some e \<and> res' = Some e' \<and>
       remap_join_residual_predicate e lm rm (length lm) (length (p_output_schema left)) = Inr e')"
    "pp = (if swap then PJoin right left rk' lk' jt res' cm est else PJoin left right lk' rk' jt res' cm est)"
proof -
  let ?le = "estimate_row_count left" and ?re = "estimate_row_count right"
  let ?swap = "swap_for_build_side jt ?le ?re"
  obtain lk' rk' where k: "lookup_map lm lk = Some lk'" "lookup_map rm rk = Some rk'"
    using assms by (auto simp: convert_join_def split: option.splits)
  obtain res' where r: "(res = None \<and> res' = None) \<or> (\<exists>e e'. res = Some e \<and> res' = Some e' \<and>
      remap_join_residual_predicate e lm rm (length lm) (length (p_output_schema left)) = Inr e')"
    and pp: "Inr pp = convert_join left right lk rk jt res"
      "(case res of None \<Rightarrow> Inr None | Some e \<Rightarrow>
        bindR (remap_join_residual_predicate e lm rm (length lm) (length (p_output_schema left)))
          (\<lambda>e'. Inr (Some e'))) = (Inr res' :: expression option result)"
    using assms(1) by (cases res) (auto simp: convert_join_def b k Let_def bindR_eq_Inr)
  show ?thesis
    by (rule that[OF _ k refl r, of ?swap "if ?le \<noteq> None \<and> ?re \<noteq> None then (if ?swap then ?le else ?re) else None"])
       (use pp(1) in \<open>simp_all add: convert_join_def b k Let_def pp(2) swap_for_build_side_def\<close>)
qed

lemma convert_converts:
  "boundaries_ok store extra p \<Longrightarrow> convert store extra p = Inr pp \<Longrightarrow> converts p pp"
proof (induction p arbitrary: pp)
  case (LScan s)
  then have "convert_scan store extra s = Inr pp" by simp
  then obtain n where n: "pp = PScan n" "ps_schema n = nw_fields (keep_one_column s (narrow_scan s))"
    "original_column_map n = nw_map (keep_one_column s (narrow_scan s))" by (rule convert_scan_narrowed)
  then show ?case using narrowed_keep[OF narrowed_scan, of s]
    by (auto simp: converts_def boundary_map_def placed_def narrowed_def)
next
  case (LJoin l r lk rk jt res)
  then obtain left right where lr: "convert store extra l = Inr left" "convert store extra r = Inr right"
    "convert_join left right lk rk jt res = Inr pp" by (auto simp: bindR_eq_Inr)
  have IH: "converts l left" "converts r right" using LJoin lr by auto
  have b: "find_scan_boundary left = Some (boundary_map l left)"
    "find_scan_boundary right = Some (boundary_map r right)"
    using boundary_found LJoin.prems(1) lr IH by auto
  from convert_join_cases[OF lr(3) b] obtain swap lk' rk' res' cm est where j: "swap \<Longrightarrow> jt = Inner"
    "cm = combined_column_map swap jt (boundary_map l left) (boundary_map r right)
       (length (p_output_schema left)) (length (p_output_schema right))"
    "pp = (if swap then PJoin right left rk' lk' jt res' cm est else PJoin left right lk' rk' jt res' cm est)"
    by metis
  have "find_scan_boundary pp = Some cm"
    "p_output_schema pp = (if swap then join_schema (p_output_schema right) (p_output_schema left) jt
       else join_schema (p_output_schema left) (p_output_schema right) jt)"
    using j(3) by auto
  moreover have "placed cm (join_schema (output_schema l) (output_schema r) jt) (p_output_schema pp)"
    unfolding j(2) calculation(2) by (rule placed_join) (use IH j(1) in \<open>auto simp: converts_def\<close>)
  ultimately show ?case by (simp add: converts_def boundary_map_def)
next
  case (LProjection c items)
  then obtain child items' where c: "convert store extra c = Inr child"
    "list_all2 (\<lambda>it it'. nname it' = nname it \<and> remap_opt (boundary_for c child) (nexpr it) = Inr (nexpr it')) items items'"
    "pp = (if is_identity_projection items' (p_output_schema child) then child else PProjection child items')"
    by (auto simp: bindR_eq_Inr remap_named_opt)
  have IH: "converts c child" using LProjection c by auto
  note b = boundary_for_cases[OF _ c(1) IH]
  show ?case
  proof (cases "is_identity_projection items' (p_output_schema child)")
    case True
    then show ?thesis using projection_converts[OF b IH _ c(2)] LProjection.prems(1) c(3) by simp
  next
    case False
    then show ?thesis using c(3) items_schema_remapped[OF c(2)] by (intro same_schema_converts) auto
  qed
next
  case (LAggregate c g a)
  then obtain child a' g' where c: "convert store extra c = Inr child"
    "list_all2 (\<lambda>it it'. nname it' = nname it \<and> remap_opt (boundary_for c child) (nexpr it) = Inr (nexpr it')) a a'"
    "pp = PScalarAggregate child a' \<and> g = [] \<or> pp = PHashAggregate child g' a' \<and>
      list_all2 (\<lambda>it it'. nname it' = nname it \<and> remap_opt (boundary_for c child) (nexpr it) = Inr (nexpr it')) g g'"
    by (auto simp: bindR_eq_Inr remap_named_opt split: if_splits)
  then show ?case using items_schema_remapped[OF c(2)] items_schema_remapped[of "boundary_for c child" g g']
    by (intro same_schema_converts) (auto simp: items_schema_def)
qed (auto simp: bindR_eq_Inr converts_def boundary_map_def identity_boundary_def)


section \<open>Rows of converted plans\<close>

definition related :: "plan \<Rightarrow> pplan \<Rightarrow> row \<Rightarrow> row \<Rightarrow> bool" where
  "related p pp r r' \<longleftrightarrow> length r = length (output_schema p) \<and> length r' = length (p_output_schema pp) \<and>
     moved (boundary_map p pp) r r' \<and> (\<not> over_scan p \<longrightarrow> r' = r)"

definition boundary_fits :: "plan \<Rightarrow> pplan \<Rightarrow> bool" where
  "boundary_fits c pp \<longleftrightarrow>
     boundary_for c pp = Some (boundary_map c pp) \<or> (boundary_for c pp = None \<and> \<not> over_scan c)"

lemma boundary_fits_converted:
  assumes "boundaries_ok store extra c" "\<not> references_scan_schema c \<or> side_ok store extra c"
    "convert store extra c = Inr pp"
  shows "boundary_fits c pp"
  using boundary_for_cases[OF assms(2,3) convert_converts[OF assms(1,3)]] by (simp add: boundary_fits_def)

text \<open>Filters, sorts and limits keep the columns of their child.\<close>

lemma related_pass:
  "related (LFilter c q est) (PFilter cc q') = related c cc"
  "related (LSort c keys) (PSort cc keys') = related c cc"
  "related (LLimit c n) (PLimit cc m) = related c cc"
  by (auto simp: related_def boundary_map_def identity_boundary_def fun_eq_iff)

lemma remap_opt_eval:
  assumes "boundary_fits c pp" "remap_opt (boundary_for c pp) e = Inr e'" "related c pp r r'"
  shows "eval K r' e' = eval K r e"
  using assms(1) unfolding boundary_fits_def
proof
  assume "boundary_for c pp = Some (boundary_map c pp)"
  then show ?thesis using assms(2,3) by (auto simp: remap_opt_def related_def intro: remap_columns_eval)
next
  assume "boundary_for c pp = None \<and> \<not> over_scan c"
  then show ?thesis using assms(2,3) by (simp add: remap_opt_def related_def)
qed

lemma remapped_items_eval:
  assumes "list_all2 (\<lambda>it it'. nname it' = nname it \<and> remap_opt (boundary_for c pp) (nexpr it) = Inr (nexpr it'))
      items items'" "boundary_fits c pp" "related c pp r r'"
  shows "eval_items E items' r' = eval_items E items r"
  using assms(1) unfolding eval_items_def
  by (induction rule: list_all2_induct) (auto intro: remap_opt_eval[OF assms(2) _ assms(3)])

lemma remapped_agg_eval:
  assumes "remap_opt (boundary_for c pp) e = Inr e'" "boundary_fits c pp" "list_all2 (related c pp) xs xs'"
  shows "eval_agg E xs' e' = eval_agg E xs e"
proof -
  have ev: "map (\<lambda>row. eval K row a') xs' = map (\<lambda>row. eval K row a) xs"
    if "remap_opt (boundary_for c pp) a = Inr a'" for K a a'
    using assms(3) by (induction rule: list_all2_induct) (auto intro: remap_opt_eval[OF assms(2) that])
  have len: "map (\<lambda>row. d) xs' = map (\<lambda>row. d) xs" for d :: datum
    using assms(3) by (induction rule: list_all2_induct) auto
  show ?thesis
  proof (cases e)
    case (Aggregate f arg t)
    show ?thesis
    proof (cases "boundary_for c pp")
      case None
      then show ?thesis using assms(1) Aggregate ev len
        by (cases arg) (auto simp: remap_opt_def eval_agg_def)
    next
      case (Some cm)
      then show ?thesis using assms(1) Aggregate ev len
        by (cases arg) (auto simp: remap_opt_def remap_columns_iff eval_agg_def)
    qed
  qed (use assms(1) in \<open>auto simp: remap_opt_def remap_columns_iff eval_agg_def split: option.splits\<close>)
qed

lemma moved_append:
  assumes "moved lm l l'" "moved rm r r'" "placed lm sl sl'" "placed rm sr sr'"
    "length l = length sl" "length r = length sr" "length l' = length sl'" "length r' = length sr'"
  shows "moved (lm @ shift_map (length sl') rm) (l @ r) (l' @ r')"
    and "moved (shift_map (length sr') lm @ rm) (l @ r) (r' @ l')"
proof -
  have c: "col_at (a @ b) i = (if i < length a then col_at a i else col_at b (i - length a))" for a b i
    by (auto simp: col_at_def nth_append)
  have m: "lookup_map cm i = Some j \<Longrightarrow> moved cm x x' \<Longrightarrow> col_at x' j = col_at x i" for cm i j x x'
    by (simp add: moved_def)
  show "moved (lm @ shift_map (length sl') rm) (l @ r) (l' @ r')"
    unfolding moved_def using assms
    by (auto simp: lookup_append lookup_shift c length_shift placed_def dest: m split: if_splits)
  show "moved (shift_map (length sr') lm @ rm) (l @ r) (r' @ l')"
    unfolding moved_def using assms
    by (auto simp: lookup_append lookup_shift c length_shift placed_def dest: m split: if_splits)
qed

lemma resolver_residual:
  "resolver (residual_index lm rm (length lm) k) (\<lambda>i. lookup_map (lm @ shift_map k rm) i \<noteq> None)
     (\<lambda>i. the (lookup_map (lm @ shift_map k rm) i))"
  by unfold_locales
     (auto simp: residual_index_def resolve_in_def lookup_append lookup_shift
       split: option.splits if_splits)

lemma residual_holds:
  assumes "remap_join_residual_predicate e lm rm (length lm) k = Inr e'" "moved (lm @ shift_map k rm) r r'"
  shows "holds E r' e' = holds E r e"
  using assms unfolding holds_def remap_join_residual_predicate_def resolver.remap_via[OF resolver_residual]
  by (auto simp: moved_def intro!: arg_cong[of _ _ is_true] ren.rn_eval)


text \<open>An engine that compares keys symmetrically may build a join from either side.\<close>

locale bag_engine = natural_sort +
  assumes keyeq_sym: "e_keyeq E a b = e_keyeq E b a"
begin

lemma join_related:
  assumes b: "find_scan_boundary left = Some (boundary_map l left)"
      "find_scan_boundary right = Some (boundary_map r right)"
    and conv: "converts l left" "converts r right" "convert_join left right lk rk jt res = Inr pp"
    and res: "res = None \<or> jt = LeftSemi \<or> jt = LeftAnti"
    and pp: "p_returns E D pp rows'"
  obtains left_rows right_rows where "p_returns E D left left_rows" "p_returns E D right right_rows"
    "\<And>L R. list_all2 (related l left) L left_rows \<Longrightarrow> list_all2 (related r right) R right_rows \<Longrightarrow>
       \<exists>rows. mset rows = mset (join_rows (join_match E lk rk res) jt (output_schema r) L R) \<and>
         list_all2 (related (LJoin l r lk rk jt res) pp) rows rows'"
proof -
  let ?lm = "boundary_map l left" and ?rm = "boundary_map r right"
  let ?ls = "p_output_schema left" and ?rs = "p_output_schema right"
  from convert_join_cases[OF conv(3) b] obtain swap lk' rk' res' cm est where j: "swap \<Longrightarrow> jt = Inner"
    "lookup_map ?lm lk = Some lk'" "lookup_map ?rm rk = Some rk'"
    "cm = combined_column_map swap jt ?lm ?rm (length ?ls) (length ?rs)"
    "(res = None \<and> res' = None) \<or> (\<exists>e e'. res = Some e \<and> res' = Some e' \<and>
       remap_join_residual_predicate e ?lm ?rm (length ?lm) (length ?ls) = Inr e')"
    "pp = (if swap then PJoin right left rk' lk' jt res' cm est else PJoin left right lk' rk' jt res' cm est)"
    by metis
  let ?R = "related (LJoin l r lk rk jt res) pp"
  have pl: "placed ?lm (output_schema l) ?ls" "placed ?rm (output_schema r) ?rs" using conv by (auto simp: converts_def)
  have bm: "boundary_map (LJoin l r lk rk jt res) pp = cm" using j(6) by (auto simp: boundary_map_def)
  note mv = moved_append[OF _ _ pl]
  show ?thesis
  proof (cases swap)
    case True
    then have inner: "jt = Inner" "res = None" "res' = None" using j(1,5) res by auto
    from pp j(6) True obtain L' R' where rows: "p_returns E D left L'" "p_returns E D right R'"
      "mset rows' = mset (join_rows (join_match E rk' lk' None) Inner ?ls R' L')"
      by (auto simp: p_returns_simps inner)
    show ?thesis
    proof (rule that[OF rows(1,2)])
      fix L R assume LR: "list_all2 (related l left) L L'" "list_all2 (related r right) R R'"
      have "\<exists>zs. list_all2 ?R (join_rows (join_match E lk rk None) Inner (output_schema r) L R) zs \<and>
          mset zs = mset (join_rows (join_match E rk' lk' None) Inner ?ls R' L')"
      proof (rule join_rows_swap[OF LR])
        fix l1 l1' r1 r1' assume m: "related l left l1 l1'" "related r right r1 r1'"
        then show "join_match E rk' lk' None r1' l1' = join_match E lk rk None l1 r1"
          using j(2,3) keyeq_sym by (simp add: join_match_def related_def moved_def)
        show "?R (l1 @ r1) (r1' @ l1')"
          using m mv(2)[of l1 l1' r1 r1'] True j(4,6) inner bm
          by (simp add: related_def join_schema_def combined_column_map_def)
      qed
      with rows(3) reorder_related show "\<exists>rows. mset rows = mset (join_rows (join_match E lk rk res) jt (output_schema r) L R) \<and>
          list_all2 ?R rows rows'" unfolding inner by metis
    qed
  next
    case False
    from pp j(6) False obtain L' R' where rows: "p_returns E D left L'" "p_returns E D right R'"
      "mset rows' = mset (join_rows (join_match E lk' rk' res') jt ?rs L' R')"
      by (auto simp: p_returns_simps)
    show ?thesis
    proof (rule that[OF rows(1,2)])
      fix L R assume LR: "list_all2 (related l left) L L'" "list_all2 (related r right) R R'"
      have sides: "moved (?lm @ shift_map (length ?ls) ?rm) (l1 @ r1) (l1' @ r1')"
        if "related l left l1 l1'" "related r right r1 r1'" for l1 l1' r1 r1'
        using that by (intro mv(1)) (auto simp: related_def)
      have null: "moved ?rm (null_row (output_schema r)) (null_row ?rs)"
        using pl(2) by (auto simp: moved_def placed_def null_row_def col_at_def dest: lookup_bound)
      have "list_all2 ?R (join_rows (join_match E lk rk res) jt (output_schema r) L R)
          (join_rows (join_match E lk' rk' res') jt ?rs L' R')"
      proof (rule join_rows_related[OF LR])
        fix l1 l1' r1 r1' assume m: "related l left l1 l1'" "related r right r1 r1'"
        show "join_match E lk' rk' res' l1' r1' = join_match E lk rk res l1 r1"
          using m j(2,3,5) residual_holds[OF _ sides[OF m]]
          by (auto simp: join_match_def related_def moved_def)
        assume "jt = Inner \<or> jt = LeftOuter"
        then show "?R (l1 @ r1) (l1' @ r1')"
          using m sides[OF m] False j(4,6) bm
          by (auto simp: related_def join_schema_def combined_column_map_def)
      next
        fix l1 l1' assume m: "related l left l1 l1'" "jt = LeftOuter"
        then show "?R (l1 @ null_row (output_schema r)) (l1' @ null_row ?rs)"
          using mv(1)[OF _ null, of l1 l1'] False j(4,6) bm
          by (auto simp: related_def join_schema_def combined_column_map_def null_row_def)
      next
        fix l1 l1' assume m: "related l left l1 l1'" "jt = LeftSemi \<or> jt = LeftAnti"
        then show "?R l1 l1'" using False j(4,6) bm
          by (auto simp: related_def join_schema_def combined_column_map_def)
      qed
      with rows(3) reorder_related show "\<exists>rows. mset rows = mset (join_rows (join_match E lk rk res) jt (output_schema r) L R) \<and>
          list_all2 ?R rows rows'" by metis
    qed
  qed
qed

lemma scan_returns:
  assumes "boundaries_ok store extra (LScan s)" "plan_wf E (LScan s)" "reads_scans E D store extra (LScan s)"
    and "convert_scan store extra s = Inr pp" "p_returns E D pp rows'"
  shows "\<exists>rows. returns E (LScan s) rows \<and> list_all2 (related (LScan s) pp) rows rows'"
proof -
  from assms(4) obtain n where n: "pp = PScan n" "convert_scan store extra s = Inr (PScan n)"
    by (auto elim: convert_scan_narrowed)
  have D: "D n = read_scan E s n" using assms(3) n(2) by (simp add: reads_scans_def)
  have "list_all2 (\<lambda>r r'. length r' = length (ps_schema n) \<and> moved (original_column_map n) r r')
      (e_data E (source_paths s)) (D n)"
    unfolding D by (rule read_scan_moved[OF n(2)]) (use assms(1) in simp)
  moreover have "\<forall>r \<in> set (e_data E (source_paths s)). length r = length (scan_schema s)"
    using assms(2) by (simp add: list_all_iff)
  ultimately have "list_all2 (related (LScan s) pp) (e_data E (source_paths s)) (D n)"
    by (auto simp: list_all2_conv_all_nth related_def boundary_map_def n(1))
  from reorder_related[OF this] assms(5) n(1) show ?thesis by (auto simp: p_returns_simps returns_simps)
qed

lemma projection_returns:
  assumes fit: "boundary_fits c child" and conv: "converts (LProjection c items) pp"
    and items: "list_all2 (\<lambda>it it'. nname it' = nname it \<and>
        remap_opt (boundary_for c child) (nexpr it) = Inr (nexpr it')) items items'"
    and pp: "pp = (if is_identity_projection items' (p_output_schema child) then child else PProjection child items')"
    and C': "rows' = (if is_identity_projection items' (p_output_schema child) then C' else map (eval_items E items') C')"
    and C: "returns E c C" "list_all2 (related c child) C C'"
  shows "\<exists>rows. returns E (LProjection c items) rows \<and> list_all2 (related (LProjection c items) pp) rows rows'"
proof -
  have id: "eval_items E items' r' = r'"
    if "is_identity_projection items' (p_output_schema child)" "length r' = length (p_output_schema child)" for r'
    using identity_item[OF that(1)] that
    by (auto simp: eval_items_def is_identity_projection_def intro!: nth_equalityI) fastforce
  have "map (eval_items E items') C' = map (eval_items E items) C"
    using C(2) by (induction rule: list_all2_induct) (auto simp: remapped_items_eval[OF items fit])
  moreover have "\<forall>r' \<in> set C'. length r' = length (p_output_schema child)"
    using C(2) by (induction rule: list_all2_induct) (auto simp: related_def)
  ultimately have "rows' = map (eval_items E items) C"
    using C' id by (auto simp: map_idI)
  moreover have "list_all2 (related (LProjection c items) pp) (map (eval_items E items) C) (map (eval_items E items) C)"
    using conv by (auto simp: list_all2_same related_def converts_def eval_items_def items_schema_def
        boundary_map_def moved_def split: if_splits)
  ultimately show ?thesis using C(1) by (auto simp: returns_simps)
qed

lemma sort_returns:
  assumes fit: "boundary_fits c child"
    and keys: "list_all2 (\<lambda>k k'. ascending k' = ascending k \<and>
        remap_opt (boundary_for c child) (skey k) = Inr (skey k')) keys keys'"
    and rows': "mset C'' = mset C'" "rows' = e_sort E (map ascending keys')
        (map (\<lambda>row. (map (\<lambda>k. eval (e_kernel E) row (skey k)) keys', row)) C'')"
    and C: "returns E c C" "list_all2 (related c child) C C'"
  shows "\<exists>rows. returns E (LSort c keys) rows \<and> list_all2 (related c child) rows rows'"
proof -
  let ?key = "\<lambda>keys row. map (\<lambda>k. eval (e_kernel E) row (skey k)) keys"
  from reorder_related[OF C(2) rows'(1)] obtain B where B: "mset B = mset C" "list_all2 (related c child) B C''"
    by blast
  have asc: "map ascending keys' = map ascending keys"
    using keys by (induction rule: list_all2_induct) auto
  have key: "?key keys' r' = ?key keys r" if "related c child r r'" for r r'
    using keys by (induction rule: list_all2_induct) (auto intro: remap_opt_eval[OF fit _ that])
  have "list_all2 (related c child) (e_sort E (map ascending keys) (map (\<lambda>row. (?key keys row, row)) B)) rows'"
    unfolding rows'(2) asc by (rule sort_related[OF B(2)]) (rule key)
  with B(1) C(1) show ?thesis by (auto simp: returns_simps)
qed

lemma aggregate_returns:
  assumes fit: "boundary_fits c child" and conv: "converts (LAggregate c g a) pp"
    and a: "list_all2 (\<lambda>it it'. nname it' = nname it \<and> remap_opt (boundary_for c child) (nexpr it) = Inr (nexpr it')) a a'"
    and g: "list_all2 (\<lambda>it it'. nname it' = nname it \<and> remap_opt (boundary_for c child) (nexpr it) = Inr (nexpr it')) g g'"
    and rows': "mset rows' = mset (map (\<lambda>(k, rows). k @ map (\<lambda>it. eval_agg E rows (nexpr it)) a') (group_rows E g' C'))"
    and C: "returns E c C" "list_all2 (related c child) C C'"
  shows "\<exists>rows. returns E (LAggregate c g a) rows \<and> list_all2 (related (LAggregate c g a) pp) rows rows'"
proof -
  have "map (\<lambda>(k, rows). k @ map (\<lambda>it. eval_agg E rows (nexpr it)) a') (group_rows E g' C')
      = map (\<lambda>(k, rows). k @ map (\<lambda>it. eval_agg E rows (nexpr it)) a) (group_rows E g C)"
  proof (rule aggregate_related[OF C(2)])
    show "eval_items E g' r' = eval_items E g r" if "related c child r r'" for r r'
      by (rule remapped_items_eval[OF g fit that])
    show "map (\<lambda>it. eval_agg E xs' (nexpr it)) a' = map (\<lambda>it. eval_agg E xs (nexpr it)) a"
      if "list_all2 (related c child) xs xs'" for xs xs'
      using a by (induction rule: list_all2_induct) (auto intro: remapped_agg_eval[OF _ fit that])
  qed (use g in auto)
  with rows' C(1) have r: "returns E (LAggregate c g a) rows'" by (auto simp: returns_simps)
  have "length r = length g + length a" if "r \<in> set rows'" for r
    using that mset_eq_setD[OF rows'] list_all2_lengthD[OF a] list_all2_lengthD[OF g]
    by (auto simp: group_rows_def eval_items_def split: if_splits)
  then have "list_all2 (related (LAggregate c g a) pp) rows' rows'"
    using conv by (auto simp: list_all2_same related_def converts_def items_schema_def
        boundary_map_def moved_def split: if_splits)
  with r show ?thesis by blast
qed

lemma convert_returns:
  assumes "boundaries_ok store extra p" "plan_wf E p" "reads_scans E D store extra p"
    and "convert store extra p = Inr pp" "p_returns E D pp rows'"
  shows "\<exists>rows. returns E p rows \<and> list_all2 (related p pp) rows rows'"
  using assms
proof (induction p arbitrary: pp rows')
  case (LScan s)
  then show ?case using scan_returns by simp
next
  case (LJoin l r lk rk jt res)
  then obtain left right where lr: "convert store extra l = Inr left" "convert store extra r = Inr right"
    "convert_join left right lk rk jt res = Inr pp" by (auto simp: bindR_eq_Inr)
  have ok: "boundaries_ok store extra l" "boundaries_ok store extra r" "side_ok store extra l" "side_ok store extra r"
    "res = None \<or> jt = LeftSemi \<or> jt = LeftAnti" using LJoin.prems(1) by auto
  note conv = convert_converts[OF ok(1) lr(1)] convert_converts[OF ok(2) lr(2)]
  obtain L' R' where rows: "p_returns E D left L'" "p_returns E D right R'"
    "\<And>L R. list_all2 (related l left) L L' \<Longrightarrow> list_all2 (related r right) R R' \<Longrightarrow>
       \<exists>rows. mset rows = mset (join_rows (join_match E lk rk res) jt (output_schema r) L R) \<and>
         list_all2 (related (LJoin l r lk rk jt res) pp) rows rows'"
    using join_related[OF boundary_found[OF ok(3) lr(1) conv(1)] boundary_found[OF ok(4) lr(2) conv(2)]
        conv lr(3) ok(5) LJoin.prems(5)] by metis
  obtain L where L: "returns E l L" "list_all2 (related l left) L L'"
    using LJoin.IH(1)[OF ok(1) _ _ lr(1) rows(1)] LJoin.prems(2,3) by (auto simp: reads_scans_def)
  obtain R where R: "returns E r R" "list_all2 (related r right) R R'"
    using LJoin.IH(2)[OF ok(2) _ _ lr(2) rows(2)] LJoin.prems(2,3) by (auto simp: reads_scans_def)
  from rows(3)[OF L(2) R(2)] L(1) R(1) show ?case by (auto simp: returns_simps)
next
  case (LFilter c q est)
  then obtain child q' C' where c: "convert store extra c = Inr child" "remap_opt (boundary_for c child) q = Inr q'"
    "pp = PFilter child q'" "p_returns E D child C'" "rows' = filter (\<lambda>row. holds E row q') C'"
    by (auto simp: bindR_eq_Inr p_returns_simps remap_opt_def)
  have fit: "boundary_fits c child" using boundary_fits_converted[OF _ _ c(1)] LFilter.prems(1) by simp
  obtain C where C: "returns E c C" "list_all2 (related c child) C C'"
    using LFilter.IH[OF _ _ _ c(1,4)] LFilter.prems by (auto simp: reads_scans_def)
  have "list_all2 (related (LFilter c q est) pp) (filter (\<lambda>row. holds E row q) C) rows'"
    unfolding c(3,5) related_pass
    by (rule list_all2_filters[OF C(2)]) (simp add: holds_def remap_opt_eval[OF fit c(2)])
  with C(1) show ?case by (auto simp: returns_simps)
next
  case (LProjection c items)
  then obtain child items' where c: "convert store extra c = Inr child"
    "list_all2 (\<lambda>it it'. nname it' = nname it \<and> remap_opt (boundary_for c child) (nexpr it) = Inr (nexpr it')) items items'"
    "pp = (if is_identity_projection items' (p_output_schema child) then child else PProjection child items')"
    by (auto simp: bindR_eq_Inr remap_named_opt)
  have fit: "boundary_fits c child" using boundary_fits_converted[OF _ _ c(1)] LProjection.prems(1) by simp
  obtain C' where C': "p_returns E D child C'"
    "rows' = (if is_identity_projection items' (p_output_schema child) then C' else map (eval_items E items') C')"
    using LProjection.prems(5) c(3) by (auto simp: p_returns_simps split: if_splits)
  obtain C where "returns E c C" "list_all2 (related c child) C C'"
    using LProjection.IH[OF _ _ _ c(1) C'(1)] LProjection.prems by (auto simp: reads_scans_def)
  then show ?case
    by (rule projection_returns[OF fit convert_converts[OF LProjection.prems(1,4)] c(2,3) C'(2)])
next
  case (LLimit c n)
  then obtain child C' where c: "convert store extra c = Inr child" "pp = PLimit child n" "p_returns E D child C'"
    "rows' = take (nat n) C'" by (auto simp: bindR_eq_Inr p_returns_simps)
  obtain C where C: "returns E c C" "list_all2 (related c child) C C'"
    using LLimit.IH[OF _ _ _ c(1,3)] LLimit.prems by (auto simp: reads_scans_def)
  then show ?case unfolding c(2,4) related_pass by (auto simp: returns_simps intro: list_all2_takeI)
next
  case (LSort c keys)
  then obtain child keys' C' C'' where c: "convert store extra c = Inr child" "pp = PSort child keys'"
    "list_all2 (\<lambda>k k'. ascending k' = ascending k \<and> remap_opt (boundary_for c child) (skey k) = Inr (skey k')) keys keys'"
    "p_returns E D child C'" "mset C'' = mset C'" "rows' = e_sort E (map ascending keys')
        (map (\<lambda>row. (map (\<lambda>k. eval (e_kernel E) row (skey k)) keys', row)) C'')"
    by (auto simp: bindR_eq_Inr p_returns_simps remap_keys_opt)
  have fit: "boundary_fits c child" using boundary_fits_converted[OF _ _ c(1)] LSort.prems(1) by simp
  obtain C where "returns E c C" "list_all2 (related c child) C C'"
    using LSort.IH[OF _ _ _ c(1,4)] LSort.prems by (auto simp: reads_scans_def)
  from sort_returns[OF fit c(3,5,6) this] show ?case unfolding c(2) related_pass .
next
  case (LAggregate c g a)
  then obtain child a' g' where c: "convert store extra c = Inr child"
    "list_all2 (\<lambda>it it'. nname it' = nname it \<and> remap_opt (boundary_for c child) (nexpr it) = Inr (nexpr it')) a a'"
    "pp = PScalarAggregate child a' \<and> g = [] \<and> g' = [] \<or> pp = PHashAggregate child g' a'"
    "list_all2 (\<lambda>it it'. nname it' = nname it \<and> remap_opt (boundary_for c child) (nexpr it) = Inr (nexpr it')) g g'"
    by (auto simp: bindR_eq_Inr remap_named_opt split: if_splits)
  have fit: "boundary_fits c child" using boundary_fits_converted[OF _ _ c(1)] LAggregate.prems(1) by simp
  obtain C' where C': "p_returns E D child C'"
    "mset rows' = mset (map (\<lambda>(k, rows). k @ map (\<lambda>it. eval_agg E rows (nexpr it)) a') (group_rows E g' C'))"
    using LAggregate.prems(5) c(3) by (auto simp: p_returns_simps group_rows_def)
  obtain C where "returns E c C" "list_all2 (related c child) C C'"
    using LAggregate.IH[OF _ _ _ c(1) C'(1)] LAggregate.prems by (auto simp: reads_scans_def)
  then show ?case
    by (rule aggregate_returns[OF fit convert_converts[OF LAggregate.prems(1,4)] c(2,4) C'(2)])
qed

end


lemma ref_keyeq_sym: "is_true (ref_binary Equal a b) = is_true (ref_binary Equal b a)"
proof -
  have "cmp_literal Equal x y = cmp_literal Equal y x" for x y
    by (cases x; cases y) (auto simp: f64_eq_def)
  then show ?thesis by (cases a; cases b) auto
qed

interpretation refb: bag_engine "ref_engine data"
  by unfold_locales (simp add: ref_engine_def ref_keyeq_sym)

section \<open>Properties\<close>

lemma p_returns_something: "\<exists>rows. p_returns E D pp rows"
proof (induction pp)
  case (PHashAggregate c g a)
  then show ?case using p_returns.PHashAggregate[OF _ refl] by blast
qed (auto simp: p_returns_simps intro: exI[of _ "[]"])

lemma physical_rows:
  assumes "bag_engine E" "boundaries_ok store extra p" "plan_wf E p" "reads_scans E D store extra p"
    and "\<not> over_scan p" "build_physical_plan store extra p = Inr pp" "p_returns E D pp rows"
  shows "returns E p rows"
proof -
  obtain cc where c: "convert store extra p = Inr cc" "pp = PResult cc"
    using assms(6) by (auto simp: build_physical_plan_def bindR_eq_Inr)
  from assms(7) have "p_returns E D cc rows" by (simp add: c(2) p_returns_simps)
  from bag_engine.convert_returns[OF assms(1-4) c(1) this] obtain rows0 where
    r: "returns E p rows0" "list_all2 (related p cc) rows0 rows" by blast
  have "rows = rows0"
    using r(2) assms(5) by (induction rule: list_all2_induct) (auto simp: related_def)
  with r(1) show ?thesis by simp
qed

text \<open>
  C1. Whatever rows a physical plan returns, in whatever order its scans, joins and aggregates
  deliver theirs, the logical plan may return: columns are found where narrowing, the exchange of
  a join's sides and elided projections have put them. Assumed are a symmetric equality of keys,
  a reader that delivers the columns of each scan's schema, and that a derived table below a join
  or a filter has kept its own projection or aggregate.
\<close>

theorem build_physical_plan_refines:
  assumes "bag_engine E" "boundaries_ok store extra p" "plan_wf E p" "reads_scans E D store extra p"
    and "\<not> over_scan p" "build_physical_plan store extra p = Inr pp"
  shows "(\<exists>rows. p_returns E D pp rows) \<and> (\<forall>rows. p_returns E D pp rows \<longrightarrow> returns E p rows)"
  using p_returns_something physical_rows[OF assms] by blast


text \<open>Two tables of one file each: \<open>s(k, v)\<close> with 200 rows and \<open>t(a, b, c)\<close> with 100.\<close>

definition table_footer :: "string \<Rightarrow> ParquetFooter result" where
  "table_footer path =
     (let s = (take 1 path = ''s'') in Inr
       \<lparr>pf_schema = Inr (map (\<lambda>n. \<lparr>aname = n, atype = AInt64, anullable = True\<rparr>)
                       (if s then [''k'', ''v''] else [''a'', ''b'', ''c''])),
        pf_num_rows = (if s then 200 else 100), pf_row_groups = []\<rparr>)"

definition table_store :: ObjectStore where
  "table_store =
     \<lparr>st_list = (\<lambda>u. Inl (StorageError ''no such file'')),
      st_list_recursive = (\<lambda>u. Inr [\<lparr>oi_uri = u @ ''/f.parquet'', oi_size = 512\<rparr>]),
      st_footer = table_footer\<rparr>"

definition table_scan :: "string \<Rightarrow> string list \<Rightarrow> string list \<Rightarrow> LogicalScan" where
  "table_scan path columns required =
     \<lparr>source_paths = [path], scan_schema = map demo_field columns, required_columns = required,
      pushable_predicates = [], partition_columns = []\<rparr>"

definition table_data :: "string list \<Rightarrow> row list" where
  "table_data paths =
     (if paths = [''s''] then [[int64_datum 2, int64_datum 20]]
      else [[int64_datum 9, int64_datum 2, int64_datum 7]])"

definition table_item :: "string \<Rightarrow> nat \<Rightarrow> NamedExpression" where
  "table_item n i = \<lparr>nexpr = Column n i (int64_type True), nname = n\<rparr>"

text \<open>\<open>SELECT c, v FROM t JOIN s ON t.b = s.k\<close>; the smaller \<open>t\<close> goes to the right.\<close>

definition swapped_plan :: plan where
  "swapped_plan =
     LProjection
       (LJoin (LScan (table_scan ''t'' [''a'', ''b'', ''c''] [''b'', ''c'']))
              (LScan (table_scan ''s'' [''k'', ''v''] [''k'', ''v''])) 1 0 Inner None)
       [table_item ''c'' 2, table_item ''v'' 4]"

definition table_reader :: "ParquetScanNode \<Rightarrow> row list" where
  "table_reader n = read_scan (ref_engine table_data)
     (if ps_columns n = [''k'', ''v''] then table_scan ''s'' [''k'', ''v''] [''k'', ''v'']
      else table_scan ''t'' [''a'', ''b'', ''c''] [''b'', ''c'']) n"

theorem build_physical_plan_refines_witness:
  "\<exists>pp. build_physical_plan table_store None swapped_plan = Inr (PResult (PProjection pp
         [table_item ''c'' 3, table_item ''v'' 1])) \<and>
     (\<forall>rows. p_returns (ref_engine table_data) table_reader
         (PResult (PProjection pp [table_item ''c'' 3, table_item ''v'' 1])) rows \<longrightarrow>
       returns (ref_engine table_data) swapped_plan rows)"
proof -
  have "case build_physical_plan table_store None swapped_plan of
      Inr (PResult (PProjection pp items)) \<Rightarrow> items = [table_item ''c'' 3, table_item ''v'' 1] | _ \<Rightarrow> False"
    by code_simp
  then obtain pp where pp: "build_physical_plan table_store None swapped_plan = Inr (PResult (PProjection pp
      [table_item ''c'' 3, table_item ''v'' 1]))"
    by (auto split: sum.splits pplan.splits)
  have ok: "boundaries_ok table_store None swapped_plan" by code_simp
  have wf: "plan_wf (ref_engine table_data) swapped_plan"
    by (simp add: swapped_plan_def table_scan_def table_item_def ref_engine_def table_data_def)
  have "case convert_scan table_store None (table_scan ''t'' [''a'', ''b'', ''c''] [''b'', ''c'']) of
      Inr (PScan n) \<Rightarrow> ps_columns n = [''b'', ''c''] | _ \<Rightarrow> False"
    "case convert_scan table_store None (table_scan ''s'' [''k'', ''v''] [''k'', ''v'']) of
      Inr (PScan n) \<Rightarrow> ps_columns n = [''k'', ''v''] | _ \<Rightarrow> False"
    by code_simp+
  then have rd: "reads_scans (ref_engine table_data) table_reader table_store None swapped_plan"
    by (auto simp: reads_scans_def swapped_plan_def table_reader_def split: sum.splits pplan.splits)
  show ?thesis
    using build_physical_plan_refines[OF refb.bag_engine_axioms ok wf rd _ pp] pp
    by (auto simp: swapped_plan_def)
qed

text \<open>\<open>SELECT c FROM (SELECT b, c FROM t) d WHERE c > 0\<close>, as it is planned.\<close>

definition derived_filter :: plan where
  "derived_filter =
     LProjection
       (LFilter
         (LProjection (LScan (table_scan ''t'' [''a'', ''b'', ''c''] [''a'', ''b'', ''c'']))
            [table_item ''b'' 1, table_item ''c'' 2])
         (Binary Greater (Column ''c'' 1 (int64_type True)) (make_int64 0) (boolean_type True)) None)
       [table_item ''c'' 1]"


text \<open>\<open>SELECT x FROM (SELECT x FROM t ORDER BY x LIMIT 1) d WHERE x > 10\<close>\<close>

definition derived_limit :: plan where
  "derived_limit =
     LProjection
       (LFilter
         (LLimit (LProjection (LSort (logical_scan [''t''] [demo_field ''x''] [])
            [\<lparr>skey = Column ''x'' 0 (int64_type True), ascending = True\<rparr>]) [table_item ''x'' 0]) 1)
         (Binary Greater (Column ''x'' 0 (int64_type True)) (make_int64 10) (boolean_type True)) None)
       [table_item ''x'' 0]"

text \<open>
  A predicate above a LIMIT reaches the scan below it: for the query above, a row group that
  holds only the smallest value 5 is skipped, and the limit then keeps another row. The query has
  no result over the rows 5 and 20, but returns 20 when the row group is skipped.
\<close>

theorem pushdown_below_limit:
  "(case optimize derived_limit of
      Inl _ \<Rightarrow> False
    | Inr q \<Rightarrow> scan_predicates q = [\<lparr>pp_column = ''x'', pp_op = Greater, pp_literal = make_int64 10\<rparr>] \<and>
        skip_reason (renaming_group\<lparr>column_statistics := [(''x'', int_stats 5 5)]\<rparr>) (scan_predicates q) \<noteq> None) \<and>
   exec_plan (ref_engine (\<lambda>paths. [[int64_datum 5], [int64_datum 20]])) derived_limit = [] \<and>
   exec_plan (ref_engine (\<lambda>paths. [[int64_datum 20]])) derived_limit = [[int64_datum 20]]"
  by code_simp

end
