(* ===== verification/PhysicalTotal.thy ===== *)
theory PhysicalTotal
  imports PhysicalExec
begin

text \<open>
  The physical planner's internal errors cannot occur on an annotated plan, and the partition
  values of a scan's fragments stay parallel to its partition columns.
\<close>

section \<open>Every required column is found\<close>

text \<open>
  The plans of queries over base tables: what looks like a scan's columns is, and every column
  read exists.
\<close>

fun base_shape :: "plan \<Rightarrow> bool" where
  "base_shape (LScan s) \<longleftrightarrow> True"
| "base_shape (LJoin l r lk rk jt res) \<longleftrightarrow> base_shape l \<and> base_shape r \<and> over_scan l \<and> over_scan r \<and>
     lk < length (output_schema l) \<and> rk < length (output_schema r) \<and>
     (case res of None \<Rightarrow> True
      | Some e \<Rightarrow> cols_below (length (output_schema l) + length (output_schema r)) e)"
| "base_shape (LFilter c p est) \<longleftrightarrow> base_shape c \<and>
     (if references_scan_schema c then over_scan c \<and> cols_below (length (output_schema c)) p
      else is_aggregate_node c)"
| "base_shape (LProjection c items) \<longleftrightarrow> base_shape c \<and>
     (references_scan_schema c \<longrightarrow>
        over_scan c \<and> list_all (\<lambda>it. cols_below (length (output_schema c)) (nexpr it)) items)"
| "base_shape (LAggregate c g a) \<longleftrightarrow> base_shape c \<and>
     (references_scan_schema c \<longrightarrow>
        over_scan c \<and> list_all (\<lambda>it. cols_below (length (output_schema c)) (nexpr it)) (g @ a))"
| "base_shape (LSort c keys) \<longleftrightarrow> base_shape c \<and>
     (references_scan_schema c \<longrightarrow>
        over_scan c \<and> list_all (\<lambda>k. cols_below (length (output_schema c)) (skey k)) keys)"
| "base_shape (LLimit c n) \<longleftrightarrow> base_shape c"

text \<open>A converted plan over scans offers the columns \<open>req\<close>.\<close>

definition offers :: "plan \<Rightarrow> nat list \<Rightarrow> pplan \<Rightarrow> bool" where
  "offers p req pp \<longleftrightarrow> (over_scan p \<longrightarrow>
     (\<exists>cm. find_scan_boundary pp = Some cm \<and> length cm = length (output_schema p) \<and>
        (\<forall>i \<in> set req. i < length cm \<longrightarrow> lookup_map cm i \<noteq> None)))"

lemma offers_remap:
  assumes "offers c req pp" "over_scan c" "references_scan_schema c'" "references_scan_schema c' = references_scan_schema c"
    and "cols_below (length (output_schema c)) e" "fst ` set (col_refs e) \<subseteq> set req"
  shows "\<exists>e'. remap_opt (boundary_for c' pp) e = Inr e'"
proof -
  from assms(1,2) obtain cm where cm: "find_scan_boundary pp = Some cm" "length cm = length (output_schema c)"
    "\<forall>i \<in> set req. i < length cm \<longrightarrow> lookup_map cm i \<noteq> None" by (auto simp: offers_def)
  have "\<forall>p \<in> set (col_refs e). lookup_map cm (fst p) \<noteq> None"
    using cm(2,3) assms(5,6) by (fastforce simp: cols_below_def list_all_iff)
  then show ?thesis using cm(1) assms(3) by (auto simp: boundary_for_def remap_opt_def remap_columns_iff)
qed

lemma narrow_field_keeps:
  "i < length (nw_map w) \<Longrightarrow> lookup_map (nw_map (narrow_field required parts w f)) i = lookup_map (nw_map w) i"
  by (auto simp: narrow_field_def Let_def lookup_append split: option.splits)

lemma narrow_field_length: "length (nw_map (narrow_field required parts w f)) = Suc (length (nw_map w))"
  by (auto simp: narrow_field_def Let_def split: option.splits)

lemma narrow_fold_required:
  "(\<forall>i < length (nw_map w). lookup_map (nw_map (foldl (narrow_field required parts) w fs)) i
       = lookup_map (nw_map w) i) \<and>
   (\<forall>k < length fs. fname (fs ! k) \<in> set required \<longrightarrow>
      lookup_map (nw_map (foldl (narrow_field required parts) w fs)) (length (nw_map w) + k) \<noteq> None)"
proof (induction fs arbitrary: w)
  case (Cons f fs)
  let ?w = "narrow_field required parts w f"
  have new: "lookup_map (nw_map ?w) (length (nw_map w)) \<noteq> None" if "fname f \<in> set required"
    using that by (auto simp: narrow_field_def Let_def lookup_append lookup_map_def split: option.splits)
  show ?case
  proof (intro conjI allI impI)
    fix i assume "i < length (nw_map w)"
    then show "lookup_map (nw_map (foldl (narrow_field required parts) w (f # fs))) i = lookup_map (nw_map w) i"
      using Cons.IH[of ?w] by (simp add: narrow_field_length narrow_field_keeps)
  next
    fix k assume k: "k < length (f # fs)" "fname ((f # fs) ! k) \<in> set required"
    show "lookup_map (nw_map (foldl (narrow_field required parts) w (f # fs))) (length (nw_map w) + k) \<noteq> None"
    proof (cases k)
      case 0
      then show ?thesis using Cons.IH[of ?w] new k(2) by (simp add: narrow_field_length)
    next
      case (Suc m)
      then show ?thesis using Cons.IH[of ?w] k by (simp add: narrow_field_length)
    qed
  qed
qed simp

lemma required_kept:
  assumes "i < length (scan_schema s)" "fname (scan_schema s ! i) \<in> set (required_columns s)"
  shows "lookup_map (nw_map (keep_one_column s (narrow_scan s))) i \<noteq> None"
proof -
  have "lookup_map (nw_map (narrow_scan s)) i \<noteq> None"
    using narrow_fold_required[of "\<lparr>nw_fields = [], nw_columns = [], nw_partitions = [], nw_map = []\<rparr>"
        "required_columns s" "partition_columns s" "scan_schema s"] assms by (simp add: narrow_scan_def)
  moreover have "lookup_map (cm[0 := Some k]) i \<noteq> None" if "lookup_map cm i \<noteq> None" for cm k
    using that by (cases i) (auto simp: lookup_map_def split: if_splits)
  ultimately show ?thesis by (auto simp: keep_one_column_def split: list.splits)
qed

lemma annotate_leaf_offers:
  assumes "annotate_leaf s req preds = Inr p'" "\<forall>s' \<in> set (plan_scans p'). \<exists>n. convert_scan store extra s' = Inr n"
  shows "\<exists>pp. convert store extra p' = Inr pp \<and> offers (LScan s) req pp"
proof -
  from assms(1) obtain cols where c:
    "mapR (\<lambda>i. bindR (atR (scan_schema s) i) (\<lambda>f. Inr (fname f))) req = Inr cols"
    "p' = LScan (s\<lparr>required_columns := sort cols, pushable_predicates := preds\<rparr>)"
    by (auto simp: annotate_leaf_def bindR_eq_Inr)
  let ?s = "s\<lparr>required_columns := sort cols, pushable_predicates := preds\<rparr>"
  have i: "i < length (scan_schema s) \<and> fname (scan_schema s ! i) \<in> set cols" if "i \<in> set req" for i
    using c(1) that by (induction req arbitrary: cols) (auto simp: bindR_eq_Inr atR_eq_Inr)
  from assms(2) c(2) obtain pp where pp: "convert_scan store extra ?s = Inr pp" by auto
  then obtain n where n: "pp = PScan n" "original_column_map n = nw_map (keep_one_column ?s (narrow_scan ?s))"
    by (rule convert_scan_narrowed)
  have "length (original_column_map n) = length (scan_schema s)"
    using narrowed_keep[OF narrowed_scan, of ?s] n(2) by (simp add: narrowed_def)
  moreover have "lookup_map (original_column_map n) i \<noteq> None" if "i \<in> set req" for i
    using required_kept[of i ?s] i[OF that] n(2) by simp
  ultimately show ?thesis using c(2) pp n(1) by (auto simp: offers_def)
qed

lemma annotate_shape:
  assumes "annotate_scan p req preds = Inr p'"
  shows "over_scan p' = over_scan p" "references_scan_schema p' = references_scan_schema p"
    "is_aggregate_node p' = is_aggregate_node p"
proof -
  have "over_scan p' = over_scan p \<and> references_scan_schema p' = references_scan_schema p \<and>
      is_aggregate_node p' = is_aggregate_node p"
    using assms
  proof (induction p arbitrary: req preds p')
    case (LFilter c q est)
    then obtain c' req' preds' where c: "annotate_scan c req' preds' = Inr c'" "p' = LFilter c' q est"
      by (auto simp: bindR_eq_Inr split: if_splits)
    have "(case c' of LAggregate x y z \<Rightarrow> False | _ \<Rightarrow> True) = (case c of LAggregate x y z \<Rightarrow> False | _ \<Rightarrow> True)"
      using LFilter.IH[OF c(1)] by (cases c; cases c') auto
    then show ?case using LFilter.IH[OF c(1)] c(2) by simp
  qed (auto simp: bindR_eq_Inr annotate_leaf_def Let_def)
  then show "over_scan p' = over_scan p" "references_scan_schema p' = references_scan_schema p"
    "is_aggregate_node p' = is_aggregate_node p" by auto
qed


lemma convert_join_offers:
  assumes l: "offers l (left_required n lk res req) left" "over_scan l"
    and r: "offers r (right_required n rk res req) right" "over_scan r"
    and n: "n = length (output_schema l)"
    and ok: "lk < length (output_schema l)" "rk < length (output_schema r)"
      "case res of None \<Rightarrow> True | Some e \<Rightarrow> cols_below (length (output_schema l) + length (output_schema r)) e"
  shows "\<exists>pp. convert_join left right lk rk jt res = Inr pp \<and> offers (LJoin l r lk rk jt res) req pp"
proof -
  from l obtain lm where lm: "find_scan_boundary left = Some lm" "length lm = n"
    "\<And>i. i \<in> set (left_required n lk res req) \<Longrightarrow> i < n \<Longrightarrow> lookup_map lm i \<noteq> None"
    by (auto simp: offers_def n)
  from r obtain rm where rm: "find_scan_boundary right = Some rm" "length rm = length (output_schema r)"
    "\<And>i. i \<in> set (right_required n rk res req) \<Longrightarrow> i < length rm \<Longrightarrow> lookup_map rm i \<noteq> None"
    by (auto simp: offers_def)
  obtain lk' rk' where k: "lookup_map lm lk = Some lk'" "lookup_map rm rk = Some rk'"
    using lm(3)[of lk] rm(3)[of rk] ok(1,2) rm(2) n by (auto simp: left_required_def right_required_def set_union_def)
  have both: "lookup_map (lm @ shift_map d rm) i \<noteq> None"
    if "i < n + length rm" "i \<in> set req \<or> (\<exists>e. res = Some e \<and> i \<in> fst ` set (col_refs e))" for i d
  proof (cases "i < n")
    case True
    then have "i \<in> set (left_required n lk res req)"
      using that(2) by (auto simp: left_required_def set_union_def collect_columns_set image_iff)
    then show ?thesis using True lm(2,3) by (simp add: lookup_append)
  next
    case False
    then have "i - n \<in> set (right_required n rk res req)"
      using that(2) by (force simp: right_required_def set_union_def collect_columns_set)
    then show ?thesis using False lm(2) rm(3)[of "i - n"] that(1) by (auto simp: lookup_append lookup_shift)
  qed
  have "\<exists>e'. remap_join_residual_predicate e lm rm (length lm) d = Inr e'" if e: "res = Some e" for e d
  proof -
    have "\<forall>p \<in> set (col_refs e). lookup_map (lm @ shift_map d rm) (fst p) \<noteq> None"
      using both[of _ d] ok(3) e rm(2) n by (force simp: cols_below_def list_all_iff)
    then show ?thesis
      unfolding remap_join_residual_predicate_def resolver.remap_via[OF resolver_residual] by blast
  qed
  then obtain res' where "(case res of None \<Rightarrow> Inr None | Some e \<Rightarrow>
      bindR (remap_join_residual_predicate e lm rm (length lm) (length (p_output_schema left)))
        (\<lambda>e'. Inr (Some e'))) = (Inr res' :: expression option result)"
    by (cases res) (fastforce simp: bindR_eq_Inr)+
  then obtain pp where pp: "convert_join left right lk rk jt res = Inr pp"
    by (simp add: convert_join_def lm(1) rm(1) k Let_def)
  from convert_join_cases[OF pp lm(1) rm(1)] obtain swap lk' rk' res' cm est where j: "swap \<Longrightarrow> jt = Inner"
    "cm = combined_column_map swap jt lm rm (length (p_output_schema left)) (length (p_output_schema right))"
    "pp = (if swap then PJoin right left rk' lk' jt res' cm est else PJoin left right lk' rk' jt res' cm est)"
    by metis
  have "lookup_map cm i \<noteq> None \<longleftrightarrow> lookup_map (lm @ shift_map 0 rm) i \<noteq> None" if "i < length cm" for i
    using that by (auto simp: j(2) combined_column_map_def lookup_append lookup_shift length_shift split: if_splits)
  moreover have "length cm = length (join_schema (output_schema l) (output_schema r) jt)"
    using lm(2) rm(2) n by (auto simp: j(2) combined_column_map_def length_shift join_schema_def)
  moreover have "length cm \<le> n + length rm" using lm(2) by (simp add: j(2) combined_column_map_def length_shift)
  moreover have "find_scan_boundary pp = Some cm" using j(3) by simp
  ultimately have "offers (LJoin l r lk rk jt res) req pp" using both[of _ 0] by (auto simp: offers_def)
  with pp show ?thesis by blast
qed


lemma remap_named_total:
  assumes "\<And>it. it \<in> set items \<Longrightarrow> \<exists>e'. remap_opt b (nexpr it) = Inr e'"
  shows "\<exists>items'. (case b of None \<Rightarrow> Inr items | Some cm \<Rightarrow> remap_named items cm) = Inr items'"
proof -
  from assms obtain f where f: "\<And>it. it \<in> set items \<Longrightarrow> remap_opt b (nexpr it) = Inr (f it)" by metis
  have "list_all2 (\<lambda>it it'. nname it' = nname it \<and> remap_opt b (nexpr it) = Inr (nexpr it')) items
      (map (\<lambda>it. \<lparr>nexpr = f it, nname = nname it\<rparr>) items)"
    using f by (auto simp: list.rel_map list_all2_same)
  then show ?thesis unfolding remap_named_opt by blast
qed

lemma remap_keys_total:
  assumes "\<And>k. k \<in> set keys \<Longrightarrow> \<exists>e'. remap_opt b (skey k) = Inr e'"
  shows "\<exists>keys'. (case b of None \<Rightarrow> Inr keys | Some cm \<Rightarrow> remap_keys keys cm) = Inr keys'"
proof -
  from assms obtain f where f: "\<And>k. k \<in> set keys \<Longrightarrow> remap_opt b (skey k) = Inr (f k)" by metis
  have "list_all2 (\<lambda>k k'. ascending k' = ascending k \<and> remap_opt b (skey k) = Inr (skey k')) keys
      (map (\<lambda>k. \<lparr>skey = f k, ascending = ascending k\<rparr>) keys)"
    using f by (auto simp: list.rel_map list_all2_same)
  then show ?thesis unfolding remap_keys_opt by blast
qed

lemma remap_found:
  assumes "offers c req pp" "annotate_scan c req' preds = Inr c'" "\<not> references_scan_schema c \<or> over_scan c"
    and "over_scan c \<Longrightarrow> cols_below (length (output_schema c)) e \<and> fst ` set (col_refs e) \<subseteq> set req"
  shows "\<exists>e'. remap_opt (boundary_for c' pp) e = Inr e'"
proof (cases "references_scan_schema c")
  case True
  then show ?thesis using offers_remap[OF assms(1)] assms(3,4) annotate_shape[OF assms(2)] by blast
next
  case False
  then show ?thesis using annotate_shape[OF assms(2)] by (simp add: boundary_for_def remap_opt_def)
qed

lemma convert_total:
  assumes "base_shape p" "annotate_scan p req preds = Inr p'"
    and "\<forall>s \<in> set (plan_scans p'). \<exists>n. convert_scan store extra s = Inr n"
  shows "\<exists>pp. convert store extra p' = Inr pp \<and> offers p req pp"
  using assms
proof (induction p arbitrary: req preds p')
  case (LScan s)
  then show ?case using annotate_leaf_offers by simp
next
  case (LJoin l r lk rk jt res)
  let ?n = "length (output_schema l)"
  from LJoin.prems(2) obtain l' r' where a: "annotate_scan l (left_required ?n lk res req) [] = Inr l'"
    "annotate_scan r (right_required ?n rk res req) [] = Inr r'" "p' = LJoin l' r' lk rk jt res"
    by (auto simp: bindR_eq_Inr Let_def)
  obtain left where left: "convert store extra l' = Inr left" "offers l (left_required ?n lk res req) left"
    using LJoin.IH(1)[OF _ a(1)] LJoin.prems a(3) by auto
  obtain right where right: "convert store extra r' = Inr right" "offers r (right_required ?n rk res req) right"
    using LJoin.IH(2)[OF _ a(2)] LJoin.prems a(3) by auto
  show ?case
    using convert_join_offers[OF left(2) _ right(2) _ refl] LJoin.prems(1) left(1) right(1) a(3) by auto
next
  case (LFilter c q est)
  show ?case
  proof (cases "is_aggregate_node c")
    case True
    then obtain c' where c: "annotate_scan c req preds = Inr c'" "p' = LFilter c' q est"
      using LFilter.prems(2) by (auto simp: bindR_eq_Inr)
    have na: "\<not> references_scan_schema c'" "\<not> over_scan c" using True annotate_shape[OF c(1)] by (cases c; auto)+
    obtain pp where "convert store extra c' = Inr pp" using LFilter.IH[OF _ c(1)] LFilter.prems c(2) by auto
    then show ?thesis using c(2) na by (auto simp: boundary_for_def offers_def)
  next
    case False
    then obtain c' where c: "annotate_scan c (collect_all [q] req) (preds @ collect_pushable_predicates q) = Inr c'"
      "p' = LFilter c' q est" using LFilter.prems(2) by (auto simp: bindR_eq_Inr)
    have sh: "over_scan c" "cols_below (length (output_schema c)) q" using LFilter.prems(1) False by (auto split: if_splits)
    obtain pp where pp: "convert store extra c' = Inr pp" "offers c (collect_all [q] req) pp"
      using LFilter.IH[OF _ c(1)] LFilter.prems c(2) by auto
    obtain q' where "remap_opt (boundary_for c' pp) q = Inr q'"
      using remap_found[OF pp(2) c(1)] sh by (auto simp: collect_all_set)
    then show ?thesis using pp c(2) by (auto simp: offers_def collect_all_set remap_opt_def split: option.splits)
  qed
next
  case (LProjection c items)
  let ?req = "if is_aggregate_node c then req else collect_all (map nexpr items) req"
  from LProjection.prems obtain c' where c: "annotate_scan c ?req preds = Inr c'" "p' = LProjection c' items"
    by (auto simp: bindR_eq_Inr)
  obtain pp where pp: "convert store extra c' = Inr pp" "offers c ?req pp"
    using LProjection.IH[OF _ c(1)] LProjection.prems c(2) by auto
  have "\<exists>e'. remap_opt (boundary_for c' pp) (nexpr it) = Inr e'" if "it \<in> set items" for it
  proof (rule remap_found[OF pp(2) c(1)])
    assume o: "over_scan c"
    then have "\<not> is_aggregate_node c" by (cases c) auto
    with o that LProjection.prems(1) over_scan_references[OF o]
    show "cols_below (length (output_schema c)) (nexpr it) \<and> fst ` set (col_refs (nexpr it)) \<subseteq> set ?req"
      by (auto simp: collect_all_set list_all_iff)
  qed (use LProjection.prems(1) in auto)
  then show ?case using remap_named_total[of items "boundary_for c' pp"] pp(1) c(2) by (auto simp: offers_def)
next
  case (LAggregate c g a)
  let ?req = "collect_all (map nexpr a) (collect_all (map nexpr g) req)"
  from LAggregate.prems obtain c' where c: "annotate_scan c ?req preds = Inr c'" "p' = LAggregate c' g a"
    by (auto simp: bindR_eq_Inr)
  obtain pp where pp: "convert store extra c' = Inr pp" "offers c ?req pp"
    using LAggregate.IH[OF _ c(1)] LAggregate.prems c(2) by auto
  have "\<exists>e'. remap_opt (boundary_for c' pp) (nexpr it) = Inr e'" if "it \<in> set g \<union> set a" for it
  proof (rule remap_found[OF pp(2) c(1)])
    assume o: "over_scan c"
    with that LAggregate.prems(1) over_scan_references[OF o]
    show "cols_below (length (output_schema c)) (nexpr it) \<and> fst ` set (col_refs (nexpr it)) \<subseteq> set ?req"
      by (auto simp: collect_all_set list_all_iff)
  qed (use LAggregate.prems(1) in auto)
  then show ?case
    using remap_named_total[of g "boundary_for c' pp"] remap_named_total[of a "boundary_for c' pp"] pp(1) c(2)
    by (auto simp: offers_def)
next
  case (LSort c keys)
  let ?req = "collect_all (map skey keys) req"
  from LSort.prems obtain c' where c: "annotate_scan c ?req preds = Inr c'" "p' = LSort c' keys"
    by (auto simp: bindR_eq_Inr)
  obtain pp where pp: "convert store extra c' = Inr pp" "offers c ?req pp"
    using LSort.IH[OF _ c(1)] LSort.prems c(2) by auto
  have "\<exists>e'. remap_opt (boundary_for c' pp) (skey k) = Inr e'" if "k \<in> set keys" for k
  proof (rule remap_found[OF pp(2) c(1)])
    assume o: "over_scan c"
    with that LSort.prems(1) over_scan_references[OF o]
    show "cols_below (length (output_schema c)) (skey k) \<and> fst ` set (col_refs (skey k)) \<subseteq> set ?req"
      by (auto simp: collect_all_set list_all_iff)
  qed (use LSort.prems(1) in auto)
  then show ?case using remap_keys_total[of keys "boundary_for c' pp"] pp c(2)
    by (auto simp: offers_def collect_all_set)
next
  case (LLimit c n)
  then obtain c' where c: "annotate_scan c req preds = Inr c'" "p' = LLimit c' n" by (auto simp: bindR_eq_Inr)
  then show ?case using LLimit.IH[OF _ c(1)] LLimit.prems by (auto simp: offers_def)
qed


section \<open>Partition values\<close>

definition partitions_ok :: "PartitionColumn list \<Rightarrow> (PartitionColumn \<times> nat) list \<Rightarrow> bool" where
  "partitions_ok parts cks \<longleftrightarrow> list_all (\<lambda>(c, k). k < length parts \<and> parts ! k = c) cks"

lemma find_partition_Some:
  "find_partition k cs name = Some (c, i) \<Longrightarrow> k \<le> i \<and> i < k + length cs \<and> cs ! (i - k) = c \<and> pname c = name"
proof (induction cs arbitrary: k)
  case (Cons a cs)
  show ?case
  proof (cases "pname a = name")
    case False
    with Cons.prems Cons.IH[of "Suc k"] show ?thesis by (auto simp: nth_Cons' Suc_diff_le)
  qed (use Cons.prems in auto)
qed simp

lemma narrow_fold_partitions:
  assumes "partitions_ok parts (nw_partitions w)"
  shows "partitions_ok parts (nw_partitions (foldl (narrow_field required parts) w fs))"
  using assms
proof (induction fs arbitrary: w)
  case (Cons f fs)
  have "partitions_ok parts (nw_partitions (narrow_field required parts w f))"
    using Cons.prems find_partition_Some[of 0 parts]
    by (auto simp: narrow_field_def Let_def partitions_ok_def split: option.splits)
  with Cons.IH show ?case by simp
qed simp

lemma file_fragment_partitions:
  assumes "f \<in> set (file_fragment s (narrow_scan s) file)"
  shows "list_all2 (\<lambda>c v. \<exists>k < length (partition_columns s). partition_columns s ! k = c \<and>
      v = rf_partition_values file ! k) (map fst (nw_partitions (narrow_scan s))) (pf_partition_values f)"
proof -
  have "partitions_ok (partition_columns s) (nw_partitions (narrow_scan s))"
    unfolding narrow_scan_def by (rule narrow_fold_partitions) (simp add: partitions_ok_def)
  then have "\<forall>x \<in> set (nw_partitions (narrow_scan s)). snd x < length (partition_columns s) \<and>
      partition_columns s ! snd x = fst x"
    by (auto simp: partitions_ok_def list_all_iff)
  moreover have "pf_partition_values f = map (\<lambda>x. rf_partition_values file ! snd x) (nw_partitions (narrow_scan s))"
    using assms by (auto simp: file_fragment_def Let_def case_prod_beta split: if_splits)
  ultimately show ?thesis by (auto simp: list.rel_map list_all2_same intro!: exI[of _ "snd _"])
qed

lemma keep_one_partitions [simp]: "nw_partitions (keep_one_column s w) = nw_partitions w"
  by (auto simp: keep_one_column_def split: list.splits)

section \<open>Properties\<close>

text \<open>
  C5. On the annotated plan of a query over base tables the physical planner throws none of its
  internal errors: when its tables resolve, every filter, join key, residual predicate, grouping,
  aggregate, sort key and result column is found in the narrowed scans.
\<close>

theorem convert_no_internal_error:
  assumes "base_shape p" "annotate_scan p req preds = Inr p'"
    and "\<forall>s \<in> set (plan_scans p'). \<exists>t. resolve_table_or_delegate store (source_paths s) extra (pushable_predicates s) = Inr t"
  shows "\<exists>pp. build_physical_plan store extra p' = Inr pp"
proof -
  have "\<forall>s \<in> set (plan_scans p'). \<exists>n. convert_scan store extra s = Inr n"
    using assms(3) by (fastforce simp: convert_scan_def Let_def)
  from convert_total[OF assms(1,2) this] show ?thesis by (auto simp: build_physical_plan_def)
qed

theorem convert_no_internal_error_witness:
  "\<exists>q pp. annotate_scan swapped_plan [] [] = Inr q \<and> build_physical_plan table_store None q = Inr pp"
proof -
  have "case annotate_scan swapped_plan [] [] of Inl _ \<Rightarrow> False
      | Inr q \<Rightarrow> list_all (\<lambda>s. case resolve_table_or_delegate table_store (source_paths s) None (pushable_predicates s) of
          Inl _ \<Rightarrow> False | Inr _ \<Rightarrow> True) (plan_scans q)" by code_simp
  then obtain q where q: "annotate_scan swapped_plan [] [] = Inr q"
    "\<forall>s \<in> set (plan_scans q). \<exists>t. resolve_table_or_delegate table_store (source_paths s) None (pushable_predicates s) = Inr t"
    by (auto simp: list_all_iff split: sum.splits) (metis Inl_Inr_False sum.exhaust)
  have "base_shape swapped_plan" by code_simp
  from convert_no_internal_error[OF this q] q(1) show ?thesis by blast
qed

text \<open>
  C6. A scan's fragments carry one value per kept partition column, in the order of those columns,
  and each is the file's own value of that column.
\<close>

theorem convert_scan_partition_values:
  assumes "convert_scan store extra s = Inr (PScan n)"
    and "resolve_table_or_delegate store (source_paths s) extra (pushable_predicates s) = Inr t"
    and "f \<in> set (ps_fragments n)"
  shows "\<exists>file \<in> set (rt_files t). pf_file f = fm_path (rf_metadata file) \<and>
    list_all2 (\<lambda>c v. \<exists>k < length (partition_columns s). partition_columns s ! k = c \<and>
      v = rf_partition_values file ! k) (ps_partition_columns n) (pf_partition_values f)"
proof -
  from assms obtain rf where f: "rf \<in> set (rt_files t)" "f \<in> set (file_fragment s (narrow_scan s) rf)"
    "ps_partition_columns n = map fst (nw_partitions (narrow_scan s))"
    by (auto simp: convert_scan_def Let_def)
  moreover have "pf_file f = fm_path (rf_metadata rf)"
    using f(2) by (auto simp: file_fragment_def Let_def split: if_splits)
  ultimately show ?thesis using file_fragment_partitions[OF f(2)] by auto
qed

text \<open>A table partitioned by \<open>y\<close>, of which only the partition column is read.\<close>

definition partitioned_scan :: LogicalScan where
  "partitioned_scan =
     \<lparr>source_paths = [''s''], scan_schema = [demo_field ''x'', demo_field ''y''], required_columns = [''y''],
      pushable_predicates = [], partition_columns = [\<lparr>pname = ''y'', ptype = int64_type True, ptransform = Identity\<rparr>]\<rparr>"

theorem convert_scan_partition_values_witness:
  "\<exists>n (t :: ResolvedTable) f. convert_scan demo_store None partitioned_scan = Inr (PScan n) \<and> f \<in> set (ps_fragments n) \<and>
     (\<exists>rf \<in> set (rt_files t). list_all2 (\<lambda>c v. \<exists>k < 1. partition_columns partitioned_scan ! k = c \<and>
       v = rf_partition_values rf ! k) (ps_partition_columns n) (pf_partition_values f))"
proof -
  have "case convert_scan demo_store None partitioned_scan of
      Inr (PScan n) \<Rightarrow> ps_fragments n \<noteq> [] | _ \<Rightarrow> False" by code_simp
  then obtain n where n: "convert_scan demo_store None partitioned_scan = Inr (PScan n)" "ps_fragments n \<noteq> []"
    by (auto split: sum.splits pplan.splits)
  have "case resolve_table_or_delegate demo_store (source_paths partitioned_scan) None
      (pushable_predicates partitioned_scan) of Inl _ \<Rightarrow> False | Inr _ \<Rightarrow> True" by code_simp
  then obtain t where t: "resolve_table_or_delegate demo_store (source_paths partitioned_scan) None
      (pushable_predicates partitioned_scan) = Inr t" by (auto split: sum.splits)
  have h: "hd (ps_fragments n) \<in> set (ps_fragments n)" using n(2) by simp
  have l: "length (partition_columns partitioned_scan) = 1" by (simp add: partitioned_scan_def)
  show ?thesis
    using convert_scan_partition_values[OF n(1) t h, unfolded l] n(1) h
    by (intro exI[of _ n] exI[of _ t] exI[of _ "hd (ps_fragments n)"]) blast
qed

end
