(* ===== verification/QueryPlan.thy ===== *)
theory QueryPlan
  imports Subquery LogicalPlanner PhysicalTotal
begin

text \<open>
  The planning entry points of \<^verbatim>\<open>src/api/query_engine.cpp\<close>: a parsed statement is restructured, its
  subqueries are run and replaced by their values, its sources are resolved, and it is bound,
  planned, optimised and converted. Planning and running a subquery call each other in the code;
  here what runs a subquery takes the planner as an argument, and the recursion is that of
  \<open>plan_logical_unoptimized\<close>, which ends because every statement it plans on the way is nested less
  deeply. Executing a physical plan on Acero is a field of the engine.
\<close>

section \<open>Sources\<close>

text \<open>\<open>CompositeSourceResolver\<close>: the first resolver that accepts the sources, and the third otherwise.\<close>

definition composite_resolver ::
  "TableSourceResolver \<Rightarrow> TableSourceResolver \<Rightarrow> TableSourceResolver \<Rightarrow> TableSourceResolver" where
  "composite_resolver first second third =
     \<lparr>can_resolve = (\<lambda>sources. can_resolve first sources \<or> can_resolve second sources \<or> can_resolve third sources),
      resolve = (\<lambda>store sources predicates.
        if can_resolve first sources then resolve first store sources predicates
        else if can_resolve second sources then resolve second store sources predicates
        else resolve third store sources predicates)\<rparr>"

section \<open>Results\<close>

text \<open>
  A record batch as a list of columns, one reading of \<open>GetScalar\<close> per cell: a status text or a
  value. A table is its schema and what \<open>TableBatchReader\<close> delivers, one batch or status after
  the other.
\<close>

record RecordBatch =
  num_rows :: nat
  columns :: "(string + datum) list list"

record CpuTable =
  ct_schema :: "ArrowField list"
  ct_num_rows :: int
  ct_read_next :: "(string + RecordBatch) list"

record QueryResult =
  qr_schema :: "ArrowField list option"
  batches :: "RecordBatch list"
  rows_returned :: "int option"
  qr_files_considered :: "int option"
  qr_files_scanned :: "int option"
  row_groups_considered :: "int option"
  row_groups_scanned :: "int option"

record QueryEngine =
  qe_store :: ObjectStore
  qe_resolver :: TableSourceResolver
  qe_execute :: "pplan \<Rightarrow> CpuTable result"
  qe_type_name :: "ArrowType \<Rightarrow> string"
  qe_rtl :: bool

fun find_parquet_scan :: "pplan \<Rightarrow> ParquetScanNode option" where
  "find_parquet_scan (PScan s) = Some s"
| "find_parquet_scan (PJoin l r lk rk jt res cm est) =
     (case find_parquet_scan l of Some s \<Rightarrow> Some s | None \<Rightarrow> find_parquet_scan r)"
| "find_parquet_scan (PFilter c p) = find_parquet_scan c"
| "find_parquet_scan (PProjection c items) = find_parquet_scan c"
| "find_parquet_scan (PHashAggregate c g a) = find_parquet_scan c"
| "find_parquet_scan (PScalarAggregate c a) = find_parquet_scan c"
| "find_parquet_scan (PSort c keys) = find_parquet_scan c"
| "find_parquet_scan (PLimit c n) = find_parquet_scan c"
| "find_parquet_scan (PResult c) = find_parquet_scan c"

definition read_batches :: "(string + RecordBatch) list \<Rightarrow> RecordBatch list result" where
  "read_batches =
     mapR (\<lambda>b. case b of
        Inl status \<Rightarrow> Inl (ExecutionError
          (''failed to split the CPU execution backend'' @ [CHR 0x27] @ ''s result table into batches: '' @ status))
      | Inr batch \<Rightarrow> Inr batch)"

definition execute_cpu :: "QueryEngine \<Rightarrow> pplan \<Rightarrow> QueryResult result" where
  "execute_cpu Q physical =
     bindR (qe_execute Q physical) (\<lambda>table.
     bindR (read_batches (ct_read_next table)) (\<lambda>bs.
     let result = \<lparr>qr_schema = Some (ct_schema table), batches = bs, rows_returned = Some (ct_num_rows table),
                   qr_files_considered = None, qr_files_scanned = None,
                   row_groups_considered = None, row_groups_scanned = None\<rparr>
     in case find_parquet_scan physical of
          None \<Rightarrow> Inr result
        | Some scan \<Rightarrow> Inr (result
            \<lparr>qr_files_considered := Some (files_considered scan),
             qr_files_scanned := Some (int (length (ps_fragments scan))),
             row_groups_considered := Some (sum_list (map total_row_groups (ps_fragments scan))),
             row_groups_scanned := Some (sum_list (map (\<lambda>f. int (length (pf_selected_row_groups f))) (ps_fragments scan)))\<rparr>)))"

section \<open>The value of a subquery\<close>

definition unsupported_scalar :: "QueryEngine \<Rightarrow> datum \<Rightarrow> kl_error" where
  "unsupported_scalar Q d =
     ExecutionError (''a subquery returned a '' @ qe_type_name Q (dtype d) @ '' value, which isn'' @ [CHR 0x27] @
       ''t supported (only DOUBLE/INT64/STRING -- the result types SUM/COUNT/MIN/MAX/AVG can actually produce, or '' @
       ''a plain grouped INT64/DOUBLE/STRING column -- are)'')"

fun scalar_to_literal :: "QueryEngine \<Rightarrow> datum \<Rightarrow> ast_literal result" where
  "scalar_to_literal Q (Scalar t LNull) = Inr LitNull"
| "scalar_to_literal Q (Scalar ADouble (LDouble d)) = Inr (LitFloat d)"
| "scalar_to_literal Q (Scalar AInt64 (LInt i)) = Inr (LitInteger i)"
| "scalar_to_literal Q (Scalar AString (LString s)) = Inr (LitString s)"
| "scalar_to_literal Q d = Inl (unsupported_scalar Q d)"

definition run_subquery ::
  "QueryEngine \<Rightarrow> (AstSelectStatement \<Rightarrow> plan result) \<Rightarrow> AstSelectStatement \<Rightarrow> QueryResult result" where
  "run_subquery Q planner sub =
     bindR (planner sub) (\<lambda>p.
     bindR (optimize p) (\<lambda>logical.
     bindR (build_physical_plan (qe_store Q) (Some (qe_resolver Q)) logical) (\<lambda>physical.
     execute_cpu Q physical)))"

definition column_count :: "QueryResult \<Rightarrow> nat" where
  "column_count r = (case qr_schema r of None \<Rightarrow> 0 | Some fs \<Rightarrow> length fs)"

definition read_scalar :: "QueryEngine \<Rightarrow> string \<Rightarrow> string + datum \<Rightarrow> ast_literal result" where
  "read_scalar Q what cell =
     (case cell of Inl status \<Rightarrow> Inl (ExecutionError (what @ status)) | Inr d \<Rightarrow> scalar_to_literal Q d)"

definition evaluate_scalar_subquery ::
  "QueryEngine \<Rightarrow> (AstSelectStatement \<Rightarrow> plan result) \<Rightarrow> AstSelectStatement \<Rightarrow> ast_literal result" where
  "evaluate_scalar_subquery Q planner sub =
     bindR (run_subquery Q planner sub) (\<lambda>result.
     if column_count result \<noteq> 1
     then Inl (ExecutionError (''a HAVING subquery must return exactly one column, got ''
                @ int_str (int (column_count result))))
     else
       let total_rows = sum_list (map num_rows (batches result))
       in if total_rows \<noteq> 1
          then Inl (ExecutionError (''a HAVING subquery must return exactly one row, got '' @ int_str (int total_rows)))
          else case find (\<lambda>b. num_rows b > 0) (batches result) of
                 None \<Rightarrow> Inl (ExecutionError ''unreachable: no batch has a row'')
               | Some b \<Rightarrow> read_scalar Q (''failed to read a HAVING subquery'' @ [CHR 0x27] @ ''s scalar result: '') (columns b ! 0 ! 0))"

definition evaluate_list_subquery ::
  "QueryEngine \<Rightarrow> (AstSelectStatement \<Rightarrow> plan result) \<Rightarrow> AstSelectStatement \<Rightarrow> ast_literal list result" where
  "evaluate_list_subquery Q planner sub =
     bindR (run_subquery Q planner sub) (\<lambda>result.
     if column_count result \<noteq> 1
     then Inl (ExecutionError (''an IN (SELECT ...) subquery must return exactly one column, got ''
                @ int_str (int (column_count result))))
     else
       mapR (read_scalar Q (''failed to read an IN (SELECT ...) subquery'' @ [CHR 0x27] @ ''s result: ''))
         (concat (map (\<lambda>b. map (\<lambda>row. columns b ! 0 ! row) [0 ..< num_rows b]) (batches result))))"

lemma evaluate_cong [fundef_cong]:
  "sub = sub' \<Longrightarrow> planner sub' = planner' sub' \<Longrightarrow>
     evaluate_scalar_subquery Q planner sub = evaluate_scalar_subquery Q planner' sub'"
  "sub = sub' \<Longrightarrow> planner sub' = planner' sub' \<Longrightarrow>
     evaluate_list_subquery Q planner sub = evaluate_list_subquery Q planner' sub'"
  by (simp_all add: evaluate_scalar_subquery_def evaluate_list_subquery_def run_subquery_def)

section \<open>Planning\<close>

definition inspect_source :: "QueryEngine \<Rightarrow> string list \<Rightarrow> ResolvedTable result" where
  "inspect_source Q paths = resolve_table_or_delegate (qe_store Q) paths (Some (qe_resolver Q)) []"

definition restructured :: "AstSelectStatement \<Rightarrow> AstSelectStatement" where
  "restructured stmt = rewrite_correlated_scalar_subqueries (rewrite_exists_subqueries stmt)"

definition with_conditions :: "AstSelectStatement \<Rightarrow> AstExpr option \<Rightarrow> AstExpr option \<Rightarrow> AstSelectStatement" where
  "with_conditions stmt w h =
     AstSelect (select_list stmt) (from_paths stmt) (from_alias stmt) (join_clause stmt)
       (from_subquery stmt) w (group_by stmt) h (order_by stmt) (limit_clause stmt)"

text \<open>
  A source of a join: its schema, its partition columns, and its plan when it is a derived table.
\<close>

type_synonym join_source = "Schema \<times> PartitionColumn list \<times> plan option"

definition table_source :: "QueryEngine \<Rightarrow> string list \<Rightarrow> join_source result" where
  "table_source Q paths = bindR (inspect_source Q paths) (\<lambda>t. Inr (rt_schema t, rt_partition_columns t, None))"

definition plan_join :: "QueryEngine \<Rightarrow> AstSelectStatement \<Rightarrow> join_source list \<Rightarrow> plan result" where
  "plan_join Q ast sources =
     bindR (bind_join_query ast (map fst sources)) (\<lambda>bound.
     build_join_plan (qe_rtl Q) bound (map fst sources) (map (fst \<circ> snd) sources) (map (snd \<circ> snd) sources))"

function (sequential) plan_logical_unoptimized :: "QueryEngine \<Rightarrow> AstSelectStatement \<Rightarrow> plan result" where
  "plan_logical_unoptimized Q stmt =
     bindR (case having_clause (restructured stmt) of
              None \<Rightarrow> Inr None
            | Some h \<Rightarrow>
                bindR (resolve_subqueries h (\<lambda>sub. evaluate_scalar_subquery Q (plan_logical_unoptimized Q) sub)) (\<lambda>h'.
                Inr (Some h'))) (\<lambda>having.
     bindR (case where_clause (restructured stmt) of
              None \<Rightarrow> Inr None
            | Some w \<Rightarrow>
                bindR (resolve_subqueries w (\<lambda>sub. evaluate_scalar_subquery Q (plan_logical_unoptimized Q) sub)) (\<lambda>w1.
                bindR (resolve_in_subqueries w1 (\<lambda>sub. evaluate_list_subquery Q (plan_logical_unoptimized Q) sub)) (\<lambda>w2.
                Inr (Some w2)))) (\<lambda>whr.
     let ast = with_conditions (restructured stmt) whr having
     in case join_clause (restructured stmt) of
          Some j \<Rightarrow>
            bindR (table_source Q (first_paths j)) (\<lambda>first.
            bindR (mapR (\<lambda>step.
                     case derived_source step of
                       Some derived \<Rightarrow>
                         bindR (plan_logical_unoptimized Q derived) (\<lambda>inner. Inr (output_schema inner, [], Some inner))
                     | None \<Rightarrow> table_source Q (step_paths step)) (join_steps j)) (\<lambda>sources.
            plan_join Q ast (first # sources)))
        | None \<Rightarrow>
            (case from_subquery (restructured stmt) of
               Some inner_stmt \<Rightarrow>
                 bindR (plan_logical_unoptimized Q inner_stmt) (\<lambda>inner.
                 bindR (bind_query ast (output_schema inner)) (\<lambda>bound.
                 build_derived_plan (qe_rtl Q) bound inner))
             | None \<Rightarrow>
                 bindR (inspect_source Q (from_paths ast)) (\<lambda>t.
                 bindR (bind_query ast (rt_schema t)) (\<lambda>bound.
                 build_logical_plan (qe_rtl Q) bound (rt_schema t) (rt_partition_columns t))))))"
  by pat_completeness auto

text \<open>Every statement planned on the way to a plan is nested less deeply than the statement.\<close>

lemma restructured_depth: "stmt_depth (restructured stmt) \<le> stmt_depth stmt"
  unfolding restructured_def by (rule order_trans[OF rewrite_correlated_depth rewrite_exists_depth])

lemma nested_depth:
  "having_clause (restructured stmt) = Some h \<Longrightarrow> s \<in> set (scalar_subs h) \<Longrightarrow> stmt_depth s < stmt_depth stmt"
  "where_clause (restructured stmt) = Some w \<Longrightarrow> s \<in> set (scalar_subs w) \<Longrightarrow> stmt_depth s < stmt_depth stmt"
  "where_clause (restructured stmt) = Some w \<Longrightarrow> s \<in> set (in_subs w) \<Longrightarrow> stmt_depth s < stmt_depth stmt"
  "from_subquery (restructured stmt) = Some s \<Longrightarrow> stmt_depth s < stmt_depth stmt"
  using part_depth[of "restructured stmt"] restructured_depth[of stmt] scalar_subs_depth[of s h]
    scalar_subs_depth[of s w] in_subs_depth[of s w] by auto

lemma derived_depth:
  assumes "join_clause (restructured stmt) = Some j" "st \<in> set (join_steps j)" "derived_source st = Some s"
  shows "stmt_depth s < stmt_depth stmt"
proof -
  have "stmt_depth s \<le> step_depth st" using assms(3) by (cases st) simp
  also have "\<dots> \<le> join_depth j" unfolding join_depth_steps using assms(2) by (auto intro: maxl_mem)
  also have "\<dots> < stmt_depth stmt"
    using part_depth(3)[of "restructured stmt"] restructured_depth[of stmt] assms(1) by simp
  finally show ?thesis .
qed

termination plan_logical_unoptimized
proof (relation "measure (stmt_depth \<circ> snd)", goal_cases)
  case 4
  then show ?case using nested_depth(3) resolve_subqueries_subs by fastforce
qed (auto intro: nested_depth derived_depth)

declare plan_logical_unoptimized.simps [simp del]

definition plan_logical :: "QueryEngine \<Rightarrow> AstSelectStatement \<Rightarrow> plan result" where
  "plan_logical Q ast = bindR (plan_logical_unoptimized Q ast) optimize"

definition explain :: "QueryEngine \<Rightarrow> AstSelectStatement \<Rightarrow> pplan result" where
  "explain Q ast =
     bindR (plan_logical Q ast) (build_physical_plan (qe_store Q) (Some (qe_resolver Q)))"

section \<open>What a subquery is replaced by\<close>

text \<open>The rows of a batch, and a table that holds given rows.\<close>

definition batch_rows :: "RecordBatch \<Rightarrow> (string + datum) list list" where
  "batch_rows b = map (\<lambda>i. map (\<lambda>c. c ! i) (columns b)) [0 ..< num_rows b]"

definition holds_rows :: "CpuTable \<Rightarrow> row list \<Rightarrow> bool" where
  "holds_rows t rows \<longleftrightarrow>
     list_all (\<lambda>b. case b of Inl _ \<Rightarrow> False | Inr b \<Rightarrow> length (columns b) = length (ct_schema t)) (ct_read_next t) \<and>
     concat (map (case_sum (\<lambda>_. []) batch_rows) (ct_read_next t)) = map (map Inr) rows"

lemma read_batches_eq: "read_batches rs = Inr bs \<Longrightarrow> rs = map Inr bs"
  unfolding read_batches_def mapR_eq_Inr by (induction rule: list_all2_induct) (auto split: sum.splits)

text \<open>What running a subquery gives: a table of its plan, in batches.\<close>

lemma run_subquery_cases:
  assumes "run_subquery Q (plan_logical_unoptimized Q) sub = Inr r"
  obtains p pp t where "plan_logical Q sub = Inr p" "build_physical_plan (qe_store Q) (Some (qe_resolver Q)) p = Inr pp"
    "explain Q sub = Inr pp" "qe_execute Q pp = Inr t" "qr_schema r = Some (ct_schema t)" "ct_read_next t = map Inr (batches r)"
proof -
  from assms obtain p0 p pp where p: "plan_logical_unoptimized Q sub = Inr p0" "optimize p0 = Inr p"
    "build_physical_plan (qe_store Q) (Some (qe_resolver Q)) p = Inr pp" "execute_cpu Q pp = Inr r"
    by (auto simp: run_subquery_def bindR_eq_Inr)
  from p(4) obtain t where "qe_execute Q pp = Inr t" "qr_schema r = Some (ct_schema t)"
    "read_batches (ct_read_next t) = Inr (batches r)"
    by (auto simp: execute_cpu_def bindR_eq_Inr Let_def split: option.splits)
  with p that show ?thesis by (simp add: plan_logical_def explain_def read_batches_eq)
qed

lemma one_column_rows:
  assumes "list_all (\<lambda>b. length (columns b) = 1) bs" "concat (map batch_rows bs) = map (map Inr) rows"
  shows "list_all (\<lambda>r. length r = 1) rows"
    and "concat (map (\<lambda>b. map (\<lambda>i. columns b ! 0 ! i) [0 ..< num_rows b]) bs) = map (\<lambda>r. Inr (r ! 0)) rows"
proof -
  have one: "batch_rows b = map (\<lambda>x. [x]) (map (\<lambda>i. columns b ! 0 ! i) [0 ..< num_rows b])" if "b \<in> set bs" for b
  proof -
    from that assms(1) obtain c where "columns b = [c]" by (auto simp: list_all_iff length_Suc_conv)
    then show ?thesis by (simp add: batch_rows_def)
  qed
  have "map (map Inr) rows = map (\<lambda>x. [x]) (concat (map (\<lambda>b. map (\<lambda>i. columns b ! 0 ! i) [0 ..< num_rows b]) bs))"
    unfolding map_concat assms(2)[symmetric] using one by (intro arg_cong[of _ _ concat]) simp
  then have e: "map (map Inr) rows = map (\<lambda>x. [x]) xs"
    if "xs = concat (map (\<lambda>b. map (\<lambda>i. columns b ! 0 ! i) [0 ..< num_rows b]) bs)" for xs using that by simp
  have "list_all (\<lambda>r. length r = 1) rows \<and> xs = map (\<lambda>r. Inr (r ! 0)) rows"
    if "map (map Inr) rows = map (\<lambda>x. [x]) xs" for xs :: "(string + datum) list"
    using that by (induction rows arbitrary: xs) (auto simp: Cons_eq_map_conv map_eq_Cons_conv)
  with e show "list_all (\<lambda>r. length r = 1) rows"
    "concat (map (\<lambda>b. map (\<lambda>i. columns b ! 0 ! i) [0 ..< num_rows b]) bs) = map (\<lambda>r. Inr (r ! 0)) rows"
    by blast+
qed

lemma single_cell:
  assumes "sum_list (map num_rows bs) = 1" "find (\<lambda>b. num_rows b > 0) bs = Some b"
  shows "concat (map (\<lambda>b. map (f b) [0 ..< num_rows b]) bs) = [f b 0]"
  using assms
proof (induction bs)
  case (Cons a bs)
  show ?case
  proof (cases "num_rows a > 0")
    case True
    moreover have "num_rows a + sum_list (map num_rows bs) = 1" using Cons.prems(1) by simp
    ultimately have "num_rows a = 1 \<and> sum_list (map num_rows bs) = 0" by linarith
    moreover have "a = b" using True Cons.prems(2) by simp
    ultimately have a: "num_rows a = 1" "a = b" "sum_list (map num_rows bs) = 0" by blast+
    from a(3) have "concat (map (\<lambda>b. map (f b) [0 ..< num_rows b]) bs) = []" by (induction bs) auto
    with a(1,2) show ?thesis by simp
  qed (use Cons in simp)
qed simp

lemma run_subquery_rows:
  assumes E: "bag_engine E"
    and ex: "\<And>pp t. explain Q sub = Inr pp \<Longrightarrow> qe_execute Q pp = Inr t \<Longrightarrow>
      \<exists>rows. p_returns E D pp rows \<and> holds_rows t rows"
    and ok: "\<And>p. plan_logical Q sub = Inr p \<Longrightarrow> boundaries_ok (qe_store Q) (Some (qe_resolver Q)) p \<and>
      plan_wf E p \<and> reads_scans E D (qe_store Q) (Some (qe_resolver Q)) p \<and> \<not> over_scan p"
    and r: "run_subquery Q (plan_logical_unoptimized Q) sub = Inr r" "column_count r = 1"
  obtains p rows where "plan_logical Q sub = Inr p" "returns E p rows" "list_all (\<lambda>r. length r = 1) rows"
    "concat (map (\<lambda>b. map (\<lambda>i. columns b ! 0 ! i) [0 ..< num_rows b]) (batches r)) = map (\<lambda>r. Inr (r ! 0)) rows"
proof -
  from run_subquery_cases[OF r(1)] obtain p pp t where p: "plan_logical Q sub = Inr p"
    "build_physical_plan (qe_store Q) (Some (qe_resolver Q)) p = Inr pp" "explain Q sub = Inr pp" "qe_execute Q pp = Inr t"
    "qr_schema r = Some (ct_schema t)" "ct_read_next t = map Inr (batches r)" .
  from ex[OF p(3,4)] obtain rows where rows: "p_returns E D pp rows" "holds_rows t rows" by blast
  have "returns E p rows" by (rule physical_rows[OF E _ _ _ _ p(2) rows(1)]) (use ok[OF p(1)] in auto)
  moreover have "list_all (\<lambda>b. length (columns b) = 1) (batches r)" "concat (map batch_rows (batches r)) = map (map Inr) rows"
    using rows(2) r(2) p(5,6) by (auto simp: holds_rows_def column_count_def list_all_iff comp_def)
  ultimately show ?thesis using that[OF p(1)] one_column_rows by blast
qed


text \<open>An engine over the two demonstration tables, without catalogs, that answers every query with one table.\<close>

definition no_catalog :: TableSourceResolver where
  "no_catalog = \<lparr>can_resolve = (\<lambda>_. False), resolve = (\<lambda>_ _ _. Inl (StorageError ''no catalog''))\<rparr>"

definition demo_engine :: "CpuTable \<Rightarrow> QueryEngine" where
  "demo_engine t =
     \<lparr>qe_store = table_store, qe_resolver = composite_resolver no_catalog no_catalog no_catalog,
      qe_execute = (\<lambda>_. Inr t), qe_type_name = (\<lambda>_. ''type''), qe_rtl = False\<rparr>"

definition v_table :: CpuTable where
  "v_table =
     \<lparr>ct_schema = [\<lparr>aname = ''v'', atype = AInt64, anullable = True\<rparr>], ct_num_rows = 1,
      ct_read_next = [Inr \<lparr>num_rows = 0, columns = [[]]\<rparr>, Inr \<lparr>num_rows = 1, columns = [[Inr (int64_datum 20)]]\<rparr>]\<rparr>"

text \<open>\<open>SELECT v FROM s\<close>\<close>

definition v_query :: AstSelectStatement where
  "v_query = AstSelect [(AstColumnRef ''v'' None, None)] [''s''] None None None None [] None [] None"

definition v_scan :: LogicalScan where
  "v_scan = table_scan ''s'' [''k'', ''v''] [''v'']"

definition v_plan :: plan where
  "v_plan = LProjection (LScan v_scan) [table_item ''v'' 1]"


text \<open>\<open>SELECT o.v FROM s o WHERE 0 = (SELECT COUNT(*) FROM t l WHERE l.a = o.k)\<close>\<close>

definition count_subquery :: "string option \<Rightarrow> AstExpr \<Rightarrow> AstSelectStatement" where
  "count_subquery table key =
     AstSelect [(AstAggregate AggCountStar None, None)] [''t''] (Some ''l'') None None
       (Some (AstBinary AEq (AstColumnRef ''a'' table) key)) [] None [] None"

definition count_query :: AstSelectStatement where
  "count_query =
     AstSelect [(AstColumnRef ''v'' (Some ''o''), None)] [''s''] (Some ''o'') None None
       (Some (AstBinary AEq (AstLiteral (LitInteger 0)) (AstSubquery (count_subquery (Some ''l'') (AstColumnRef ''k'' (Some ''o''))))))
       [] None [] None"


end
