(* ===== verification/ObjectStores.thy ===== *)
theory ObjectStores
  imports TableResolution
begin

text \<open>
  The object stores of \<^verbatim>\<open>src/storage\<close>: wildcard matching, the local store with its root directory, and
  the listing shared by the S3, GCS, Azure and HDFS stores. File systems are parameters: records of
  what their calls return. The wildcard matcher, a loop with one point to go back to, is shown to
  decide the usual meaning of a pattern for every name without an asterisk.
\<close>

section \<open>URIs\<close>

fun find_scheme :: "string \<Rightarrow> string option" where
  "find_scheme [] = None"
| "find_scheme (c # cs) =
     (if take 3 (c # cs) = ''://'' then Some [] else map_option (\<lambda>s. c # s) (find_scheme cs))"

definition scheme :: "string \<Rightarrow> string" where
  "scheme uri = (case find_scheme uri of None \<Rightarrow> ''file'' | Some s \<Rightarrow> s)"

definition strip_scheme :: "string \<Rightarrow> string" where
  "strip_scheme uri = (if scheme uri = ''file'' then uri else drop (length (scheme uri) + 3) uri)"

text \<open>\<open>find_last_of('/')\<close>\<close>

definition split_last_component :: "string \<Rightarrow> string \<times> string" where
  "split_last_component path =
     (if CHR ''/'' \<notin> set path then ([], path)
      else (rev (drop 1 (dropWhile (\<lambda>c. c \<noteq> CHR ''/'') (rev path))),
            rev (takeWhile (\<lambda>c. c \<noteq> CHR ''/'') (rev path))))"

section \<open>Wildcards\<close>

text \<open>
  The loop of \<open>glob_match\<close> on what is left of the pattern and of the text; \<open>star\<close> holds the pattern
  after the last asterisk and the text where its match began.
\<close>

partial_function (option) glob_loop :: "string \<Rightarrow> string \<Rightarrow> (string \<times> string) option \<Rightarrow> bool option" where
  [code]: "glob_loop p t star =
     (case t of
        [] \<Rightarrow> Some (dropWhile (\<lambda>c. c = CHR ''*'') p = [])
      | c # t' \<Rightarrow>
          (case p of
             a # p' \<Rightarrow>
               if a = CHR ''?'' \<or> a = c then glob_loop p' t' star
               else if a = CHR ''*'' then glob_loop p' t (Some (p', t))
               else (case star of
                       Some (sp, st) \<Rightarrow> glob_loop sp (tl st) (Some (sp, tl st))
                     | None \<Rightarrow> Some False)
           | [] \<Rightarrow> (case star of
                       Some (sp, st) \<Rightarrow> glob_loop sp (tl st) (Some (sp, tl st))
                     | None \<Rightarrow> Some False)))"

definition glob_match :: "string \<Rightarrow> string \<Rightarrow> bool option" where
  "glob_match pattern text = glob_loop pattern text None"

text \<open>What a pattern means.\<close>

fun matches :: "string \<Rightarrow> string \<Rightarrow> bool" where
  "matches [] t \<longleftrightarrow> t = []"
| "matches (a # p) t \<longleftrightarrow>
     (if a = CHR ''*'' then \<exists>k \<in> {0 ..< Suc (length t)}. matches p (drop k t)
      else case t of [] \<Rightarrow> False | c # t' \<Rightarrow> (a = CHR ''?'' \<or> a = c) \<and> matches p t')"

declare matches.simps [simp del]

lemma matches_Nil [simp]: "matches [] t \<longleftrightarrow> t = []"
  by (simp add: matches.simps)

lemma matches_star: "matches (CHR ''*'' # p) t \<longleftrightarrow> (\<exists>k. matches p (drop k t))"
proof
  assume "\<exists>k. matches p (drop k t)"
  then obtain k where k: "matches p (drop k t)" by blast
  have "matches p (drop (min k (length t)) t)" using k by (cases "k \<le> length t") (simp_all add: min_def)
  then show "matches (CHR ''*'' # p) t" by (auto simp: matches.simps intro!: bexI[of _ "min k (length t)"])
qed (auto simp: matches.simps)

lemma matches_char [simp]:
  "a \<noteq> CHR ''*'' \<Longrightarrow> matches (a # p) t \<longleftrightarrow> (\<exists>c t'. t = c # t' \<and> (a = CHR ''?'' \<or> a = c) \<and> matches p t')"
  by (auto simp: matches.simps split: list.splits)

lemma matches_empty: "matches p [] \<longleftrightarrow> dropWhile (\<lambda>c. c = CHR ''*'') p = []"
proof (induction p)
  case (Cons a p)
  then show ?case by (cases "a = CHR ''*''") (simp_all add: matches_star)
qed simp

text \<open>Characters of a pattern without asterisk, matched one by one.\<close>

abbreviation plain_match :: "string \<Rightarrow> string \<Rightarrow> bool" where
  "plain_match seg u \<equiv> list_all2 (\<lambda>a c. a \<noteq> CHR ''*'' \<and> (a = CHR ''?'' \<or> a = c)) seg u"

lemma plain_match_no_star: "plain_match seg u \<Longrightarrow> CHR ''*'' \<notin> set seg"
  by (induction rule: list_all2_induct) auto

lemma matches_segment:
  "CHR ''*'' \<notin> set seg \<Longrightarrow> matches (seg @ p) t \<longleftrightarrow> (\<exists>u rest. t = u @ rest \<and> plain_match seg u \<and> matches p rest)"
proof (induction seg arbitrary: t)
  case (Cons a seg)
  have a: "a \<noteq> CHR ''*''" and seg: "CHR ''*'' \<notin> set seg" using Cons.prems by auto
  have "matches ((a # seg) @ p) t \<longleftrightarrow>
      (\<exists>c t'. t = c # t' \<and> (a = CHR ''?'' \<or> a = c) \<and> (\<exists>u rest. t' = u @ rest \<and> plain_match seg u \<and> matches p rest))"
    using matches_char[OF a] Cons.IH[OF seg] by simp
  also have "\<dots> \<longleftrightarrow> (\<exists>u rest. t = u @ rest \<and> plain_match (a # seg) u \<and> matches p rest)" (is "?l \<longleftrightarrow> ?r")
  proof
    assume ?l
    then obtain c u rest where "t = (c # u) @ rest" "a = CHR ''?'' \<or> a = c" "plain_match seg u" "matches p rest" by force
    with a show ?r by (intro exI[of _ "c # u"] exI[of _ rest]) simp
  next
    assume ?r
    then obtain v rest where "t = v @ rest" "plain_match (a # seg) v" "matches p rest" by blast
    then show ?l by (cases v) auto
  qed
  finally show ?case .
qed simp

text \<open>An asterisk after a segment absorbs what a later occurrence of the segment would skip.\<close>

lemma later_segment:
  assumes "plain_match seg u" "matches (seg @ CHR ''*'' # p) (drop j (u @ t))"
  shows "matches (CHR ''*'' # p) t"
proof -
  from iffD1[OF matches_segment[OF plain_match_no_star[OF assms(1)]] assms(2)]
  obtain v rest where v: "drop j (u @ t) = v @ rest" "plain_match seg v" "matches (CHR ''*'' # p) rest" by blast
  have "length v = length u" using list_all2_lengthD[OF assms(1)] list_all2_lengthD[OF v(2)] by simp
  then have "drop (j + length u) (u @ t) = rest"
    using arg_cong[OF v(1), of "drop (length u)"] by (simp only: drop_drop append_eq_conv_conj) (simp add: add.commute)
  then have "drop j t = rest" by simp
  moreover obtain k where "matches p (drop k rest)" using v(3) unfolding matches_star by blast
  ultimately have "matches p (drop (k + j) t)" by (auto simp: drop_drop)
  then show ?thesis unfolding matches_star by blast
qed

lemma too_short:
  assumes "plain_match seg u" "0 < j" "u \<noteq> []"
  shows "\<not> matches (seg @ p) (drop j u)"
proof
  assume "matches (seg @ p) (drop j u)"
  from iffD1[OF matches_segment[OF plain_match_no_star[OF assms(1)]] this]
  obtain v rest where v: "drop j u = v @ rest" "plain_match seg v" by blast
  have "length seg \<le> length (drop j u)" using list_all2_lengthD[OF v(2)] by (simp add: v(1))
  moreover have "length seg = length u" using assms(1) by (rule list_all2_lengthD)
  moreover have "length u - j < length u" by (intro diff_less) (use assms(2,3) in simp_all)
  ultimately show False by simp
qed

text \<open>
  The state of the loop: no asterisk was met yet, or the pattern after the last one has been matched
  character by character up to here, since where \<open>star\<close> says.
\<close>

definition star_ok :: "string \<Rightarrow> string \<Rightarrow> (string \<times> string) option \<Rightarrow> bool" where
  "star_ok p t star \<longleftrightarrow>
     (case star of None \<Rightarrow> True
      | Some (sp, st) \<Rightarrow> \<exists>seg u. sp = seg @ p \<and> st = u @ t \<and> plain_match seg u)"

definition loop_result :: "string \<Rightarrow> string \<Rightarrow> (string \<times> string) option \<Rightarrow> bool" where
  "loop_result p t star \<longleftrightarrow>
     matches p t \<or> (case star of None \<Rightarrow> False | Some (sp, st) \<Rightarrow> \<exists>j > 0. j \<le> length st \<and> matches sp (drop j st))"

lemma loop_result_match:
  assumes "star_ok (a # p) (c # t) star" "a \<noteq> CHR ''*''" "a = CHR ''?'' \<or> a = c"
  shows "loop_result (a # p) (c # t) star = loop_result p t star" "star_ok p t star"
proof -
  show "loop_result (a # p) (c # t) star = loop_result p t star"
    using assms(2,3) by (simp add: loop_result_def)
  show "star_ok p t star"
  proof (cases star)
    case (Some x)
    obtain sp st where x: "x = (sp, st)" by force
    then obtain seg u where "sp = seg @ a # p" "st = u @ c # t" "plain_match seg u"
      using assms(1) Some by (auto simp: star_ok_def)
    then have "sp = (seg @ [a]) @ p \<and> st = (u @ [c]) @ t \<and> plain_match (seg @ [a]) (u @ [c])"
      using assms(2,3) by (simp add: list_all2_appendI)
    then show ?thesis using Some x by (auto simp: star_ok_def)
  qed (simp add: star_ok_def)
qed

lemma loop_result_star:
  assumes "star_ok (CHR ''*'' # p) t star"
  shows "loop_result (CHR ''*'' # p) t star = loop_result p t (Some (p, t))"
proof -
  have "matches (CHR ''*'' # p) t = loop_result p t (Some (p, t))"
  proof -
    have "matches (CHR ''*'' # p) t \<longleftrightarrow> (\<exists>k \<le> length t. matches p (drop k t))"
      by (auto simp: matches.simps less_Suc_eq_le)
    also have "\<dots> = loop_result p t (Some (p, t))"
      unfolding loop_result_def by (auto simp del: matches_Nil) (metis drop0 gr0I)+
    finally show ?thesis .
  qed
  moreover have "loop_result (CHR ''*'' # p) t star = matches (CHR ''*'' # p) t"
  proof (cases star)
    case (Some x)
    obtain sp st where x: "x = (sp, st)" by force
    then obtain seg u where "sp = seg @ CHR ''*'' # p" "st = u @ t" "plain_match seg u"
      using assms Some by (auto simp: star_ok_def)
    then show ?thesis using later_segment[of seg u p _ t] Some x by (auto simp: loop_result_def)
  qed (simp add: loop_result_def)
  ultimately show ?thesis by simp
qed

lemma loop_result_back:
  assumes "star_ok p (c # t) (Some (sp, st))" "\<not> matches p (c # t)"
  shows "loop_result p (c # t) (Some (sp, st)) = loop_result sp (tl st) (Some (sp, tl st))"
    "star_ok sp (tl st) (Some (sp, tl st))"
proof -
  obtain d st' where st: "st = d # st'" using assms(1) by (cases st) (auto simp: star_ok_def)
  have "(\<exists>j > 0. j \<le> length st \<and> matches sp (drop j st)) \<longleftrightarrow>
      matches sp st' \<or> (\<exists>j > 0. j \<le> length st' \<and> matches sp (drop j st'))" (is "?l \<longleftrightarrow> ?r")
  proof
    assume ?l
    then obtain j where "0 < j" "j \<le> length st" "matches sp (drop j st)" by blast
    then show ?r by (cases j; cases "j - 1") (auto simp: st)
  next
    assume ?r
    then consider "matches sp (drop 1 st)" | j where "0 < j" "j \<le> length st'" "matches sp (drop (Suc j) st)"
      by (auto simp: st)
    then show ?l
    proof cases
      case 1
      then show ?thesis by (intro exI[of _ 1]) (simp add: st)
    next
      case 2
      then show ?thesis by (intro exI[of _ "Suc j"]) (simp add: st)
    qed
  qed
  with assms(2) show "loop_result p (c # t) (Some (sp, st)) = loop_result sp (tl st) (Some (sp, tl st))"
    by (simp add: loop_result_def st)
  show "star_ok sp (tl st) (Some (sp, tl st))" by (simp add: star_ok_def)
qed

lemma loop_result_end:
  assumes "star_ok p [] star"
  shows "loop_result p [] star \<longleftrightarrow> dropWhile (\<lambda>c. c = CHR ''*'') p = []"
proof (cases star)
  case (Some x)
  obtain sp st where x: "x = (sp, st)" by force
  then obtain seg where s: "sp = seg @ p" "plain_match seg st"
    using assms Some by (auto simp: star_ok_def)
  have "\<not> matches sp (drop j st)" if "0 < j" "j \<le> length st" for j
    using too_short[OF s(2) that(1)] that s(1) by (cases st) auto
  then show ?thesis using Some x by (auto simp: loop_result_def matches_empty)
qed (simp add: loop_result_def matches_empty)

lemma glob_loop_correct:
  "CHR ''*'' \<notin> set t \<Longrightarrow> (case star of None \<Rightarrow> True | Some (sp, st) \<Rightarrow> CHR ''*'' \<notin> set st) \<Longrightarrow> star_ok p t star \<Longrightarrow>
     glob_loop p t star = Some (loop_result p t star)"
proof (induction "(p, t, star)" arbitrary: p t star rule: wf_induct_rule[OF wf_measures[of
    "[\<lambda>(p, t, star). case star of None \<Rightarrow> Suc (length p) | Some (sp, st) \<Rightarrow> length sp,
      \<lambda>(p, t, star). case star of None \<Rightarrow> 0 | Some (sp, st) \<Rightarrow> length st, \<lambda>(p, t, star). length t]"]])
  case (1 p t star)
  show ?case
  proof (cases t)
    case Nil
    then show ?thesis using loop_result_end 1(4) by (subst glob_loop.simps) simp
  next
    case (Cons c t')
    have again: "glob_loop sp (tl st) (Some (sp, tl st)) = Some (loop_result p t star)"
      if "star = Some (sp, st)" "\<not> matches p t" for sp st
    proof -
      have "length (tl st) < length st" using 1(4) that(1) Cons by (auto simp: star_ok_def)
      moreover have "CHR ''*'' \<notin> set (tl st)" using 1(3) that(1) by (cases st) auto
      ultimately show ?thesis
        using loop_result_back[of p c t' sp st] 1(4) that Cons by (subst 1(1)) auto
    qed
    show ?thesis
    proof (cases p)
      case Nil
      then show ?thesis using again Cons
        by (subst glob_loop.simps) (auto simp: loop_result_def split: option.splits)
    next
      case p: (Cons a p')
      consider "a = CHR ''*''" | "a \<noteq> CHR ''*''" "a = CHR ''?'' \<or> a = c" | "a \<noteq> CHR ''*''" "\<not> (a = CHR ''?'' \<or> a = c)"
        by blast
      then show ?thesis
      proof cases
        case star: 1
        have "c \<noteq> CHR ''*''" using 1(2) Cons by auto
        have shorter: "star = Some (sp, st) \<Longrightarrow> length p' < length sp" for sp st
          using 1(4) p by (auto simp: star_ok_def)
        have "glob_loop p' t (Some (p', t)) = Some (loop_result p' t (Some (p', t)))"
          by (rule 1(1)) (use 1(2) shorter p in \<open>auto simp: star_ok_def split: option.splits\<close>)
        then show ?thesis using loop_result_star[of p' t star] 1(4) Cons p star \<open>c \<noteq> CHR ''*''\<close>
          by (subst glob_loop.simps) simp
      next
        case 2
        have "glob_loop p' t' star = Some (loop_result p' t' star)"
          by (rule 1(1)) (use 1(2-4) 2 Cons p loop_result_match(2)[of a p' c t' star] in \<open>auto split: option.splits\<close>)
        then show ?thesis using loop_result_match(1)[of a p' c t' star] 1(4) Cons p 2
          by (subst glob_loop.simps) simp
      next
        case 3
        then have "\<not> matches p t" using p Cons by simp
        then show ?thesis using again 3 p Cons
          by (subst glob_loop.simps) (auto simp: loop_result_def split: option.splits)
      qed
    qed
  qed
qed

lemma glob_match_spec: "CHR ''*'' \<notin> set name \<Longrightarrow> glob_match pattern name = Some (matches pattern name)"
  using glob_loop_correct[of name None pattern] by (simp add: glob_match_def star_ok_def loop_result_def)

text \<open>The loop ends on every input: what is left are suffixes of what the asterisk left.\<close>

definition suffixes_ok :: "string \<Rightarrow> string \<Rightarrow> (string \<times> string) option \<Rightarrow> bool" where
  "suffixes_ok p t star \<longleftrightarrow>
     (case star of None \<Rightarrow> True | Some (sp, st) \<Rightarrow> length p \<le> length sp \<and> length t \<le> length st)"

lemma glob_loop_returns: "suffixes_ok p t star \<Longrightarrow> \<exists>b. glob_loop p t star = Some b"
proof (induction "(p, t, star)" arbitrary: p t star rule: wf_induct_rule[OF wf_measures[of
    "[\<lambda>(p, t, star). case star of None \<Rightarrow> Suc (length p) | Some (sp, st) \<Rightarrow> length sp,
      \<lambda>(p, t, star). case star of None \<Rightarrow> 0 | Some (sp, st) \<Rightarrow> length st, \<lambda>(p, t, star). length t]"]])
  case (1 p t star)
  show ?case
  proof (cases t)
    case (Cons c t')
    have again: "\<exists>b. glob_loop sp (tl st) (Some (sp, tl st)) = Some b" if "star = Some (sp, st)" for sp st
      using 1(2) that Cons by (intro 1(1)) (auto simp: suffixes_ok_def)
    show ?thesis
    proof (cases p)
      case (Cons a p')
      note p = this
      have star: "\<exists>b. glob_loop p' t (Some (p', t)) = Some b"
        by (rule 1(1)) (use 1(2) Cons in \<open>auto simp: suffixes_ok_def split: option.splits\<close>)
      have next_char: "\<exists>b. glob_loop p' t' star = Some b"
        by (rule 1(1)) (use 1(2) p \<open>t = c # t'\<close> in \<open>auto simp: suffixes_ok_def split: option.splits\<close>)
      show ?thesis using again star next_char p \<open>t = c # t'\<close>
        by (subst glob_loop.simps) (auto split: option.splits)
    qed (use again Cons in \<open>subst glob_loop.simps, auto split: option.splits\<close>)
  qed (subst glob_loop.simps, simp)
qed

lemma glob_match_returns: "\<exists>b. glob_match pattern name = Some b"
  unfolding glob_match_def by (rule glob_loop_returns) (simp add: suffixes_ok_def)

section \<open>The local store\<close>

text \<open>
  A file system: the components of a path after \<open>weakly_canonical\<close> (or, where that fails, after
  \<open>lexically_normal\<close>), the kind of a path, the entries of a directory and of the tree below it as
  path, whether it is a regular file, and size, or the text of the error, and \<open>fs::absolute\<close>.
\<close>

record file_system =
  fs_components :: "string \<Rightarrow> string list"
  fs_exists :: "string \<Rightarrow> bool"
  fs_is_directory :: "string \<Rightarrow> bool"
  fs_entries :: "string \<Rightarrow> string + (string \<times> bool \<times> int) list"
  fs_tree :: "string \<Rightarrow> string + (string \<times> bool \<times> int) list"
  fs_absolute :: "string \<Rightarrow> string"
  fs_file_size :: "string \<Rightarrow> int"

definition fail_missing :: "string \<Rightarrow> 'a result" where
  "fail_missing path =
     Inl (StorageError (''path does not exist: '' @ quoted path @
       '' (check the path and that KernelLake has read access)''))"

text \<open>\<open>std::mismatch\<close> of the two component ranges stops at the end of the root.\<close>

definition check_within_root :: "file_system \<Rightarrow> string \<Rightarrow> string \<Rightarrow> string \<Rightarrow> unit result" where
  "check_within_root F path local_root original =
     (let root = fs_components F local_root
      in if take (length root) (fs_components F path) = root then Inr ()
         else Inl (StorageError (''path '' @ quoted original @ '' is outside the configured storage root'')))"

text \<open>\<open>glob_match\<close> always returns (\<open>glob_match_spec\<close>, \<open>glob_match_returns\<close>).\<close>

definition name_matches :: "string \<Rightarrow> string \<Rightarrow> bool" where
  "name_matches pattern name \<longleftrightarrow> glob_match pattern name = Some True"

definition list_directory_matching :: "file_system \<Rightarrow> string \<Rightarrow> string \<Rightarrow> ObjectInfo list result" where
  "list_directory_matching F dir pattern =
     (case fs_entries F dir of
        Inl what \<Rightarrow> Inl (StorageError (''failed to list directory '' @ quoted dir @ '': '' @ what))
      | Inr entries \<Rightarrow> Inr (sort_key oi_uri
          (map (\<lambda>(path, _, size). \<lparr>oi_uri = path, oi_size = size\<rparr>)
            (filter (\<lambda>(path, regular, _). regular \<and> name_matches pattern (snd (split_last_component path))) entries))))"

text \<open>\<open>fs::path::parent_path\<close>, with the current directory for a bare name.\<close>

definition parent_or_dot :: "string \<Rightarrow> string" where
  "parent_or_dot path =
     (let dir = fst (split_last_component path)
      in if dir \<noteq> [] then rev (dropWhile (\<lambda>c. c = CHR ''/'') (rev dir))
         else if CHR ''/'' \<in> set path then ''/'' else ''.'')"

definition local_list :: "file_system \<Rightarrow> string \<Rightarrow> string \<Rightarrow> ObjectInfo list result" where
  "local_list F local_root path =
     (if has_glob_chars (snd (split_last_component path))
      then bindR (check_within_root F (parent_or_dot path) local_root path) (\<lambda>_.
           if \<not> fs_exists F (parent_or_dot path) \<or> \<not> fs_is_directory F (parent_or_dot path) then fail_missing path
           else bindR (list_directory_matching F (parent_or_dot path) (snd (split_last_component path))) (\<lambda>results.
             if results = [] then Inl (StorageError (''no files matched pattern '' @ quoted path))
             else Inr results))
      else bindR (check_within_root F path local_root path) (\<lambda>_.
           if \<not> fs_exists F path then fail_missing path
           else if fs_is_directory F path
           then bindR (list_directory_matching F path ''*.parquet'') (\<lambda>results.
                  if results = []
                  then Inl (StorageError (''directory contains no Parquet files: '' @ quoted path))
                  else Inr results)
           else Inr [\<lparr>oi_uri = fs_absolute F path, oi_size = fs_file_size F path\<rparr>]))"

text \<open>\<open>fs::path::extension\<close>: from the last dot of the name, unless the dot starts the name.\<close>

definition path_extension :: "string \<Rightarrow> string" where
  "path_extension path =
     (let name = snd (split_last_component path);
          ext = rev (takeWhile (\<lambda>c. c \<noteq> CHR ''.'') (rev name))
      in if name = ''..'' \<or> CHR ''.'' \<notin> set name \<or> length name = Suc (length ext) then [] else CHR ''.'' # ext)"

definition local_list_recursive :: "file_system \<Rightarrow> string \<Rightarrow> string \<Rightarrow> ObjectInfo list result" where
  "local_list_recursive F local_root path =
     bindR (check_within_root F path local_root path) (\<lambda>_.
     if \<not> fs_exists F path then fail_missing path
     else if \<not> fs_is_directory F path
     then Inl (StorageError (''expected a directory for recursive listing, got a file: '' @ quoted path))
     else case fs_tree F path of
            Inl what \<Rightarrow> Inl (StorageError (''failed to recursively list directory '' @ quoted path @ '': '' @ what))
          | Inr entries \<Rightarrow>
              let results = map (\<lambda>(p, _, size). \<lparr>oi_uri = p, oi_size = size\<rparr>)
                    (filter (\<lambda>(p, regular, _). regular \<and> path_extension p = ''.parquet'') entries)
              in if results = []
                 then Inl (StorageError (''directory tree contains no Parquet files: '' @ quoted path))
                 else Inr (sort_key oi_uri results))"

section \<open>Stores behind Arrow file systems\<close>

datatype file_type = NotFound | FileKind | DirectoryKind

text \<open>
  Arrow's \<open>FileSystem\<close>: \<open>GetFileInfo\<close> of a path, and of a selector (directory, recursive); each
  returns a status text or infos of path, type and size.
\<close>

record arrow_fs =
  af_info :: "string \<Rightarrow> string + (file_type \<times> int)"
  af_select :: "string \<Rightarrow> bool \<Rightarrow> string + (string \<times> file_type \<times> int) list"

text \<open>\<open>FileInfo::extension\<close>: what follows the last dot of the name.\<close>

definition arrow_extension :: "string \<Rightarrow> string" where
  "arrow_extension path =
     (let name = snd (split_last_component path)
      in if CHR ''.'' \<notin> set name then [] else rev (takeWhile (\<lambda>c. c \<noteq> CHR ''.'') (rev name)))"

definition to_object :: "string \<Rightarrow> string \<times> file_type \<times> int \<Rightarrow> ObjectInfo" where
  "to_object prefix info =
     \<lparr>oi_uri = scheme prefix @ ''://'' @ fst info, oi_size = snd (snd info)\<rparr>"

definition select_files ::
  "arrow_fs \<Rightarrow> string \<Rightarrow> string \<Rightarrow> string \<Rightarrow> bool \<Rightarrow> (string \<Rightarrow> bool) \<Rightarrow> string \<Rightarrow> ObjectInfo list result" where
  "select_files F label prefix dir rec keep none =
     (case af_select F dir rec of
        Inl status \<Rightarrow> Inl (StorageError (label @ '': failed to list '' @ quoted prefix @ '': '' @ status))
      | Inr infos \<Rightarrow>
          let results = map (to_object prefix) (filter (\<lambda>(path, type, _). type = FileKind \<and> keep path) infos)
          in if results = [] then Inl (StorageError (label @ none @ quoted prefix))
             else Inr (sort_key oi_uri results))"

definition generic_fs_list :: "arrow_fs \<Rightarrow> string \<Rightarrow> string \<Rightarrow> ObjectInfo list result" where
  "generic_fs_list F label prefix =
     (let path = strip_scheme prefix; (dir, last) = split_last_component path
      in if has_glob_chars last
         then select_files F label prefix dir False (\<lambda>p. name_matches last (snd (split_last_component p)))
                '': no files matched pattern ''
         else case af_info F path of
                Inl status \<Rightarrow> Inl (StorageError (label @ '': failed to inspect '' @ quoted prefix @ '': '' @ status))
              | Inr (NotFound, _) \<Rightarrow> Inl (StorageError (label @ '': path does not exist: '' @ quoted prefix))
              | Inr (DirectoryKind, _) \<Rightarrow>
                  select_files F label prefix path False (\<lambda>p. arrow_extension p = ''parquet'')
                    '': directory contains no Parquet files: ''
              | Inr (FileKind, n) \<Rightarrow> Inr [\<lparr>oi_uri = prefix, oi_size = n\<rparr>])"

definition generic_fs_list_recursive :: "arrow_fs \<Rightarrow> string \<Rightarrow> string \<Rightarrow> ObjectInfo list result" where
  "generic_fs_list_recursive F label prefix =
     (case af_info F (strip_scheme prefix) of
        Inl status \<Rightarrow> Inl (StorageError (label @ '': failed to inspect '' @ quoted prefix @ '': '' @ status))
      | Inr (NotFound, _) \<Rightarrow> Inl (StorageError (label @ '': path does not exist: '' @ quoted prefix))
      | Inr (FileKind, _) \<Rightarrow> Inl (StorageError (label @ '': expected a directory for recursive listing, got a file: '' @ quoted prefix))
      | Inr (DirectoryKind, _) \<Rightarrow>
          select_files F label prefix (strip_scheme prefix) True (\<lambda>p. arrow_extension p = ''parquet'')
            '': directory tree contains no Parquet files: '')"

section \<open>Properties\<close>

text \<open>
  C26. The wildcard matcher ends on every pattern and name, and for a name without an asterisk it
  decides what the pattern means: going back only to the last asterisk is enough.
\<close>

theorem glob_match_exact:
  "(\<exists>b. glob_match pattern name = Some b) \<and>
   (CHR ''*'' \<notin> set name \<longrightarrow> glob_match pattern name = Some (matches pattern name))"
  using glob_match_returns glob_match_spec by blast

theorem glob_match_exact_witness:
  "CHR ''*'' \<notin> set ''part-07-07.parquet'' \<and>
   glob_match ''*-0?.parquet'' ''part-07-07.parquet'' = Some (matches ''*-0?.parquet'' ''part-07-07.parquet'') \<and>
   glob_match ''*-0?.parquet'' ''part-07-07.parquet'' = Some True"
proof -
  have "glob_match ''*-0?.parquet'' ''part-07-07.parquet'' = Some True" by code_simp
  then show ?thesis using glob_match_exact[of "''*-0?.parquet''" "''part-07-07.parquet''"] by simp
qed

text \<open>
  In a name with an asterisk the matcher takes the pattern's asterisk for that character and
  forgets that it could stand for more: \<open>*a\<close> does not match the name \<open>*ba\<close>.
\<close>

theorem glob_asterisk_in_name:
  "glob_match ''*a'' ''*ba'' = Some False \<and> matches ''*a'' ''*ba''"
proof
  show "glob_match ''*a'' ''*ba'' = Some False" by code_simp
  show "matches ''*a'' ''*ba''" by code_simp
qed

lemma list_directory_matching_exact:
  assumes "list_directory_matching F dir pattern = Inr rs" "fs_entries F dir = Inr entries"
    and "list_all (\<lambda>(p, _). CHR ''*'' \<notin> set (snd (split_last_component p))) entries"
  shows "sorted (map oi_uri rs) \<and> set rs = {\<lparr>oi_uri = p, oi_size = n\<rparr> | p n.
    (p, True, n) \<in> set entries \<and> matches pattern (snd (split_last_component p))}"
proof -
  let ?keep = "\<lambda>(p, regular, n). regular \<and> name_matches pattern (snd (split_last_component p))"
  have rs: "rs = sort_key oi_uri (map (\<lambda>(p, _, n). \<lparr>oi_uri = p, oi_size = n\<rparr>) (filter ?keep entries))"
    using assms(1,2) by (simp add: list_directory_matching_def)
  have m: "name_matches pattern (snd (split_last_component p)) \<longleftrightarrow> matches pattern (snd (split_last_component p))"
    if "(p, r, n) \<in> set entries" for p r n
    using assms(3) that by (auto simp: name_matches_def list_all_iff glob_match_spec)
  have "set (filter ?keep entries) = {(p, True, n) | p n. (p, True, n) \<in> set entries \<and>
      matches pattern (snd (split_last_component p))}"
    using m by auto
  then have "set rs = (\<lambda>(p, _, n). \<lparr>oi_uri = p, oi_size = n\<rparr>) ` {(p, True, n) | p n. (p, True, n) \<in> set entries \<and>
      matches pattern (snd (split_last_component p))}" by (simp only: rs set_sort set_map)
  also have "\<dots> = {\<lparr>oi_uri = p, oi_size = n\<rparr> | p n.
    (p, True, n) \<in> set entries \<and> matches pattern (snd (split_last_component p))}" by force
  finally show ?thesis by (simp add: rs)
qed

text \<open>
  Listing a local pattern returns exactly the regular files of its directory whose names match
  it, in the order of their paths, at least one, and only for a directory below the configured
  root.
\<close>

theorem local_list_pattern:
  assumes "local_list F local_root path = Inr rs" "has_glob_chars (snd (split_last_component path))"
    and "fs_entries F (parent_or_dot path) = Inr entries"
    and "list_all (\<lambda>(p, _). CHR ''*'' \<notin> set (snd (split_last_component p))) entries"
  shows "rs \<noteq> [] \<and> sorted (map oi_uri rs) \<and> set rs = {\<lparr>oi_uri = p, oi_size = n\<rparr> | p n.
      (p, True, n) \<in> set entries \<and> matches (snd (split_last_component path)) (snd (split_last_component p))} \<and>
    take (length (fs_components F local_root)) (fs_components F (parent_or_dot path)) = fs_components F local_root"
proof -
  from assms(1,2) have "list_directory_matching F (parent_or_dot path) (snd (split_last_component path)) = Inr rs"
    "rs \<noteq> []" "take (length (fs_components F local_root)) (fs_components F (parent_or_dot path)) = fs_components F local_root"
    by (auto simp: local_list_def bindR_eq_Inr check_within_root_def fail_missing_def Let_def split: if_splits)
  with list_directory_matching_exact[OF this(1) assms(3,4)] show ?thesis by simp
qed

definition demo_fs :: file_system where
  "demo_fs =
     \<lparr>fs_components = split_path_segments, fs_exists = (\<lambda>_. True), fs_is_directory = (\<lambda>p. p = ''/data/t''),
      fs_entries = (\<lambda>_. Inr [(''/data/t/b.parquet'', True, 7), (''/data/t/x'', False, 0), (''/data/t/a.parquet'', True, 5)]),
      fs_tree = (\<lambda>_. Inr []), fs_absolute = (\<lambda>p. p), fs_file_size = (\<lambda>_. 0)\<rparr>"

theorem local_list_pattern_witness:
  "local_list demo_fs ''/data'' ''/data/t/*.parquet'' =
     Inr [\<lparr>oi_uri = ''/data/t/a.parquet'', oi_size = 5\<rparr>, \<lparr>oi_uri = ''/data/t/b.parquet'', oi_size = 7\<rparr>] \<and>
   set [\<lparr>oi_uri = ''/data/t/a.parquet'', oi_size = 5\<rparr>, \<lparr>oi_uri = ''/data/t/b.parquet'', oi_size = 7\<rparr>]
     = {\<lparr>oi_uri = p, oi_size = n\<rparr> | p n. (p, True, n) \<in>
         set [(''/data/t/b.parquet'', True, 7), (''/data/t/x'', False, 0), (''/data/t/a.parquet'', True, 5)] \<and>
         matches ''*.parquet'' (snd (split_last_component p))}"
proof -
  let ?entries = "[(''/data/t/b.parquet'', True, 7), (''/data/t/x'', False, 0), (''/data/t/a.parquet'', True, 5)]"
  have l: "local_list demo_fs ''/data'' ''/data/t/*.parquet'' =
     Inr [\<lparr>oi_uri = ''/data/t/a.parquet'', oi_size = 5\<rparr>, \<lparr>oi_uri = ''/data/t/b.parquet'', oi_size = 7\<rparr>]" by code_simp
  have g: "has_glob_chars (snd (split_last_component ''/data/t/*.parquet''))" by code_simp
  have e: "fs_entries demo_fs (parent_or_dot ''/data/t/*.parquet'') = Inr ?entries" by (simp add: demo_fs_def)
  have n: "list_all (\<lambda>(p, _). CHR ''*'' \<notin> set (snd (split_last_component p))) ?entries" by code_simp
  have p: "snd (split_last_component ''/data/t/*.parquet'') = ''*.parquet''" by code_simp
  show ?thesis using local_list_pattern[OF l g e n] l unfolding p by blast
qed

end
