(* ===== verification/ObjectCache.thy ===== *)
theory ObjectCache
  imports ObjectStores "HOL-Library.Word"
begin

unbundle bit_operations_syntax

text \<open>
  The read-through cache of \<^verbatim>\<open>src/storage/nvme_object_cache.cpp\<close> and the scheme dispatch of
  \<^verbatim>\<open>object_store_registry\<close>. The state is the cache directory, in the order a listing gives, and the
  counters, at their width. One call is one step: the lock of its key keeps every other thread off
  that entry, and an entry another thread has locked is \<open>busy\<close> for the eviction sweep, which skips
  it. The clock, the remote object, the outcome of the file operations and which entries are busy
  are arguments.
\<close>

type_synonym byte = "8 word"

section \<open>Names\<close>

definition fnv1a_64 :: "string \<Rightarrow> 64 word" where
  "fnv1a_64 data =
     foldl (\<lambda>hash c. (hash XOR word_of_int (of_char c)) * 1099511628211) 14695981039346656037 data"

fun hex_digit :: "int \<Rightarrow> char" where
  "hex_digit n = (if n < 10 then char_of (48 + n) else char_of (87 + n))"

text \<open>\<open>{:016x}\<close>\<close>

fun hex_digits :: "nat \<Rightarrow> int \<Rightarrow> string" where
  "hex_digits 0 n = []"
| "hex_digits (Suc k) n = hex_digits k (n div 16) @ [hex_digit (n mod 16)]"

definition cache_file_name :: "string \<Rightarrow> string" where
  "cache_file_name uri = hex_digits 16 (uint (fnv1a_64 uri)) @ ''.cache''"

section \<open>State\<close>

record cached_file =
  cf_bytes :: "byte list"
  cf_mtime :: int

record NvmeObjectCache =
  max_size_bytes :: nat
  cache_dir :: "(string \<times> cached_file) list"
  hits :: "64 word"
  misses :: "64 word"
  evictions :: "64 word"
  current_bytes :: "64 word"
  current_entries :: "64 word"

definition is_entry :: "string \<times> cached_file \<Rightarrow> bool" where
  "is_entry e \<longleftrightarrow> path_extension (fst e) = ''.cache''"

definition entry_size :: "string \<times> cached_file \<Rightarrow> nat" where
  "entry_size e = length (cf_bytes (snd e))"

definition total_bytes :: "(string \<times> cached_file) list \<Rightarrow> nat" where
  "total_bytes dir = sum_list (map entry_size (filter is_entry dir))"

definition put_file :: "string \<Rightarrow> cached_file \<Rightarrow> (string \<times> cached_file) list \<Rightarrow> (string \<times> cached_file) list" where
  "put_file name f dir = filter (\<lambda>e. fst e \<noteq> name) dir @ [(name, f)]"

text \<open>The constructor counts what an earlier process left in the directory.\<close>

definition new_cache :: "nat \<Rightarrow> (string \<times> cached_file) list \<Rightarrow> NvmeObjectCache" where
  "new_cache max_size dir =
     \<lparr>max_size_bytes = max_size, cache_dir = dir, hits = 0, misses = 0, evictions = 0,
      current_bytes = word_of_nat (total_bytes dir),
      current_entries = word_of_nat (length (filter is_entry dir))\<rparr>"

section \<open>Eviction\<close>

definition remove_entry :: "string \<times> cached_file \<Rightarrow> NvmeObjectCache \<Rightarrow> NvmeObjectCache" where
  "remove_entry e c =
     c\<lparr>cache_dir := filter (\<lambda>x. fst x \<noteq> fst e) (cache_dir c),
       current_bytes := current_bytes c - word_of_nat (entry_size e),
       current_entries := current_entries c - 1, evictions := evictions c + 1\<rparr>"

text \<open>\<open>busy\<close>: \<open>try_lock\<close> of the entry's key fails; \<open>stuck\<close>: \<open>fs::remove\<close> fails.\<close>

fun sweep ::
  "nat \<Rightarrow> string \<Rightarrow> (string \<Rightarrow> bool) \<Rightarrow> (string \<Rightarrow> bool) \<Rightarrow> nat \<Rightarrow> (string \<times> cached_file) list \<Rightarrow>
     NvmeObjectCache \<Rightarrow> NvmeObjectCache" where
  "sweep max_size protected busy stuck total_size [] c = c"
| "sweep max_size protected busy stuck total_size (e # es) c =
     (if total_size \<le> max_size then c
      else if fst e = protected \<or> busy (fst e) \<or> stuck (fst e)
      then sweep max_size protected busy stuck total_size es c
      else sweep max_size protected busy stuck (total_size - entry_size e) es (remove_entry e c))"

definition evict_if_over_budget ::
  "string \<Rightarrow> (string \<Rightarrow> bool) \<Rightarrow> (string \<Rightarrow> bool) \<Rightarrow> NvmeObjectCache \<Rightarrow> NvmeObjectCache" where
  "evict_if_over_budget protected busy stuck c =
     (if max_size_bytes c = 0 \<or> unat (current_bytes c) \<le> max_size_bytes c then c
      else
        let entries = filter is_entry (cache_dir c); total_size = total_bytes (cache_dir c)
        in if total_size \<le> max_size_bytes c then c
           else sweep (max_size_bytes c) protected busy stuck total_size (sort_key (cf_mtime \<circ> snd) entries) c)"

section \<open>Population\<close>

record remote_object =
  ro_size :: nat
  ro_read :: "nat \<Rightarrow> nat \<Rightarrow> string + byte list"

text \<open>The temporary file and the status of each file operation, \<open>None\<close> when it succeeds.\<close>

record file_ops =
  fo_tmp :: string
  fo_open :: "string option"
  fo_write :: "nat \<Rightarrow> string option"
  fo_close :: "string option"
  fo_rename :: "string option"
  fo_busy :: "string \<Rightarrow> bool"
  fo_stuck :: "string \<Rightarrow> bool"
  fo_now :: int

definition kChunkBytes :: int where
  "kChunkBytes = 64 * 1024 * 1024"

function (sequential) copy_chunks :: "remote_object \<Rightarrow> file_ops \<Rightarrow> int \<Rightarrow> nat \<Rightarrow> byte list \<Rightarrow> byte list result" where
  "copy_chunks ro ops total_size offset written =
     (if total_size \<le> int offset then Inr written
      else
        let want = min kChunkBytes (total_size - int offset)
        in case ro_read ro offset (nat want) of
             Inl status \<Rightarrow> Inl (StorageError (''failed to read '' @ int_str want @ '' bytes at offset '' @
               int_str (int offset) @ '' while populating NVMe cache: '' @ status))
           | Inr [] \<Rightarrow> Inr written
           | Inr (b # buffer) \<Rightarrow>
               (case fo_write ops offset of
                  Some status \<Rightarrow> Inl (StorageError (''failed to write NVMe cache temp file '' @ quoted (fo_tmp ops) @ '': '' @ status))
                | None \<Rightarrow> copy_chunks ro ops total_size (offset + length (b # buffer)) (written @ b # buffer)))"
  by pat_completeness auto

termination copy_chunks
  by (relation "measure (\<lambda>(ro, ops, total_size, offset, written). nat (total_size - int offset))") auto

declare copy_chunks.simps [simp del]

definition populate ::
  "string \<Rightarrow> remote_object \<Rightarrow> file_ops \<Rightarrow> NvmeObjectCache \<Rightarrow> unit result \<times> NvmeObjectCache" where
  "populate name remote ops c =
     (case fo_open ops of
        Some status \<Rightarrow> (Inl (StorageError (''failed to open NVMe cache temp file '' @ quoted (fo_tmp ops) @ '': '' @ status)), c)
      | None \<Rightarrow>
          (case copy_chunks remote ops (wrap64 (int (ro_size remote))) 0 [] of
             Inl e \<Rightarrow> (Inl e, c)
           | Inr bytes \<Rightarrow>
               (case fo_close ops of
                  Some status \<Rightarrow> (Inl (StorageError (''failed to close NVMe cache temp file '' @ quoted (fo_tmp ops) @ '': '' @ status)), c)
                | None \<Rightarrow>
                    (case fo_rename ops of
                       Some status \<Rightarrow> (Inl (StorageError (''failed to finalize NVMe cache entry '' @ quoted name @ '': '' @ status)), c)
                     | None \<Rightarrow>
                         (Inr (), evict_if_over_budget name (fo_busy ops) (fo_stuck ops)
                           (c\<lparr>cache_dir := put_file name \<lparr>cf_bytes = bytes, cf_mtime = fo_now ops\<rparr> (cache_dir c),
                              current_bytes := current_bytes c + word_of_nat (length bytes),
                              current_entries := current_entries c + 1\<rparr>))))))"

section \<open>Reading through the cache\<close>

definition touch :: "string \<Rightarrow> int \<Rightarrow> NvmeObjectCache \<Rightarrow> NvmeObjectCache" where
  "touch name now c =
     c\<lparr>cache_dir := map (\<lambda>(n, f). (n, if n = name then f\<lparr>cf_mtime := now\<rparr> else f)) (cache_dir c)\<rparr>"

definition open_cached :: "string \<Rightarrow> NvmeObjectCache \<Rightarrow> byte list result" where
  "open_cached name c =
     (case map_of (cache_dir c) name of
        None \<Rightarrow> Inl (StorageError (''failed to open '' @ quoted name))
      | Some f \<Rightarrow> Inr (cf_bytes f))"

definition get_or_populate ::
  "string \<Rightarrow> (string \<Rightarrow> remote_object result) \<Rightarrow> file_ops \<Rightarrow> NvmeObjectCache \<Rightarrow> byte list result \<times> NvmeObjectCache" where
  "get_or_populate uri backend_open ops c =
     (let name = cache_file_name uri;
          (outcome, c1) =
            (if name \<in> set (map fst (cache_dir c)) then (Inr (), c\<lparr>hits := hits c + 1\<rparr>)
             else
               let c0 = c\<lparr>misses := misses c + 1\<rparr>
               in case backend_open uri of
                    Inl e \<Rightarrow> (Inl e, c0)
                  | Inr remote \<Rightarrow> populate name remote ops c0)
      in case outcome of
           Inl e \<Rightarrow> (Inl e, c1)
         | Inr _ \<Rightarrow> let c2 = touch name (fo_now ops) c1 in (open_cached name c2, c2))"

definition cached_info :: "string \<Rightarrow> NvmeObjectCache \<Rightarrow> ObjectInfo option \<times> NvmeObjectCache" where
  "cached_info uri c =
     (case map_of (cache_dir c) (cache_file_name uri) of
        None \<Rightarrow> (None, c)
      | Some f \<Rightarrow> (Some \<lparr>oi_uri = uri, oi_size = int (length (cf_bytes f))\<rparr>, c\<lparr>hits := hits c + 1\<rparr>))"

section \<open>The registry\<close>

text \<open>
  A backend is what its three calls return; constructing one may fail, and then fails the call
  that needed it.
\<close>

record backend =
  be_list :: "string \<Rightarrow> ObjectInfo list result"
  be_list_recursive :: "string \<Rightarrow> ObjectInfo list result"
  be_open :: "string \<Rightarrow> remote_object result"

record ObjectStoreRegistry =
  rg_local :: backend
  rg_s3 :: "backend result"
  rg_gcs :: "backend result"
  rg_azure :: "backend result"
  rg_hdfs :: "backend result"
  rg_cache :: "NvmeObjectCache option"

definition backend_for :: "ObjectStoreRegistry \<Rightarrow> string \<Rightarrow> backend result" where
  "backend_for R s =
     (if s = ''file'' then Inr (rg_local R)
      else if s = ''s3'' then rg_s3 R
      else if s = ''gs'' \<or> s = ''gcs'' then rg_gcs R
      else if s = ''abfs'' \<or> s = ''abfss'' \<or> s = ''az'' then rg_azure R
      else if s = ''hdfs'' then rg_hdfs R
      else Inl (StorageError (''unsupported URI scheme '' @ quoted s @ '' (expected a local path, or '' @ quoted ''s3://'' @
        '', '' @ quoted ''gs://'' @ ''/'' @ quoted ''gcs://'' @ '', '' @ quoted ''abfs://'' @ ''/'' @ quoted ''abfss://'' @
        ''/'' @ quoted ''az://'' @ '', or '' @ quoted ''hdfs://'' @ '')'')))"

definition registry_list :: "string \<Rightarrow> ObjectStoreRegistry \<Rightarrow> ObjectInfo list result \<times> ObjectStoreRegistry" where
  "registry_list prefix R =
     (let live = (\<lambda>R. (bindR (backend_for R (scheme prefix)) (\<lambda>b. be_list b prefix), R))
      in case rg_cache R of
           None \<Rightarrow> live R
         | Some c \<Rightarrow>
             if scheme prefix = ''file'' then live R
             else case cached_info prefix c of
                    (Some info, c') \<Rightarrow> (Inr [info], R\<lparr>rg_cache := Some c'\<rparr>)
                  | (None, c') \<Rightarrow> live (R\<lparr>rg_cache := Some c'\<rparr>))"

definition registry_list_recursive :: "string \<Rightarrow> ObjectStoreRegistry \<Rightarrow> ObjectInfo list result" where
  "registry_list_recursive prefix R = bindR (backend_for R (scheme prefix)) (\<lambda>b. be_list_recursive b prefix)"

text \<open>A local file as an object.\<close>

definition remote_of :: "byte list \<Rightarrow> remote_object" where
  "remote_of bytes = \<lparr>ro_size = length bytes, ro_read = (\<lambda>offset n. Inr (take n (drop offset bytes)))\<rparr>"

definition registry_open ::
  "string \<Rightarrow> file_ops \<Rightarrow> ObjectStoreRegistry \<Rightarrow> remote_object result \<times> ObjectStoreRegistry" where
  "registry_open uri ops R =
     (case backend_for R (scheme uri) of
        Inl e \<Rightarrow> (Inl e, R)
      | Inr b \<Rightarrow>
          (case rg_cache R of
             Some c \<Rightarrow>
               if scheme uri = ''file'' then (be_open b uri, R)
               else let (bytes, c') = get_or_populate uri (be_open b) ops c
                    in (map_sum id remote_of bytes, R\<lparr>rg_cache := Some c'\<rparr>)
           | None \<Rightarrow> (be_open b uri, R)))"

section \<open>Names are the hashes\<close>

lemma hex_digit_cases:
  assumes "0 \<le> n" "n < 16"
  shows "hex_digit n = ''0123456789abcdef'' ! nat n"
proof -
  have "list_all (\<lambda>n. hex_digit n = ''0123456789abcdef'' ! nat n) [0 .. 15]" by code_simp
  then show ?thesis using assms by (simp add: list_all_iff del: hex_digit.simps)
qed

lemma hex_digit_inj:
  assumes "0 \<le> m" "m < 16" "0 \<le> n" "n < 16" "hex_digit m = hex_digit n"
  shows "m = n"
proof -
  have "distinct ''0123456789abcdef''" by code_simp
  then have "nat m = nat n" using assms hex_digit_cases[of m] hex_digit_cases[of n]
    by (simp only: nth_eq_iff_index_eq) (simp add: nth_eq_iff_index_eq)
  with assms show ?thesis by simp
qed

lemma hex_digits_length [simp]: "length (hex_digits k n) = k"
  by (induction k arbitrary: n) auto

lemma hex_digits_inj:
  "0 \<le> m \<Longrightarrow> m < 16 ^ k \<Longrightarrow> 0 \<le> n \<Longrightarrow> n < 16 ^ k \<Longrightarrow> hex_digits k m = hex_digits k n \<Longrightarrow> m = n"
proof (induction k arbitrary: m n)
  case (Suc k)
  have "m div 16 = n div 16" using Suc.prems by (intro Suc.IH) (auto simp: div_less_iff_less_mult)
  moreover have "m mod 16 = n mod 16" using Suc.prems by (intro hex_digit_inj) (auto simp del: hex_digit.simps)
  ultimately show ?case by (metis div_mult_mod_eq)
qed simp

lemma cache_file_name_eq: "cache_file_name u = cache_file_name v \<longleftrightarrow> fnv1a_64 u = fnv1a_64 v"
proof -
  have "uint (fnv1a_64 w) < 2 ^ LENGTH(64)" for w by (rule unsigned_less)
  then have "uint (fnv1a_64 w) < 16 ^ 16" for w by simp
  then show ?thesis
    using hex_digits_inj[of "uint (fnv1a_64 u)" 16 "uint (fnv1a_64 v)"]
    by (auto simp: cache_file_name_def word_uint_eq_iff simp del: hex_digits.simps)
qed

lemma hex_digits_plain: "c \<in> set (hex_digits k n) \<Longrightarrow> c \<noteq> CHR ''/'' \<and> c \<noteq> CHR ''.''"
proof (induction k arbitrary: n)
  case (Suc k)
  have "hex_digit (n mod 16) \<in> set ''0123456789abcdef''"
    using nth_mem[of "nat (n mod 16)" "''0123456789abcdef''"] hex_digit_cases[of "n mod 16"]
    by (simp del: hex_digit.simps)
  then have "hex_digit (n mod 16) \<noteq> CHR ''/'' \<and> hex_digit (n mod 16) \<noteq> CHR ''.''"
    by (auto simp del: hex_digit.simps)
  with Suc show ?case by (auto simp del: hex_digit.simps)
qed simp

lemma cache_file_is_entry: "is_entry (cache_file_name uri, f)"
proof -
  let ?h = "hex_digits 16 (uint (fnv1a_64 uri))"
  have "CHR ''/'' \<notin> set ?h" "length ?h = 16" using hex_digits_plain by (blast, simp del: hex_digits.simps)
  then show ?thesis
    by (auto simp: is_entry_def cache_file_name_def path_extension_def split_last_component_def Let_def
        simp del: hex_digits.simps)
qed

section \<open>Accounting\<close>

text \<open>The counters say what the directory holds.\<close>

definition cache_ok :: "NvmeObjectCache \<Rightarrow> bool" where
  "cache_ok c \<longleftrightarrow>
     distinct (map fst (cache_dir c)) \<and>
     current_bytes c = word_of_nat (total_bytes (cache_dir c)) \<and>
     current_entries c = word_of_nat (length (filter is_entry (cache_dir c)))"

lemma total_bytes_simps [simp]:
  "total_bytes [] = 0"
  "total_bytes (e # dir) = (if is_entry e then entry_size e else 0) + total_bytes dir"
  "total_bytes (dir @ dir') = total_bytes dir + total_bytes dir'"
  by (simp_all add: total_bytes_def)

lemma other_name: "distinct (map fst (e # es)) \<Longrightarrow> x \<in> set es \<Longrightarrow> fst x \<noteq> fst e"
  by (metis distinct.simps(2) image_eqI list.set_map list.simps(9))

lemma remove_from_dir:
  assumes "distinct (map fst dir)" "e \<in> set dir" "is_entry e"
  shows "total_bytes dir = entry_size e + total_bytes (filter (\<lambda>x. fst x \<noteq> fst e) dir)"
    "length (filter is_entry dir) = Suc (length (filter is_entry (filter (\<lambda>x. fst x \<noteq> fst e) dir)))"
proof -
  have "total_bytes dir = entry_size e + total_bytes (filter (\<lambda>x. fst x \<noteq> fst e) dir) \<and>
    length (filter is_entry dir) = Suc (length (filter is_entry (filter (\<lambda>x. fst x \<noteq> fst e) dir)))"
    using assms(1,2)
  proof (induction dir)
    case (Cons x dir)
    show ?case
    proof (cases "x = e")
      case True
      have "filter (\<lambda>x. fst x \<noteq> fst e) dir = dir"
        by (rule filter_True) (use other_name[of x dir] Cons.prems(1) True in blast)
      with True assms(3) show ?thesis by simp
    next
      case False
      with Cons.prems have "e \<in> set dir" "fst x \<noteq> fst e" by force+
      with Cons show ?thesis by auto
    qed
  qed simp
  then show "total_bytes dir = entry_size e + total_bytes (filter (\<lambda>x. fst x \<noteq> fst e) dir)"
    "length (filter is_entry dir) = Suc (length (filter is_entry (filter (\<lambda>x. fst x \<noteq> fst e) dir)))" by auto
qed

lemma remove_entry_ok:
  assumes "cache_ok c" "e \<in> set (cache_dir c)" "is_entry e"
  shows "cache_ok (remove_entry e c)"
  using assms remove_from_dir[of "cache_dir c" e]
  by (auto simp: cache_ok_def remove_entry_def distinct_map inj_on_def)

text \<open>What a sweep over entries of the directory does.\<close>

lemma sweep_effect:
  assumes "cache_ok c" "distinct (map fst es)" "set es \<subseteq> set (filter is_entry (cache_dir c))"
  shows "cache_ok (sweep m protected busy stuck t es c) \<and>
    set (cache_dir (sweep m protected busy stuck t es c)) \<subseteq> set (cache_dir c) \<and>
    (\<forall>e \<in> set (cache_dir c). e \<notin> set es \<or> fst e = protected \<or> busy (fst e) \<or> stuck (fst e) \<longrightarrow>
      e \<in> set (cache_dir (sweep m protected busy stuck t es c))) \<and>
    max_size_bytes (sweep m protected busy stuck t es c) = max_size_bytes c"
  using assms
proof (induction es arbitrary: t c)
  case (Cons e es)
  let ?c = "remove_entry e c"
  have "cache_ok ?c" using Cons.prems by (auto intro: remove_entry_ok)
  moreover have "set es \<subseteq> set (filter is_entry (cache_dir ?c))"
    using other_name[OF Cons.prems(2)] Cons.prems(3) by (auto simp: remove_entry_def)
  ultimately have r: "cache_ok (sweep m protected busy stuck (t - entry_size e) es ?c)"
    "set (cache_dir (sweep m protected busy stuck (t - entry_size e) es ?c)) \<subseteq> set (cache_dir ?c)"
    "\<forall>x \<in> set (cache_dir ?c). x \<notin> set es \<or> fst x = protected \<or> busy (fst x) \<or> stuck (fst x) \<longrightarrow>
      x \<in> set (cache_dir (sweep m protected busy stuck (t - entry_size e) es ?c))"
    "max_size_bytes (sweep m protected busy stuck (t - entry_size e) es ?c) = max_size_bytes c"
    using Cons.IH[of ?c "t - entry_size e"] Cons.prems(2) by (auto simp: remove_entry_def)
  have keep: "x \<in> set (cache_dir ?c)" if "x \<in> set (cache_dir c)" "x \<noteq> e" for x
    using that Cons.prems(1,3) by (auto simp: remove_entry_def cache_ok_def distinct_map inj_on_def)
  have sub: "set (cache_dir ?c) \<subseteq> set (cache_dir c)" by (auto simp: remove_entry_def)
  show ?case
  proof (cases "t \<le> m \<or> fst e = protected \<or> busy (fst e) \<or> stuck (fst e)")
    case True
    then show ?thesis using Cons.prems Cons.IH[of c t] by (cases "t \<le> m") auto
  next
    case False
    then have s: "sweep m protected busy stuck t (e # es) c = sweep m protected busy stuck (t - entry_size e) es ?c" by simp
    have "x \<in> set (cache_dir (sweep m protected busy stuck (t - entry_size e) es ?c))"
      if "x \<in> set (cache_dir c)" "x \<notin> set (e # es) \<or> fst x = protected \<or> busy (fst x) \<or> stuck (fst x)" for x
    proof -
      have "x \<noteq> e" using that False by auto
      with keep[OF that(1)] r(3) that(2) show ?thesis by auto
    qed
    with r(1,2,4) sub show ?thesis unfolding s by blast
  qed
qed simp

text \<open>A sweep stops within the budget or with nothing left that it may remove, oldest entries first.\<close>

lemma sweep_budget:
  assumes "cache_ok c" "distinct (map fst es)" "set es \<subseteq> set (filter is_entry (cache_dir c))"
    "t = total_bytes (cache_dir c)" "r = sweep m protected busy stuck t es c"
  shows "total_bytes (cache_dir r) \<le> m \<or>
    (\<forall>e \<in> set es. e \<in> set (cache_dir r) \<longrightarrow> fst e = protected \<or> busy (fst e) \<or> stuck (fst e))"
  using assms
proof (induction es arbitrary: t c)
  case (Cons e es)
  let ?c = "remove_entry e c"
  have c: "cache_ok ?c" using Cons.prems by (auto intro: remove_entry_ok)
  have es: "set es \<subseteq> set (filter is_entry (cache_dir ?c))"
    using other_name[OF Cons.prems(2)] Cons.prems(3) by (auto simp: remove_entry_def)
  have t: "t - entry_size e = total_bytes (cache_dir ?c)"
    using remove_from_dir(1)[of "cache_dir c" e] Cons.prems by (simp add: remove_entry_def cache_ok_def)
  have d: "distinct (map fst es)" using Cons.prems(2) by simp
  consider "t \<le> m" | "\<not> t \<le> m" "fst e = protected \<or> busy (fst e) \<or> stuck (fst e)"
    | "\<not> t \<le> m" "\<not> (fst e = protected \<or> busy (fst e) \<or> stuck (fst e))" by blast
  then show ?case
  proof cases
    case 1
    then show ?thesis using Cons.prems by simp
  next
    case 2
    then show ?thesis using Cons.IH[of c t] Cons.prems by auto
  next
    case 3
    then have r: "r = sweep m protected busy stuck (t - entry_size e) es ?c" using Cons.prems(5) by simp
    have "e \<notin> set (cache_dir r)"
      using sweep_effect[OF c d es, of m protected busy stuck "t - entry_size e"] by (auto simp: r remove_entry_def)
    then show ?thesis using Cons.IH[OF c d es t r] by auto
  qed
qed auto

lemma sweep_oldest_first:
  assumes "cache_ok c" "distinct (map fst es)" "set es \<subseteq> set (filter is_entry (cache_dir c))"
    "sorted (map (cf_mtime \<circ> snd) es)" "r = sweep m protected busy stuck t es c"
    "old \<in> set es" "old \<notin> set (cache_dir r)" "e \<in> set es" "e \<in> set (cache_dir r)"
    "\<not> (fst e = protected \<or> busy (fst e) \<or> stuck (fst e))"
  shows "cf_mtime (snd old) \<le> cf_mtime (snd e)"
  using assms
proof (induction es arbitrary: t c)
  case (Cons x es)
  let ?c = "remove_entry x c"
  have c: "cache_ok ?c" using Cons.prems by (auto intro: remove_entry_ok)
  have es: "set es \<subseteq> set (filter is_entry (cache_dir ?c))"
    using other_name[OF Cons.prems(2)] Cons.prems(3) by (auto simp: remove_entry_def)
  have d: "distinct (map fst es)" using Cons.prems(2) by simp
  have unmoved: "old \<in> set (cache_dir c)" using Cons.prems(3,6) by auto
  consider "t \<le> m" | "\<not> t \<le> m" "fst x = protected \<or> busy (fst x) \<or> stuck (fst x)"
    | "\<not> t \<le> m" "\<not> (fst x = protected \<or> busy (fst x) \<or> stuck (fst x))" by blast
  then show ?case
  proof cases
    case 1
    then show ?thesis using Cons.prems(5,7) unmoved by simp
  next
    case 2
    then have r: "r = sweep m protected busy stuck t es c" using Cons.prems(5) by simp
    have "old \<noteq> x"
      using sweep_effect[OF Cons.prems(1) d, of m protected busy stuck t] Cons.prems(3,7) 2(2) unmoved
      by (auto simp: r)
    moreover have "e \<noteq> x" using 2(2) Cons.prems(10) by auto
    ultimately show ?thesis using Cons.IH[OF Cons.prems(1) d _ _ r] Cons.prems by auto
  next
    case 3
    then have r: "r = sweep m protected busy stuck (t - entry_size x) es ?c" using Cons.prems(5) by simp
    have "x \<notin> set (cache_dir r)"
      using sweep_effect[OF c d es, of m protected busy stuck "t - entry_size x"] by (auto simp: r remove_entry_def)
    then have e: "e \<in> set es" using Cons.prems(8,9) by auto
    show ?thesis
    proof (cases "old = x")
      case True
      then show ?thesis using Cons.prems(4) e by auto
    next
      case False
      then show ?thesis using Cons.IH[OF c d es _ r] Cons.prems e by auto
    qed
  qed
qed auto

lemma sorted_entries:
  assumes "cache_ok c"
  shows "distinct (map fst (sort_key (cf_mtime \<circ> snd) (filter is_entry (cache_dir c))))"
proof -
  have "distinct (map fst (filter is_entry (cache_dir c)))"
    using assms by (simp add: cache_ok_def distinct_map_filter)
  then show ?thesis by (simp add: distinct_map)
qed

lemma evict_effect:
  assumes "cache_ok c" "r = evict_if_over_budget protected busy stuck c"
  shows "cache_ok r" "set (cache_dir r) \<subseteq> set (cache_dir c)" "max_size_bytes r = max_size_bytes c"
    "\<And>e. e \<in> set (cache_dir c) \<Longrightarrow> \<not> is_entry e \<or> fst e = protected \<or> busy (fst e) \<or> stuck (fst e) \<Longrightarrow> e \<in> set (cache_dir r)"
  using sweep_effect[OF assms(1) sorted_entries[OF assms(1)], of "max_size_bytes c" protected busy stuck
      "total_bytes (cache_dir c)"] assms
  by (auto simp: evict_if_over_budget_def Let_def)

section \<open>Steps\<close>

lemma populate_effect:
  assumes "cache_ok c" "uri_name \<notin> set (map fst (cache_dir c))" "is_entry (uri_name, undefined)"
    "populate uri_name remote ops c = (outcome, r)"
  shows "cache_ok r" "max_size_bytes r = max_size_bytes c"
    "\<And>e. e \<in> set (cache_dir r) \<Longrightarrow> e \<in> set (cache_dir c) \<or>
      (\<exists>bytes. copy_chunks remote ops (wrap64 (int (ro_size remote))) 0 [] = Inr bytes \<and>
        e = (uri_name, \<lparr>cf_bytes = bytes, cf_mtime = fo_now ops\<rparr>))"
    "outcome = Inr () \<Longrightarrow> uri_name \<in> set (map fst (cache_dir r))"
proof -
  define added where "added bytes = c\<lparr>cache_dir := put_file uri_name \<lparr>cf_bytes = bytes, cf_mtime = fo_now ops\<rparr> (cache_dir c),
      current_bytes := current_bytes c + word_of_nat (length bytes), current_entries := current_entries c + 1\<rparr>" for bytes
  have fresh: "filter (\<lambda>e. fst e \<noteq> uri_name) (cache_dir c) = cache_dir c"
    using assms(2) by (auto intro!: filter_True)
  have ok: "cache_ok (added bytes)" for bytes
    using assms(1-3) by (auto simp: cache_ok_def added_def put_file_def fresh is_entry_def entry_size_def)
  consider e where "outcome = Inl e" "r = c"
    | bytes where "copy_chunks remote ops (wrap64 (int (ro_size remote))) 0 [] = Inr bytes" "outcome = Inr ()"
        "r = evict_if_over_budget uri_name (fo_busy ops) (fo_stuck ops) (added bytes)"
    using assms(4) by (auto simp: populate_def added_def split: option.splits sum.splits)
  note cs = this
  show "cache_ok r" using cs assms(1) evict_effect(1)[OF ok] by cases auto
  show "max_size_bytes r = max_size_bytes c" using cs evict_effect(3)[OF ok] by cases (auto simp: added_def)
  show "e \<in> set (cache_dir c) \<or> (\<exists>bytes. copy_chunks remote ops (wrap64 (int (ro_size remote))) 0 [] = Inr bytes \<and>
        e = (uri_name, \<lparr>cf_bytes = bytes, cf_mtime = fo_now ops\<rparr>))" if "e \<in> set (cache_dir r)" for e
    using cs
  proof cases
    case (2 bytes)
    then have "e \<in> set (cache_dir (added bytes))" using evict_effect(2)[OF ok] that by blast
    with 2(1) show ?thesis by (auto simp: added_def put_file_def)
  qed (use that in simp)
  show "uri_name \<in> set (map fst (cache_dir r))" if "outcome = Inr ()"
    using cs
  proof cases
    case (2 bytes)
    have "(uri_name, \<lparr>cf_bytes = bytes, cf_mtime = fo_now ops\<rparr>) \<in> set (cache_dir r)"
      using evict_effect(4)[OF ok 2(3)] by (auto simp: added_def put_file_def)
    then show ?thesis by force
  qed (use that in simp)
qed

lemma touch_names [simp]: "map fst (cache_dir (touch name now c)) = map fst (cache_dir c)"
  by (simp add: touch_def case_prod_beta comp_def)

lemma touch_ok: "cache_ok c \<Longrightarrow> cache_ok (touch name now c)"
proof -
  let ?t = "\<lambda>(n :: string, f :: cached_file). (n, if n = name then f\<lparr>cf_mtime := now\<rparr> else f)"
  have "filter is_entry (map ?t dir) = map ?t (filter is_entry dir)" "total_bytes (map ?t dir) = total_bytes dir" for dir
    by (induction dir) (auto simp: is_entry_def entry_size_def)
  moreover have "fst \<circ> ?t = fst" by (rule ext) (auto split: prod.splits)
  ultimately show "cache_ok c \<Longrightarrow> cache_ok (touch name now c)" by (simp add: cache_ok_def touch_def)
qed

lemma touch_mem: "(n, f) \<in> set (cache_dir (touch name now c)) \<Longrightarrow> \<exists>f'. (n, f') \<in> set (cache_dir c) \<and> cf_bytes f' = cf_bytes f"
  by (auto simp: touch_def split: if_splits)

text \<open>What a call leaves: the entries there were, possibly one fresh copy, and its own entry open.\<close>

lemma get_effect:
  assumes "cache_ok c" "get_or_populate uri backend_open ops c = (result, r)"
  shows "cache_ok r" "max_size_bytes r = max_size_bytes c"
    "\<And>n f. (n, f) \<in> set (cache_dir r) \<Longrightarrow> (\<exists>f'. (n, f') \<in> set (cache_dir c) \<and> cf_bytes f' = cf_bytes f) \<or>
      (\<exists>remote. backend_open uri = Inr remote \<and> n = cache_file_name uri \<and>
        copy_chunks remote ops (wrap64 (int (ro_size remote))) 0 [] = Inr (cf_bytes f))"
    "case result of Inl _ \<Rightarrow> cache_file_name uri \<notin> set (map fst (cache_dir c))
     | Inr bytes \<Rightarrow> \<exists>f. (cache_file_name uri, f) \<in> set (cache_dir r) \<and> bytes = cf_bytes f"
proof -
  let ?n = "cache_file_name uri"
  have opened: "\<exists>f. (?n, f) \<in> set (cache_dir (touch ?n now c1)) \<and> open_cached ?n (touch ?n now c1) = Inr (cf_bytes f)"
    if "?n \<in> set (map fst (cache_dir c1))" for c1 now
  proof -
    from that obtain f where "map_of (cache_dir (touch ?n now c1)) ?n = Some f"
      using touch_names[of ?n now c1] by (metis map_of_eq_None_iff list.set_map not_None_eq)
    then show ?thesis by (auto simp: open_cached_def dest: map_of_SomeD)
  qed
  consider (hit) "?n \<in> set (map fst (cache_dir c))" "r = touch ?n (fo_now ops) (c\<lparr>hits := hits c + 1\<rparr>)"
      "result = open_cached ?n r"
    | (unreachable) e where "?n \<notin> set (map fst (cache_dir c))" "result = Inl e" "r = c\<lparr>misses := misses c + 1\<rparr>"
    | (failed) remote e where "?n \<notin> set (map fst (cache_dir c))" "result = Inl e"
        "backend_open uri = Inr remote" "populate ?n remote ops (c\<lparr>misses := misses c + 1\<rparr>) = (Inl e, r)"
    | (filled) remote c1 where "?n \<notin> set (map fst (cache_dir c))" "backend_open uri = Inr remote"
        "populate ?n remote ops (c\<lparr>misses := misses c + 1\<rparr>) = (Inr (), c1)"
        "r = touch ?n (fo_now ops) c1" "result = open_cached ?n r"
    using assms(2) by (auto simp: get_or_populate_def Let_def split: if_splits sum.splits prod.splits)
  note cs = this
  have ok: "cache_ok (c\<lparr>hits := h\<rparr>)" "cache_ok (c\<lparr>misses := h\<rparr>)" for h using assms(1) by (auto simp: cache_ok_def)
  have fresh: "?n \<notin> set (map fst (cache_dir c)) \<Longrightarrow> ?n \<notin> set (map fst (cache_dir (c\<lparr>misses := h\<rparr>)))" for h by simp
  note pop = populate_effect[OF ok(2) fresh cache_file_is_entry]
  show "cache_ok r" using cs ok pop(1) touch_ok by cases auto
  show "max_size_bytes r = max_size_bytes c" using cs pop(2) by cases (auto simp: touch_def)
  show "case result of Inl _ \<Rightarrow> ?n \<notin> set (map fst (cache_dir c))
     | Inr bytes \<Rightarrow> \<exists>f. (?n, f) \<in> set (cache_dir r) \<and> bytes = cf_bytes f"
    using cs
  proof cases
    case hit
    then show ?thesis using opened[of "c\<lparr>hits := hits c + 1\<rparr>" "fo_now ops"] by auto
  next
    case (filled remote c1)
    then show ?thesis using opened[of c1 "fo_now ops"] pop(4) by auto
  qed simp_all
  show "(\<exists>f'. (n, f') \<in> set (cache_dir c) \<and> cf_bytes f' = cf_bytes f) \<or>
      (\<exists>remote. backend_open uri = Inr remote \<and> n = ?n \<and>
        copy_chunks remote ops (wrap64 (int (ro_size remote))) 0 [] = Inr (cf_bytes f))"
    if "(n, f) \<in> set (cache_dir r)" for n f
    using cs
  proof cases
    case hit
    then show ?thesis using touch_mem that by force
  next
    case unreachable
    then show ?thesis using that by auto
  next
    case failed
    then show ?thesis using pop(3) that by fastforce
  next
    case (filled remote c1)
    from touch_mem that filled(4) obtain f' where "(n, f') \<in> set (cache_dir c1)" "cf_bytes f' = cf_bytes f" by blast
    with pop(3)[OF filled(1,3)] filled(2) show ?thesis by fastforce
  qed
qed

section \<open>Properties\<close>

text \<open>The states of a cache: what a constructor makes of a directory, and what calls make of a state.\<close>

inductive reachable :: "nat \<Rightarrow> (string \<times> cached_file) list \<Rightarrow> NvmeObjectCache \<Rightarrow> bool" for m dir where
  start: "reachable m dir (new_cache m dir)"
| get: "reachable m dir c \<Longrightarrow> get_or_populate uri backend_open ops c = (result, c') \<Longrightarrow> reachable m dir c'"
| info: "reachable m dir c \<Longrightarrow> cached_info uri c = (found, c') \<Longrightarrow> reachable m dir c'"

lemma cached_info_effect:
  assumes "cached_info uri c = (found, c')"
  shows "cache_dir c' = cache_dir c" "cache_ok c \<Longrightarrow> cache_ok c'" "max_size_bytes c' = max_size_bytes c"
  using assms by (auto simp: cached_info_def cache_ok_def split: option.splits)

lemma reachable_ok:
  "reachable m dir c \<Longrightarrow> distinct (map fst dir) \<Longrightarrow> cache_ok c \<and> max_size_bytes c = m"
proof (induction rule: reachable.induct)
  case start
  then show ?case by (simp add: new_cache_def cache_ok_def)
next
  case get
  then show ?case using get_effect(1,2) by blast
next
  case info
  then show ?case using cached_info_effect by blast
qed

text \<open>
  C24. The byte and entry counters always say what the cache directory holds, whatever calls were
  made, failed or found, and no eviction makes them wrap below zero: they are seeded from the
  directory and updated with it.
\<close>

theorem cache_accounting:
  assumes "reachable m dir c" "distinct (map fst dir)"
  shows "current_bytes c = word_of_nat (total_bytes (cache_dir c)) \<and>
    current_entries c = word_of_nat (length (filter is_entry (cache_dir c))) \<and> max_size_bytes c = m"
  using reachable_ok[OF assms] by (simp add: cache_ok_def)

definition demo_ops :: file_ops where
  "demo_ops =
     \<lparr>fo_tmp = ''tmp'', fo_open = None, fo_write = (\<lambda>_. None), fo_close = None, fo_rename = None,
      fo_busy = (\<lambda>_. False), fo_stuck = (\<lambda>_. False), fo_now = 9\<rparr>"

definition old_dir :: "(string \<times> cached_file) list" where
  "old_dir = [(''new.cache'', \<lparr>cf_bytes = [1], cf_mtime = 5\<rparr>), (''old.cache'', \<lparr>cf_bytes = [2, 3], cf_mtime = 4\<rparr>)]"

definition filled_cache :: NvmeObjectCache where
  "filled_cache = snd (get_or_populate ''s3://b/x'' (\<lambda>_. Inr (remote_of [7, 8])) demo_ops (new_cache 3 old_dir))"

theorem cache_accounting_witness:
  "reachable 3 old_dir filled_cache \<and> current_bytes filled_cache = word_of_nat (total_bytes (cache_dir filled_cache)) \<and>
   current_bytes filled_cache = 3 \<and> evictions filled_cache = 1"
proof -
  have r: "reachable 3 old_dir filled_cache"
    unfolding filled_cache_def by (rule reachable.get[OF reachable.start]) (rule prod.collapse[symmetric])
  have d: "distinct (map fst old_dir)" by (simp add: old_dir_def)
  have "unat (current_bytes filled_cache) = 3 \<and> unat (evictions filled_cache) = 1" by code_simp
  then have "current_bytes filled_cache = 3 \<and> evictions filled_cache = 1"
    by (simp add: word_unat_eq_iff)
  with cache_accounting[OF r d] r show ?thesis by simp
qed

text \<open>
  C25. After an eviction sweep the cached bytes are within the budget, unless every entry left is the
  one being served, locked by another thread or not removable; entries are removed oldest first,
  and the entry being served is never removed.
\<close>

theorem cache_budget:
  assumes "reachable m dir c" "distinct (map fst dir)" "total_bytes (cache_dir c) < 2 ^ 64" "0 < m"
    and "r = evict_if_over_budget protected busy stuck c"
  shows "(total_bytes (cache_dir r) \<le> m \<or>
      (\<forall>e \<in> set (cache_dir r). is_entry e \<longrightarrow> fst e = protected \<or> busy (fst e) \<or> stuck (fst e))) \<and>
    (\<forall>e \<in> set (cache_dir c). fst e = protected \<longrightarrow> e \<in> set (cache_dir r)) \<and>
    (\<forall>old \<in> set (cache_dir c) - set (cache_dir r). \<forall>e \<in> set (cache_dir r).
      is_entry e \<and> \<not> (fst e = protected \<or> busy (fst e) \<or> stuck (fst e)) \<longrightarrow> cf_mtime (snd old) \<le> cf_mtime (snd e))"
proof -
  from reachable_ok[OF assms(1,2)] have ok: "cache_ok c" "max_size_bytes c = m" by auto
  let ?es = "sort_key (cf_mtime \<circ> snd) (filter is_entry (cache_dir c))"
  have es: "distinct (map fst ?es)" "set ?es \<subseteq> set (filter is_entry (cache_dir c))" "sorted (map (cf_mtime \<circ> snd) ?es)"
    using sorted_entries[OF ok(1)] by auto
  note eff = evict_effect[OF ok(1) assms(5)]
  have exact: "unat (current_bytes c) = total_bytes (cache_dir c)"
    using ok(1) assms(3) by (simp add: cache_ok_def unat_of_nat)
  consider "r = c" "total_bytes (cache_dir c) \<le> m"
    | "r = sweep m protected busy stuck (total_bytes (cache_dir c)) ?es c"
    using assms(4,5) exact ok(2) by (auto simp: evict_if_over_budget_def Let_def split: if_splits)
  then show ?thesis
  proof cases
    case 1
    then show ?thesis by simp
  next
    case 2
    have "total_bytes (cache_dir r) \<le> m \<or>
        (\<forall>e \<in> set (cache_dir r). is_entry e \<longrightarrow> fst e = protected \<or> busy (fst e) \<or> stuck (fst e))"
    proof -
      have "e \<in> set ?es" if "e \<in> set (cache_dir r)" "is_entry e" for e using that eff(2) by auto
      then show ?thesis using sweep_budget[OF ok(1) es(1,2) refl 2] by blast
    qed
    moreover have "\<forall>e \<in> set (cache_dir c). fst e = protected \<longrightarrow> e \<in> set (cache_dir r)" using eff(4) by blast
    moreover have "cf_mtime (snd old) \<le> cf_mtime (snd e)"
      if "old \<in> set (cache_dir c) - set (cache_dir r)" "e \<in> set (cache_dir r)" "is_entry e"
        "\<not> (fst e = protected \<or> busy (fst e) \<or> stuck (fst e))" for old e
    proof -
      have "is_entry old" using that(1) eff(4)[of old] by blast
      then have "old \<in> set ?es" "e \<in> set ?es" using that eff(2) by auto
      then show ?thesis using sweep_oldest_first[OF ok(1) es 2] that by blast
    qed
    ultimately show ?thesis by blast
  qed
qed

theorem cache_budget_witness:
  "total_bytes (cache_dir (evict_if_over_budget ''new.cache'' (\<lambda>_. False) (\<lambda>_. False) (new_cache 2 old_dir))) \<le> 2 \<and>
   map fst (cache_dir (evict_if_over_budget ''new.cache'' (\<lambda>_. False) (\<lambda>_. False) (new_cache 2 old_dir))) = [''new.cache'']"
proof -
  let ?r = "evict_if_over_budget ''new.cache'' (\<lambda>_. False) (\<lambda>_. False) (new_cache 2 old_dir)"
  have d: "distinct (map fst old_dir)" by (simp add: old_dir_def)
  have s: "total_bytes (cache_dir (new_cache 2 old_dir)) < 2 ^ 64"
    by (simp add: new_cache_def old_dir_def total_bytes_def entry_size_def)
  have r: "cache_dir ?r = [(''new.cache'', \<lparr>cf_bytes = [1], cf_mtime = 5\<rparr>)]" by code_simp
  have "total_bytes (cache_dir ?r) \<le> 2 \<or> (\<forall>e \<in> set (cache_dir ?r). is_entry e \<longrightarrow> fst e = ''new.cache'')"
    using cache_budget[OF reachable.start[of 2 old_dir] d s _ refl, of "''new.cache''" "\<lambda>_. False" "\<lambda>_. False"] by simp
  moreover have "total_bytes (cache_dir ?r) \<le> 2" by (simp add: r total_bytes_def entry_size_def)
  ultimately show ?thesis by (simp add: r)
qed

text \<open>Objects \<open>content\<close> under the URIs of \<open>U\<close>; a remote object may fail, but delivers nothing else.\<close>

definition serves :: "byte list \<Rightarrow> remote_object \<Rightarrow> bool" where
  "serves bytes ro \<longleftrightarrow>
     ro_size ro = length bytes \<and> length bytes < 2 ^ 63 \<and>
     (\<forall>offset n b. ro_read ro offset n = Inr b \<longrightarrow> b = take n (drop offset bytes))"

inductive served :: "(string \<Rightarrow> byte list) \<Rightarrow> string set \<Rightarrow> nat \<Rightarrow> NvmeObjectCache \<Rightarrow> bool" for content U m where
  start: "served content U m (new_cache m [])"
| get: "served content U m c \<Longrightarrow> uri \<in> U \<Longrightarrow> (\<And>ro. backend_open uri = Inr ro \<Longrightarrow> serves (content uri) ro) \<Longrightarrow>
    get_or_populate uri backend_open ops c = (result, c') \<Longrightarrow> served content U m c'"
| info: "served content U m c \<Longrightarrow> cached_info uri c = (found, c') \<Longrightarrow> served content U m c'"

lemma copy_chunks_serves:
  "serves bytes ro \<Longrightarrow> size_total = int (length bytes) \<Longrightarrow> offset \<le> length bytes \<Longrightarrow> written = take offset bytes \<Longrightarrow>
     copy_chunks ro ops size_total offset written = Inr copied \<Longrightarrow> copied = bytes"
proof (induction ro ops size_total offset written rule: copy_chunks.induct)
  case (1 ro ops size_total offset written)
  show ?case
  proof (cases "size_total \<le> int offset")
    case True
    then show ?thesis using "1.prems" by (simp add: copy_chunks.simps)
  next
    case False
    let ?want = "min kChunkBytes (size_total - int offset)"
    from False "1.prems"(5) obtain buffer where b: "ro_read ro offset (nat ?want) = Inr buffer"
      by (cases "ro_read ro offset (nat ?want)") (simp_all add: copy_chunks.simps Let_def)
    have buf: "buffer = take (nat ?want) (drop offset bytes)" using "1.prems"(1) b by (simp add: serves_def)
    have "0 < nat ?want" using False by (simp add: kChunkBytes_def)
    then have "buffer \<noteq> []" using False "1.prems"(2) buf by simp
    then obtain x xs where x: "buffer = x # xs" by (cases buffer) auto
    have w: "fo_write ops offset = None"
      "copy_chunks ro ops size_total (offset + length (x # xs)) (written @ x # xs) = Inr copied"
      using "1.prems"(5) False b x by (auto simp: copy_chunks.simps[of ro ops size_total offset] Let_def split: option.splits)
    have "length buffer \<le> length bytes - offset" by (simp add: buf)
    then have "offset + length (x # xs) \<le> length bytes" using False "1.prems"(2) unfolding x by linarith
    moreover have "written @ x # xs = take (offset + length (x # xs)) bytes"
      using "1.prems"(4) buf unfolding x by (metis take_add append_take_drop_id append_eq_conv_conj length_take min.cobounded1 take_take)
    ultimately show ?thesis
      using "1.IH"[OF False refl b x w(1) "1.prems"(1,2) _ _ w(2)] by blast
  qed
qed

lemma served_content:
  assumes "served content U m c" "inj_on fnv1a_64 U"
  shows "cache_ok c \<and> (\<forall>u \<in> U. \<forall>f. (cache_file_name u, f) \<in> set (cache_dir c) \<longrightarrow> cf_bytes f = content u)"
  using assms
proof (induction rule: served.induct)
  case start
  then show ?case by (simp add: new_cache_def cache_ok_def)
next
  case (get c uri backend_open ops result c')
  then have ok: "cache_ok c" by blast
  have "cf_bytes f = content u" if "u \<in> U" "(cache_file_name u, f) \<in> set (cache_dir c')" for u f
    using get_effect(3)[OF ok get.hyps(4) that(2)]
  proof
    assume "\<exists>f'. (cache_file_name u, f') \<in> set (cache_dir c) \<and> cf_bytes f' = cf_bytes f"
    then show ?thesis using get.IH get.prems that(1) by metis
  next
    assume "\<exists>remote. backend_open uri = Inr remote \<and> cache_file_name u = cache_file_name uri \<and>
        copy_chunks remote ops (wrap64 (int (ro_size remote))) 0 [] = Inr (cf_bytes f)"
    then obtain remote where remote: "serves (content uri) remote" "cache_file_name u = cache_file_name uri"
      "copy_chunks remote ops (wrap64 (int (ro_size remote))) 0 [] = Inr (cf_bytes f)" using get.hyps(3) by blast
    have "u = uri" using remote(2) that(1) get.hyps(2) get.prems by (auto simp: cache_file_name_eq dest: inj_onD)
    moreover have "wrap64 (int (ro_size remote)) = int (length (content uri))"
      using remote(1) by (auto simp: serves_def intro!: wrap64_id simp: in_int64_def int64_min_def int64_max_def)
    ultimately show ?thesis using copy_chunks_serves[OF remote(1) _ _ _ remote(3)] by simp
  qed
  then show ?case using get_effect(1)[OF ok get.hyps(4)] by blast
next
  case info
  then show ?case using cached_info_effect by metis
qed

text \<open>
  C23. The cache is transparent: as long as no two URIs in use have the same hash, a read through it
  returns the bytes of the object it was asked for, however the calls before were mixed, failed
  or evicted entries; and a read of a cached object never fails and never asks the backend.
\<close>

theorem cache_transparent:
  assumes "served content U m c" "inj_on fnv1a_64 U" "uri \<in> U"
    and "\<And>ro. backend_open uri = Inr ro \<Longrightarrow> serves (content uri) ro"
    and "get_or_populate uri backend_open ops c = (result, c')"
  shows "(case result of
      Inr bytes \<Rightarrow> bytes = content uri
    | Inl _ \<Rightarrow> cache_file_name uri \<notin> set (map fst (cache_dir c))) \<and>
    (cache_file_name uri \<in> set (map fst (cache_dir c)) \<longrightarrow>
      get_or_populate uri other_backend ops c = (result, c'))"
proof -
  from served_content[OF served.get[OF assms(1,3,4,5)] assms(2)] assms(3)
  have c': "\<And>f. (cache_file_name uri, f) \<in> set (cache_dir c') \<Longrightarrow> cf_bytes f = content uri" by blast
  have "cache_ok c" using served_content[OF assms(1,2)] by blast
  from get_effect(4)[OF this assms(5)] c' have "case result of
      Inr bytes \<Rightarrow> bytes = content uri | Inl _ \<Rightarrow> cache_file_name uri \<notin> set (map fst (cache_dir c))"
    by (auto split: sum.splits)
  moreover have "get_or_populate uri other_backend ops c = get_or_populate uri backend_open ops c"
    if "cache_file_name uri \<in> set (map fst (cache_dir c))" using that by (simp add: get_or_populate_def)
  ultimately show ?thesis using assms(5) by simp
qed

definition demo_content :: "string \<Rightarrow> byte list" where
  "demo_content uri = (if uri = ''s3://b/x'' then [7, 8] else [9])"

theorem cache_transparent_witness:
  "served demo_content {''s3://b/x'', ''s3://b/y''} 0
     (snd (get_or_populate ''s3://b/x'' (\<lambda>_. Inr (remote_of [7, 8])) demo_ops (new_cache 0 []))) \<and>
   fst (get_or_populate ''s3://b/x'' (\<lambda>_. Inl (StorageError ''offline'')) demo_ops
     (snd (get_or_populate ''s3://b/x'' (\<lambda>_. Inr (remote_of [7, 8])) demo_ops (new_cache 0 [])))) = Inr [7, 8]"
proof -
  let ?U = "{''s3://b/x'', ''s3://b/y''}"
  let ?c = "snd (get_or_populate ''s3://b/x'' (\<lambda>_. Inr (remote_of [7, 8])) demo_ops (new_cache 0 []))"
  let ?off = "\<lambda>_ :: string. Inl (StorageError ''offline'') :: remote_object result"
  have s: "served demo_content ?U 0 ?c"
    by (rule served.get[OF served.start _ _ prod.collapse[symmetric]])
       (auto simp: serves_def remote_of_def demo_content_def)
  have "uint (fnv1a_64 ''s3://b/x'') \<noteq> uint (fnv1a_64 ''s3://b/y'')" by code_simp
  then have i: "inj_on fnv1a_64 ?U" by auto
  have g: "get_or_populate ''s3://b/x'' ?off demo_ops ?c
      = (fst (get_or_populate ''s3://b/x'' ?off demo_ops ?c), snd (get_or_populate ''s3://b/x'' ?off demo_ops ?c))" by simp
  have hit: "cache_file_name ''s3://b/x'' \<in> set (map fst (cache_dir ?c))" by code_simp
  from cache_transparent[where other_backend = ?off, OF s i _ _ g] hit
  have "case fst (get_or_populate ''s3://b/x'' ?off demo_ops ?c) of
      Inr bytes \<Rightarrow> bytes = demo_content ''s3://b/x'' | Inl _ \<Rightarrow> False"
    by (simp del: set_map split: sum.splits)
  with s show ?thesis by (auto simp: demo_content_def split: sum.splits)
qed

text \<open>
  Entries are found by the hash of the URI alone, and hashes collide: with the first of these two
  objects cached, opening the second returns the first one's bytes.
\<close>

theorem cache_collision:
  "cache_file_name ''s3://b/9iNulybcR0m.parquet'' = cache_file_name ''s3://b/B7nHxSI9Sro.parquet'' \<and>
   fst (get_or_populate ''s3://b/B7nHxSI9Sro.parquet'' (\<lambda>_. Inr (remote_of [2])) demo_ops
     (snd (get_or_populate ''s3://b/9iNulybcR0m.parquet'' (\<lambda>_. Inr (remote_of [1])) demo_ops (new_cache 0 []))))
   = Inr [1]"
proof
  show "cache_file_name ''s3://b/9iNulybcR0m.parquet'' = cache_file_name ''s3://b/B7nHxSI9Sro.parquet''" by code_simp
  show "fst (get_or_populate ''s3://b/B7nHxSI9Sro.parquet'' (\<lambda>_. Inr (remote_of [2])) demo_ops
     (snd (get_or_populate ''s3://b/9iNulybcR0m.parquet'' (\<lambda>_. Inr (remote_of [1])) demo_ops (new_cache 0 []))))
   = Inr [1]" by code_simp
qed

end
