(* ===== verification/ScanReader.thy ===== *)
theory ScanReader
  imports PhysicalExec
begin

text \<open>
  The scan of \<^verbatim>\<open>execution_cpu/acero_query_executor.cpp\<close>: one reader over all fragments of a
  \<open>ParquetScanNode\<close> that opens each file only when the one before is exhausted and appends the
  values of the partition directories. Parquet files are a parameter: what opening one gives, its
  schema, and the record batches of some row groups and columns.
\<close>

section \<open>Parquet files\<close>

text \<open>
  \<open>pq_batches\<close> stands for \<open>GetRecordBatchReader\<close> on row groups and column indices: a status, or
  what each call of \<open>ReadNext\<close> gives until the end of the file.
\<close>

record ParquetFile =
  pq_schema :: "string + ArrowField list"
  pq_batches :: "int list \<Rightarrow> nat list \<Rightarrow> string + (string + row list) list"

text \<open>
  Opening a file: the store throws, the Parquet footer is malformed, the Arrow reader is refused,
  or the file is open.
\<close>

datatype open_result = Throws kl_error | ParquetException string | MakeFailed string | Opened ParquetFile

type_synonym ByteStore = "string \<Rightarrow> open_result"

text \<open>\<open>arrow::Schema::GetFieldIndex\<close>: the position of a name that occurs exactly once.\<close>

definition get_field_index :: "string list \<Rightarrow> string \<Rightarrow> nat option" where
  "get_field_index names name =
     (case filter (\<lambda>i. names ! i = name) [0 ..< length names] of [i] \<Rightarrow> Some i | _ \<Rightarrow> None)"

lemma get_field_index_Some:
  "get_field_index names n = Some i \<longleftrightarrow> i < length names \<and> (\<forall>j < length names. names ! j = n \<longleftrightarrow> j = i)"
proof
  let ?f = "filter (\<lambda>i. names ! i = n) [0 ..< length names]"
  assume "get_field_index names n = Some i"
  then have "?f = [i]" by (auto simp: get_field_index_def split: list.splits)
  then have "set ?f = {i}" by simp
  then show "i < length names \<and> (\<forall>j < length names. names ! j = n \<longleftrightarrow> j = i)" by auto
next
  let ?f = "filter (\<lambda>i. names ! i = n) [0 ..< length names]"
  assume a: "i < length names \<and> (\<forall>j < length names. names ! j = n \<longleftrightarrow> j = i)"
  then have "set ?f = {i}" "distinct ?f" by auto
  then have "length ?f = 1" by (metis distinct_card is_singletonI is_singleton_altdef)
  then obtain x where "?f = [x]" by (metis One_nat_def length_0_conv length_Suc_conv)
  with \<open>set ?f = {i}\<close> show "get_field_index names n = Some i" by (simp add: get_field_index_def)
qed

section \<open>The reader\<close>

record OpenFragment =
  of_schema :: "ArrowField list"
  of_pending :: "(string + row list) list"

definition open_fragment_reader :: "PhysicalFileFragment \<Rightarrow> string list \<Rightarrow> ByteStore \<Rightarrow> OpenFragment result" where
  "open_fragment_reader fragment columns store =
     (let path = pf_file fragment;
          failed = (\<lambda>what. StorageError (''failed to open Parquet file '' @ quoted path @ '' for CPU scan: '' @ what))
      in case store path of
           Throws e \<Rightarrow> Inl e
         | ParquetException what \<Rightarrow> Inl (failed what)
         | MakeFailed status \<Rightarrow> Inl (failed status)
         | Opened f \<Rightarrow>
             (case pq_schema f of
                Inl status \<Rightarrow> Inl (StorageError (''failed to read Parquet schema for CPU scan: '' @ status))
              | Inr file_schema \<Rightarrow>
                  bindR (mapR (\<lambda>name. case get_field_index (map aname file_schema) name of
                                   None \<Rightarrow> Inl (StorageError (''column '' @ quoted name @
                                             '' not found in Parquet file '' @ quoted path))
                                 | Some i \<Rightarrow> Inr i) columns) (\<lambda>indices.
                  case pq_batches f (pf_selected_row_groups fragment) indices of
                    Inl status \<Rightarrow> Inl (StorageError
                      (''failed to build a record batch reader for CPU scan: '' @ status))
                  | Inr bs \<Rightarrow> Inr \<lparr>of_schema = map (\<lambda>i. file_schema ! i) indices, of_pending = bs\<rparr>)))"

text \<open>A constant column has the same value in every row of a batch.\<close>

definition make_partition_constant_array :: "literal \<Rightarrow> DataType \<Rightarrow> nat \<Rightarrow> datum list result" where
  "make_partition_constant_array value type n =
     bindR (literal_to_arrow_datum value type) (\<lambda>d. Inr (replicate n d))"

text \<open>
  \<open>partition_values[i]\<close> is not checked in the source; a missing value is an error here, and the
  physical planner never makes a fragment with one.
\<close>

fun append_partition_columns :: "row list \<Rightarrow> PartitionColumn list \<Rightarrow> literal list \<Rightarrow> row list result" where
  "append_partition_columns batch [] values = Inr batch"
| "append_partition_columns batch (c # cs) [] = Inl StdOutOfRange"
| "append_partition_columns batch (c # cs) (v # vs) =
     bindR (make_partition_constant_array v (ptype c) (length batch)) (\<lambda>column.
     append_partition_columns (map2 (\<lambda>row d. row @ [d]) batch column) cs vs)"

record ScanIterationState =
  si_scan :: ParquetScanNode
  si_store :: ByteStore
  next_fragment_index :: nat
  si_current :: "OpenFragment option"

text \<open>The statuses a call of the iterator may return.\<close>

datatype arrow_status = ReadFailed string | IOError string | UnknownError string

fun caught :: "kl_error \<Rightarrow> arrow_status" where
  "caught (SqlError w) = IOError w"
| "caught (BindingError w) = IOError w"
| "caught (PlanningError w) = IOError w"
| "caught (ExecutionError w) = IOError w"
| "caught (StorageError w) = IOError w"
| "caught StdOutOfRange = UnknownError ''out of range''"

text \<open>
  One call of the iterator, with the state it leaves behind: the loop opens fragments until one
  gives a batch, and \<open>None\<close> is the end of the stream.
\<close>

definition fragments_left :: "ScanIterationState \<Rightarrow> nat" where
  "fragments_left st = length (ps_fragments (si_scan st)) - next_fragment_index st"

definition finish_batch :: "ScanIterationState \<Rightarrow> row list \<Rightarrow> arrow_status + row list" where
  "finish_batch st batch =
     (if ps_partition_columns (si_scan st) = [] then Inr batch
      else case append_partition_columns batch (ps_partition_columns (si_scan st))
              (pf_partition_values (ps_fragments (si_scan st) ! (next_fragment_index st - 1))) of
             Inl e \<Rightarrow> Inl (caught e)
           | Inr b \<Rightarrow> Inr b)"

function read_next :: "ScanIterationState \<Rightarrow> (arrow_status + row list option) \<times> ScanIterationState" where
  "read_next st =
     (case si_current st of
        None \<Rightarrow>
          if length (ps_fragments (si_scan st)) \<le> next_fragment_index st then (Inr None, st)
          else (case open_fragment_reader (ps_fragments (si_scan st) ! next_fragment_index st)
                       (ps_columns (si_scan st)) (si_store st) of
                  Inl e \<Rightarrow> (Inl (caught e), st)
                | Inr opened \<Rightarrow>
                    read_next (st\<lparr>si_current := Some opened, next_fragment_index := next_fragment_index st + 1\<rparr>))
      | Some opened \<Rightarrow>
          (case of_pending opened of
             [] \<Rightarrow> read_next (st\<lparr>si_current := None\<rparr>)
           | Inl status # rest \<Rightarrow> (Inl (ReadFailed status), st\<lparr>si_current := Some (opened\<lparr>of_pending := rest\<rparr>)\<rparr>)
           | Inr batch # rest \<Rightarrow>
               let st' = st\<lparr>si_current := Some (opened\<lparr>of_pending := rest\<rparr>)\<rparr>
               in (case finish_batch st' batch of Inl s \<Rightarrow> (Inl s, st') | Inr b \<Rightarrow> (Inr (Some b), st'))))"
  by pat_completeness auto
termination
  by (relation "measures [fragments_left, \<lambda>st. case si_current st of None \<Rightarrow> 0 | Some _ \<Rightarrow> 1]")
    (auto simp: fragments_left_def)

declare read_next.simps [simp del]

text \<open>What is left to read: the fragments not yet opened, and the batches of the open one.\<close>

definition pending_batches :: "ScanIterationState \<Rightarrow> nat" where
  "pending_batches st = (case si_current st of None \<Rightarrow> 0 | Some o' \<Rightarrow> length (of_pending o'))"

lemma read_next_decreases:
  "read_next st = (Inr (Some b), st') \<Longrightarrow>
     fragments_left st' < fragments_left st \<or>
     fragments_left st' = fragments_left st \<and> pending_batches st' < pending_batches st"
proof (induction st arbitrary: b st' rule: read_next.induct)
  case (1 st)
  show ?case
  proof (cases "si_current st")
    case None
    then obtain opened where o: "\<not> length (ps_fragments (si_scan st)) \<le> next_fragment_index st"
      "open_fragment_reader (ps_fragments (si_scan st) ! next_fragment_index st) (ps_columns (si_scan st)) (si_store st) = Inr opened"
      "read_next (st\<lparr>si_current := Some opened, next_fragment_index := next_fragment_index st + 1\<rparr>) = (Inr (Some b), st')"
      using "1.prems" by (subst (asm) read_next.simps) (auto split: if_splits sum.splits)
    from "1.IH"(1)[OF None o] o(1) show ?thesis by (auto simp: fragments_left_def)
  next
    case (Some opened)
    show ?thesis
    proof (cases "of_pending opened")
      case Nil
      then have "read_next (st\<lparr>si_current := None\<rparr>) = (Inr (Some b), st')"
        using "1.prems" Some by (subst (asm) read_next.simps) simp
      from "1.IH"(2)[OF Some Nil this] show ?thesis
        by (auto simp: fragments_left_def pending_batches_def)
    next
      case (Cons x rest)
      then have "st' = st\<lparr>si_current := Some (opened\<lparr>of_pending := rest\<rparr>)\<rparr>"
        using "1.prems" Some by (subst (asm) read_next.simps) (auto simp: Let_def split: sum.splits)
      then show ?thesis using Some Cons by (simp add: fragments_left_def pending_batches_def)
    qed
  qed
qed

text \<open>Acero calls the iterator until the end of the stream, or until a status.\<close>

function drain :: "ScanIterationState \<Rightarrow> arrow_status + row list list" where
  "drain st =
     (case read_next st of
        (Inl s, _) \<Rightarrow> Inl s
      | (Inr None, _) \<Rightarrow> Inr []
      | (Inr (Some b), st') \<Rightarrow> (case drain st' of Inl s \<Rightarrow> Inl s | Inr bs \<Rightarrow> Inr (b # bs)))"
  by pat_completeness auto
termination
  by (relation "measures [fragments_left, pending_batches]") (auto dest!: sym read_next_decreases)

declare drain.simps [simp del]

record ScanReader =
  sr_schema :: "(string \<times> ArrowType) list"
  sr_state :: "ScanIterationState option"

definition partition_fields :: "ParquetScanNode \<Rightarrow> (string \<times> ArrowType) list" where
  "partition_fields scan = map (\<lambda>c. (pname c, to_arrow_type (ptype c))) (ps_partition_columns scan)"

definition make_streaming_scan_reader :: "ParquetScanNode \<Rightarrow> ByteStore \<Rightarrow> ScanReader result" where
  "make_streaming_scan_reader scan store =
     (case ps_fragments scan of
        [] \<Rightarrow> Inr \<lparr>sr_schema = map (\<lambda>f. (aname f, atype f)) (to_arrow_schema (ps_schema scan)), sr_state = None\<rparr>
      | first # _ \<Rightarrow>
          bindR (open_fragment_reader first (ps_columns scan) store) (\<lambda>opened.
          Inr \<lparr>sr_schema = map (\<lambda>f. (aname f, atype f)) (of_schema opened) @ partition_fields scan,
               sr_state = Some \<lparr>si_scan = scan, si_store = store, next_fragment_index = 1,
                                si_current = Some opened\<rparr>\<rparr>))"

definition read_all :: "ScanReader \<Rightarrow> arrow_status + row list list" where
  "read_all r = (case sr_state r of None \<Rightarrow> Inr [] | Some st \<Rightarrow> drain st)"

section \<open>The same batches as reading every fragment in turn\<close>

text \<open>Reading everything first: each fragment is opened and all of its batches are read, in order.\<close>

fun read_batches_of :: "ParquetScanNode \<Rightarrow> PhysicalFileFragment \<Rightarrow> (string + row list) list \<Rightarrow> arrow_status + row list list" where
  "read_batches_of scan f [] = Inr []"
| "read_batches_of scan f (Inl status # rest) = Inl (ReadFailed status)"
| "read_batches_of scan f (Inr batch # rest) =
     (case append_partition_columns batch (ps_partition_columns scan) (pf_partition_values f) of
        Inl e \<Rightarrow> Inl (caught e)
      | Inr b \<Rightarrow> (case read_batches_of scan f rest of Inl s \<Rightarrow> Inl s | Inr bs \<Rightarrow> Inr (b # bs)))"

fun read_fragments :: "ParquetScanNode \<Rightarrow> ByteStore \<Rightarrow> PhysicalFileFragment list \<Rightarrow> arrow_status + row list list" where
  "read_fragments scan store [] = Inr []"
| "read_fragments scan store (f # fs) =
     (case open_fragment_reader f (ps_columns scan) store of
        Inl e \<Rightarrow> Inl (caught e)
      | Inr opened \<Rightarrow>
          (case read_batches_of scan f (of_pending opened) of
             Inl s \<Rightarrow> Inl s
           | Inr bs \<Rightarrow> (case read_fragments scan store fs of Inl s \<Rightarrow> Inl s | Inr bs' \<Rightarrow> Inr (bs @ bs'))))"

definition then_fragments ::
  "arrow_status + row list list \<Rightarrow> arrow_status + row list list \<Rightarrow> arrow_status + row list list" where
  "then_fragments a b =
     (case a of Inl s \<Rightarrow> Inl s | Inr bs \<Rightarrow> (case b of Inl s \<Rightarrow> Inl s | Inr bs' \<Rightarrow> Inr (bs @ bs')))"

definition rest_of :: "ScanIterationState \<Rightarrow> arrow_status + row list list" where
  "rest_of st =
     (let later = read_fragments (si_scan st) (si_store st) (drop (next_fragment_index st) (ps_fragments (si_scan st)))
      in case si_current st of
           None \<Rightarrow> later
         | Some opened \<Rightarrow>
             then_fragments (read_batches_of (si_scan st)
               (ps_fragments (si_scan st) ! (next_fragment_index st - 1)) (of_pending opened)) later)"

lemma finish_batch_eq:
  "finish_batch st batch =
     (case append_partition_columns batch (ps_partition_columns (si_scan st))
             (pf_partition_values (ps_fragments (si_scan st) ! (next_fragment_index st - 1))) of
        Inl e \<Rightarrow> Inl (caught e) | Inr b \<Rightarrow> Inr b)"
  by (auto simp: finish_batch_def)

lemma read_next_rest:
  "(case read_next st of
      (Inl s, _) \<Rightarrow> rest_of st = Inl s
    | (Inr None, _) \<Rightarrow> rest_of st = Inr []
    | (Inr (Some b), st') \<Rightarrow> rest_of st = (case rest_of st' of Inl s \<Rightarrow> Inl s | Inr bs \<Rightarrow> Inr (b # bs)))"
proof (induction st rule: read_next.induct)
  case (1 st)
  show ?case
  proof (cases "si_current st")
    case None
    show ?thesis
    proof (cases "length (ps_fragments (si_scan st)) \<le> next_fragment_index st")
      case True
      then show ?thesis using None by (subst read_next.simps) (simp add: rest_of_def)
    next
      case False
      let ?o = "open_fragment_reader (ps_fragments (si_scan st) ! next_fragment_index st) (ps_columns (si_scan st)) (si_store st)"
      have d: "drop (next_fragment_index st) (ps_fragments (si_scan st))
          = ps_fragments (si_scan st) ! next_fragment_index st # drop (Suc (next_fragment_index st)) (ps_fragments (si_scan st))"
        using False by (simp add: Cons_nth_drop_Suc)
      show ?thesis
      proof (cases ?o)
        case (Inl e)
        then show ?thesis using None False by (subst read_next.simps) (simp add: rest_of_def d)
      next
        case (Inr opened)
        let ?st = "st\<lparr>si_current := Some opened, next_fragment_index := next_fragment_index st + 1\<rparr>"
        have "read_next st = read_next ?st" using None False Inr by (subst read_next.simps) simp
        moreover have "rest_of st = rest_of ?st"
          using None Inr by (simp add: rest_of_def d then_fragments_def)
        ultimately show ?thesis using "1.IH"(1)[OF None False Inr] by (simp only:)
      qed
    qed
  next
    case (Some opened)
    show ?thesis
    proof (cases "of_pending opened")
      case Nil
      have "read_next st = read_next (st\<lparr>si_current := None\<rparr>)" using Some Nil by (subst read_next.simps) simp
      moreover have "rest_of st = rest_of (st\<lparr>si_current := None\<rparr>)"
        using Some Nil by (simp add: rest_of_def then_fragments_def split: sum.split)
      ultimately show ?thesis using "1.IH"(2)[OF Some Nil] by (simp only:)
    next
      case (Cons x rest)
      then show ?thesis using Some
        by (subst read_next.simps)
          (auto simp: rest_of_def then_fragments_def finish_batch_eq Let_def split: sum.splits)
    qed
  qed
qed

lemma drain_rest: "drain st = rest_of st"
proof (induction st rule: drain.induct)
  case (1 st)
  show ?case
    using read_next_rest[of st] 1
    by (subst drain.simps) (auto split: prod.splits sum.splits option.splits)
qed

lemma streaming_batches:
  assumes "make_streaming_scan_reader scan store = Inr r"
  shows "read_all r = read_fragments scan store (ps_fragments scan)"
proof (cases "ps_fragments scan")
  case Nil
  with assms show ?thesis by (auto simp: make_streaming_scan_reader_def read_all_def)
next
  case (Cons f fs)
  with assms show ?thesis
    by (auto simp: make_streaming_scan_reader_def read_all_def drain_rest rest_of_def then_fragments_def bindR_eq_Inr)
qed

text \<open>
  C4. The streaming reader delivers exactly the batches that reading every fragment into memory
  would: fragment by fragment, batch by batch, each once, with the partition values of its own
  file, and the first failure in that order is the failure of the stream. A reader that cannot be
  made has failed to open the first fragment.
\<close>

theorem streaming_reads_all_fragments:
  "case make_streaming_scan_reader scan store of
     Inl e \<Rightarrow> (\<exists>f fs. ps_fragments scan = f # fs \<and> open_fragment_reader f (ps_columns scan) store = Inl e) \<and>
              read_fragments scan store (ps_fragments scan) = Inl (caught e)
   | Inr r \<Rightarrow> read_all r = read_fragments scan store (ps_fragments scan)"
  using streaming_batches[of scan store]
  by (auto simp: make_streaming_scan_reader_def bindR_eq_Inl split: sum.split list.splits)

text \<open>Two files of one column, in two partition directories, the first with two batches.\<close>

definition part_file :: ParquetFile where
  "part_file =
     \<lparr>pq_schema = Inr [\<lparr>aname = ''v'', atype = AInt64, anullable = True\<rparr>],
      pq_batches = (\<lambda>groups cols. Inr (map (\<lambda>g. Inr [[int64_datum g]]) groups))\<rparr>"

definition part_fragment :: "string \<Rightarrow> int list \<Rightarrow> string \<Rightarrow> PhysicalFileFragment" where
  "part_fragment path groups region =
     \<lparr>pf_file = path, file_row_count = 2, total_row_groups = 2, pf_selected_row_groups = groups,
      pf_skipped_row_groups = [], pruning_reasons = [], pf_partition_values = [LString region]\<rparr>"

definition part_scan :: ParquetScanNode where
  "part_scan =
     \<lparr>ps_fragments = [part_fragment ''r=US/a'' [0, 1] ''US'', part_fragment ''r=EU/b'' [1] ''EU''],
      ps_columns = [''v''],
      ps_schema = [\<lparr>fname = ''v'', ftype = int64_type True\<rparr>, \<lparr>fname = ''r'', ftype = string_type False\<rparr>],
      files_considered = 2,
      ps_partition_columns = [\<lparr>pname = ''r'', ptype = string_type False, ptransform = Identity\<rparr>],
      original_column_map = [Some 0, Some 1]\<rparr>"

theorem partitioned_stream:
  "(case make_streaming_scan_reader part_scan (\<lambda>path. Opened part_file) of Inl _ \<Rightarrow> None | Inr r \<Rightarrow> Some (read_all r)) =
     Some (Inr [[[int64_datum 0, Scalar AString (LString ''US'')]],
                [[int64_datum 1, Scalar AString (LString ''US'')]],
                [[int64_datum 1, Scalar AString (LString ''EU'')]]])"
  by code_simp

end
