(* ===== verification/Acero.thy ===== *)
theory Acero
  imports ScanReader
begin

text \<open>
  \<^verbatim>\<open>execution_cpu/acero_query_executor.cpp\<close>: the translation of a physical plan into a tree of
  Acero declarations, and that running the declarations returns what the physical plan may return.
  Acero itself is a parameter: the engine's kernels, key equality and sort, and the record \<open>acero\<close>
  with its aggregate functions and the types it infers.
\<close>

section \<open>Declarations\<close>

datatype agg_options = NoOptions | OnlyValid

record arrow_aggregate =
  ag_function :: string
  ag_options :: agg_options
  ag_target :: "string list"
  ag_name :: string

datatype NullPlacement = AtStart | AtEnd

record arrow_sort_key =
  sort_target :: int
  sort_ascending :: bool
  null_placement :: NullPlacement

datatype Declaration =
    RecordBatchReaderSource ScanReader
  | HashJoinDecl Declaration Declaration JoinType int int acexpr
  | FilterDecl Declaration acexpr
  | ProjectDecl Declaration "acexpr list" "string list"
  | AggregateDecl Declaration "arrow_aggregate list" "string list"
  | OrderByDecl Declaration "arrow_sort_key list"
  | FetchDecl Declaration int int

section \<open>The input of an aggregate\<close>

record AggregateInputPlan =
  project_expressions :: "acexpr list"
  project_names :: "string list"
  projected_index_to_name :: "(nat \<times> string) list"
  claimed_names :: "string list"
  next_synthetic_id :: int

definition empty_input :: AggregateInputPlan where
  "empty_input = \<lparr>project_expressions = [], project_names = [], projected_index_to_name = [],
                  claimed_names = [], next_synthetic_id = 0\<rparr>"

fun require_plain_column_index :: "expression \<Rightarrow> string \<Rightarrow> nat result" where
  "require_plain_column_index (Column n i t) context = Inr i"
| "require_plain_column_index e context =
     Inl (PlanningError (context @ '' by a computed expression is not yet supported by the CPU execution backend ''
       @ ''(only a plain column reference is) -- see docs/ARCHITECTURE.md''))"

definition synthetic_prefix :: string where "synthetic_prefix = ''__kernellake_agg_input_''"

definition next_synthetic_name :: "AggregateInputPlan \<Rightarrow> string \<times> AggregateInputPlan" where
  "next_synthetic_name plan =
     (synthetic_prefix @ int_str (next_synthetic_id plan), plan\<lparr>next_synthetic_id := next_synthetic_id plan + 1\<rparr>)"

text \<open>One projected column: its expression, and the name it is found under.\<close>

definition push_projected :: "acexpr \<Rightarrow> string \<Rightarrow> AggregateInputPlan \<Rightarrow> AggregateInputPlan" where
  "push_projected e name plan =
     plan\<lparr>project_expressions := project_expressions plan @ [e], project_names := project_names plan @ [name]\<rparr>"

definition ensure_column_projected :: "AggregateInputPlan \<Rightarrow> string \<Rightarrow> nat \<Rightarrow> string \<times> AggregateInputPlan" where
  "ensure_column_projected plan column index =
     (case map_of (projected_index_to_name plan) index of
        Some name \<Rightarrow> (name, plan)
      | None \<Rightarrow>
          let (name, plan) = (if column \<notin> set (claimed_names plan) then (column, plan) else next_synthetic_name plan);
              plan = plan\<lparr>claimed_names := name # claimed_names plan\<rparr>;
              plan = push_projected (FieldRef (wrap32 (int index))) name plan
          in (name, plan\<lparr>projected_index_to_name := (index, name) # projected_index_to_name plan\<rparr>))"

definition resolve_aggregate_target :: "AggregateInputPlan \<Rightarrow> expression \<Rightarrow> (string \<times> AggregateInputPlan) result" where
  "resolve_aggregate_target plan e =
     (case e of
        Column n i t \<Rightarrow> Inr (ensure_column_projected plan n i)
      | _ \<Rightarrow>
          let (name, plan) = next_synthetic_name plan
          in bindR (compile_expression_cpu e) (\<lambda>c. Inr (name, push_projected c name plan)))"

fun aggregate_function_name :: "AggregateFunction \<Rightarrow> string" where
  "aggregate_function_name AggSum = ''sum''"
| "aggregate_function_name AggCount = ''count''"
| "aggregate_function_name AggCountDistinct = ''count_distinct''"
| "aggregate_function_name AggCountStar = ''count_all''"
| "aggregate_function_name AggMin = ''min''"
| "aggregate_function_name AggMax = ''max''"
| "aggregate_function_name AggAvg = ''mean''"

definition aggregate_options :: "AggregateFunction \<Rightarrow> agg_options" where
  "aggregate_options f = (if f = AggCount \<or> f = AggCountDistinct then OnlyValid else NoOptions)"

definition grouped_name :: "bool \<Rightarrow> string \<Rightarrow> string" where
  "grouped_name grouped name = (if grouped then ''hash_'' @ name else name)"

definition translate_aggregate ::
  "AggregateInputPlan \<Rightarrow> AggregateFunction \<Rightarrow> expression option \<Rightarrow> string \<Rightarrow> bool
     \<Rightarrow> (arrow_aggregate \<times> AggregateInputPlan) result" where
  "translate_aggregate plan f arg output_name grouped =
     bindR (case arg of
              None \<Rightarrow> Inr ([], plan)
            | Some e \<Rightarrow> bindR (resolve_aggregate_target plan e) (\<lambda>(n, plan). Inr ([n], plan))) (\<lambda>(target, plan).
     Inr (\<lparr>ag_function = grouped_name grouped (aggregate_function_name f), ag_options = aggregate_options f,
           ag_target = target, ag_name = output_name\<rparr>, plan))"

text \<open>The two loops over a node's items: GROUP BY keys, then aggregates.\<close>

fun translate_keys :: "AggregateInputPlan \<Rightarrow> NamedExpression list \<Rightarrow> (string list \<times> AggregateInputPlan) result" where
  "translate_keys plan [] = Inr ([], plan)"
| "translate_keys plan (item # items) =
     bindR (case nexpr item of
              Column n i t \<Rightarrow> Inr (ensure_column_projected plan n i)
            | e \<Rightarrow>
                if nname item \<in> set (claimed_names plan)
                then Inl (PlanningError (''GROUP BY key '' @ quoted (nname item) @
                       '' collides with another projected column name -- not supported by the CPU execution backend''))
                else bindR (compile_expression_cpu e) (\<lambda>c.
                       Inr (nname item, push_projected c (nname item)
                              (plan\<lparr>claimed_names := nname item # claimed_names plan\<rparr>)))) (\<lambda>(key, plan).
     bindR (translate_keys plan items) (\<lambda>(keys, plan). Inr (key # keys, plan)))"

fun translate_aggregates ::
  "string \<Rightarrow> bool \<Rightarrow> AggregateInputPlan \<Rightarrow> NamedExpression list
     \<Rightarrow> (arrow_aggregate list \<times> AggregateInputPlan) result" where
  "translate_aggregates node grouped plan [] = Inr ([], plan)"
| "translate_aggregates node grouped plan (item # items) =
     bindR (case nexpr item of
              Aggregate f arg t \<Rightarrow> translate_aggregate plan f arg (nname item) grouped
            | _ \<Rightarrow> Inl (ExecutionError (node @ '' item '' @ quoted (nname item) @ '' is not an AggregateExpression'')))
       (\<lambda>(a, plan).
     bindR (translate_aggregates node grouped plan items) (\<lambda>(as, plan). Inr (a # as, plan)))"

definition aggregate_input :: "AggregateInputPlan \<Rightarrow> Declaration \<Rightarrow> Declaration" where
  "aggregate_input plan child =
     (if project_names plan = [] then child
      else ProjectDecl child (project_expressions plan) (project_names plan))"

section \<open>\<open>translate\<close>\<close>

definition translate_sort_key :: "SortKey \<Rightarrow> arrow_sort_key result" where
  "translate_sort_key key =
     bindR (require_plain_column_index (skey key) ''ORDER BY'') (\<lambda>index.
     Inr \<lparr>sort_target = wrap32 (int index), sort_ascending = ascending key,
          null_placement = (if ascending key then AtEnd else AtStart)\<rparr>)"

text \<open>
  \<open>owned\<close> gives the store a scan carries for itself (\<open>ParquetScanNode::owned_store\<close>); the first
  fragment is opened while the plan is translated.
\<close>

fun translate :: "(ParquetScanNode \<Rightarrow> ByteStore option) \<Rightarrow> ByteStore \<Rightarrow> pplan \<Rightarrow> Declaration result" where
  "translate owned store (PScan scan) =
     bindR (make_streaming_scan_reader scan (case owned scan of Some s \<Rightarrow> s | None \<Rightarrow> store)) (\<lambda>r.
     Inr (RecordBatchReaderSource r))"
| "translate owned store (PJoin l r lk rk jt res cm est) =
     bindR (case res of Some p \<Rightarrow> compile_expression_cpu p | None \<Rightarrow> Inr (ALiteral (bool_datum True))) (\<lambda>flt.
     bindR (translate owned store l) (\<lambda>dl.
     bindR (translate owned store r) (\<lambda>dr.
     Inr (HashJoinDecl dl dr jt (wrap32 (int lk)) (wrap32 (int rk)) flt))))"
| "translate owned store (PFilter c p) =
     bindR (translate owned store c) (\<lambda>d.
     bindR (compile_expression_cpu p) (\<lambda>e. Inr (FilterDecl d e)))"
| "translate owned store (PProjection c items) =
     bindR (mapR (\<lambda>it. compile_expression_cpu (nexpr it)) items) (\<lambda>es.
     bindR (translate owned store c) (\<lambda>d. Inr (ProjectDecl d es (map nname items))))"
| "translate owned store (PHashAggregate c g a) =
     bindR (translate_keys empty_input g) (\<lambda>(keys, plan).
     bindR (translate_aggregates ''HashAggregateNode'' True plan a) (\<lambda>(aggregates, plan).
     bindR (translate owned store c) (\<lambda>d. Inr (AggregateDecl (aggregate_input plan d) aggregates keys))))"
| "translate owned store (PScalarAggregate c a) =
     bindR (translate_aggregates ''ScalarAggregateNode'' False empty_input a) (\<lambda>(aggregates, plan).
     bindR (translate owned store c) (\<lambda>d. Inr (AggregateDecl (aggregate_input plan d) aggregates [])))"
| "translate owned store (PSort c keys) =
     bindR (mapR translate_sort_key keys) (\<lambda>ks.
     bindR (translate owned store c) (\<lambda>d. Inr (OrderByDecl d ks)))"
| "translate owned store (PLimit c n) =
     bindR (translate owned store c) (\<lambda>d. Inr (FetchDecl d 0 n))"
| "translate owned store (PResult c) = translate owned store c"

section \<open>What Acero computes\<close>

text \<open>
  Acero's own parts: its sort with the placement of NULLs, its aggregate functions on a column of
  a given type, the type of their results, and the type it infers for an expression.
\<close>

record acero =
  ac_sort :: "(bool \<times> NullPlacement) list \<Rightarrow> (datum list \<times> row) list \<Rightarrow> row list"
  ac_aggregate :: "string \<Rightarrow> agg_options \<Rightarrow> ArrowType list \<Rightarrow> datum list \<Rightarrow> datum"
  ac_agg_type :: "string \<Rightarrow> ArrowType list \<Rightarrow> ArrowType"
  ac_type :: "ArrowType list \<Rightarrow> acexpr \<Rightarrow> ArrowType"

definition type_named :: "(string \<times> ArrowType) list \<Rightarrow> string \<Rightarrow> ArrowType" where
  "type_named s n = (case get_field_index (map fst s) n of Some i \<Rightarrow> snd (s ! i) | None \<Rightarrow> ArrowOther ''na'')"

definition value_named :: "(string \<times> ArrowType) list \<Rightarrow> row \<Rightarrow> string \<Rightarrow> datum" where
  "value_named s row n = (case get_field_index (map fst s) n of Some i \<Rightarrow> col_at row i | None \<Rightarrow> na_datum)"

fun d_schema :: "acero \<Rightarrow> Declaration \<Rightarrow> (string \<times> ArrowType) list" where
  "d_schema A (RecordBatchReaderSource r) = sr_schema r"
| "d_schema A (HashJoinDecl l r jt lk rk flt) =
     (if jt = LeftSemi \<or> jt = LeftAnti then d_schema A l else d_schema A l @ d_schema A r)"
| "d_schema A (FilterDecl c e) = d_schema A c"
| "d_schema A (ProjectDecl c es names) = zip names (map (ac_type A (map snd (d_schema A c))) es)"
| "d_schema A (AggregateDecl c aggs keys) =
     map (\<lambda>k. (k, type_named (d_schema A c) k)) keys @
     map (\<lambda>a. (ag_name a, ac_agg_type A (ag_function a) (map (type_named (d_schema A c)) (ag_target a)))) aggs"
| "d_schema A (OrderByDecl c keys) = d_schema A c"
| "d_schema A (FetchDecl c off n) = d_schema A c"

text \<open>
  Columns named by a key or a target must be found, exactly once; grouped aggregates have the
  \<open>hash_\<close> functions, and only \<open>count_all\<close> has no target.
\<close>

definition references_resolve :: "string list \<Rightarrow> arrow_aggregate list \<Rightarrow> string list \<Rightarrow> bool" where
  "references_resolve names aggs keys \<longleftrightarrow>
     list_all (\<lambda>k. get_field_index names k \<noteq> None) keys \<and>
     list_all (\<lambda>a. list_all (\<lambda>k. get_field_index names k \<noteq> None) (ag_target a)) aggs"

definition functions_fit :: "arrow_aggregate list \<Rightarrow> string list \<Rightarrow> bool" where
  "functions_fit aggs keys \<longleftrightarrow>
     list_all (\<lambda>a. (take 5 (ag_function a) = ''hash_'') = (keys \<noteq> []) \<and>
       length (ag_target a) = (if ag_function a \<in> {''count_all'', ''hash_count_all''} then 0 else 1)) aggs"

definition acero_join ::
  "(row \<Rightarrow> row \<Rightarrow> bool) \<Rightarrow> JoinType \<Rightarrow> row \<Rightarrow> row list \<Rightarrow> row list \<Rightarrow> row list" where
  "acero_join match jt nulls L R =
     (case jt of
        Inner \<Rightarrow> concat (map (\<lambda>l. map (\<lambda>r. l @ r) (filter (match l) R)) L)
      | LeftOuter \<Rightarrow>
          concat (map (\<lambda>l. let ms = filter (match l) R
                           in if ms = [] then [l @ nulls] else map (\<lambda>r. l @ r) ms) L)
      | LeftSemi \<Rightarrow> filter (\<lambda>l. \<exists>r \<in> set R. match l r) L
      | LeftAnti \<Rightarrow> filter (\<lambda>l. \<not> (\<exists>r \<in> set R. match l r)) L)"

definition acero_value :: "acero \<Rightarrow> (string \<times> ArrowType) list \<Rightarrow> row list \<Rightarrow> arrow_aggregate \<Rightarrow> datum" where
  "acero_value A s rows a =
     ac_aggregate A (ag_function a) (ag_options a) (map (type_named s) (ag_target a))
       (case ag_target a of n # _ \<Rightarrow> map (\<lambda>row. value_named s row n) rows | [] \<Rightarrow> map (\<lambda>row. bool_datum True) rows)"

definition acero_aggregate ::
  "acero \<Rightarrow> (string \<times> ArrowType) list \<Rightarrow> arrow_aggregate list \<Rightarrow> string list \<Rightarrow> row list \<Rightarrow> row list" where
  "acero_aggregate A s aggs keys C =
     (let key = (\<lambda>row. map (value_named s row) keys)
      in if keys = [] then [map (acero_value A s C) aggs]
         else map (\<lambda>k. k @ map (acero_value A s (filter (\<lambda>row. key row = k) C)) aggs) (remdups (map key C)))"

text \<open>
  Nodes whose output has an order Acero can rely on; \<open>fetch\<close> refuses an input without one.
\<close>

fun d_ordered :: "Declaration \<Rightarrow> bool" where
  "d_ordered (RecordBatchReaderSource r) \<longleftrightarrow> True"
| "d_ordered (HashJoinDecl l r jt lk rk flt) \<longleftrightarrow> False"
| "d_ordered (FilterDecl c e) \<longleftrightarrow> d_ordered c"
| "d_ordered (ProjectDecl c es names) \<longleftrightarrow> d_ordered c"
| "d_ordered (AggregateDecl c aggs keys) \<longleftrightarrow> False"
| "d_ordered (OrderByDecl c keys) \<longleftrightarrow> True"
| "d_ordered (FetchDecl c off n) \<longleftrightarrow> d_ordered c"

text \<open>
  The rows a declaration may deliver: sources, joins and aggregates in any order, the other nodes
  in the order of their input.
\<close>

inductive d_returns :: "engine \<Rightarrow> acero \<Rightarrow> Declaration \<Rightarrow> row list \<Rightarrow> bool" for E A where
  Source: "read_all r = Inr bs \<Longrightarrow> mset rows = mset (concat bs) \<Longrightarrow> d_returns E A (RecordBatchReaderSource r) rows"
| Join: "d_returns E A l L \<Longrightarrow> d_returns E A r R \<Longrightarrow>
    mset rows = mset (acero_join (\<lambda>x y. e_keyeq E (run (e_kernel E) x (FieldRef lk)) (run (e_kernel E) y (FieldRef rk)) \<and>
        is_true (run (e_kernel E) (x @ y) flt)) jt (map (\<lambda>(n, t). Scalar t LNull) (d_schema A r)) L R) \<Longrightarrow>
    d_returns E A (HashJoinDecl l r jt lk rk flt) rows"
| Filter: "d_returns E A c C \<Longrightarrow> d_returns E A (FilterDecl c e) (filter (\<lambda>row. is_true (run (e_kernel E) row e)) C)"
| Project: "d_returns E A c C \<Longrightarrow> d_returns E A (ProjectDecl c es names) (map (\<lambda>row. map (run (e_kernel E) row) es) C)"
| Aggregate: "d_returns E A c C \<Longrightarrow> references_resolve (map fst (d_schema A c)) aggs keys \<Longrightarrow> functions_fit aggs keys \<Longrightarrow>
    mset rows = mset (acero_aggregate A (d_schema A c) aggs keys C) \<Longrightarrow> d_returns E A (AggregateDecl c aggs keys) rows"
| OrderBy: "d_returns E A c C \<Longrightarrow> mset C' = mset C \<Longrightarrow>
    d_returns E A (OrderByDecl c keys) (ac_sort A (map (\<lambda>k. (sort_ascending k, null_placement k)) keys)
      (map (\<lambda>row. (map (\<lambda>k. run (e_kernel E) row (FieldRef (sort_target k))) keys, row)) C'))"
| Fetch: "d_returns E A c C \<Longrightarrow> d_ordered c \<Longrightarrow> d_returns E A (FetchDecl c off n) (take (nat n) (drop (nat off) C))"

declare run.simps(1) [simp del]

inductive_simps d_returns_simps:
  "d_returns E A (RecordBatchReaderSource r) rows"
  "d_returns E A (HashJoinDecl l r jt lk rk flt) rows"
  "d_returns E A (FilterDecl c e) rows"
  "d_returns E A (ProjectDecl c es names) rows"
  "d_returns E A (AggregateDecl c aggs keys) rows"
  "d_returns E A (OrderByDecl c keys) rows"
  "d_returns E A (FetchDecl c off n) rows"

declare run.simps(1) [simp]

section \<open>Typed physical plans\<close>

text \<open>
  Rows have a value per column, and a Boolean column holds TRUE, FALSE or NULL; expressions read
  columns at their types, and Acero infers the type the binder has given them.
\<close>

definition row_ok :: "ArrowType list \<Rightarrow> row \<Rightarrow> bool" where
  "row_ok ts row \<longleftrightarrow> list_all2 (\<lambda>t d. t = ABool \<longrightarrow> is_bool3 d) ts row"

definition expr_ok :: "acero \<Rightarrow> ArrowType list \<Rightarrow> expression \<Rightarrow> bool" where
  "expr_ok A ts e \<longleftrightarrow> wt e \<and>
     list_all (\<lambda>(i, t). i < length ts \<and> to_arrow_type t = ts ! i) (col_refs e) \<and>
     (case compile_expression_cpu e of Inl _ \<Rightarrow> True | Inr c \<Rightarrow> ac_type A ts c = to_arrow_type (result_type e))"

definition arg_types :: "expression option \<Rightarrow> ArrowType list" where
  "arg_types arg = (case arg of None \<Rightarrow> [] | Some e \<Rightarrow> [to_arrow_type (result_type e)])"

fun agg_ok :: "acero \<Rightarrow> bool \<Rightarrow> ArrowType list \<Rightarrow> expression \<Rightarrow> bool" where
  "agg_ok A grouped ts (Aggregate f arg t) \<longleftrightarrow>
     to_arrow_type t = ac_agg_type A (grouped_name grouped (aggregate_function_name f)) (arg_types arg) \<and>
     (case arg of
        None \<Rightarrow> type_id t \<noteq> Boolean
      | Some e \<Rightarrow> expr_ok A ts e \<and> (type_id t = Boolean \<longrightarrow> tid e = Boolean \<and> f \<in> {AggMin, AggMax}))"
| "agg_ok A grouped ts e \<longleftrightarrow> False"

definition p_types :: "pplan \<Rightarrow> ArrowType list" where
  "p_types pp = map (\<lambda>f. to_arrow_type (ftype f)) (p_output_schema pp)"

definition store_of :: "(ParquetScanNode \<Rightarrow> ByteStore option) \<Rightarrow> ByteStore \<Rightarrow> ParquetScanNode \<Rightarrow> ByteStore" where
  "store_of owned store scan = (case owned scan of Some s \<Rightarrow> s | None \<Rightarrow> store)"

text \<open>The rows of a scan: those of its fragments.\<close>

definition scan_rows :: "(ParquetScanNode \<Rightarrow> ByteStore option) \<Rightarrow> ByteStore \<Rightarrow> ParquetScanNode \<Rightarrow> row list" where
  "scan_rows owned store n =
     (case read_fragments n (store_of owned store n) (ps_fragments n) of Inl _ \<Rightarrow> [] | Inr bs \<Rightarrow> concat bs)"

definition scan_ok :: "(ParquetScanNode \<Rightarrow> ByteStore option) \<Rightarrow> ByteStore \<Rightarrow> ParquetScanNode \<Rightarrow> bool" where
  "scan_ok owned store n \<longleftrightarrow>
     (case make_streaming_scan_reader n (store_of owned store n) of
        Inl _ \<Rightarrow> True
      | Inr r \<Rightarrow> map snd (sr_schema r) = p_types (PScan n)) \<and>
     list_all (row_ok (p_types (PScan n))) (scan_rows owned store n)"

fun p_typed :: "acero \<Rightarrow> (ParquetScanNode \<Rightarrow> ByteStore option) \<Rightarrow> ByteStore \<Rightarrow> pplan \<Rightarrow> bool" where
  "p_typed A owned store (PScan n) \<longleftrightarrow> scan_ok owned store n"
| "p_typed A owned store (PJoin l r lk rk jt res cm est) \<longleftrightarrow>
     p_typed A owned store l \<and> p_typed A owned store r \<and> length (p_types l) + length (p_types r) < 2 ^ 31 \<and>
     lk < length (p_types l) \<and> rk < length (p_types r) \<and>
     (case res of None \<Rightarrow> True | Some p \<Rightarrow> expr_ok A (p_types l @ p_types r) p)"
| "p_typed A owned store (PFilter c p) \<longleftrightarrow>
     p_typed A owned store c \<and> length (p_types c) < 2 ^ 31 \<and> expr_ok A (p_types c) p"
| "p_typed A owned store (PProjection c items) \<longleftrightarrow>
     p_typed A owned store c \<and> length (p_types c) < 2 ^ 31 \<and>
     list_all (\<lambda>it. expr_ok A (p_types c) (nexpr it)) items"
| "p_typed A owned store (PHashAggregate c g a) \<longleftrightarrow>
     p_typed A owned store c \<and> length (p_types c) < 2 ^ 31 \<and> g \<noteq> [] \<and>
     list_all (\<lambda>it. expr_ok A (p_types c) (nexpr it)) g \<and> list_all (\<lambda>it. agg_ok A True (p_types c) (nexpr it)) a"
| "p_typed A owned store (PScalarAggregate c a) \<longleftrightarrow>
     p_typed A owned store c \<and> length (p_types c) < 2 ^ 31 \<and> list_all (\<lambda>it. agg_ok A False (p_types c) (nexpr it)) a"
| "p_typed A owned store (PSort c keys) \<longleftrightarrow>
     p_typed A owned store c \<and> length (p_types c) < 2 ^ 31 \<and> list_all (\<lambda>k. expr_ok A (p_types c) (skey k)) keys"
| "p_typed A owned store (PLimit c n) \<longleftrightarrow> p_typed A owned store c"
| "p_typed A owned store (PResult c) \<longleftrightarrow> p_typed A owned store c"

section \<open>The projected input serves its expressions\<close>

definition served :: "AggregateInputPlan \<Rightarrow> expression \<Rightarrow> string \<Rightarrow> bool" where
  "served plan e n \<longleftrightarrow> (\<exists>j < length (project_names plan). project_names plan ! j = n \<and>
     compile_expression_cpu e = Inr (project_expressions plan ! j))"

definition input_inv :: "AggregateInputPlan \<Rightarrow> bool" where
  "input_inv plan \<longleftrightarrow> length (project_expressions plan) = length (project_names plan) \<and>
     (\<forall>(i, n) \<in> set (projected_index_to_name plan). \<forall>m t. served plan (Column m i t) n)"

definition extends :: "AggregateInputPlan \<Rightarrow> AggregateInputPlan \<Rightarrow> bool" where
  "extends p p' \<longleftrightarrow> input_inv p' \<and> (\<forall>e n. served p e n \<longrightarrow> served p' e n)"

lemma extends_trans: "extends p q \<Longrightarrow> extends q r \<Longrightarrow> extends p r"
  by (auto simp: extends_def)

lemma input_inv_empty: "input_inv empty_input"
  by (simp add: input_inv_def empty_input_def)

lemma push_projected_served:
  assumes "length (project_expressions p) = length (project_names p)"
  shows "compile_expression_cpu e = Inr c \<Longrightarrow> served (push_projected c n p) e n"
    and "served p e' m \<Longrightarrow> served (push_projected c n p) e' m"
proof -
  show "served (push_projected c n p) e n" if "compile_expression_cpu e = Inr c"
    unfolding served_def using assms that
    by (intro exI[of _ "length (project_names p)"]) (simp add: push_projected_def nth_append)
  show "served (push_projected c n p) e' m" if "served p e' m"
  proof -
    from that obtain j where "j < length (project_names p)" "project_names p ! j = m"
      "compile_expression_cpu e' = Inr (project_expressions p ! j)" by (auto simp: served_def)
    then show ?thesis unfolding served_def using assms
      by (intro exI[of _ j]) (simp add: push_projected_def nth_append)
  qed
qed

lemma served_cong:
  "project_names p = project_names q \<Longrightarrow> project_expressions p = project_expressions q \<Longrightarrow> served p e n = served q e n"
  by (simp add: served_def)

lemma next_synthetic_served [simp]:
  "served (snd (next_synthetic_name p)) e n = served p e n"
  "project_names (snd (next_synthetic_name p)) = project_names p"
  "project_expressions (snd (next_synthetic_name p)) = project_expressions p"
  "projected_index_to_name (snd (next_synthetic_name p)) = projected_index_to_name p"
  "claimed_names (snd (next_synthetic_name p)) = claimed_names p"
  by (simp_all add: next_synthetic_name_def served_def)

text \<open>The one step by which the plan grows, with any bookkeeping of names.\<close>

lemma push_extends:
  assumes "input_inv p" "compile_expression_cpu e = Inr c"
    and "project_names q = project_names p" "project_expressions q = project_expressions p"
    and "set (projected_index_to_name (f (push_projected c n q))) \<subseteq> insert (i, n) (set (projected_index_to_name p))"
    and "e = Column x i t \<or> set (projected_index_to_name (f (push_projected c n q))) \<subseteq> set (projected_index_to_name p)"
    and "\<And>p'. project_names (f p') = project_names p'" "\<And>p'. project_expressions (f p') = project_expressions p'"
  shows "extends p (f (push_projected c n q)) \<and> served (f (push_projected c n q)) e n"
proof -
  let ?q = "f (push_projected c n q)"
  have len: "length (project_expressions q) = length (project_names q)" using assms(1,3,4) by (simp add: input_inv_def)
  have sv: "served ?q e' m = served (push_projected c n q) e' m" for e' m by (rule served_cong) (rule assms(7,8))+
  have old: "served p e' m \<Longrightarrow> served ?q e' m" for e' m
    unfolding sv using push_projected_served(2)[OF len] served_cong[OF assms(3,4)] by simp
  have new: "served ?q e n" unfolding sv by (rule push_projected_served(1)[OF len assms(2)])
  have col: "served ?q (Column m i t') n" if "e = Column x i t" for m t'
    using new assms(2) that by (simp add: served_def)
  have "\<forall>(j, m) \<in> set (projected_index_to_name ?q). \<forall>m' t'. served ?q (Column m' j t') m"
    using assms(1,5,6) old col unfolding input_inv_def by fast
  moreover have "length (project_expressions ?q) = length (project_names ?q)"
    using len by (simp add: assms(7,8) push_projected_def)
  ultimately show ?thesis using old new by (simp add: extends_def input_inv_def)
qed

lemma ensure_served:
  assumes "input_inv p" "ensure_column_projected p x i = (n, p')"
  shows "extends p p' \<and> served p' (Column x i t) n"
proof (cases "map_of (projected_index_to_name p) i")
  case (Some m)
  then have "m = n" "p' = p" using assms(2) by (auto simp: ensure_column_projected_def)
  with Some assms(1) show ?thesis by (auto simp: extends_def input_inv_def dest!: map_of_SomeD)
next
  case None
  let ?q = "(if x \<notin> set (claimed_names p) then p else snd (next_synthetic_name p))\<lparr>claimed_names := n # claimed_names p\<rparr>"
  have p': "p' = (\<lambda>q. q\<lparr>projected_index_to_name := (i, n) # projected_index_to_name q\<rparr>)
      (push_projected (FieldRef (wrap32 (int i))) n ?q)"
    using assms(2) None
    by (auto simp: ensure_column_projected_def Let_def next_synthetic_name_def push_projected_def split: if_splits)
  show ?thesis unfolding p'
    by (rule push_extends[OF assms(1), where x = x and i = i and t = t]) (auto simp: push_projected_def)
qed

lemma resolve_served:
  assumes "input_inv p" "resolve_aggregate_target p e = Inr (n, p')"
  shows "extends p p' \<and> served p' e n"
proof (cases "\<exists>x i t. e = Column x i t")
  case True
  then show ?thesis using assms ensure_served[OF assms(1)] by (auto simp: resolve_aggregate_target_def)
next
  case False
  then obtain c where c: "compile_expression_cpu e = Inr c" "p' = push_projected c n (snd (next_synthetic_name p))"
    using assms(2) by (cases e) (auto simp: resolve_aggregate_target_def bindR_eq_Inr next_synthetic_name_def)
  show ?thesis unfolding c(2)
    by (rule push_extends[OF assms(1) c(1), where f = id and i = undefined, simplified]) (auto simp: push_projected_def)
qed

lemma translate_keys_served:
  assumes "input_inv p" "translate_keys p g = Inr (ks, p')"
  shows "extends p p' \<and> list_all2 (\<lambda>it k. served p' (nexpr it) k) g ks"
  using assms
proof (induction g arbitrary: p ks)
  case Nil
  then show ?case by (simp add: extends_def)
next
  case (Cons it g)
  obtain k q ks' where k: "ks = k # ks'" "translate_keys q g = Inr (ks', p')" "extends p q \<and> served q (nexpr it) k"
  proof (cases "\<exists>x i t. nexpr it = Column x i t")
    case True
    then show ?thesis using Cons.prems ensure_served[OF Cons.prems(1)] that
      by (auto simp: bindR_eq_Inr split: prod.splits)
  next
    case False
    then obtain c q ks' where c: "compile_expression_cpu (nexpr it) = Inr c"
      "q = push_projected c (nname it) (p\<lparr>claimed_names := nname it # claimed_names p\<rparr>)"
      "ks = nname it # ks'" "translate_keys q g = Inr (ks', p')"
      using Cons.prems(2) by (cases "nexpr it") (auto simp: bindR_eq_Inr split: if_splits)
    have "extends p q \<and> served q (nexpr it) (nname it)" unfolding c(2)
      by (rule push_extends[OF Cons.prems(1) c(1), where f = id and i = undefined, simplified]) (auto simp: push_projected_def)
    with c that show ?thesis by blast
  qed
  then have "extends q p' \<and> list_all2 (\<lambda>it k. served p' (nexpr it) k) g ks'"
    using Cons.IH[of q ks'] by (simp add: extends_def)
  with k extends_trans[of p q p'] show ?case by (auto simp: extends_def)
qed

text \<open>An aggregate of Acero that stands for one of the plan.\<close>

definition stands_for :: "AggregateInputPlan \<Rightarrow> bool \<Rightarrow> NamedExpression \<Rightarrow> arrow_aggregate \<Rightarrow> bool" where
  "stands_for plan grouped it a \<longleftrightarrow> ag_name a = nname it \<and>
     (case nexpr it of
        Aggregate f arg t \<Rightarrow>
          ag_function a = grouped_name grouped (aggregate_function_name f) \<and> ag_options a = aggregate_options f \<and>
          (case arg of None \<Rightarrow> ag_target a = [] | Some e \<Rightarrow> (\<exists>n. ag_target a = [n] \<and> served plan e n))
      | _ \<Rightarrow> False)"

lemma stands_for_extends: "stands_for p g it a \<Longrightarrow> extends p q \<Longrightarrow> stands_for q g it a"
  unfolding stands_for_def extends_def by (auto split: option.splits expression.splits)

lemma translate_aggregate_served:
  assumes "input_inv p" "translate_aggregate p f arg (nname it) grouped = Inr (a, p')" "nexpr it = Aggregate f arg t"
  shows "extends p p' \<and> stands_for p' grouped it a"
proof (cases arg)
  case None
  then show ?thesis using assms by (auto simp: translate_aggregate_def stands_for_def extends_def)
next
  case (Some e)
  then obtain n where n: "resolve_aggregate_target p e = Inr (n, p')"
    "a = \<lparr>ag_function = grouped_name grouped (aggregate_function_name f), ag_options = aggregate_options f,
          ag_target = [n], ag_name = nname it\<rparr>"
    using assms(2) by (auto simp: translate_aggregate_def bindR_eq_Inr)
  then show ?thesis using resolve_served[OF assms(1) n(1)] assms(3) Some by (auto simp: stands_for_def)
qed

lemma translate_aggregates_served:
  assumes "input_inv p" "translate_aggregates node grouped p as = Inr (bs, p')"
  shows "extends p p' \<and> list_all2 (stands_for p' grouped) as bs"
  using assms
proof (induction as arbitrary: p bs)
  case Nil
  then show ?case by (simp add: extends_def)
next
  case (Cons it as)
  obtain f arg t where e: "nexpr it = Aggregate f arg t"
    using Cons.prems(2) by (cases "nexpr it") auto
  then obtain b q bs' where b: "bs = b # bs'" "translate_aggregate p f arg (nname it) grouped = Inr (b, q)"
    "translate_aggregates node grouped q as = Inr (bs', p')"
    using Cons.prems(2) by (auto simp: bindR_eq_Inr)
  from translate_aggregate_served[OF Cons.prems(1) b(2) e] have q: "extends p q" "stands_for q grouped it b" by auto
  then have "extends q p' \<and> list_all2 (stands_for p' grouped) as bs'"
    using Cons.IH[OF _ b(3)] by (simp add: extends_def)
  with q b(1) show ?case using extends_trans stands_for_extends by auto
qed

section \<open>Running the declarations\<close>

lemma arrow_bool: "to_arrow_type t = ABool \<longleftrightarrow> type_id t = Boolean"
  by (cases "type_id t") (simp_all add: to_arrow_type.simps)

lemma row_ok_append: "row_ok ts x \<Longrightarrow> row_ok us y \<Longrightarrow> row_ok (ts @ us) (x @ y)"
  by (simp add: row_ok_def list_all2_appendI)

lemma row_ok_length: "row_ok ts row \<Longrightarrow> length row = length ts"
  by (simp add: row_ok_def list_all2_lengthD)

lemma row_ok_nulls: "row_ok (map snd s) (map (\<lambda>(n, t). Scalar t LNull) s)"
  by (induction s) (auto simp: row_ok_def)

lemma row_ok_fits: "row_ok ts row \<Longrightarrow> expr_ok A ts e \<Longrightarrow> row_fits row e"
  by (fastforce simp: row_ok_def expr_ok_def row_fits_def list_all_iff list_all2_conv_all_nth arrow_bool)

lemma acero_join_rows: "acero_join m jt (null_row rs) L R = join_rows m jt rs L R"
  by (simp add: acero_join_def join_rows_def)

lemma nulls_of_types:
  "map snd s = map (\<lambda>f. to_arrow_type (ftype f)) rs \<Longrightarrow> map (\<lambda>(n, t). Scalar t LNull) s = null_row rs"
  by (induction s arbitrary: rs) (auto simp: null_row_def map_eq_Cons_conv Cons_eq_map_conv)

lemma acero_join_cong:
  assumes "\<And>x y. x \<in> set L \<Longrightarrow> y \<in> set R \<Longrightarrow> m x y = m' x y"
  shows "acero_join m jt nulls L R = acero_join m' jt nulls L R"
proof -
  have f: "filter (m x) R = filter (m' x) R" if "x \<in> set L" for x
    using assms[OF that] by (auto intro: filter_cong)
  show ?thesis using assms
    by (cases jt) (auto simp: acero_join_def f intro!: arg_cong[of _ _ concat] filter_cong)
qed

lemma acero_join_ok:
  assumes "list_all (row_ok ts) L" "list_all (row_ok us) R" "row_ok us nulls" "z \<in> set (acero_join m jt nulls L R)"
  shows "row_ok (if jt = LeftSemi \<or> jt = LeftAnti then ts else ts @ us) z"
  using assms by (cases jt) (auto simp: acero_join_def Let_def list_all_iff row_ok_append split: if_splits)

lemma p_types_join:
  "p_types (PJoin l r lk rk jt res cm est) = (if jt = LeftSemi \<or> jt = LeftAnti then p_types l else p_types l @ p_types r)"
  by (simp add: p_types_def join_schema_def comp_def)

lemma p_types_simps [simp]:
  "p_types (PFilter c p) = p_types c" "p_types (PSort c keys) = p_types c" "p_types (PLimit c n) = p_types c"
  "p_types (PResult c) = p_types c"
  "p_types (PProjection c items) = map (\<lambda>it. to_arrow_type (result_type (nexpr it))) items"
  "p_types (PHashAggregate c g a) = map (\<lambda>it. to_arrow_type (result_type (nexpr it))) (g @ a)"
  "p_types (PScalarAggregate c a) = map (\<lambda>it. to_arrow_type (result_type (nexpr it))) a"
  by (simp_all add: p_types_def items_schema_def)

text \<open>What is found under a served name, when the name is found at all.\<close>

lemma served_found:
  assumes "served plan e n" "get_field_index (project_names plan) n = Some j"
  shows "j < length (project_names plan)" "compile_expression_cpu e = Inr (project_expressions plan ! j)"
  using assms by (auto simp: served_def get_field_index_Some)

lemma served_names: "served plan e n \<Longrightarrow> project_names plan \<noteq> []"
  by (auto simp: served_def)

lemma map_fst_zip_names:
  "length es = length ns \<Longrightarrow> map fst (zip ns (map f es)) = ns"
  by simp

lemma input_schema_type:
  assumes "input_inv plan" "served plan e n" "get_field_index (project_names plan) n \<noteq> None"
    and "expr_ok A (map snd (d_schema A d)) e"
  shows "type_named (d_schema A (aggregate_input plan d)) n = to_arrow_type (result_type e)"
proof -
  have len: "length (project_expressions plan) = length (project_names plan)" using assms(1) by (simp add: input_inv_def)
  obtain j where j: "get_field_index (project_names plan) n = Some j" using assms(3) by auto
  note f = served_found[OF assms(2) j]
  show ?thesis using assms(4) f j len
    by (simp add: type_named_def aggregate_input_def served_names[OF assms(2)] expr_ok_def)
qed

definition input_row :: "kernel \<Rightarrow> AggregateInputPlan \<Rightarrow> row \<Rightarrow> row" where
  "input_row K plan row = (if project_names plan = [] then row else map (run K row) (project_expressions plan))"

lemma input_names:
  "input_inv plan \<Longrightarrow> project_names plan \<noteq> [] \<Longrightarrow> map fst (d_schema A (aggregate_input plan d)) = project_names plan"
  by (simp add: aggregate_input_def input_inv_def)

lemma input_returns:
  "d_returns E A (aggregate_input plan d) C' \<longleftrightarrow> (\<exists>C. d_returns E A d C \<and> C' = map (input_row (e_kernel E) plan) C)"
proof -
  have "input_row (e_kernel E) plan =
      (if project_names plan = [] then id else (\<lambda>row. map (run (e_kernel E) row) (project_expressions plan)))"
    by (rule ext) (simp add: input_row_def)
  then show ?thesis by (auto simp: aggregate_input_def d_returns_simps)
qed

text \<open>
  What the translation relies on: Acero's aggregate functions compute the SQL aggregates on values
  of the type they were declared with, its sort is the engine's, and the minimum and maximum of
  Booleans are Boolean.
\<close>

locale acero_engine = sort_engine E + arrow_logic "e_kernel E" for E :: engine +
  fixes A :: acero
  assumes aggregates: "ac_aggregate A (grouped_name g (aggregate_function_name f)) (aggregate_options f) ts vals
      = e_agg E f (ac_agg_type A (grouped_name g (aggregate_function_name f)) ts) vals"
    and sorts: "ac_sort A (map (\<lambda>a. (a, if a then AtEnd else AtStart)) fl) kr = e_sort E fl kr"
    and agg_bool: "f \<in> {AggMin, AggMax} \<Longrightarrow> list_all is_bool3 vals \<Longrightarrow> is_bool3 (e_agg E f ABool vals)"
begin

lemma expr_run:
  assumes "expr_ok A ts e" "compile_expression_cpu e = Inr c" "row_ok ts row" "length ts < 2 ^ 31"
  shows "run (e_kernel E) row c = eval (e_kernel E) row e"
  using assms row_ok_fits[OF assms(3,1)] by (intro run_compile) (auto simp: expr_ok_def row_ok_length)

lemma expr_bool:
  assumes "expr_ok A ts e" "compile_expression_cpu e = Inr c" "row_ok ts row" "tid e = Boolean"
  shows "is_bool3 (eval (e_kernel E) row e)"
  using assms row_ok_fits[OF assms(3,1)] by (intro eval_bool) (auto simp: expr_ok_def)

lemma items_row_ok:
  assumes "list_all (\<lambda>it. expr_ok A ts (nexpr it)) items" "list_all (\<lambda>it. \<exists>c. compile_expression_cpu (nexpr it) = Inr c) items"
    and "row_ok ts row"
  shows "row_ok (map (\<lambda>it. to_arrow_type (result_type (nexpr it))) items) (eval_items E items row)"
  using assms expr_bool[OF _ _ assms(3)]
  by (auto simp: row_ok_def eval_items_def list_all2_map1 list_all2_map2 list.rel_refl_strong list_all_iff arrow_bool
      intro!: list.rel_refl_strong)

lemma input_value:
  assumes "input_inv plan" "served plan e n" "get_field_index (project_names plan) n \<noteq> None"
    and "expr_ok A ts e" "row_ok ts row" "length ts < 2 ^ 31"
  shows "value_named (d_schema A (aggregate_input plan d)) (input_row (e_kernel E) plan row) n = eval (e_kernel E) row e"
proof -
  have len: "length (project_expressions plan) = length (project_names plan)" using assms(1) by (simp add: input_inv_def)
  obtain j where j: "get_field_index (project_names plan) n = Some j" using assms(3) by auto
  note f = served_found[OF assms(2) j]
  show ?thesis using f j len expr_run[OF assms(4) f(2) assms(5,6)]
    by (simp add: value_named_def input_names[OF assms(1) served_names[OF assms(2)]] input_row_def
        served_names[OF assms(2)] col_at_def)
qed

lemma agg_value:
  assumes "input_inv plan" "stands_for plan grouped it a" "agg_ok A grouped ts (nexpr it)" "ts = map snd (d_schema A d)"
    and "list_all (\<lambda>k. get_field_index (map fst (d_schema A (aggregate_input plan d))) k \<noteq> None) (ag_target a)"
    and "list_all (row_ok ts) C" "length ts < 2 ^ 31"
  shows "acero_value A (d_schema A (aggregate_input plan d)) (map (input_row (e_kernel E) plan) C) a = eval_agg E C (nexpr it)"
proof -
  obtain f arg t where e: "nexpr it = Aggregate f arg t" "ag_function a = grouped_name grouped (aggregate_function_name f)"
    "ag_options a = aggregate_options f"
    using assms(2) by (auto simp: stands_for_def split: expression.splits)
  show ?thesis
  proof (cases arg)
    case None
    then have "ag_target a = []" using assms(2) e(1) by (simp add: stands_for_def)
    then show ?thesis using assms(3) e None
      by (simp add: acero_value_def eval_agg_def aggregates arg_types_def comp_def)
  next
    case (Some x)
    then obtain n where n: "ag_target a = [n]" "served plan x n" using assms(2) e(1) by (auto simp: stands_for_def)
    have x: "expr_ok A ts x" "to_arrow_type t = ac_agg_type A (ag_function a) [to_arrow_type (result_type x)]"
      using assms(3) e Some by (auto simp: arg_types_def)
    have found: "get_field_index (project_names plan) n \<noteq> None"
      using assms(5) n by (simp add: input_names[OF assms(1) served_names[OF n(2)]])
    have "map (\<lambda>row. value_named (d_schema A (aggregate_input plan d)) (input_row (e_kernel E) plan row) n) C
        = map (\<lambda>row. eval (e_kernel E) row x) C"
      using assms(6) input_value[OF assms(1) n(2) found x(1) _ assms(7)] by (auto simp: list_all_iff)
    then show ?thesis using e n x Some input_schema_type[OF assms(1) n(2) found x(1)[unfolded assms(4)]]
      by (simp add: acero_value_def eval_agg_def aggregates comp_def cong: map_cong)
  qed
qed

lemma agg_row_ok:
  assumes "stands_for plan grouped it a" "agg_ok A grouped ts (nexpr it)" "list_all (row_ok ts) C"
    and "to_arrow_type (result_type (nexpr it)) = ABool"
  shows "is_bool3 (eval_agg E C (nexpr it))"
proof -
  obtain f arg t where e: "nexpr it = Aggregate f arg t" using assms(1) by (auto simp: stands_for_def split: expression.splits)
  with assms(2,4) obtain x where x: "arg = Some x" "expr_ok A ts x" "tid x = Boolean" "f \<in> {AggMin, AggMax}"
    by (cases arg) (auto simp: arrow_bool)
  then obtain c where "compile_expression_cpu x = Inr c" using assms(1) e by (auto simp: stands_for_def served_def)
  then have "list_all is_bool3 (map (\<lambda>row. eval (e_kernel E) row x) C)"
    using assms(3) expr_bool[OF x(2) _ _ x(3)] by (auto simp: list_all_iff)
  then show ?thesis using agg_bool[OF x(4)] assms(4) e x(1) by (simp add: eval_agg_def)
qed

text \<open>The groups of the projected input are the groups of the rows below it.\<close>

lemma aggregate_groups:
  assumes inv: "input_inv plan" and ts: "ts = map snd (d_schema A d)" "length ts < 2 ^ 31"
    and ks: "list_all2 (\<lambda>it k. served plan (nexpr it) k) g keys" and as: "list_all2 (stands_for plan grouped) a aggs"
    and ok: "list_all (\<lambda>it. expr_ok A ts (nexpr it)) g" "list_all (\<lambda>it. agg_ok A grouped ts (nexpr it)) a"
    and refs: "references_resolve (map fst (d_schema A (aggregate_input plan d))) aggs keys"
    and rows: "list_all (row_ok ts) C"
  shows "acero_aggregate A (d_schema A (aggregate_input plan d)) aggs keys (map (input_row (e_kernel E) plan) C)
    = map (\<lambda>(k, rows). k @ map (\<lambda>it. eval_agg E rows (nexpr it)) a) (group_rows E g C)"
proof -
  let ?s = "d_schema A (aggregate_input plan d)" and ?row = "input_row (e_kernel E) plan"
  let ?key = "\<lambda>row. map (value_named ?s row) keys"
  have val: "map (acero_value A ?s (map ?row C')) aggs = map (\<lambda>it. eval_agg E C' (nexpr it)) a" if "set C' \<subseteq> set C" for C'
  proof -
    have r: "list_all (row_ok ts) C'" using rows that by (auto simp: list_all_iff)
    have "list_all2 (\<lambda>it b. acero_value A ?s (map ?row C') b = eval_agg E C' (nexpr it)) a aggs"
      using as ok(2) refs agg_value[OF inv _ _ ts(1) _ r ts(2)]
      by (auto simp: list_all2_conv_all_nth list_all_length references_resolve_def)
    then show ?thesis by (auto simp: list_all2_conv_all_nth intro!: nth_equalityI)
  qed
  have key: "?key (?row row) = eval_items E g row" if "row \<in> set C" for row
  proof -
    have "row_ok ts row" using rows that by (simp add: list_all_iff)
    moreover have "get_field_index (project_names plan) k \<noteq> None" if "k \<in> set keys" "served plan e k" for k e
      using refs that by (auto simp: references_resolve_def list_all_iff input_names[OF inv served_names[OF that(2)]])
    ultimately have "list_all2 (\<lambda>it k. value_named ?s (?row row) k = eval (e_kernel E) row (nexpr it)) g keys"
      using ks ok(1) input_value[OF inv _ _ _ _ ts(2)] by (auto simp: list_all2_conv_all_nth list_all_length)
    then show ?thesis by (auto simp: eval_items_def list_all2_conv_all_nth intro!: nth_equalityI)
  qed
  have keys: "map ?key (map ?row C) = map (eval_items E g) C" using key by simp
  have flt: "filter (\<lambda>row. ?key row = k) (map ?row C) = map ?row (filter (\<lambda>row. eval_items E g row = k) C)" for k
    using key by (auto simp: filter_map comp_def intro!: arg_cong[of _ _ "map ?row"] filter_cong)
  show ?thesis
  proof (cases "g = []")
    case True
    then have "keys = []" using ks by simp
    then show ?thesis using True val[of C] by (simp add: acero_aggregate_def group_rows_def)
  next
    case False
    then have "keys \<noteq> []" using ks by auto
    then show ?thesis using False
      by (simp only: acero_aggregate_def group_rows_def Let_def keys flt if_False) (auto simp: val intro!: map_cong)
  qed
qed

text \<open>One node at a time.\<close>

definition delivers :: "(ParquetScanNode \<Rightarrow> ByteStore option) \<Rightarrow> ByteStore \<Rightarrow> pplan \<Rightarrow> Declaration \<Rightarrow> row list \<Rightarrow> bool" where
  "delivers owned store pp d rows \<longleftrightarrow> map snd (d_schema A d) = p_types pp \<and>
     p_returns E (scan_rows owned store) pp rows \<and> list_all (row_ok (p_types pp)) rows"

lemma scan_delivers:
  assumes "scan_ok owned store n" "make_streaming_scan_reader n (store_of owned store n) = Inr r" "read_all r = Inr bs"
    and "mset rows = mset (concat bs)"
  shows "delivers owned store (PScan n) (RecordBatchReaderSource r) rows"
proof -
  have "read_fragments n (store_of owned store n) (ps_fragments n) = Inr bs"
    using streaming_batches[OF assms(2)] assms(3) by simp
  then have b: "scan_rows owned store n = concat bs" by (simp add: scan_rows_def)
  then show ?thesis using assms(1,2,4) mset_eq_setD[OF assms(4)]
    by (auto simp: delivers_def scan_ok_def p_returns_simps list_all_iff)
qed

lemma join_delivers:
  assumes l: "delivers owned store l dl L" and r: "delivers owned store r dr R"
    and typed: "p_typed A owned store (PJoin l r lk rk jt res cm est)"
    and flt: "(case res of Some p \<Rightarrow> compile_expression_cpu p | None \<Rightarrow> Inr (ALiteral (bool_datum True))) = Inr flt"
    and rows: "d_returns E A (HashJoinDecl dl dr jt (wrap32 (int lk)) (wrap32 (int rk)) flt) rows"
      "mset rows = mset (acero_join (\<lambda>x y. e_keyeq E (run (e_kernel E) x (FieldRef (wrap32 (int lk))))
          (run (e_kernel E) y (FieldRef (wrap32 (int rk)))) \<and> is_true (run (e_kernel E) (x @ y) flt)) jt
          (map (\<lambda>(n, t). Scalar t LNull) (d_schema A dr)) L R)"
  shows "delivers owned store (PJoin l r lk rk jt res cm est) (HashJoinDecl dl dr jt (wrap32 (int lk)) (wrap32 (int rk)) flt) rows"
proof -
  let ?m = "\<lambda>x y. e_keyeq E (run (e_kernel E) x (FieldRef (wrap32 (int lk))))
          (run (e_kernel E) y (FieldRef (wrap32 (int rk)))) \<and> is_true (run (e_kernel E) (x @ y) flt)"
  let ?nulls = "map (\<lambda>(n, t). Scalar t LNull) (d_schema A dr)"
  have nulls: "?nulls = null_row (p_output_schema r)"
    using r by (intro nulls_of_types) (simp add: delivers_def p_types_def)
  have rl: "list_all (row_ok (p_types l)) L" "list_all (row_ok (p_types r)) R" using l r by (simp_all add: delivers_def)
  have w: "wrap32 (int lk) = int lk" "wrap32 (int rk) = int rk"
    using typed by (auto simp: in_int32_def intro!: wrap32_id)
  have "?m x y = join_match E lk rk res x y" if "x \<in> set L" "y \<in> set R" for x y
  proof -
    have xy: "row_ok (p_types l) x" "row_ok (p_types r) y" using rl that by (auto simp: list_all_iff)
    have "is_true (run (e_kernel E) (x @ y) flt) \<longleftrightarrow> (case res of None \<Rightarrow> True | Some p \<Rightarrow> holds E (x @ y) p)"
      using flt typed expr_run[OF _ _ row_ok_append[OF xy]] by (auto simp: holds_def split: option.splits)
    then show ?thesis using w typed row_ok_length[OF xy(1)] row_ok_length[OF xy(2)]
      by (simp add: join_match_def col_at_def)
  qed
  then have "acero_join ?m jt ?nulls L R = acero_join (join_match E lk rk res) jt ?nulls L R"
    by (rule acero_join_cong)
  then have "mset rows = mset (join_rows (join_match E lk rk res) jt (p_output_schema r) L R)"
    unfolding rows(2) by (simp only: nulls acero_join_rows)
  moreover have "row_ok (p_types r) ?nulls" using row_ok_nulls[of "d_schema A dr"] r by (simp add: delivers_def)
  from acero_join_ok[OF rl this] mset_eq_setD[OF rows(2)]
  have "list_all (row_ok (p_types (PJoin l r lk rk jt res cm est))) rows"
    unfolding p_types_join list_all_iff by blast
  ultimately show ?thesis using l r by (auto simp: delivers_def p_types_join p_returns_simps)
qed

lemma filter_delivers:
  assumes "delivers owned store c d C" "p_typed A owned store (PFilter c p)" "compile_expression_cpu p = Inr e"
  shows "delivers owned store (PFilter c p) (FilterDecl d e) (filter (\<lambda>row. is_true (run (e_kernel E) row e)) C)"
proof -
  have "filter (\<lambda>row. is_true (run (e_kernel E) row e)) C = filter (\<lambda>row. holds E row p) C"
    using assms expr_run[OF _ assms(3)] by (auto simp: delivers_def holds_def list_all_iff intro!: filter_cong)
  with assms(1) show ?thesis by (auto simp: delivers_def p_returns_simps list_all_iff)
qed

lemma project_delivers:
  assumes "delivers owned store c d C" "p_typed A owned store (PProjection c items)"
    and "mapR (\<lambda>it. compile_expression_cpu (nexpr it)) items = Inr es"
  shows "delivers owned store (PProjection c items) (ProjectDecl d es (map nname items)) (map (\<lambda>row. map (run (e_kernel E) row) es) C)"
proof -
  have es: "list_all2 (\<lambda>it e. compile_expression_cpu (nexpr it) = Inr e) items es" using assms(3) by (simp add: mapR_eq_Inr)
  have ok: "list_all (\<lambda>it. expr_ok A (p_types c) (nexpr it)) items" using assms(2) by simp
  have row: "map (run (e_kernel E) row) es = eval_items E items row" if "row \<in> set C" for row
  proof -
    have "row_ok (p_types c) row" using assms(1) that by (auto simp: delivers_def list_all_iff)
    then have "list_all2 (\<lambda>it e. run (e_kernel E) row e = eval (e_kernel E) row (nexpr it)) items es"
      using es ok assms(2) expr_run by (auto simp: list_all2_conv_all_nth list_all_length)
    then show ?thesis by (auto simp: eval_items_def list_all2_conv_all_nth intro!: nth_equalityI)
  qed
  have "map (ac_type A (map snd (d_schema A d))) es = map (\<lambda>it. to_arrow_type (result_type (nexpr it))) items"
    using es ok assms(1)
    by (auto simp: delivers_def expr_ok_def list_all2_conv_all_nth list_all_length intro!: nth_equalityI)
  moreover have "list_all (\<lambda>it. \<exists>c. compile_expression_cpu (nexpr it) = Inr c) items"
    using es by (auto simp: list_all2_conv_all_nth list_all_length)
  ultimately show ?thesis
    using assms(1) row items_row_ok[OF ok] list_all2_lengthD[OF es] by (auto simp: delivers_def p_returns_simps list_all_iff cong: map_cong)
qed

lemma aggregate_types:
  assumes inv: "input_inv plan" and ts: "ts = map snd (d_schema A d)"
    and ks: "list_all2 (\<lambda>it k. served plan (nexpr it) k) g keys" and as: "list_all2 (stands_for plan grouped) a aggs"
    and ok: "list_all (\<lambda>it. expr_ok A ts (nexpr it)) g" "list_all (\<lambda>it. agg_ok A grouped ts (nexpr it)) a"
    and refs: "references_resolve (map fst (d_schema A (aggregate_input plan d))) aggs keys"
  shows "map snd (d_schema A (AggregateDecl (aggregate_input plan d) aggs keys))
    = map (\<lambda>it. to_arrow_type (result_type (nexpr it))) (g @ a)"
proof -
  let ?s = "d_schema A (aggregate_input plan d)"
  have ty: "type_named ?s n = to_arrow_type (result_type e)"
    if "served plan e n" "expr_ok A ts e" "get_field_index (map fst ?s) n \<noteq> None" for e n
    using input_schema_type[OF inv that(1) _ that(2)[unfolded ts]] that(3)
    by (simp add: input_names[OF inv served_names[OF that(1)]])
  have "list_all2 (\<lambda>it k. type_named ?s k = to_arrow_type (result_type (nexpr it))) g keys"
    using ks ok(1) refs ty by (auto simp: list_all2_conv_all_nth list_all_length references_resolve_def)
  moreover have "ac_agg_type A (ag_function b) (map (type_named ?s) (ag_target b)) = to_arrow_type (result_type (nexpr it))"
    if b: "stands_for plan grouped it b" "agg_ok A grouped ts (nexpr it)"
      "list_all (\<lambda>k. get_field_index (map fst ?s) k \<noteq> None) (ag_target b)" for it b
  proof -
    obtain f arg t where e: "nexpr it = Aggregate f arg t" using b(1) by (auto simp: stands_for_def split: expression.splits)
    show ?thesis using b e ty by (cases arg) (auto simp: stands_for_def arg_types_def)
  qed
  then have "list_all2 (\<lambda>it b. ac_agg_type A (ag_function b) (map (type_named ?s) (ag_target b))
      = to_arrow_type (result_type (nexpr it))) a aggs"
    using as ok(2) refs by (auto simp: list_all2_conv_all_nth list_all_length references_resolve_def)
  ultimately show ?thesis by (auto simp: comp_def list_all2_conv_all_nth intro!: nth_equalityI)
qed

lemma group_row_ok:
  assumes as: "list_all2 (stands_for plan grouped) a aggs" and ks: "list_all2 (\<lambda>it k. served plan (nexpr it) k) g keys"
    and ok: "list_all (\<lambda>it. expr_ok A ts (nexpr it)) g" "list_all (\<lambda>it. agg_ok A grouped ts (nexpr it)) a"
    and rows: "list_all (row_ok ts) C" and z: "(k, C') \<in> set (group_rows E g C)"
  shows "row_ok (map (\<lambda>it. to_arrow_type (result_type (nexpr it))) (g @ a)) (k @ map (\<lambda>it. eval_agg E C' (nexpr it)) a)"
proof -
  have sub: "list_all (row_ok ts) C'" using rows z by (auto simp: group_rows_def list_all_iff split: if_splits)
  have cg: "list_all (\<lambda>it. \<exists>c. compile_expression_cpu (nexpr it) = Inr c) g"
    using ks by (auto simp: list_all2_conv_all_nth list_all_length served_def)
  have "row_ok (map (\<lambda>it. to_arrow_type (result_type (nexpr it))) g) k"
    using z items_row_ok[OF ok(1) cg] rows by (auto simp: group_rows_def list_all_iff row_ok_def split: if_splits)
  moreover have "row_ok (map (\<lambda>it. to_arrow_type (result_type (nexpr it))) a) (map (\<lambda>it. eval_agg E C' (nexpr it)) a)"
    using as ok(2) agg_row_ok[OF _ _ sub] by (auto simp: row_ok_def list_all2_conv_all_nth list_all_length)
  ultimately show ?thesis by (simp add: row_ok_append)
qed

lemma aggregate_delivers:
  assumes c: "\<And>C. d_returns E A d C \<Longrightarrow> delivers owned store c d C" and len: "length (p_types c) < 2 ^ 31"
    and inv: "input_inv plan"
    and ks: "list_all2 (\<lambda>it k. served plan (nexpr it) k) g keys" and as: "list_all2 (stands_for plan grouped) a aggs"
    and ok: "list_all (\<lambda>it. expr_ok A (p_types c) (nexpr it)) g" "list_all (\<lambda>it. agg_ok A grouped (p_types c) (nexpr it)) a"
    and ret: "d_returns E A (AggregateDecl (aggregate_input plan d) aggs keys) rows"
  obtains C where "p_returns E (scan_rows owned store) c C"
    "mset rows = mset (map (\<lambda>(k, rows). k @ map (\<lambda>it. eval_agg E rows (nexpr it)) a) (group_rows E g C))"
    "map snd (d_schema A (AggregateDecl (aggregate_input plan d) aggs keys)) = map (\<lambda>it. to_arrow_type (result_type (nexpr it))) (g @ a)"
    "list_all (row_ok (map (\<lambda>it. to_arrow_type (result_type (nexpr it))) (g @ a))) rows"
proof -
  from ret obtain C where C: "d_returns E A d C"
    "references_resolve (map fst (d_schema A (aggregate_input plan d))) aggs keys"
    "mset rows = mset (acero_aggregate A (d_schema A (aggregate_input plan d)) aggs keys (map (input_row (e_kernel E) plan) C))"
    by (auto simp: d_returns_simps input_returns)
  from c[OF C(1)] have d: "p_types c = map snd (d_schema A d)" "p_returns E (scan_rows owned store) c C"
    "list_all (row_ok (p_types c)) C" by (auto simp: delivers_def)
  note m = C(3)[unfolded aggregate_groups[OF inv d(1) len ks as ok C(2) d(3)]]
  have "list_all (row_ok (map (\<lambda>it. to_arrow_type (result_type (nexpr it))) (g @ a))) rows"
    using mset_eq_setD[OF m] group_row_ok[OF as ks ok d(3)] by (auto simp: list_all_iff)
  with that d(2) m aggregate_types[OF inv d(1) ks as ok C(2)] show ?thesis by blast
qed

lemma sort_delivers:
  assumes c: "delivers owned store c d C" and typed: "p_typed A owned store (PSort c keys)"
    and ks: "mapR translate_sort_key keys = Inr ks" and C': "mset C' = mset C"
  shows "delivers owned store (PSort c keys) (OrderByDecl d ks)
    (ac_sort A (map (\<lambda>k. (sort_ascending k, null_placement k)) ks)
      (map (\<lambda>row. (map (\<lambda>k. run (e_kernel E) row (FieldRef (sort_target k))) ks, row)) C'))"
proof -
  have one: "\<exists>n i t. skey k = Column n i t \<and> j = \<lparr>sort_target = wrap32 (int i), sort_ascending = ascending k,
      null_placement = (if ascending k then AtEnd else AtStart)\<rparr>" if "translate_sort_key k = Inr j" for k j
    using that by (cases "skey k") (auto simp: translate_sort_key_def bindR_eq_Inr)
  have z: "list_all2 (\<lambda>k j. translate_sort_key k = Inr j) keys ks" using ks by (simp add: mapR_eq_Inr)
  have dirs: "map (\<lambda>k. (sort_ascending k, null_placement k)) ks = map (\<lambda>a. (a, if a then AtEnd else AtStart)) (map ascending keys)"
    using z one by (induction rule: list_all2_induct) fastforce+
  have rows: "list_all (row_ok (p_types c)) C'" using c mset_eq_setD[OF C'] by (simp add: delivers_def list_all_iff)
  have key: "map (\<lambda>k. run (e_kernel E) row (FieldRef (sort_target k))) ks = map (\<lambda>k. eval (e_kernel E) row (skey k)) keys"
    if "row \<in> set C'" for row
  proof -
    have r: "row_ok (p_types c) row" using rows that by (simp add: list_all_iff)
    have "run (e_kernel E) row (FieldRef (sort_target j)) = eval (e_kernel E) row (skey k)"
      if "translate_sort_key k = Inr j" "k \<in> set keys" for k j
      using one[OF that(1)] typed that(2) expr_run[OF _ _ r, of "skey k" "FieldRef (sort_target j)"] by (auto simp: list_all_iff)
    then show ?thesis using z by (auto simp: list_all2_conv_all_nth intro!: nth_equalityI)
  qed
  have m: "map (\<lambda>row. (map (\<lambda>k. run (e_kernel E) row (FieldRef (sort_target k))) ks, row)) C'
      = map (\<lambda>row. (map (\<lambda>k. eval (e_kernel E) row (skey k)) keys, row)) C'" using key by simp
  show ?thesis unfolding m dirs sorts using c C' rows sort_set[of "map ascending keys"]
    by (auto simp: delivers_def p_returns_simps list_all_iff)
qed

lemma translate_delivers:
  "p_typed A owned store pp \<Longrightarrow> translate owned store pp = Inr d \<Longrightarrow> d_returns E A d rows \<Longrightarrow>
     delivers owned store pp d rows"
proof (induction pp arbitrary: d rows)
  case (PScan n)
  then show ?case
    by (auto simp: bindR_eq_Inr d_returns_simps store_of_def[symmetric] intro: scan_delivers)
next
  case (PJoin l r lk rk jt res cm est)
  then obtain flt dl dr L R where f: "(case res of Some p \<Rightarrow> compile_expression_cpu p | None \<Rightarrow> Inr (ALiteral (bool_datum True))) = Inr flt"
    "translate owned store l = Inr dl" "translate owned store r = Inr dr" "d_returns E A dl L" "d_returns E A dr R"
    "d = HashJoinDecl dl dr jt (wrap32 (int lk)) (wrap32 (int rk)) flt"
    "mset rows = mset (acero_join (\<lambda>x y. e_keyeq E (run (e_kernel E) x (FieldRef (wrap32 (int lk))))
          (run (e_kernel E) y (FieldRef (wrap32 (int rk)))) \<and> is_true (run (e_kernel E) (x @ y) flt)) jt
          (map (\<lambda>(n, t). Scalar t LNull) (d_schema A dr)) L R)"
    by (auto simp: bindR_eq_Inr d_returns_simps simp del: run.simps)
  have t: "p_typed A owned store l" "p_typed A owned store r" using PJoin.prems(1) by simp_all
  show ?case unfolding f(6)
    by (rule join_delivers[OF PJoin.IH(1)[OF t(1) f(2,4)] PJoin.IH(2)[OF t(2) f(3,5)] PJoin.prems(1) f(1)
        PJoin.prems(3)[unfolded f(6)] f(7)])
next
  case (PFilter c p)
  then show ?case by (auto simp: bindR_eq_Inr d_returns_simps intro!: filter_delivers)
next
  case (PProjection c items)
  then show ?case by (auto simp: bindR_eq_Inr d_returns_simps intro!: project_delivers)
next
  case (PHashAggregate c g a)
  then obtain keys p0 aggs plan dc where t: "translate_keys empty_input g = Inr (keys, p0)"
    "translate_aggregates ''HashAggregateNode'' True p0 a = Inr (aggs, plan)" "translate owned store c = Inr dc"
    "d = AggregateDecl (aggregate_input plan dc) aggs keys"
    by (auto simp: bindR_eq_Inr)
  have k: "extends empty_input p0" "list_all2 (\<lambda>it k. served p0 (nexpr it) k) g keys"
    using translate_keys_served[OF input_inv_empty t(1)] by auto
  have a: "extends p0 plan" "list_all2 (stands_for plan True) a aggs"
    using translate_aggregates_served[OF _ t(2)] k(1) by (auto simp: extends_def)
  have ks: "list_all2 (\<lambda>it k. served plan (nexpr it) k) g keys" using k(2) a(1) by (auto simp: extends_def elim!: list_all2_mono)
  have inv: "input_inv plan" using a(1) by (simp add: extends_def)
  show ?case
    by (rule aggregate_delivers[OF _ _ inv ks a(2) _ _ PHashAggregate.prems(3)[unfolded t(4)]])
      (use PHashAggregate t(3,4) in \<open>auto simp: delivers_def p_returns_simps\<close>)
next
  case (PScalarAggregate c a)
  then obtain aggs plan dc where t: "translate_aggregates ''ScalarAggregateNode'' False empty_input a = Inr (aggs, plan)"
    "translate owned store c = Inr dc" "d = AggregateDecl (aggregate_input plan dc) aggs []"
    by (auto simp: bindR_eq_Inr)
  have a: "extends empty_input plan" "list_all2 (stands_for plan False) a aggs"
    using translate_aggregates_served[OF input_inv_empty t(1)] by auto
  have inv: "input_inv plan" using a(1) by (simp add: extends_def)
  have ks: "list_all2 (\<lambda>it k. served plan (nexpr it) k) [] []" by simp
  show ?case
    by (rule aggregate_delivers[OF _ _ inv ks a(2) _ _ PScalarAggregate.prems(3)[unfolded t(3)]])
      (use PScalarAggregate t(2,3) in \<open>auto simp: delivers_def p_returns_simps group_rows_def\<close>)
next
  case (PSort c keys)
  then obtain ks dc C C' where k: "mapR translate_sort_key keys = Inr ks" "translate owned store c = Inr dc"
    "d = OrderByDecl dc ks" "d_returns E A dc C" "mset C' = mset C"
    "rows = ac_sort A (map (\<lambda>k. (sort_ascending k, null_placement k)) ks)
      (map (\<lambda>row. (map (\<lambda>k. run (e_kernel E) row (FieldRef (sort_target k))) ks, row)) C')"
    by (auto simp: bindR_eq_Inr d_returns_simps simp del: run.simps)
  show ?case unfolding k(3,6)
    by (rule sort_delivers[OF PSort.IH[OF _ k(2,4)] PSort.prems(1) k(1,5)]) (use PSort.prems(1) in simp)
next
  case (PLimit c n)
  then obtain dc C where c: "translate owned store c = Inr dc" "d = FetchDecl dc 0 n" "d_returns E A dc C" "rows = take (nat n) C"
    by (auto simp: bindR_eq_Inr d_returns_simps)
  from PLimit.IH[OF _ c(1,3)] PLimit.prems(1) c show ?case
    by (auto simp: delivers_def p_returns_simps list_all_iff dest: in_set_takeD)
next
  case (PResult c)
  then show ?case by (auto simp: delivers_def p_returns_simps)
qed

end

section \<open>Columns found by name\<close>

definition reserved :: "string \<Rightarrow> bool" where
  "reserved n \<longleftrightarrow> take (length synthetic_prefix) n = synthetic_prefix"

definition synthetic_name :: "int \<Rightarrow> string" where
  "synthetic_name i = synthetic_prefix @ int_str i"

lemma synthetic_reserved: "reserved (synthetic_name i)"
  by (simp add: reserved_def synthetic_name_def)

lemma synthetic_inject:
  assumes "0 \<le> i" "0 \<le> j" "synthetic_name i = synthetic_name j"
  shows "i = j"
proof -
  have "nat_str i = nat_str j" using assms by (simp add: synthetic_name_def int_str_def)
  then have "str_nat_acc 0 (nat_str i) = str_nat_acc 0 (nat_str j)" by simp
  then show ?thesis using assms by (simp add: str_nat_acc_nat_str)
qed

text \<open>
  Projected names are distinct: an unreserved one is claimed, a reserved one has a number already
  given out.
\<close>

definition names_inv :: "AggregateInputPlan \<Rightarrow> bool" where
  "names_inv plan \<longleftrightarrow> 0 \<le> next_synthetic_id plan \<and> distinct (project_names plan) \<and>
     (\<forall>n \<in> set (project_names plan).
        if reserved n then \<exists>i. 0 \<le> i \<and> i < next_synthetic_id plan \<and> n = synthetic_name i
        else n \<in> set (claimed_names plan))"

lemma names_inv_empty: "names_inv empty_input"
  by (simp add: names_inv_def empty_input_def)

lemma fresh_synthetic:
  assumes "names_inv plan" "next_synthetic_name plan = (n, plan')"
  shows "n \<notin> set (project_names plan)" "names_inv plan'" "reserved n"
    "0 \<le> next_synthetic_id plan" "next_synthetic_id plan' = next_synthetic_id plan + 1"
    "n = synthetic_name (next_synthetic_id plan)"
    "project_names plan' = project_names plan" "claimed_names plan' = claimed_names plan"
proof -
  have n: "n = synthetic_name (next_synthetic_id plan)" "plan' = plan\<lparr>next_synthetic_id := next_synthetic_id plan + 1\<rparr>"
    using assms(2) by (auto simp: next_synthetic_name_def synthetic_name_def)
  show "n \<notin> set (project_names plan)"
    using assms(1) n(1) synthetic_reserved synthetic_inject by (fastforce simp: names_inv_def)
  show "names_inv plan'" using assms(1) unfolding n(2) by (fastforce simp: names_inv_def)
qed (use assms synthetic_reserved in \<open>auto simp: next_synthetic_name_def synthetic_name_def names_inv_def reserved_def\<close>)

lemma push_names_inv:
  assumes "names_inv plan" "n \<notin> set (project_names plan)"
    and "if reserved n then \<exists>i. 0 \<le> i \<and> i < next_synthetic_id plan \<and> n = synthetic_name i else n \<in> set (claimed_names plan)"
  shows "names_inv (push_projected e n plan)"
  using assms by (auto simp: names_inv_def push_projected_def)

lemma claim_names_inv: "names_inv plan \<Longrightarrow> names_inv (plan\<lparr>claimed_names := n # claimed_names plan\<rparr>)"
  by (auto simp: names_inv_def)

lemma index_names_inv: "names_inv (plan\<lparr>projected_index_to_name := xs\<rparr>) = names_inv plan"
  by (simp add: names_inv_def)

lemma ensure_names_inv:
  assumes "names_inv p" "\<not> reserved x" "ensure_column_projected p x i = (n, p')"
  shows "names_inv p'"
proof (cases "map_of (projected_index_to_name p) i")
  case (Some m)
  then show ?thesis using assms by (simp add: ensure_column_projected_def)
next
  case None
  show ?thesis
  proof (cases "x \<in> set (claimed_names p)")
    case False
    have "x \<notin> set (project_names p)" using assms(1,2) False by (auto simp: names_inv_def)
    then have "names_inv (push_projected (FieldRef (wrap32 (int i))) x (p\<lparr>claimed_names := x # claimed_names p\<rparr>))"
      using assms(2) by (intro push_names_inv claim_names_inv assms(1)) simp_all
    then show ?thesis using assms(3) None False
      by (auto simp: ensure_column_projected_def Let_def index_names_inv)
  next
    case True
    obtain s q where q: "next_synthetic_name p = (s, q)" by fastforce
    note f = fresh_synthetic[OF assms(1) q]
    have "names_inv (push_projected (FieldRef (wrap32 (int i))) s (q\<lparr>claimed_names := s # claimed_names q\<rparr>))"
      using f by (intro push_names_inv claim_names_inv f(2)) auto
    then show ?thesis using assms(3) None True q
      by (auto simp: ensure_column_projected_def Let_def index_names_inv)
  qed
qed

fun unreserved_column :: "expression \<Rightarrow> bool" where
  "unreserved_column (Column n i t) \<longleftrightarrow> \<not> reserved n"
| "unreserved_column _ \<longleftrightarrow> True"

lemma resolve_names_inv:
  assumes "names_inv p" "unreserved_column e" "resolve_aggregate_target p e = Inr (n, p')"
  shows "names_inv p'"
proof (cases "\<exists>x i t. e = Column x i t")
  case True
  then show ?thesis using assms ensure_names_inv[OF assms(1)] by (auto simp: resolve_aggregate_target_def)
next
  case False
  obtain s q where q: "next_synthetic_name p = (s, q)" by fastforce
  note f = fresh_synthetic[OF assms(1) q]
  from False obtain c where c: "p' = push_projected c s q"
    using assms(3) q by (cases e) (auto simp: resolve_aggregate_target_def bindR_eq_Inr)
  show ?thesis unfolding c using f by (intro push_names_inv f(2)) auto
qed

definition key_plain :: "NamedExpression \<Rightarrow> bool" where
  "key_plain it \<longleftrightarrow> unreserved_column (nexpr it) \<and> \<not> reserved (nname it)"

fun agg_plain :: "expression \<Rightarrow> bool" where
  "agg_plain (Aggregate f arg t) \<longleftrightarrow> (arg = None) = (f = AggCountStar) \<and>
     (case arg of None \<Rightarrow> True | Some e \<Rightarrow> unreserved_column e)"
| "agg_plain _ \<longleftrightarrow> False"

lemma keys_names_inv:
  "names_inv p \<Longrightarrow> list_all key_plain g \<Longrightarrow> translate_keys p g = Inr (ks, p') \<Longrightarrow> names_inv p'"
proof (induction g arbitrary: p ks)
  case (Cons it g)
  obtain k q ks' where k: "translate_keys q g = Inr (ks', p')" "names_inv q"
  proof (cases "\<exists>x i t. nexpr it = Column x i t")
    case True
    then show ?thesis using Cons.prems ensure_names_inv[OF Cons.prems(1)] that
      by (auto simp: bindR_eq_Inr key_plain_def split: prod.splits)
  next
    case False
    then obtain c ks' where c: "nname it \<notin> set (claimed_names p)"
      "translate_keys (push_projected c (nname it) (p\<lparr>claimed_names := nname it # claimed_names p\<rparr>)) g = Inr (ks', p')"
      using Cons.prems(3) by (cases "nexpr it") (auto simp: bindR_eq_Inr split: if_splits)
    have "\<not> reserved (nname it)" using Cons.prems(2) by (simp add: key_plain_def)
    then have "names_inv (push_projected c (nname it) (p\<lparr>claimed_names := nname it # claimed_names p\<rparr>))"
      using c(1) Cons.prems(1) by (intro push_names_inv claim_names_inv) (auto simp: names_inv_def)
    with c that show ?thesis by blast
  qed
  then show ?case using Cons.IH[OF k(2) _ k(1)] Cons.prems(2) by simp
qed simp

lemma aggregates_names_inv:
  "names_inv p \<Longrightarrow> list_all (\<lambda>it. agg_plain (nexpr it)) as \<Longrightarrow> translate_aggregates node grouped p as = Inr (bs, p') \<Longrightarrow>
     names_inv p'"
proof (induction as arbitrary: p bs)
  case (Cons it as)
  obtain f arg t where e: "nexpr it = Aggregate f arg t" using Cons.prems(2) by (cases "nexpr it") auto
  then obtain b q bs' where b: "translate_aggregate p f arg (nname it) grouped = Inr (b, q)"
    "translate_aggregates node grouped q as = Inr (bs', p')"
    using Cons.prems(3) by (auto simp: bindR_eq_Inr)
  have "names_inv q"
    using b(1) Cons.prems(1,2) e resolve_names_inv[OF Cons.prems(1)]
    by (cases arg) (auto simp: translate_aggregate_def bindR_eq_Inr)
  then show ?case using Cons.IH[OF _ _ b(2)] Cons.prems(2) by simp
qed simp

lemma served_resolves: "names_inv plan \<Longrightarrow> served plan e n \<Longrightarrow> get_field_index (project_names plan) n \<noteq> None"
  unfolding served_def names_inv_def using get_field_index_Some[of "project_names plan" n] by (metis distinct_conv_nth option.distinct(1))

lemma aggregate_references:
  assumes inv: "input_inv plan" "names_inv plan"
    and ks: "list_all2 (\<lambda>it k. served plan (nexpr it) k) g keys" and as: "list_all2 (stands_for plan (keys \<noteq> [])) a aggs"
    and plain: "list_all (\<lambda>it. agg_plain (nexpr it)) a"
  shows "references_resolve (map fst (d_schema A (aggregate_input plan d))) aggs keys \<and> functions_fit aggs keys"
proof -
  have res: "get_field_index (map fst (d_schema A (aggregate_input plan d))) n \<noteq> None" if "served plan e n" for e n
    using served_resolves[OF inv(2) that] input_names[OF inv(1) served_names[OF that]] by simp
  have "list_all (\<lambda>k. get_field_index (map fst (d_schema A (aggregate_input plan d))) k \<noteq> None) keys"
    unfolding list_all_length using ks by (auto simp: list_all2_conv_all_nth dest!: res)
  moreover have "list_all (\<lambda>k. get_field_index (map fst (d_schema A (aggregate_input plan d))) k \<noteq> None) (ag_target b) \<and>
      (take 5 (ag_function b) = ''hash_'') = (keys \<noteq> []) \<and>
      length (ag_target b) = (if ag_function b \<in> {''count_all'', ''hash_count_all''} then 0 else 1)"
    if b: "stands_for plan (keys \<noteq> []) it b" "agg_plain (nexpr it)" for it b
  proof -
    obtain f arg t where e: "nexpr it = Aggregate f arg t" "(arg = None) = (f = AggCountStar)"
      using b by (auto simp: stands_for_def split: expression.splits)
    have fn: "ag_function b = grouped_name (keys \<noteq> []) (aggregate_function_name f)" using b(1) e(1) by (simp add: stands_for_def)
    have "(take 5 (ag_function b) = ''hash_'') = (keys \<noteq> [])" "ag_function b \<in> {''count_all'', ''hash_count_all''} \<longleftrightarrow> f = AggCountStar"
      unfolding fn by (cases f; simp add: grouped_name_def)+
    then show ?thesis using b(1) e res by (cases arg) (auto simp: stands_for_def)
  qed
  ultimately show ?thesis
    using as plain unfolding references_resolve_def functions_fit_def list_all2_conv_all_nth list_all_length by metis
qed

text \<open>The conditions on a plan, and on a tree of declarations.\<close>

fun p_plain :: "pplan \<Rightarrow> bool" where
  "p_plain (PScan n) \<longleftrightarrow> True"
| "p_plain (PJoin l r lk rk jt res cm est) \<longleftrightarrow> p_plain l \<and> p_plain r"
| "p_plain (PFilter c p) \<longleftrightarrow> p_plain c"
| "p_plain (PProjection c items) \<longleftrightarrow> p_plain c"
| "p_plain (PHashAggregate c g a) \<longleftrightarrow>
     p_plain c \<and> g \<noteq> [] \<and> list_all key_plain g \<and> list_all (\<lambda>it. agg_plain (nexpr it)) a"
| "p_plain (PScalarAggregate c a) \<longleftrightarrow> p_plain c \<and> list_all (\<lambda>it. agg_plain (nexpr it)) a"
| "p_plain (PSort c keys) \<longleftrightarrow> p_plain c"
| "p_plain (PLimit c n) \<longleftrightarrow> p_plain c"
| "p_plain (PResult c) \<longleftrightarrow> p_plain c"

fun d_resolves :: "acero \<Rightarrow> Declaration \<Rightarrow> bool" where
  "d_resolves A (RecordBatchReaderSource r) \<longleftrightarrow> True"
| "d_resolves A (HashJoinDecl l r jt lk rk flt) \<longleftrightarrow> d_resolves A l \<and> d_resolves A r"
| "d_resolves A (FilterDecl c e) \<longleftrightarrow> d_resolves A c"
| "d_resolves A (ProjectDecl c es names) \<longleftrightarrow> d_resolves A c"
| "d_resolves A (AggregateDecl c aggs keys) \<longleftrightarrow>
     d_resolves A c \<and> references_resolve (map fst (d_schema A c)) aggs keys \<and> functions_fit aggs keys"
| "d_resolves A (OrderByDecl c keys) \<longleftrightarrow> d_resolves A c"
| "d_resolves A (FetchDecl c off n) \<longleftrightarrow> d_resolves A c"

lemma input_resolves: "d_resolves A (aggregate_input plan d) = d_resolves A d"
  by (simp add: aggregate_input_def)

lemma translate_resolves: "p_plain pp \<Longrightarrow> translate owned store pp = Inr d \<Longrightarrow> d_resolves A d"
proof (induction pp arbitrary: d)
  case (PHashAggregate c g a)
  then obtain keys p0 aggs plan dc where t: "translate_keys empty_input g = Inr (keys, p0)"
    "translate_aggregates ''HashAggregateNode'' True p0 a = Inr (aggs, plan)" "translate owned store c = Inr dc"
    "d = AggregateDecl (aggregate_input plan dc) aggs keys"
    by (auto simp: bindR_eq_Inr)
  have k: "extends empty_input p0" "list_all2 (\<lambda>it k. served p0 (nexpr it) k) g keys"
    using translate_keys_served[OF input_inv_empty t(1)] by auto
  have a: "extends p0 plan" "list_all2 (stands_for plan True) a aggs"
    using translate_aggregates_served[OF _ t(2)] k(1) by (auto simp: extends_def)
  have ks: "list_all2 (\<lambda>it k. served plan (nexpr it) k) g keys" using k(2) a(1) by (auto simp: extends_def elim!: list_all2_mono)
  have "keys \<noteq> []" using ks PHashAggregate.prems(1) by auto
  moreover have "names_inv plan"
    using aggregates_names_inv[OF keys_names_inv[OF names_inv_empty _ t(1)] _ t(2)] PHashAggregate.prems(1) by simp
  ultimately show ?case
    using aggregate_references[of plan g keys a aggs A dc] ks a PHashAggregate t(3,4) by (simp add: extends_def input_resolves)
next
  case (PScalarAggregate c a)
  then obtain aggs plan dc where t: "translate_aggregates ''ScalarAggregateNode'' False empty_input a = Inr (aggs, plan)"
    "translate owned store c = Inr dc" "d = AggregateDecl (aggregate_input plan dc) aggs []"
    by (auto simp: bindR_eq_Inr)
  have a: "extends empty_input plan" "list_all2 (stands_for plan False) a aggs"
    using translate_aggregates_served[OF input_inv_empty t(1)] by auto
  moreover have "names_inv plan" using aggregates_names_inv[OF names_inv_empty _ t(1)] PScalarAggregate.prems(1) by simp
  ultimately show ?case
    using aggregate_references[of plan "[]" "[]" a aggs A dc] PScalarAggregate t(2,3) by (simp add: extends_def input_resolves)
qed (auto simp: bindR_eq_Inr)

section \<open>Execution\<close>

text \<open>
  \<open>to_table\<close> stands for \<open>DeclarationToTable\<close>, \<open>initialized\<close> for the status of
  \<open>arrow::compute::Initialize\<close>.
\<close>

definition ensure_compute_initialized :: "string option \<Rightarrow> unit result" where
  "ensure_compute_initialized initialized =
     (case initialized of
        Some status \<Rightarrow> Inl (ExecutionError (''failed to initialize the Arrow Compute function registry: '' @ status))
      | None \<Rightarrow> Inr ())"

definition execute_physical_plan_cpu ::
  "string option \<Rightarrow> (Declaration \<Rightarrow> string + row list) \<Rightarrow> (ParquetScanNode \<Rightarrow> ByteStore option) \<Rightarrow> ByteStore \<Rightarrow> pplan
     \<Rightarrow> row list result" where
  "execute_physical_plan_cpu initialized to_table owned store physical =
     bindR (ensure_compute_initialized initialized) (\<lambda>_.
     bindR (translate owned store physical) (\<lambda>declared.
     case to_table declared of
       Inl status \<Rightarrow> Inl (ExecutionError (''CPU execution backend failed: '' @ status))
     | Inr rows \<Rightarrow> Inr rows))"

text \<open>When Acero can run a translated plan: its scans are readable and its limits are over ordered rows.\<close>

fun p_ordered :: "pplan \<Rightarrow> bool" where
  "p_ordered (PScan n) \<longleftrightarrow> True"
| "p_ordered (PJoin l r lk rk jt res cm est) \<longleftrightarrow> False"
| "p_ordered (PFilter c p) \<longleftrightarrow> p_ordered c"
| "p_ordered (PProjection c items) \<longleftrightarrow> p_ordered c"
| "p_ordered (PHashAggregate c g a) \<longleftrightarrow> False"
| "p_ordered (PScalarAggregate c a) \<longleftrightarrow> False"
| "p_ordered (PSort c keys) \<longleftrightarrow> True"
| "p_ordered (PLimit c n) \<longleftrightarrow> p_ordered c"
| "p_ordered (PResult c) \<longleftrightarrow> p_ordered c"

definition readable :: "(ParquetScanNode \<Rightarrow> ByteStore option) \<Rightarrow> ByteStore \<Rightarrow> ParquetScanNode \<Rightarrow> bool" where
  "readable owned store n \<longleftrightarrow>
     (case read_fragments n (store_of owned store n) (ps_fragments n) of Inl _ \<Rightarrow> False | Inr _ \<Rightarrow> True)"

fun p_runs :: "(ParquetScanNode \<Rightarrow> ByteStore option) \<Rightarrow> ByteStore \<Rightarrow> pplan \<Rightarrow> bool" where
  "p_runs owned store (PScan n) \<longleftrightarrow> readable owned store n"
| "p_runs owned store (PJoin l r lk rk jt res cm est) \<longleftrightarrow> p_runs owned store l \<and> p_runs owned store r"
| "p_runs owned store (PFilter c p) \<longleftrightarrow> p_runs owned store c"
| "p_runs owned store (PProjection c items) \<longleftrightarrow> p_runs owned store c"
| "p_runs owned store (PHashAggregate c g a) \<longleftrightarrow> p_runs owned store c"
| "p_runs owned store (PScalarAggregate c a) \<longleftrightarrow> p_runs owned store c"
| "p_runs owned store (PSort c keys) \<longleftrightarrow> p_runs owned store c"
| "p_runs owned store (PLimit c n) \<longleftrightarrow> p_runs owned store c \<and> p_ordered c"
| "p_runs owned store (PResult c) \<longleftrightarrow> p_runs owned store c"

lemma translate_ordered: "translate owned store pp = Inr d \<Longrightarrow> d_ordered d = p_ordered pp"
  by (induction pp arbitrary: d) (auto simp: bindR_eq_Inr)

lemma translate_runs:
  "p_runs owned store pp \<Longrightarrow> d_resolves A d \<Longrightarrow> translate owned store pp = Inr d \<Longrightarrow> \<exists>rows. d_returns E A d rows"
proof (induction pp arbitrary: d)
  case (PScan n)
  then obtain r where r: "make_streaming_scan_reader n (store_of owned store n) = Inr r" "d = RecordBatchReaderSource r"
    by (auto simp: bindR_eq_Inr store_of_def)
  from PScan.prems(1) obtain bs where "read_all r = Inr bs"
    by (auto simp: readable_def streaming_batches[OF r(1)] split: sum.splits)
  then show ?case unfolding r(2) by (auto intro: d_returns.Source)
next
  case (PJoin l r lk rk jt res cm est)
  then show ?case by (fastforce simp: bindR_eq_Inr d_returns_simps simp del: run.simps)
next
  case (PHashAggregate c g a)
  then obtain plan aggs keys dc where t: "translate owned store c = Inr dc" "d = AggregateDecl (aggregate_input plan dc) aggs keys"
    by (auto simp: bindR_eq_Inr)
  with PHashAggregate obtain C where "d_returns E A dc C" by (auto simp: input_resolves)
  then have "d_returns E A (aggregate_input plan dc) (map (input_row (e_kernel E) plan) C)" by (auto simp: input_returns)
  then show ?case using PHashAggregate.prems(2) unfolding t(2) by (auto intro: d_returns.Aggregate)
next
  case (PScalarAggregate c a)
  then obtain plan aggs dc where t: "translate owned store c = Inr dc" "d = AggregateDecl (aggregate_input plan dc) aggs []"
    by (auto simp: bindR_eq_Inr)
  with PScalarAggregate obtain C where "d_returns E A dc C" by (auto simp: input_resolves)
  then have "d_returns E A (aggregate_input plan dc) (map (input_row (e_kernel E) plan) C)" by (auto simp: input_returns)
  then show ?case using PScalarAggregate.prems(2) unfolding t(2) by (auto intro: d_returns.Aggregate)
next
  case (PLimit c n)
  then show ?case using translate_ordered by (fastforce simp: bindR_eq_Inr d_returns_simps)
qed (fastforce simp: bindR_eq_Inr d_returns_simps simp del: run.simps)+

section \<open>The reference instance\<close>

definition all_aggregates :: "AggregateFunction list" where
  "all_aggregates = [AggSum, AggCount, AggCountStar, AggCountDistinct, AggMin, AggMax, AggAvg]"

definition aggregate_named :: "string \<Rightarrow> AggregateFunction" where
  "aggregate_named name =
     hd (filter (\<lambda>f. name = aggregate_function_name f \<or> name = ''hash_'' @ aggregate_function_name f) all_aggregates)"

lemma aggregate_named_inverse: "aggregate_named (grouped_name g (aggregate_function_name f)) = f"
  by (cases f; cases g; simp add: aggregate_named_def all_aggregates_def grouped_name_def)

text \<open>Acero's result types: counts are 64 bit, sums widen, means are doubles.\<close>

definition ref_agg_type :: "string \<Rightarrow> ArrowType list \<Rightarrow> ArrowType" where
  "ref_agg_type name ts =
     (case aggregate_named name of
        AggCount \<Rightarrow> AInt64 | AggCountStar \<Rightarrow> AInt64 | AggCountDistinct \<Rightarrow> AInt64 | AggAvg \<Rightarrow> ADouble
      | AggSum \<Rightarrow> (case ts of [AInt32] \<Rightarrow> AInt64 | [AUInt32] \<Rightarrow> AUInt64 | [AFloat] \<Rightarrow> ADouble | t # _ \<Rightarrow> t | [] \<Rightarrow> AInt64)
      | _ \<Rightarrow> (case ts of t # _ \<Rightarrow> t | [] \<Rightarrow> AInt64))"

fun ref_type :: "ArrowType list \<Rightarrow> acexpr \<Rightarrow> ArrowType" where
  "ref_type ts (FieldRef j) = ts ! nat j"
| "ref_type ts (ALiteral d) = dtype d"
| "ref_type ts (Call f (CastTo t) args) = t"
| "ref_type ts (Call f opts (a # as)) =
     (if f \<in> {''add'', ''subtract'', ''multiply'', ''divide'', ''negate''} then ref_type ts a
      else if f \<in> {''year'', ''month'', ''day''} then AInt64 else ABool)"
| "ref_type ts (Call f opts []) = ABool"

definition ref_acero :: acero where
  "ref_acero =
     \<lparr>ac_sort = (\<lambda>ks. ref_sort (map fst ks)),
      ac_aggregate = (\<lambda>name opts ts. ref_agg (aggregate_named name) (ref_agg_type name ts)),
      ac_agg_type = ref_agg_type, ac_type = ref_type\<rparr>"

lemma pick_bool: "is_bool3 v \<Longrightarrow> list_all is_bool3 vs \<Longrightarrow> is_bool3 (foldl (\<lambda>a b. if P a b then a else b) v vs)"
  by (induction vs arbitrary: v) auto

interpretation refa: acero_engine "ref_engine data" ref_acero
proof (unfold_locales, goal_cases)
  case (3 f vals)
  then have v: "list_all is_bool3 (filter (\<lambda>d. \<not> is_null_datum d) vals)" by (auto simp: list_all_iff)
  show ?case using 3(1) v pick_bool
    by (auto simp: ref_engine_def ref_agg_def Let_def split: list.split)
qed (auto simp: ref_engine_def ref_acero_def aggregate_named_inverse comp_def)

section \<open>Properties\<close>

lemma acero_rows:
  assumes "acero_engine E A" "p_typed A owned store pp" "translate owned store pp = Inr d" "d_returns E A d rows"
  shows "p_returns E (scan_rows owned store) pp rows"
  using acero_engine.translate_delivers[OF assms] acero_engine.delivers_def[OF assms(1)] by blast

text \<open>
  C3. Whatever rows Acero returns for the declarations of a physical plan, the plan may return:
  computed arguments of aggregates are projected and found by name, keys and sort keys by position,
  grouped aggregates by their hash functions, and NULLs are placed as the sort expects. When the
  scans are readable, limits are over ordered rows and no column has a name reserved for projected
  arguments, there are such rows. Assumed are Arrow's logic, that Acero's aggregates and sort
  compute the SQL ones, and that Acero infers the types the binder has given.
\<close>

theorem translate_refines:
  assumes "acero_engine E A" "p_typed A owned store pp" "translate owned store pp = Inr d"
  shows "(\<forall>rows. d_returns E A d rows \<longrightarrow> p_returns E (scan_rows owned store) pp rows) \<and>
    (p_plain pp \<and> p_runs owned store pp \<longrightarrow> (\<exists>rows. d_returns E A d rows))"
  using acero_rows[OF assms] translate_runs[OF _ translate_resolves[OF _ assms(3)] assms(3)] by blast

text \<open>\<open>SELECT r, SUM(v + v), COUNT(*) FROM t GROUP BY r\<close> over the two partitions.\<close>

definition part_totals :: pplan where
  "part_totals =
     (let v = Column ''v'' 0 (int64_type True)
      in PResult (PHashAggregate (PScan part_scan)
           [\<lparr>nexpr = Column ''r'' 1 (string_type False), nname = ''r''\<rparr>]
           [\<lparr>nexpr = Aggregate AggSum (Some (Binary Add v v (int64_type True))) (int64_type True), nname = ''s''\<rparr>,
            \<lparr>nexpr = Aggregate AggCountStar None (int64_type False), nname = ''n''\<rparr>]))"

abbreviation part_bytes :: ByteStore where
  "part_bytes \<equiv> (\<lambda>path. Opened part_file)"

theorem translate_refines_witness:
  "\<exists>d rows. translate (\<lambda>n. None) part_bytes part_totals = Inr d \<and>
     map fst (d_schema ref_acero d) = [''r'', ''s'', ''n''] \<and>
     d_returns (ref_engine demo_data) ref_acero d rows \<and>
     p_returns (ref_engine demo_data) (scan_rows (\<lambda>n. None) part_bytes) part_totals rows"
proof -
  let ?own = "\<lambda>n :: ParquetScanNode. None :: ByteStore option"
  have "case translate ?own part_bytes part_totals of Inl _ \<Rightarrow> False
      | Inr d \<Rightarrow> map fst (d_schema ref_acero d) = [''r'', ''s'', ''n'']" by code_simp
  then obtain d where d: "translate ?own part_bytes part_totals = Inr d" "map fst (d_schema ref_acero d) = [''r'', ''s'', ''n'']"
    by (auto split: sum.splits)
  have "scan_ok ?own part_bytes part_scan" by code_simp
  moreover have "p_types (PScan part_scan) = [AInt64, AString]" by code_simp
  moreover have "expr_ok ref_acero [AInt64, AString] (Column ''r'' 1 (string_type False))"
    "expr_ok ref_acero [AInt64, AString] (Binary Add (Column ''v'' 0 (int64_type True)) (Column ''v'' 0 (int64_type True)) (int64_type True))"
    by code_simp+
  moreover have "agg_ok ref_acero True [AInt64, AString] (Aggregate AggSum
      (Some (Binary Add (Column ''v'' 0 (int64_type True)) (Column ''v'' 0 (int64_type True)) (int64_type True))) (int64_type True))"
    "agg_ok ref_acero True [AInt64, AString] (Aggregate AggCountStar None (int64_type False))"
    by code_simp+
  ultimately have "p_typed ref_acero ?own part_bytes part_totals"
    by (simp add: part_totals_def Let_def)
  note refines = translate_refines[OF refa.acero_engine_axioms this d(1), of demo_data]
  have "p_plain part_totals" "p_runs ?own part_bytes part_totals" by code_simp+
  with refines obtain rows where r: "d_returns (ref_engine demo_data) ref_acero d rows"
    "p_returns (ref_engine demo_data) (scan_rows ?own part_bytes) part_totals rows" by blast
  show ?thesis by (intro exI[of _ d] exI[of _ rows] conjI) (rule d r)+
qed



text \<open>
  A column that has a reserved name is projected beside a computed argument of the same name, and
  the aggregate's reference is ambiguous.
\<close>

theorem reserved_name_collides:
  "case translate (\<lambda>n. None) part_bytes (PScalarAggregate (PScan part_scan)
      [\<lparr>nexpr = Aggregate AggCount (Some (Column ''__kernellake_agg_input_0'' 1 (string_type False))) (int64_type False), nname = ''c''\<rparr>,
       \<lparr>nexpr = Aggregate AggSum (Some (Binary Add (Column ''v'' 0 (int64_type True)) (Column ''v'' 0 (int64_type True)) (int64_type True))) (int64_type True),
         nname = ''s''\<rparr>]) of
     Inl _ \<Rightarrow> False
   | Inr d \<Rightarrow> \<not> d_resolves ref_acero d"
  by code_simp

end
