(* ===== verification/SqlText.thy ===== *)
theory SqlText
  imports Prelude "HOL-Library.Sublist"
begin

text \<open>
  The part of \<^verbatim>\<open>sql/parser.cpp\<close> that works on the text of a query before the SQL grammar sees it:
  the limits on length, nesting and joins, and the replacement of \<open>read_parquet(...)\<close> and its
  siblings by placeholder tables. A position in the text is the text from there on.
\<close>

section \<open>Characters\<close>

text \<open>\<open>std::tolower\<close> and \<open>std::isspace\<close> in the C locale.\<close>

definition to_lower :: "char \<Rightarrow> char" where
  "to_lower c = (let n = of_char c :: int in if 65 \<le> n \<and> n \<le> 90 then char_of (n + 32) else c)"

definition is_space :: "char \<Rightarrow> bool" where
  "is_space c = (let n = of_char c :: int in n = 32 \<or> (9 \<le> n \<and> n \<le> 13))"

fun starts_with_ci :: "string \<Rightarrow> string \<Rightarrow> bool" where
  "starts_with_ci sql [] \<longleftrightarrow> True"
| "starts_with_ci [] (l # ls) \<longleftrightarrow> False"
| "starts_with_ci (c # cs) (l # ls) \<longleftrightarrow> to_lower c = l \<and> starts_with_ci cs ls"

definition skip_whitespace :: "string \<Rightarrow> string" where
  "skip_whitespace sql = dropWhile is_space sql"

abbreviation quote_char :: char where "quote_char \<equiv> CHR 0x27"
abbreviation backslash :: char where "backslash \<equiv> CHR 0x5C"

section \<open>Limits\<close>

definition kMaxSqlBytes :: int where "kMaxSqlBytes = 1048576"
definition kMaxParenDepth :: int where "kMaxParenDepth = 500"
definition kMaxJoinKeywords :: int where "kMaxJoinKeywords = 64"
definition kMaxJoinSources :: int where "kMaxJoinSources = 12"

fun scan_depth :: "string \<Rightarrow> int \<Rightarrow> int \<Rightarrow> int" where
  "scan_depth [] depth max_depth = max_depth"
| "scan_depth (c # cs) depth max_depth =
     (if c = CHR ''('' then scan_depth cs (depth + 1) (max max_depth (depth + 1))
      else if c = CHR '')'' \<and> depth > 0 then scan_depth cs (depth - 1) max_depth
      else scan_depth cs depth max_depth)"

fun count_joins :: "string \<Rightarrow> int" where
  "count_joins [] = 0"
| "count_joins (c # cs) = (if starts_with_ci (c # cs) ''join'' then 1 else 0) + count_joins cs"

definition check_sql_within_limits :: "string \<Rightarrow> unit result" where
  "check_sql_within_limits sql =
     (let bytes = int (length sql); max_depth = scan_depth sql 0 0; join_count = count_joins sql
      in if bytes > kMaxSqlBytes
         then Inl (SqlError (''SQL text is too long ('' @ int_str bytes @ '' bytes, max '' @ int_str kMaxSqlBytes @ '')''))
         else if max_depth > kMaxParenDepth
         then Inl (SqlError (''SQL expression nesting is too deep ('' @ int_str max_depth @ '' levels, max ''
                @ int_str kMaxParenDepth @ '')''))
         else if join_count > kMaxJoinKeywords
         then Inl (SqlError (''SQL JOIN chain is too long ('' @ int_str join_count @ '' JOIN keywords, max ''
                @ int_str kMaxJoinKeywords @ '')''))
         else Inr ())"

section \<open>Sources\<close>

fun scan_quoted :: "string \<Rightarrow> (string \<times> string) option" where
  "scan_quoted [] = None"
| "scan_quoted (c # cs) =
     (if c = quote_char then Some ([], cs)
      else case cs of
             d # ds \<Rightarrow>
               if c = backslash then map_option (\<lambda>(s, rest). (c # d # s, rest)) (scan_quoted ds)
               else map_option (\<lambda>(s, rest). (c # s, rest)) (scan_quoted (d # ds))
           | [] \<Rightarrow> None)"

fun try_parse_quoted_string :: "string \<Rightarrow> (string \<times> string) option" where
  "try_parse_quoted_string [] = None"
| "try_parse_quoted_string (c # cs) = (if c = quote_char then scan_quoted cs else None)"

lemma scan_quoted_shorter: "scan_quoted s = Some (t, rest) \<Longrightarrow> length rest < length s"
proof (induction s arbitrary: t rule: scan_quoted.induct)
  case (2 c cs)
  show ?case
  proof (cases "c = quote_char")
    case True
    then show ?thesis using "2.prems" by simp
  next
    case q: False
    then obtain d ds where cs: "cs = d # ds" using "2.prems" by (cases cs) auto
    show ?thesis
    proof (cases "c = backslash")
      case True
      then obtain t' where "scan_quoted ds = Some (t', rest)" using "2.prems" q cs by auto
      from "2.IH"(1)[OF q cs True this] cs show ?thesis by simp
    next
      case False
      then obtain t' where "scan_quoted (d # ds) = Some (t', rest)" using "2.prems" q cs by auto
      from "2.IH"(2)[OF q cs False this] cs show ?thesis by simp
    qed
  qed
qed simp

lemma quoted_string_shorter: "try_parse_quoted_string s = Some (t, rest) \<Longrightarrow> length rest < length s"
  by (cases s) (auto split: if_splits dest: scan_quoted_shorter)

lemma skip_whitespace_length: "length (skip_whitespace s) \<le> length s"
  by (simp add: skip_whitespace_def length_dropWhile_le)

function parse_paths :: "string \<Rightarrow> (string list \<times> string) option" where
  "parse_paths sql =
     (case try_parse_quoted_string sql of
        None \<Rightarrow> None
      | Some (literal, rest) \<Rightarrow>
          (case skip_whitespace rest of
             [] \<Rightarrow> Some ([literal], [])
           | c # cs \<Rightarrow>
               if c = CHR '','' then map_option (\<lambda>(ps, r). (literal # ps, r)) (parse_paths (skip_whitespace cs))
               else Some ([literal], c # cs)))"
  by pat_completeness auto
termination
proof (relation "measure length", goal_cases)
  case (2 sql x literal rest c cs)
  then have "length rest < length sql" using quoted_string_shorter by fastforce
  moreover have "length (c # cs) \<le> length rest" using 2(3) skip_whitespace_length[of rest] by simp
  ultimately show ?case using skip_whitespace_length[of cs] by simp
qed simp

declare parse_paths.simps [simp del]

definition try_parse_read_parquet_args :: "string \<Rightarrow> (string list \<times> string) option" where
  "try_parse_read_parquet_args sql =
     (case skip_whitespace sql of
        [] \<Rightarrow> None
      | c # cs \<Rightarrow>
          if c \<noteq> CHR ''('' then None
          else case parse_paths (skip_whitespace cs) of
                 None \<Rightarrow> None
               | Some (paths, rest) \<Rightarrow>
                   (case rest of [] \<Rightarrow> None | d # ds \<Rightarrow> if d = CHR '')'' then Some (paths, ds) else None))"

lemma parse_paths_shorter: "parse_paths s = Some (ps, rest) \<Longrightarrow> length rest < length s"
proof (induction s arbitrary: ps rest rule: parse_paths.induct)
  case (1 sql)
  from "1.prems" obtain literal r where q: "try_parse_quoted_string sql = Some (literal, r)"
    by (subst (asm) parse_paths.simps) (auto split: option.splits)
  note l = quoted_string_shorter[OF q] skip_whitespace_length[of r]
  show ?case
  proof (cases "skip_whitespace r")
    case Nil
    then show ?thesis using "1.prems" q l by (subst (asm) parse_paths.simps) auto
  next
    case (Cons c cs)
    show ?thesis
    proof (cases "c = CHR '',''")
      case True
      then obtain ps' where "parse_paths (skip_whitespace cs) = Some (ps', rest)"
        using "1.prems" q Cons by (subst (asm) parse_paths.simps) auto
      from "1.IH"[OF q refl Cons True this] show ?thesis using l Cons skip_whitespace_length[of cs] by simp
    next
      case False
      then show ?thesis using "1.prems" q Cons l by (subst (asm) parse_paths.simps) auto
    qed
  qed
qed

lemma args_shorter:
  assumes "try_parse_read_parquet_args s = Some (ps, rest)"
  shows "length rest < length s"
proof -
  obtain c cs where c: "skip_whitespace s = c # cs"
    using assms by (cases "skip_whitespace s") (simp_all add: try_parse_read_parquet_args_def)
  obtain ps' r where r: "parse_paths (skip_whitespace cs) = Some (ps', r)"
    using assms c by (cases "parse_paths (skip_whitespace cs)") (auto simp: try_parse_read_parquet_args_def split: if_split_asm)
  obtain d where "r = d # rest" "ps' = ps"
    using assms c r by (cases r) (simp_all add: try_parse_read_parquet_args_def split: if_split_asm)
  with c r show ?thesis
    using skip_whitespace_length[of s] skip_whitespace_length[of cs] parse_paths_shorter[of "skip_whitespace cs" ps r] by simp
qed

record PlaceholderSource =
  placeholder :: string
  src_paths :: "string list"

datatype source_kind = ReadParquet | ReadIceberg | ReadDelta | ReadUnityCatalog

fun function_name :: "source_kind \<Rightarrow> string" where
  "function_name ReadParquet = ''read_parquet''"
| "function_name ReadIceberg = ''read_iceberg''"
| "function_name ReadDelta = ''read_delta''"
| "function_name ReadUnityCatalog = ''read_unity_catalog''"

definition kind_at :: "string \<Rightarrow> source_kind option" where
  "kind_at sql =
     (if starts_with_ci sql (function_name ReadParquet) then Some ReadParquet
      else if starts_with_ci sql (function_name ReadIceberg) then Some ReadIceberg
      else if starts_with_ci sql (function_name ReadDelta) then Some ReadDelta
      else if starts_with_ci sql (function_name ReadUnityCatalog) then Some ReadUnityCatalog
      else None)"

fun encode_paths :: "source_kind \<Rightarrow> string list \<Rightarrow> string list" where
  "encode_paths ReadParquet ps = ps"
| "encode_paths ReadIceberg ps = [''iceberg://'' @ hd ps]"
| "encode_paths ReadDelta ps = [''delta://'' @ hd ps]"
| "encode_paths ReadUnityCatalog ps = [''unitycatalog://'' @ hd ps]"

text \<open>A call at the start of the text: its kind, its arguments, and the text after it.\<close>

definition source_call :: "string \<Rightarrow> (source_kind \<times> string list \<times> string) option" where
  "source_call sql =
     (case kind_at sql of
        None \<Rightarrow> None
      | Some k \<Rightarrow>
          (case try_parse_read_parquet_args (drop (length (function_name k)) sql) of
             None \<Rightarrow> None
           | Some (ps, rest) \<Rightarrow> if k \<noteq> ReadParquet \<and> length ps \<noteq> 1 then None else Some (k, ps, rest)))"

lemma source_call_shorter: "source_call s = Some (k, ps, rest) \<Longrightarrow> length rest < length s"
  by (auto simp: source_call_def split: option.splits if_splits dest!: args_shorter)

definition placeholder_name :: "nat \<Rightarrow> string" where
  "placeholder_name n = ''kernellake_parquet_source_'' @ int_str (int n)"

function rewrite_sources :: "nat \<Rightarrow> string \<Rightarrow> string \<times> PlaceholderSource list" where
  "rewrite_sources n [] = ([], [])"
| "rewrite_sources n (c # cs) =
     (case source_call (c # cs) of
        None \<Rightarrow> (let (text, sources) = rewrite_sources n cs in (c # text, sources))
      | Some (k, ps, rest) \<Rightarrow>
          (let (text, sources) = rewrite_sources (n + 1) rest
           in (placeholder_name n @ text, \<lparr>placeholder = placeholder_name n, src_paths = encode_paths k ps\<rparr> # sources)))"
  by pat_completeness auto
termination
  by (relation "measure (\<lambda>(n, s). length s)") (auto dest: source_call_shorter)

record Preprocessed =
  pre_sql :: string
  pre_sources :: "PlaceholderSource list"

definition preprocess_from_read_parquet :: "string \<Rightarrow> Preprocessed result" where
  "preprocess_from_read_parquet sql =
     (let (rewritten, sources) = rewrite_sources 0 sql
      in if sources = [] then Inl (SqlError ''KernelLake requires at least one data source of the form '')
         else if int (length sources) > kMaxJoinSources
         then Inl (SqlError (''KernelLake supports at most '' @ int_str kMaxJoinSources @
                '' read_parquet(...)/read_iceberg(...)/read_delta(...)/read_unity_catalog(...) sources in a JOIN chain, got ''
                @ int_str (int (length sources))))
         else Inr \<lparr>pre_sql = rewritten, pre_sources = sources\<rparr>)"

section \<open>What the limits bound\<close>

text \<open>Parentheses opened and not closed within a piece of text.\<close>

definition unclosed :: "string \<Rightarrow> int" where
  "unclosed b = int (count_list b (CHR ''('')) - int (count_list b (CHR '')''))"

lemma unclosed_simps [simp]:
  "unclosed [] = 0"
  "unclosed (c # b) = (if c = CHR ''('' then 1 else if c = CHR '')'' then - 1 else 0) + unclosed b"
  by (auto simp: unclosed_def)

lemma all_prefix_Cons: "(\<forall>p. prefix p (c # cs) \<longrightarrow> P p) \<longleftrightarrow> P [] \<and> (\<forall>p. prefix p cs \<longrightarrow> P (c # p))"
  by (auto simp: prefix_Cons)

lemma all_sublist_Cons:
  "(\<forall>b. sublist b (c # cs) \<longrightarrow> P b) \<longleftrightarrow> P [] \<and> (\<forall>p. prefix p cs \<longrightarrow> P (c # p)) \<and> (\<forall>b. sublist b cs \<longrightarrow> P b)"
  by (auto simp: sublist_Cons_right prefix_Cons)

lemma scan_depth_le:
  assumes "0 \<le> d" "d \<le> m" "0 \<le> k"
  shows "scan_depth s d m \<le> k \<longleftrightarrow>
    m \<le> k \<and> (\<forall>p. prefix p s \<longrightarrow> d + unclosed p \<le> k) \<and> (\<forall>b. sublist b s \<longrightarrow> unclosed b \<le> k)"
  using assms
proof (induction s arbitrary: d m)
  case (Cons c cs)
  let ?S = "\<forall>b. sublist b cs \<longrightarrow> unclosed b \<le> k"
  have pre: "unclosed p \<le> k" if ?S "prefix p cs" for p using that by blast
  have start: "prefix [] cs" by simp
  show ?case
  proof (cases "c = CHR ''(''")
    case True
    have "scan_depth (c # cs) d m \<le> k \<longleftrightarrow> max m (d + 1) \<le> k \<and> (\<forall>p. prefix p cs \<longrightarrow> d + 1 + unclosed p \<le> k) \<and> ?S"
      using Cons.IH[of "d + 1" "max m (d + 1)"] Cons.prems True by simp
    moreover have "d + 1 \<le> k \<and> d \<le> k \<and> (\<forall>p. prefix p cs \<longrightarrow> 1 + unclosed p \<le> k)"
      if "\<forall>p. prefix p cs \<longrightarrow> d + 1 + unclosed p \<le> k"
    proof (intro conjI allI impI)
      show "1 + unclosed p \<le> k" if "prefix p cs" for p
        using \<open>\<forall>p. prefix p cs \<longrightarrow> d + 1 + unclosed p \<le> k\<close>[rule_format, OF that] Cons.prems(1) by simp
    qed (use that[rule_format, OF start] in simp_all)
    ultimately show ?thesis unfolding all_prefix_Cons all_sublist_Cons using Cons.prems True by (auto simp: add.assoc)
  next
    case False
    have less: "\<forall>p. prefix p cs \<longrightarrow> unclosed (c # p) \<le> k" if ?S
    proof (intro allI impI)
      fix p assume "prefix p cs"
      from pre[OF that this] show "unclosed (c # p) \<le> k" using False by simp
    qed
    show ?thesis
    proof (cases "c = CHR '')'' \<and> d > 0")
      case True
      then have "scan_depth (c # cs) d m \<le> k \<longleftrightarrow> m \<le> k \<and> (\<forall>p. prefix p cs \<longrightarrow> d + unclosed (c # p) \<le> k) \<and> ?S"
        using Cons.IH[of "d - 1" m] Cons.prems by (simp add: algebra_simps)
      then show ?thesis unfolding all_prefix_Cons all_sublist_Cons using less Cons.prems by auto
    next
      case no: False
      then have e: "scan_depth (c # cs) d m \<le> k \<longleftrightarrow> m \<le> k \<and> (\<forall>p. prefix p cs \<longrightarrow> d + unclosed p \<le> k) \<and> ?S"
        using Cons.IH[of d m] Cons.prems False by auto
      have "(\<forall>p. prefix p cs \<longrightarrow> d + unclosed p \<le> k) \<longleftrightarrow> (\<forall>p. prefix p cs \<longrightarrow> d + unclosed (c # p) \<le> k)" if ?S
      proof (cases "c = CHR '')''")
        case True
        then have "d = 0" using no Cons.prems(1) by simp
        then show ?thesis using pre[OF that] less[OF that] by simp
      qed (use False in simp)
      then show ?thesis unfolding e all_prefix_Cons all_sublist_Cons using less Cons.prems by auto
    qed
  qed
qed auto

lemma count_joins_card: "count_joins s = int (card {i. i < length s \<and> starts_with_ci (drop i s) ''join''})"
proof (induction s)
  case (Cons c cs)
  let ?A = "{i. i < length cs \<and> starts_with_ci (drop i cs) ''join''}"
  have "{i. i < length (c # cs) \<and> starts_with_ci (drop i (c # cs)) ''join''} =
      (if starts_with_ci (c # cs) ''join'' then insert 0 (Suc ` ?A) else Suc ` ?A)" (is "?L = ?R")
  proof (rule set_eqI)
    fix i
    show "i \<in> ?L \<longleftrightarrow> i \<in> ?R" by (cases i) auto
  qed
  moreover have "card (Suc ` ?A) = card ?A" by (simp add: card_image)
  ultimately show ?case using Cons by (simp del: starts_with_ci.simps)
qed simp

section \<open>Reading back what was written\<close>

datatype piece = Text string | Source source_kind "string list"

fun render_args :: "string list \<Rightarrow> string" where
  "render_args [] = []"
| "render_args [p] = quoted p"
| "render_args (p # ps) = quoted p @ '', '' @ render_args ps"

fun render_piece :: "piece \<Rightarrow> string" where
  "render_piece (Text t) = t"
| "render_piece (Source k ps) = function_name k @ ''('' @ render_args ps @ '')''"

definition render :: "piece list \<Rightarrow> string" where
  "render pieces = concat (map render_piece pieces)"

definition plain_path :: "string \<Rightarrow> bool" where
  "plain_path p \<longleftrightarrow> quote_char \<notin> set p \<and> backslash \<notin> set p"

fun clean_text :: "string \<Rightarrow> bool" where
  "clean_text [] \<longleftrightarrow> True"
| "clean_text (c # cs) \<longleftrightarrow> \<not> starts_with_ci (c # cs) ''read_'' \<and> clean_text cs"

fun pieces_ok :: "piece list \<Rightarrow> bool" where
  "pieces_ok [] \<longleftrightarrow> True"
| "pieces_ok (Text t # Text u # rest) \<longleftrightarrow> False"
| "pieces_ok (Text t # rest) \<longleftrightarrow> clean_text t \<and> pieces_ok rest"
| "pieces_ok (Source k ps # rest) \<longleftrightarrow>
     ps \<noteq> [] \<and> (k \<noteq> ReadParquet \<longrightarrow> length ps = 1) \<and> list_all plain_path ps \<and> pieces_ok rest"

fun sources_of :: "nat \<Rightarrow> piece list \<Rightarrow> PlaceholderSource list" where
  "sources_of n [] = []"
| "sources_of n (Text t # rest) = sources_of n rest"
| "sources_of n (Source k ps # rest) =
     \<lparr>placeholder = placeholder_name n, src_paths = encode_paths k ps\<rparr> # sources_of (n + 1) rest"

fun replaced :: "nat \<Rightarrow> piece list \<Rightarrow> string" where
  "replaced n [] = []"
| "replaced n (Text t # rest) = t @ replaced n rest"
| "replaced n (Source k ps # rest) = placeholder_name n @ replaced (n + 1) rest"

lemma scan_quoted_plain: "plain_path p \<Longrightarrow> scan_quoted (p @ quote_char # rest) = Some (p, rest)"
proof (induction p)
  case (Cons c p)
  have "scan_quoted (p @ quote_char # rest) = Some (p, rest)" using Cons by (simp add: plain_path_def)
  moreover obtain d ds where "p @ quote_char # rest = d # ds" by (cases p) auto
  ultimately show ?case using Cons.prems by (auto simp: plain_path_def)
qed simp

lemma quoted_plain: "plain_path p \<Longrightarrow> try_parse_quoted_string (quoted p @ rest) = Some (p, rest)"
  by (simp add: quoted_def scan_quoted_plain)

lemma skip_whitespace_simps [simp]:
  "skip_whitespace (CHR '')'' # s) = CHR '')'' # s" "skip_whitespace (CHR ''('' # s) = CHR ''('' # s"
  "skip_whitespace (CHR '','' # s) = CHR '','' # s" "skip_whitespace (CHR '' '' # s) = skip_whitespace s"
  "skip_whitespace (quote_char # s) = quote_char # s"
  by (simp_all add: skip_whitespace_def is_space_def)

lemma skip_whitespace_args: "ps \<noteq> [] \<Longrightarrow> skip_whitespace (render_args ps @ s) = render_args ps @ s"
  by (cases ps rule: render_args.cases) (simp_all add: quoted_def)

lemma parse_paths_render:
  "ps \<noteq> [] \<Longrightarrow> list_all plain_path ps \<Longrightarrow> parse_paths (render_args ps @ CHR '')'' # rest) = Some (ps, CHR '')'' # rest)"
proof (induction ps rule: render_args.induct)
  case (2 p)
  then show ?case by (subst parse_paths.simps) (simp add: quoted_plain)
next
  case (3 p q ps)
  then show ?case
    by (subst parse_paths.simps) (simp add: quoted_plain skip_whitespace_args)
qed simp

lemma args_render:
  "ps \<noteq> [] \<Longrightarrow> list_all plain_path ps \<Longrightarrow>
     try_parse_read_parquet_args (''('' @ render_args ps @ '')'' @ rest) = Some (ps, rest)"
  by (simp add: try_parse_read_parquet_args_def skip_whitespace_args parse_paths_render)

lemma kind_at_name: "kind_at (function_name k @ s) = Some k"
  by (cases k) (simp_all add: kind_at_def to_lower_def)

lemma source_call_render:
  "ps \<noteq> [] \<Longrightarrow> (k \<noteq> ReadParquet \<longrightarrow> length ps = 1) \<Longrightarrow> list_all plain_path ps \<Longrightarrow>
     source_call (render_piece (Source k ps) @ rest) = Some (k, ps, rest)"
  using args_render[of ps rest] by (auto simp: source_call_def kind_at_name)

lemma starts_with_ci_append:
  "starts_with_ci (t @ r) l \<longleftrightarrow> starts_with_ci t (take (length t) l) \<and> starts_with_ci r (drop (length t) l)"
proof (induction t l rule: starts_with_ci.induct)
  case (1 sql)
  then show ?case by (cases r) auto
qed auto

lemma kind_needs_read: "kind_at s = Some k \<Longrightarrow> starts_with_ci s ''read_''"
proof -
  assume "kind_at s = Some k"
  then have "starts_with_ci s (function_name k)" by (auto simp: kind_at_def split: if_splits)
  moreover obtain u where "function_name k = ''read_'' @ u" by (cases k) auto
  moreover have "starts_with_ci s (a @ b) \<Longrightarrow> starts_with_ci s a" for a b
    by (induction s a rule: starts_with_ci.induct) auto
  ultimately show ?thesis by metis
qed

text \<open>Text is followed by the end of the query or by a call.\<close>

definition boundary :: "string \<Rightarrow> bool" where
  "boundary r \<longleftrightarrow> (case r of [] \<Rightarrow> True | c # cs \<Rightarrow> c = CHR ''r'')"

lemma clean_no_call:
  assumes "clean_text (c # cs)" "boundary r"
  shows "source_call ((c # cs) @ r) = None"
proof -
  have "\<not> starts_with_ci ((c # cs) @ r) ''read_''"
  proof
    assume a: "starts_with_ci ((c # cs) @ r) ''read_''"
    then have b: "starts_with_ci (c # cs) (take (length (c # cs)) ''read_'')" "starts_with_ci r (drop (length (c # cs)) ''read_'')"
      by (simp_all only: starts_with_ci_append)
    have lower: "to_lower (CHR ''r'') = CHR ''r''" by (simp add: to_lower_def)
    consider "5 \<le> length (c # cs)" | "length (c # cs) = 1" | "length (c # cs) = 2" | "length (c # cs) = 3" | "length (c # cs) = 4"
      using length_Cons[of c cs] by (cases "length (c # cs)") linarith+
    then show False
    proof cases
      case 1
      then have "take (length (c # cs)) ''read_'' = ''read_''" by (intro take_all) simp
      with b(1) assms(1) show False by simp
    qed (use b(2) assms(2) lower in \<open>cases r; simp add: boundary_def del: length_Cons\<close>)+
  qed
  then have "kind_at ((c # cs) @ r) = None" using kind_needs_read by (metis not_Some_eq)
  then show ?thesis by (simp add: source_call_def)
qed

lemma rewrite_clean:
  "clean_text t \<Longrightarrow> boundary r \<Longrightarrow>
     rewrite_sources n (t @ r) = (t @ fst (rewrite_sources n r), snd (rewrite_sources n r))"
proof (induction t)
  case (Cons c cs)
  then show ?case using clean_no_call[of c cs r] by (simp add: case_prod_beta)
qed simp

lemma boundary_render: "pieces_ok (Text t # ps) \<Longrightarrow> boundary (render ps)"
proof (cases ps)
  case (Cons p ps')
  assume "pieces_ok (Text t # ps)"
  with Cons obtain k qs where "p = Source k qs" by (cases p) auto
  then show ?thesis using Cons by (cases k) (simp_all add: render_def boundary_def)
qed (simp add: render_def boundary_def)

lemma rewrite_render: "pieces_ok ps \<Longrightarrow> rewrite_sources n (render ps) = (replaced n ps, sources_of n ps)"
proof (induction n ps rule: replaced.induct)
  case (2 n t rest)
  have "pieces_ok rest" "clean_text t" using "2.prems" by (cases rest; auto elim: pieces_ok.elims)+
  then show ?case using rewrite_clean[OF _ boundary_render[OF "2.prems"], of t n] "2.IH" by (simp add: render_def)
next
  case (3 n k ps rest)
  let ?r = "render rest"
  have call: "source_call (render_piece (Source k ps) @ ?r) = Some (k, ps, ?r)"
    using "3.prems" by (intro source_call_render) auto
  obtain c cs where "render_piece (Source k ps) @ ?r = c # cs" by (cases k) auto
  then show ?case using call "3.IH" "3.prems" by (simp add: render_def case_prod_beta)
qed (simp add: render_def)

section \<open>Properties\<close>

text \<open>
  C19. A query text passes the limits exactly when it has at most 1 MiB, no piece of it opens more
  than 500 parentheses it does not close, and at most 64 of its positions read JOIN: whatever the
  recursive parser sees, its nesting is bounded, also after unmatched closing parentheses.
\<close>

theorem sql_limits_exact:
  "check_sql_within_limits sql = Inr () \<longleftrightarrow>
     int (length sql) \<le> 2 ^ 20 \<and> (\<forall>b. sublist b sql \<longrightarrow> unclosed b \<le> 500) \<and>
     card {i. i < length sql \<and> starts_with_ci (drop i sql) ''join''} \<le> 64"
proof -
  have "scan_depth sql 0 0 \<le> 500 \<longleftrightarrow> (\<forall>b. sublist b sql \<longrightarrow> unclosed b \<le> 500)"
    using scan_depth_le[of 0 0 500 sql] by auto
  then show ?thesis
    by (auto simp: check_sql_within_limits_def Let_def count_joins_card kMaxSqlBytes_def kMaxParenDepth_def
        kMaxJoinKeywords_def split: if_splits)
qed

theorem sql_limits_exact_witness:
  "unclosed ''SELECT ((1'' \<le> 500 \<and> check_sql_within_limits '')SELECT ((1) + 2) FROM a JOIN b'' = Inr ()"
proof -
  have "check_sql_within_limits '')SELECT ((1) + 2) FROM a JOIN b'' = Inr ()" by code_simp
  moreover have "sublist ''SELECT ((1'' '')SELECT ((1) + 2) FROM a JOIN b''" by code_simp
  ultimately show ?thesis using sql_limits_exact[of "'')SELECT ((1) + 2) FROM a JOIN b''"] by blast
qed

text \<open>
  C18. Whatever data sources a query is written with, the preprocessor reads them back: every call
  is replaced by its own placeholder, in the order of the text, with its paths, and the text around
  the calls is untouched.
\<close>

theorem preprocess_render:
  assumes "pieces_ok ps" "sources_of 0 ps \<noteq> []" "length (sources_of 0 ps) \<le> 12"
  shows "preprocess_from_read_parquet (render ps) = Inr \<lparr>pre_sql = replaced 0 ps, pre_sources = sources_of 0 ps\<rparr>"
  using assms by (simp add: preprocess_from_read_parquet_def rewrite_render kMaxJoinSources_def)

theorem preprocess_render_witness:
  "preprocess_from_read_parquet
     (''SELECT a FROM read_parquet('' @ quoted ''x'' @ '', '' @ quoted ''y'' @ '') AS t JOIN read_delta('' @ quoted ''z'' @ '') AS u ON t.k = u.k'')
   = Inr \<lparr>pre_sql = ''SELECT a FROM kernellake_parquet_source_0 AS t JOIN kernellake_parquet_source_1 AS u ON t.k = u.k'',
          pre_sources = [\<lparr>placeholder = ''kernellake_parquet_source_0'', src_paths = [''x'', ''y'']\<rparr>,
                         \<lparr>placeholder = ''kernellake_parquet_source_1'', src_paths = [''delta://z'']\<rparr>]\<rparr>"
proof -
  let ?ps = "[Text ''SELECT a FROM '', Source ReadParquet [''x'', ''y''], Text '' AS t JOIN '', Source ReadDelta [''z''],
    Text '' AS u ON t.k = u.k'']"
  have ok: "pieces_ok ?ps" "sources_of 0 ?ps \<noteq> []" "length (sources_of 0 ?ps) \<le> 12" by code_simp+
  have "render ?ps = ''SELECT a FROM read_parquet('' @ quoted ''x'' @ '', '' @ quoted ''y'' @ '') AS t JOIN read_delta('' @
      quoted ''z'' @ '') AS u ON t.k = u.k''" by code_simp
  moreover have "replaced 0 ?ps = ''SELECT a FROM kernellake_parquet_source_0 AS t JOIN kernellake_parquet_source_1 AS u ON t.k = u.k''"
    "sources_of 0 ?ps = [\<lparr>placeholder = ''kernellake_parquet_source_0'', src_paths = [''x'', ''y'']\<rparr>,
       \<lparr>placeholder = ''kernellake_parquet_source_1'', src_paths = [''delta://z'']\<rparr>]" by code_simp+
  ultimately show ?thesis using preprocess_render[OF ok] by simp
qed

text \<open>
  A call in a comment is taken for a source: the text has one source, the preprocessor finds two.
\<close>

theorem source_in_comment:
  "case preprocess_from_read_parquet (''SELECT a FROM read_parquet('' @ quoted ''x'' @ '') -- not read_parquet('' @ quoted ''y'' @ '')'') of
     Inl _ \<Rightarrow> False
   | Inr p \<Rightarrow> map src_paths (pre_sources p) = [[''x''], [''y'']]"
  by code_simp

end
