(* ===== verification/SqlParser.thy ===== *)
theory SqlParser
  imports SqlText Binder Dates "HOL-Library.Multiset"
begin

text \<open>
  \<^verbatim>\<open>sql/parser.cpp\<close>: from the tree of the third-party SQL grammar (\<open>hsql\<close>) to KernelLake's own
  syntax tree, with the placeholders of the preprocessor resolved to the sources they stand for.
  The grammar is a parameter of \<open>parse_sql\<close>; its tree has the fields the conversion reads, and a
  pointer that may be null is an \<open>option\<close>.
\<close>

section \<open>The tree of the grammar\<close>

datatype hExprType =
    kExprLiteralFloat | kExprLiteralString | kExprLiteralInt | kExprLiteralNull | kExprLiteralDate | kExprStar
  | kExprColumnRef | kExprFunctionRef | kExprOperator | kExprSelect | kExprExtract | kExprCast | kExprOther

datatype hOperatorType =
    kOpBetween | kOpCase | kOpCaseListElement | kOpPlus | kOpMinus | kOpAsterisk | kOpSlash | kOpEquals | kOpNotEquals
  | kOpLess | kOpLessEq | kOpGreater | kOpGreaterEq | kOpLike | kOpNotLike | kOpILike | kOpAnd | kOpOr | kOpIn
  | kOpNot | kOpUnaryMinus | kOpIsNull | kOpExists | kOpOther

datatype hDataType =
    hUNKNOWN | hBIGINT | hBOOLEAN | hCHAR | hDATE | hDATETIME | hDECIMAL | hDOUBLE | hFLOAT | hINT | hLONG | hREAL
  | hSMALLINT | hTEXT | hVARCHAR

datatype hDatetimeField = kDatetimeYear | kDatetimeMonth | kDatetimeDay | kDatetimeOther

datatype hJoinType = kJoinInner | kJoinLeft | kJoinOther

datatype hTableType = kTableName | kTableSelect | kTableJoin | kTableOther

datatype hExpr = HExpr
    (h_type: hExprType) (h_expr: "hExpr option") (h_expr2: "hExpr option") (h_list: "hExpr list option")
    (h_select: "hSelect option") (h_name: "string option") (h_table: "string option") (h_alias: "string option")
    (h_fval: f64) (h_ival: int) (h_isbool: bool) (h_op: hOperatorType) (h_distinct: bool) (h_window: bool)
    (h_column: "hDataType \<times> int \<times> int") (h_field: hDatetimeField)
and hSelect = HSelect
    (s_distinct: bool) (s_set_operations: bool) (s_with: bool) (s_from: "hTable option")
    (s_list: "hExpr list option") (s_where: "hExpr option") (s_group: "(hExpr list option \<times> hExpr option) option")
    (s_order: "(hExpr option \<times> bool) list option") (s_limit: "(hExpr option \<times> bool) option")
and hTable = HTable
    (t_type: hTableType) (t_name: "string option") (t_alias: "string option") (t_join: "hJoin option")
    (t_select: "hSelect option")
and hJoin = HJoin
    (j_left: "hTable option") (j_right: "hTable option") (j_type: hJoinType) (j_condition: "hExpr option")

section \<open>Conversions that consume sources\<close>

text \<open>\<open>ConversionState::consumed\<close> is threaded through; an exception ends the conversion.\<close>

type_synonym 'a conv = "bool list \<Rightarrow> ('a \<times> bool list) result"

definition retC :: "'a \<Rightarrow> 'a conv" where "retC x = (\<lambda>c. Inr (x, c))"

definition bindC :: "'a conv \<Rightarrow> ('a \<Rightarrow> 'b conv) \<Rightarrow> 'b conv" where
  "bindC m f = (\<lambda>c. bindR (m c) (\<lambda>(x, c'). f x c'))"

definition liftC :: "'a result \<Rightarrow> 'a conv" where "liftC r = (\<lambda>c. bindR r (\<lambda>x. Inr (x, c)))"

definition unsupported :: "string \<Rightarrow> 'a conv" where
  "unsupported what = (\<lambda>c. Inl (SqlError (''unsupported SQL construct: '' @ what)))"

fun mapC :: "('a \<Rightarrow> 'b conv) \<Rightarrow> 'a list \<Rightarrow> 'b list conv" where
  "mapC f [] = retC []"
| "mapC f (x # xs) = bindC (f x) (\<lambda>y. bindC (mapC f xs) (\<lambda>ys. retC (y # ys)))"

lemma bindC_cong [fundef_cong]:
  "m = m' \<Longrightarrow> (\<And>x. f x = f' x) \<Longrightarrow> bindC m f = bindC m' f'"
  by (simp add: bindC_def)

lemma bindC_ret [simp]: "bindC (retC x) f = f x"
  by (simp add: bindC_def retC_def)

lemma mapC_cong [fundef_cong]:
  "xs = ys \<Longrightarrow> (\<And>x. x \<in> set ys \<Longrightarrow> f x = g x) \<Longrightarrow> mapC f xs = mapC g ys"
  by (induction ys arbitrary: xs) auto

text \<open>A pointer that is converted without a test: null ends the conversion.\<close>

definition through :: "(hExpr \<Rightarrow> 'a conv) \<Rightarrow> hExpr option \<Rightarrow> 'a conv" where
  "through f p = (case p of None \<Rightarrow> unsupported ''null expression'' | Some e \<Rightarrow> f e)"

section \<open>Expressions\<close>

fun to_binary_op :: "hOperatorType \<Rightarrow> AstBinaryOp option" where
  "to_binary_op kOpPlus = Some AAdd" | "to_binary_op kOpMinus = Some ASubtract"
| "to_binary_op kOpAsterisk = Some AMultiply" | "to_binary_op kOpSlash = Some ADivide"
| "to_binary_op kOpEquals = Some AEq" | "to_binary_op kOpNotEquals = Some ANotEq"
| "to_binary_op kOpLess = Some ALt" | "to_binary_op kOpLessEq = Some ALtEq"
| "to_binary_op kOpGreater = Some AGt" | "to_binary_op kOpGreaterEq = Some AGtEq"
| "to_binary_op kOpAnd = Some AAnd" | "to_binary_op kOpOr = Some AOr"
| "to_binary_op _ = None"

type_synonym expr_conv = "hExpr \<Rightarrow> AstExpr conv"
type_synonym select_conv = "hSelect \<Rightarrow> AstSelectStatement conv"

text \<open>
  The helpers of \<open>convert_expr\<close> take it, and \<open>convert_select_statement\<close>, as arguments; they call
  them on parts of the expression only.
\<close>

definition convert_in :: "expr_conv \<Rightarrow> select_conv \<Rightarrow> hExpr \<Rightarrow> bool \<Rightarrow> AstExpr conv" where
  "convert_in convert select e negated =
     (case h_expr e of
        None \<Rightarrow> unsupported ''malformed IN expression''
      | Some x \<Rightarrow>
          bindC (convert x) (\<lambda>value.
          case h_select e of
            Some s \<Rightarrow> bindC (select s) (\<lambda>stmt. retC (AstIn value [] (Some stmt) negated))
          | None \<Rightarrow>
              (case h_list e of
                 None \<Rightarrow> unsupported ''malformed IN expression''
               | Some items \<Rightarrow> bindC (mapC convert items) (\<lambda>list. retC (AstIn value list None negated)))))"

text \<open>A simple CASE is turned into a searched one: its operand is converted again for every branch.\<close>

definition convert_branch :: "expr_conv \<Rightarrow> hExpr option \<Rightarrow> hExpr \<Rightarrow> (AstExpr \<times> AstExpr) conv" where
  "convert_branch convert operand element =
     (if h_op element \<noteq> kOpCaseListElement \<or> h_expr element = None \<or> h_expr2 element = None
      then unsupported ''malformed CASE WHEN branch''
      else
        bindC (through convert (h_expr element)) (\<lambda>w.
        bindC (case operand of
                 Some x \<Rightarrow> bindC (convert x) (\<lambda>v. retC (AstBinary AEq v w))
               | None \<Rightarrow> retC w) (\<lambda>condition.
        bindC (through convert (h_expr2 element)) (\<lambda>t. retC (condition, t)))))"

definition convert_case :: "expr_conv \<Rightarrow> hExpr \<Rightarrow> AstExpr conv" where
  "convert_case convert e =
     (case h_list e of
        None \<Rightarrow> unsupported ''CASE with no WHEN branches''
      | Some [] \<Rightarrow> unsupported ''CASE with no WHEN branches''
      | Some branches \<Rightarrow>
          bindC (mapC (convert_branch convert (h_expr e)) branches) (\<lambda>when_then.
          case h_expr2 e of
            Some x \<Rightarrow> bindC (convert x) (\<lambda>els. retC (AstCase when_then (Some els)))
          | None \<Rightarrow> retC (AstCase when_then None)))"

definition convert_exists :: "select_conv \<Rightarrow> hExpr \<Rightarrow> bool \<Rightarrow> AstExpr conv" where
  "convert_exists select e negated =
     (case h_select e of
        None \<Rightarrow> unsupported ''malformed EXISTS expression''
      | Some s \<Rightarrow> bindC (select s) (\<lambda>stmt. retC (AstExists stmt negated)))"

definition is_operator :: "hExpr option \<Rightarrow> hOperatorType \<Rightarrow> bool" where
  "is_operator p op = (case p of None \<Rightarrow> False | Some x \<Rightarrow> h_type x = kExprOperator \<and> h_op x = op)"

definition convert_not :: "expr_conv \<Rightarrow> select_conv \<Rightarrow> hExpr \<Rightarrow> AstExpr conv" where
  "convert_not convert select e =
     (case h_expr e of
        None \<Rightarrow> unsupported ''null expression''
      | Some x \<Rightarrow>
          if is_operator (h_expr e) kOpIsNull
          then bindC (through convert (h_expr x)) (\<lambda>a. retC (AstUnary AIsNotNull a))
          else if is_operator (h_expr e) kOpIn then convert_in convert select x True
          else if is_operator (h_expr e) kOpExists then convert_exists select x True
          else bindC (convert x) (\<lambda>a. retC (AstUnary ANot a)))"

definition convert_between :: "expr_conv \<Rightarrow> hExpr \<Rightarrow> AstExpr conv" where
  "convert_between convert e =
     (case (h_expr e, h_list e) of
        (Some v, Some [l, u]) \<Rightarrow>
          bindC (convert v) (\<lambda>a. bindC (convert l) (\<lambda>b. bindC (convert u) (\<lambda>c. retC (AstBetween a b c))))
      | _ \<Rightarrow> unsupported ''malformed BETWEEN expression'')"

definition convert_pair ::
  "expr_conv \<Rightarrow> hExpr \<Rightarrow> string \<Rightarrow> (AstExpr \<Rightarrow> AstExpr \<Rightarrow> AstExpr) \<Rightarrow> AstExpr conv" where
  "convert_pair convert e missing build =
     (case (h_expr e, h_expr2 e) of
        (Some l, Some r) \<Rightarrow> bindC (convert l) (\<lambda>a. bindC (convert r) (\<lambda>b. retC (build a b)))
      | _ \<Rightarrow> unsupported missing)"

definition convert_binary :: "expr_conv \<Rightarrow> hExpr \<Rightarrow> AstExpr conv" where
  "convert_binary convert e =
     (if h_expr e = None \<or> h_expr2 e = None then unsupported ''binary operator with missing operand''
      else case to_binary_op (h_op e) of
             None \<Rightarrow> unsupported ''binary operator''
           | Some op \<Rightarrow> convert_pair convert e ''binary operator with missing operand'' (AstBinary op))"

definition convert_operator :: "expr_conv \<Rightarrow> select_conv \<Rightarrow> hExpr \<Rightarrow> AstExpr conv" where
  "convert_operator convert select e =
     (case h_op e of
        kOpBetween \<Rightarrow> convert_between convert e
      | kOpUnaryMinus \<Rightarrow> bindC (through convert (h_expr e)) (\<lambda>a. retC (AstUnary ANegate a))
      | kOpIsNull \<Rightarrow> bindC (through convert (h_expr e)) (\<lambda>a. retC (AstUnary AIsNull a))
      | kOpNot \<Rightarrow> convert_not convert select e
      | kOpExists \<Rightarrow> convert_exists select e False
      | kOpLike \<Rightarrow> convert_pair convert e ''malformed LIKE expression'' (\<lambda>v p. AstLike v p False)
      | kOpNotLike \<Rightarrow> convert_pair convert e ''malformed LIKE expression'' (\<lambda>v p. AstLike v p True)
      | kOpILike \<Rightarrow> unsupported ''ILIKE (case-insensitive LIKE) -- use LIKE''
      | kOpIn \<Rightarrow> convert_in convert select e False
      | kOpCase \<Rightarrow> convert_case convert e
      | _ \<Rightarrow> convert_binary convert e)"

definition to_upper :: "char \<Rightarrow> char" where
  "to_upper c = (let n = of_char c :: int in if 97 \<le> n \<and> n \<le> 122 then char_of (n - 32) else c)"

definition one_argument :: "expr_conv \<Rightarrow> hExpr \<Rightarrow> string \<Rightarrow> AggregateFunction \<Rightarrow> AstExpr conv" where
  "one_argument convert e name f =
     (case h_list e of
        Some [x] \<Rightarrow> bindC (convert x) (\<lambda>a. retC (AstAggregate f (Some a)))
      | _ \<Rightarrow> unsupported (name @ '' with != 1 argument''))"

definition convert_count :: "expr_conv \<Rightarrow> hExpr \<Rightarrow> AstExpr conv" where
  "convert_count convert e =
     (if (case h_list e of Some [x] \<Rightarrow> h_type x = kExprStar | _ \<Rightarrow> False)
      then if h_distinct e then unsupported ''DISTINCT inside COUNT(*)'' else retC (AstAggregate AggCountStar None)
      else one_argument convert e ''COUNT'' (if h_distinct e then AggCountDistinct else AggCount))"

definition convert_substring :: "expr_conv \<Rightarrow> hExpr \<Rightarrow> string \<Rightarrow> AstExpr conv" where
  "convert_substring convert e name =
     (case h_list e of
        Some [x, start, len] \<Rightarrow>
          if h_type start \<noteq> kExprLiteralInt \<or> h_type len \<noteq> kExprLiteralInt
          then unsupported (name @ [quote_char] @ ''s start/length arguments must be integer literals'')
          else bindC (convert x) (\<lambda>a. retC (AstSubstring a (h_ival start) (h_ival len)))
      | _ \<Rightarrow> unsupported (name @ '' requires exactly 3 arguments (string, start, length)''))"

definition aggregate_called :: "string \<Rightarrow> AggregateFunction option" where
  "aggregate_called name = map_of [(''SUM'', AggSum), (''MIN'', AggMin), (''MAX'', AggMax), (''AVG'', AggAvg)] name"

definition convert_function :: "expr_conv \<Rightarrow> hExpr \<Rightarrow> AstExpr conv" where
  "convert_function convert e =
     (if h_window e then unsupported ''window functions''
      else case h_name e of
        None \<Rightarrow> unsupported ''function call with no name''
      | Some n \<Rightarrow>
          (let name = map to_upper n
           in if name = ''COUNT'' then convert_count convert e
              else if h_distinct e
              then unsupported ''DISTINCT inside an aggregate function (only COUNT(DISTINCT ...) is supported)''
              else case aggregate_called name of
                     Some f \<Rightarrow> one_argument convert e name f
                   | None \<Rightarrow>
                       if name = ''SUBSTRING'' \<or> name = ''SUBSTR'' then convert_substring convert e name
                       else unsupported (''function '' @ quoted name @ '' (only SUM/COUNT/MIN/MAX/AVG/SUBSTRING are supported)'')))"

fun to_cast_type_name :: "hDataType \<Rightarrow> string option" where
  "to_cast_type_name hBIGINT = Some ''BIGINT''" | "to_cast_type_name hLONG = Some ''BIGINT''"
| "to_cast_type_name hINT = Some ''INT''" | "to_cast_type_name hSMALLINT = Some ''INT''"
| "to_cast_type_name hBOOLEAN = Some ''BOOLEAN''"
| "to_cast_type_name hDOUBLE = Some ''DOUBLE''" | "to_cast_type_name hREAL = Some ''DOUBLE''"
| "to_cast_type_name hFLOAT = Some ''FLOAT''"
| "to_cast_type_name hDATE = Some ''DATE''" | "to_cast_type_name hDATETIME = Some ''DATETIME''"
| "to_cast_type_name hVARCHAR = Some ''VARCHAR''" | "to_cast_type_name hTEXT = Some ''VARCHAR''"
| "to_cast_type_name hCHAR = Some ''VARCHAR''"
| "to_cast_type_name hDECIMAL = Some ''DECIMAL''"
| "to_cast_type_name hUNKNOWN = None"

definition convert_cast :: "expr_conv \<Rightarrow> hExpr \<Rightarrow> AstExpr conv" where
  "convert_cast convert e =
     (case h_expr e of
        None \<Rightarrow> unsupported ''malformed CAST expression''
      | Some x \<Rightarrow>
          bindC (convert x) (\<lambda>a.
          case h_column e of (t, prec, sc) \<Rightarrow>
            (case to_cast_type_name t of
               None \<Rightarrow> unsupported ''CAST to an unrecognized type''
             | Some name \<Rightarrow> retC (AstCast a name prec sc))))"

fun extract_part :: "hDatetimeField \<Rightarrow> DatePart option" where
  "extract_part kDatetimeYear = Some Year" | "extract_part kDatetimeMonth = Some Month"
| "extract_part kDatetimeDay = Some Day" | "extract_part kDatetimeOther = None"

definition convert_extract :: "expr_conv \<Rightarrow> hExpr \<Rightarrow> AstExpr conv" where
  "convert_extract convert e =
     (case h_expr e of
        None \<Rightarrow> unsupported ''malformed EXTRACT expression''
      | Some x \<Rightarrow>
          (case extract_part (h_field e) of
             None \<Rightarrow> unsupported ''EXTRACT field (only YEAR/MONTH/DAY are supported -- no generated table has a time-of-day component)''
           | Some part \<Rightarrow> bindC (convert x) (\<lambda>a. retC (AstExtract part a))))"

definition convert_literal :: "hExpr \<Rightarrow> AstExpr conv" where
  "convert_literal e =
     (case h_type e of
        kExprLiteralInt \<Rightarrow> retC (AstLiteral (if h_isbool e then LitBoolean (h_ival e \<noteq> 0) else LitInteger (h_ival e)))
      | kExprLiteralFloat \<Rightarrow> retC (AstLiteral (LitFloat (h_fval e)))
      | kExprLiteralString \<Rightarrow> retC (AstLiteral (LitString (case h_name e of Some s \<Rightarrow> s | None \<Rightarrow> [])))
      | kExprLiteralDate \<Rightarrow>
          (case h_name e of
             None \<Rightarrow> unsupported ''date literal with no text''
           | Some s \<Rightarrow> bindC (liftC (parse_iso_date s)) (\<lambda>days. retC (AstLiteral (LitDate days))))
      | _ \<Rightarrow> retC (AstLiteral LitNull))"

text \<open>The cases of \<open>convert_expr\<close>.\<close>

definition convert_node :: "expr_conv \<Rightarrow> select_conv \<Rightarrow> hExpr \<Rightarrow> AstExpr conv" where
  "convert_node convert select e =
     (case h_type e of
        kExprColumnRef \<Rightarrow>
          (case h_name e of
             None \<Rightarrow> unsupported ''column reference with no name''
           | Some n \<Rightarrow> retC (AstColumnRef n (h_table e)))
      | kExprStar \<Rightarrow> retC AstStar
      | kExprOperator \<Rightarrow> convert_operator convert select e
      | kExprFunctionRef \<Rightarrow> convert_function convert e
      | kExprCast \<Rightarrow> convert_cast convert e
      | kExprExtract \<Rightarrow> convert_extract convert e
      | kExprSelect \<Rightarrow>
          (case h_select e of
             None \<Rightarrow> unsupported ''malformed subquery expression''
           | Some s \<Rightarrow> bindC (select s) (\<lambda>stmt. retC (AstSubquery stmt)))
      | kExprOther \<Rightarrow> unsupported ''expression type not in the supported grammar (arrays are not yet supported)''
      | _ \<Rightarrow> convert_literal e)"

section \<open>FROM and JOIN\<close>

fun find_source :: "string \<Rightarrow> PlaceholderSource list \<Rightarrow> nat option" where
  "find_source name [] = None"
| "find_source name (s # ss) = (if placeholder s = name then Some 0 else map_option Suc (find_source name ss))"

definition find_and_consume_source :: "PlaceholderSource list \<Rightarrow> string \<Rightarrow> string list conv" where
  "find_and_consume_source sources name = (\<lambda>consumed.
     case find_source name sources of
       None \<Rightarrow> unsupported ''FROM/JOIN source does not reference a read_parquet(...)/read_iceberg(...)/read_delta(...) call'' consumed
     | Some i \<Rightarrow>
         if consumed ! i
         then unsupported (''internal error: a read_parquet(...)/read_iceberg(...)/read_delta(...) source was referenced by ''
                @ ''more than one FROM/JOIN clause'') consumed
         else Inr (src_paths (sources ! i), consumed[i := True]))"

definition convert_join_source :: "PlaceholderSource list \<Rightarrow> hTable option \<Rightarrow> (string list \<times> string) conv" where
  "convert_join_source sources ref =
     (case ref of
        None \<Rightarrow> unsupported ''JOIN sides must each be a single read_parquet(...)/read_iceberg(...)/read_delta(...) source, not a subquery or nested join''
      | Some t \<Rightarrow>
          (case (t_type t, t_name t) of
             (kTableName, Some name) \<Rightarrow>
               (case t_alias t of
                  None \<Rightarrow> unsupported ''both sides of a JOIN must be aliased''
                | Some alias \<Rightarrow> bindC (find_and_consume_source sources name) (\<lambda>paths. retC (paths, alias)))
           | _ \<Rightarrow> unsupported ''JOIN sides must each be a single read_parquet(...)/read_iceberg(...)/read_delta(...) source, not a subquery or nested join''))"

fun convert_join_type :: "hJoinType \<Rightarrow> JoinType option" where
  "convert_join_type kJoinInner = Some Inner"
| "convert_join_type kJoinLeft = Some LeftOuter"
| "convert_join_type kJoinOther = None"

lemma size_join_left [termination_simp]:
  "t_join t = Some j \<Longrightarrow> j_left j = Some l \<Longrightarrow> size l < size t"
  by (cases t; cases j) auto

fun flatten_join_chain :: "expr_conv \<Rightarrow> PlaceholderSource list \<Rightarrow> hTable \<Rightarrow> AstJoinClause conv" where
  "flatten_join_chain convert sources t =
     (case t_join t of
        None \<Rightarrow> unsupported ''malformed JOIN''
      | Some j \<Rightarrow>
          if t_type t \<noteq> kTableJoin then unsupported ''malformed JOIN''
          else (case j_left j of
            None \<Rightarrow> unsupported ''malformed JOIN''
          | Some l \<Rightarrow>
              if j_right j = None then unsupported ''malformed JOIN''
              else (case convert_join_type (j_type j) of
                None \<Rightarrow> unsupported ''JOIN types other than INNER JOIN and LEFT [OUTER] JOIN''
              | Some jt \<Rightarrow>
                  (case j_condition j of
                     None \<Rightarrow> unsupported ''JOIN with no ON condition''
                   | Some condition \<Rightarrow>
                       bindC (if t_type l = kTableJoin then flatten_join_chain convert sources l
                              else bindC (convert_join_source sources (Some l)) (\<lambda>(paths, alias). retC (AstJoin paths alias [])))
                         (\<lambda>clause.
                       bindC (convert_join_source sources (j_right j)) (\<lambda>(paths, alias).
                       bindC (convert condition) (\<lambda>cond.
                       retC (AstJoin (first_paths clause) (first_alias clause)
                               (join_steps clause @ [AstStep paths alias cond jt None])))))))))"

declare flatten_join_chain.simps [simp del]

section \<open>Statements\<close>

text \<open>What a FROM clause gives: paths and alias, a join chain, or a derived table.\<close>

type_synonym from_parts = "string list \<times> string option \<times> AstJoinClause option \<times> AstSelectStatement option"

definition convert_from :: "expr_conv \<Rightarrow> select_conv \<Rightarrow> PlaceholderSource list \<Rightarrow> hTable option \<Rightarrow> from_parts conv" where
  "convert_from convert select sources from =
     (case from of
        None \<Rightarrow> unsupported ''joins and subqueries''
      | Some t \<Rightarrow>
          (case (t_type t, t_name t) of
             (kTableName, Some name) \<Rightarrow>
               bindC (find_and_consume_source sources name) (\<lambda>paths. retC (paths, t_alias t, None, None))
           | (kTableJoin, _) \<Rightarrow>
               bindC (flatten_join_chain convert sources t) (\<lambda>j. retC ([], None, Some j, None))
           | (kTableSelect, _) \<Rightarrow>
               (case t_select t of
                  None \<Rightarrow> unsupported ''malformed derived table (subquery in FROM)''
                | Some s \<Rightarrow>
                    if t_alias t = None
                    then unsupported ''a derived table (subquery in FROM) must be aliased, e.g. FROM (SELECT ...) AS a''
                    else bindC (select s) (\<lambda>stmt. retC ([], None, None, Some stmt)))
           | _ \<Rightarrow> unsupported ''joins and subqueries''))"

definition optional :: "expr_conv \<Rightarrow> hExpr option \<Rightarrow> AstExpr option conv" where
  "optional convert p = (case p of None \<Rightarrow> retC None | Some e \<Rightarrow> bindC (convert e) (\<lambda>a. retC (Some a)))"

definition convert_items :: "expr_conv \<Rightarrow> hExpr list option \<Rightarrow> (AstExpr \<times> string option) list conv" where
  "convert_items convert items =
     (case items of
        None \<Rightarrow> (\<lambda>c. Inl (SqlError ''SELECT list must not be empty''))
      | Some [] \<Rightarrow> (\<lambda>c. Inl (SqlError ''SELECT list must not be empty''))
      | Some es \<Rightarrow> mapC (\<lambda>e. bindC (convert e) (\<lambda>a. retC (a, h_alias e))) es)"

definition convert_group :: "expr_conv \<Rightarrow> (hExpr list option \<times> hExpr option) option \<Rightarrow> (AstExpr list \<times> AstExpr option) conv" where
  "convert_group convert g =
     (case g of
        None \<Rightarrow> retC ([], None)
      | Some (columns, having) \<Rightarrow>
          bindC (case columns of None \<Rightarrow> retC [] | Some es \<Rightarrow> mapC convert es) (\<lambda>keys.
          bindC (optional convert having) (\<lambda>h. retC (keys, h))))"

definition convert_order :: "expr_conv \<Rightarrow> (hExpr option \<times> bool) list option \<Rightarrow> (AstExpr \<times> bool) list conv" where
  "convert_order convert order =
     (case order of
        None \<Rightarrow> retC []
      | Some os \<Rightarrow> mapC (\<lambda>(p, asc). bindC (through convert p) (\<lambda>a. retC (a, asc))) os)"

text \<open>\<open>s_limit\<close> is the LIMIT expression and whether there is an OFFSET.\<close>

definition convert_limit :: "(hExpr option \<times> bool) option \<Rightarrow> int option conv" where
  "convert_limit l =
     (case l of
        None \<Rightarrow> retC None
      | Some (p, offset) \<Rightarrow>
          if offset then unsupported ''OFFSET''
          else case p of
                 Some e \<Rightarrow> if h_type e = kExprLiteralInt then retC (Some (h_ival e)) else unsupported ''non-literal LIMIT''
               | None \<Rightarrow> unsupported ''non-literal LIMIT'')"

definition convert_statement :: "expr_conv \<Rightarrow> select_conv \<Rightarrow> PlaceholderSource list \<Rightarrow> hSelect \<Rightarrow> AstSelectStatement conv" where
  "convert_statement convert select sources s =
     (if s_distinct s then unsupported ''SELECT DISTINCT''
      else if s_set_operations s then unsupported ''UNION/INTERSECT/EXCEPT''
      else if s_with s then unsupported ''WITH (common table expressions)''
      else
        bindC (convert_from convert select sources (s_from s)) (\<lambda>(paths, alias, join, derived).
        bindC (convert_items convert (s_list s)) (\<lambda>items.
        bindC (optional convert (s_where s)) (\<lambda>w.
        bindC (convert_group convert (s_group s)) (\<lambda>(keys, having).
        bindC (convert_order convert (s_order s)) (\<lambda>order.
        bindC (convert_limit (s_limit s)) (\<lambda>limit.
        retC (AstSelect items paths alias join derived w keys having order limit))))))))"

section \<open>The recursion\<close>

lemma h_sizes:
  "h_expr e = Some x \<Longrightarrow> size x < size e" "h_expr2 e = Some x \<Longrightarrow> size x < size e"
  "h_list e = Some xs \<Longrightarrow> x \<in> set xs \<Longrightarrow> size x < size e" "h_select e = Some s \<Longrightarrow> size s < size e"
proof -
  show "h_list e = Some xs \<Longrightarrow> x \<in> set xs \<Longrightarrow> size x < size e"
    by (cases e) (auto dest: size_list_estimation'[where f = size, OF _ order_refl])
qed (cases e; auto)+

lemma j_sizes:
  "t_join t = Some j \<Longrightarrow> j_condition j = Some x \<Longrightarrow> size x < size t" "t_select t = Some s \<Longrightarrow> size s < size t"
  by (cases t; cases j; auto) (cases t; auto)

lemma s_sizes:
  "s_from s = Some t \<Longrightarrow> size t < size s"
  "s_list s = Some xs \<Longrightarrow> x \<in> set xs \<Longrightarrow> size x < size s"
  "s_where s = Some x \<Longrightarrow> size x < size s"
  "s_group s = Some (Some xs, h) \<Longrightarrow> x \<in> set xs \<Longrightarrow> size x < size s"
  "s_group s = Some (cs, Some x) \<Longrightarrow> size x < size s"
  "s_order s = Some os \<Longrightarrow> (Some x, b) \<in> set os \<Longrightarrow> size x < size s"
proof -
  show "s_list s = Some xs \<Longrightarrow> x \<in> set xs \<Longrightarrow> size x < size s"
    by (cases s) (auto dest: size_list_estimation'[where f = size, OF _ order_refl])
  show "s_group s = Some (Some xs, h) \<Longrightarrow> x \<in> set xs \<Longrightarrow> size x < size s"
    by (cases s) (auto dest: size_list_estimation'[where f = size, OF _ order_refl])
  show "s_order s = Some os \<Longrightarrow> (Some x, b) \<in> set os \<Longrightarrow> size x < size s"
    by (cases s) (auto dest!: size_list_estimation'[where f = "size_prod (size_option size) (\<lambda>b. 0)", OF _ order_refl])
qed (cases s; auto)+

text \<open>The helpers call the conversions on parts only.\<close>

definition agree :: "nat \<Rightarrow> ('a :: size \<Rightarrow> 'b) \<Rightarrow> ('a \<Rightarrow> 'b) \<Rightarrow> bool" where
  "agree n f f' \<longleftrightarrow> (\<forall>x. size x < n \<longrightarrow> f x = f' x)"

lemma parts_agree_mono: "agree n f f' \<Longrightarrow> m \<le> n \<Longrightarrow> agree m f f'"
  by (simp add: agree_def)

lemma agree_parts:
  "agree (size e) f f' \<Longrightarrow> h_expr e = Some x \<Longrightarrow> f x = f' x" "agree (size e) f f' \<Longrightarrow> h_expr2 e = Some x \<Longrightarrow> f x = f' x"
  "agree (size e) f f' \<Longrightarrow> h_list e = Some xs \<Longrightarrow> x \<in> set xs \<Longrightarrow> f x = f' x"
  by (simp_all add: agree_def h_sizes)

lemma agree_select: "agree (size e) g g' \<Longrightarrow> h_select e = Some s \<Longrightarrow> g s = g' s"
  by (simp add: agree_def h_sizes)

lemma agree_inside: "agree (size e) f f' \<Longrightarrow> h_expr e = Some x \<Longrightarrow> agree (size x) f f'"
  by (rule parts_agree_mono) (auto dest: h_sizes(1))

lemma through_cong: "(\<And>x. p = Some x \<Longrightarrow> f x = f' x) \<Longrightarrow> through f p = through f' p"
  by (simp add: through_def split: option.split)

lemma convert_in_cong:
  assumes "agree (size e) f f'" "agree (size e) g g'"
  shows "convert_in f g e b = convert_in f' g' e b"
  unfolding convert_in_def using agree_parts[OF assms(1)] agree_select[OF assms(2)]
  by (auto split: option.split intro!: bindC_cong mapC_cong)

lemma convert_branch_cong:
  assumes "agree (size e) f f'" "h_list e = Some xs" "x \<in> set xs"
  shows "convert_branch f (h_expr e) x = convert_branch f' (h_expr e) x"
proof -
  have "agree (size x) f f'" by (rule parts_agree_mono[OF assms(1)]) (use h_sizes(3)[OF assms(2,3)] in simp)
  note p = agree_parts[OF this] agree_parts[OF assms(1)]
  show ?thesis unfolding convert_branch_def
    using p by (auto split: option.split intro!: bindC_cong through_cong)
qed

lemma convert_case_cong:
  assumes "agree (size e) f f'"
  shows "convert_case f e = convert_case f' e"
proof (cases "h_list e")
  case (Some xs)
  have "mapC (convert_branch f (h_expr e)) xs = mapC (convert_branch f' (h_expr e)) xs"
    by (rule mapC_cong[OF refl]) (rule convert_branch_cong[OF assms Some])
  then show ?thesis using Some agree_parts[OF assms]
    by (auto simp: convert_case_def simp del: mapC.simps split: list.split option.split intro!: bindC_cong)
qed (simp add: convert_case_def)

lemma convert_exists_cong: "agree (size e) g g' \<Longrightarrow> convert_exists g e b = convert_exists g' e b"
  using agree_select[of e g g'] by (auto simp: convert_exists_def split: option.split)

lemma convert_pair_cong: "agree (size e) f f' \<Longrightarrow> convert_pair f e m k = convert_pair f' e m k"
  using agree_parts[of e f f'] by (auto simp: convert_pair_def split: option.split intro!: bindC_cong)

lemma convert_between_cong: "agree (size e) f f' \<Longrightarrow> convert_between f e = convert_between f' e"
  using agree_parts[of e f f'] by (auto simp: convert_between_def split: option.split list.split intro!: bindC_cong)

lemma convert_not_cong:
  assumes "agree (size e) f f'" "agree (size e) g g'"
  shows "convert_not f g e = convert_not f' g' e"
proof (cases "h_expr e")
  case (Some x)
  note i = agree_inside[OF assms(1) Some]
  have j: "agree (size x) g g'" by (rule parts_agree_mono[OF assms(2)]) (use h_sizes(1)[OF Some] in simp)
  show ?thesis using Some agree_parts[OF assms(1)] agree_parts[OF i] convert_in_cong[OF i j] convert_exists_cong[OF j]
    by (auto simp: convert_not_def intro!: bindC_cong through_cong)
qed (simp add: convert_not_def)

lemma convert_operator_cong:
  assumes "agree (size e) f f'" "agree (size e) g g'"
  shows "convert_operator f g e = convert_operator f' g' e"
proof -
  have "through f (h_expr e) = through f' (h_expr e)" using agree_parts(1)[OF assms(1)] by (rule through_cong)
  moreover note convert_in_cong[OF assms] convert_case_cong[OF assms(1)] convert_exists_cong[OF assms(2)]
    convert_pair_cong[OF assms(1)] convert_between_cong[OF assms(1)] convert_not_cong[OF assms]
  ultimately show ?thesis unfolding convert_operator_def convert_binary_def by presburger
qed

lemma convert_function_cong:
  assumes "agree (size e) f f'"
  shows "convert_function f e = convert_function f' e"
proof -
  have "one_argument f e n a = one_argument f' e n a" "convert_substring f e n = convert_substring f' e n" for n a
    unfolding one_argument_def convert_substring_def using agree_parts(3)[OF assms]
    by (auto split: option.split list.split intro!: bindC_cong)
  then show ?thesis unfolding convert_function_def convert_count_def by presburger
qed

lemma convert_node_cong [fundef_cong]:
  assumes "e = e'" "\<And>x. size x < size e' \<Longrightarrow> f x = f' x" "\<And>s. size s < size e' \<Longrightarrow> g s = g' s"
  shows "convert_node f g e = convert_node f' g' e'"
proof -
  have a: "agree (size e') f f'" "agree (size e') g g'" using assms by (auto simp: agree_def)
  have "convert_cast f e' = convert_cast f' e'" "convert_extract f e' = convert_extract f' e'"
    unfolding convert_cast_def convert_extract_def using agree_parts(1)[OF a(1)]
    by (auto split: option.split intro!: bindC_cong)
  then show ?thesis
    unfolding assms(1) convert_node_def convert_operator_cong[OF a] convert_function_cong[OF a(1)]
    using agree_select[OF a(2)] by (auto split: hExprType.split option.split)
qed

lemma flatten_cong: "agree (size t) f f' \<Longrightarrow> flatten_join_chain f S t = flatten_join_chain f' S t"
proof (induction t rule: measure_induct_rule[of size])
  case (less t)
  show ?case
  proof (cases "\<exists>j l x. t_join t = Some j \<and> j_left j = Some l \<and> j_condition j = Some x")
    case True
    then obtain j l x where j: "t_join t = Some j" "j_left j = Some l" "j_condition j = Some x" by blast
    have "flatten_join_chain f S l = flatten_join_chain f' S l"
      using less.IH[OF size_join_left[OF j(1,2)]] parts_agree_mono[OF less.prems] size_join_left[OF j(1,2)] by simp
    moreover have "f x = f' x" using less.prems j_sizes(1)[OF j(1,3)] by (simp add: agree_def)
    ultimately show ?thesis by (simp only: flatten_join_chain.simps[of _ _ t] j option.case)
  next
    case False
    then have "flatten_join_chain h S t = (case t_join t of None \<Rightarrow> unsupported ''malformed JOIN''
      | Some j \<Rightarrow> if t_type t \<noteq> kTableJoin then unsupported ''malformed JOIN''
          else (case j_left j of None \<Rightarrow> unsupported ''malformed JOIN''
            | Some l \<Rightarrow> if j_right j = None then unsupported ''malformed JOIN''
                else (case convert_join_type (j_type j) of
                        None \<Rightarrow> unsupported ''JOIN types other than INNER JOIN and LEFT [OUTER] JOIN''
                      | Some jt \<Rightarrow> unsupported ''JOIN with no ON condition'')))" for h
      by (subst flatten_join_chain.simps) (fastforce split: option.split)
    then show ?thesis by (simp only:)
  qed
qed

lemma convert_from_cong:
  assumes "agree (size s) f f'" "agree (size s) g g'"
  shows "convert_from f g S (s_from s) = convert_from f' g' S (s_from s)"
proof (cases "s_from s")
  case (Some t)
  have "flatten_join_chain f S t = flatten_join_chain f' S t"
    using assms(1) s_sizes(1)[OF Some] by (intro flatten_cong) (auto simp: agree_def)
  moreover have "g x = g' x" if "t_select t = Some x" for x
    using assms(2) s_sizes(1)[OF Some] j_sizes(2)[OF that] by (simp add: agree_def)
  ultimately show ?thesis using Some
    by (auto simp: convert_from_def split: hTableType.split option.split intro!: bindC_cong)
qed (simp add: convert_from_def)

lemma convert_statement_cong [fundef_cong]:
  assumes "s = s'" "S = S'" "\<And>x. size x < size s' \<Longrightarrow> f x = f' x" "\<And>t. size t < size s' \<Longrightarrow> g t = g' t"
  shows "convert_statement f g S s = convert_statement f' g' S' s'"
proof -
  have a: "agree (size s') f f'" "agree (size s') g g'" using assms by (auto simp: agree_def)
  have e: "f x = f' x" if "size x < size s'" for x using assms(3) that .
  have items: "convert_items f (s_list s') = convert_items f' (s_list s')"
    using e s_sizes(2)[of s'] by (auto simp: convert_items_def simp del: mapC.simps split: option.split list.split intro!: bindC_cong mapC_cong)
  have group: "convert_group f (s_group s') = convert_group f' (s_group s')"
    using e s_sizes(4,5)[of s'] by (auto simp: convert_group_def optional_def split: option.split intro!: bindC_cong mapC_cong)
  have order: "convert_order f (s_order s') = convert_order f' (s_order s')"
    using e s_sizes(6)[of s'] by (auto simp: convert_order_def split: option.split intro!: mapC_cong bindC_cong through_cong)
  have wh: "optional f (s_where s') = optional f' (s_where s')"
    using e s_sizes(3)[of s'] by (auto simp: optional_def split: option.split)
  show ?thesis unfolding assms(1,2) convert_statement_def convert_from_cong[OF a] items group order wh ..
qed

function convert_expr :: "PlaceholderSource list \<Rightarrow> expr_conv"
and convert_select_statement :: "PlaceholderSource list \<Rightarrow> select_conv" where
  "convert_expr S e = convert_node (convert_expr S) (convert_select_statement S) e"
| "convert_select_statement S s = convert_statement (convert_expr S) (convert_select_statement S) S s"
  by pat_completeness auto
termination
  by (relation "measure (case_sum (\<lambda>(S, e). size e) (\<lambda>(S, s). size s))") auto

declare convert_expr.simps [simp del] convert_select_statement.simps [simp del]

section \<open>\<open>parse_sql\<close>\<close>

datatype hStatement = StmtSelect hSelect | StmtOther

datatype hResult = ParseFailed string int int | Parsed "hStatement list"

definition parse_sql :: "(string \<Rightarrow> hResult) \<Rightarrow> string \<Rightarrow> AstSelectStatement result" where
  "parse_sql hsql sql =
     bindR (check_sql_within_limits sql) (\<lambda>_.
     bindR (preprocess_from_read_parquet sql) (\<lambda>preprocessed.
     let sources = pre_sources preprocessed
     in case hsql (pre_sql preprocessed) of
          ParseFailed msg line column \<Rightarrow>
            Inl (SqlError (''SQL parse error: '' @ msg @ '' (line '' @ int_str line @ '', column '' @ int_str column @ '')''))
        | Parsed statements \<Rightarrow>
            if length statements \<noteq> 1
            then Inl (SqlError (''KernelLake supports exactly one SQL statement per query, got '' @ int_str (int (length statements))))
            else case hd statements of
                   StmtOther \<Rightarrow> Inl (SqlError ''unsupported SQL construct: only SELECT statements are supported'')
                 | StmtSelect s \<Rightarrow>
                     bindR (convert_select_statement sources s (replicate (length sources) False)) (\<lambda>(out, consumed).
                     if list_all id consumed then Inr out
                     else Inl (SqlError (''unsupported SQL construct: a read_parquet(...)/read_iceberg(...)/read_delta(...) source appears in the query but is not ''
                            @ ''referenced by any recognized FROM/JOIN clause'')))))"

section \<open>Every source is used once\<close>

text \<open>The sources a statement reads, its subqueries and derived tables included.\<close>

fun expr_sources :: "AstExpr \<Rightarrow> string list multiset" and stmt_sources :: "AstSelectStatement \<Rightarrow> string list multiset"
  and join_sources :: "AstJoinClause \<Rightarrow> string list multiset" and step_sources :: "AstJoinStep \<Rightarrow> string list multiset" where
  "expr_sources (AstColumnRef n t) = {#}"
| "expr_sources AstStar = {#}"
| "expr_sources (AstLiteral l) = {#}"
| "expr_sources (AstBinary op l r) = expr_sources l + expr_sources r"
| "expr_sources (AstUnary op e) = expr_sources e"
| "expr_sources (AstBetween v l u) = expr_sources v + expr_sources l + expr_sources u"
| "expr_sources (AstAggregate f arg) = (case arg of None \<Rightarrow> {#} | Some e \<Rightarrow> expr_sources e)"
| "expr_sources (AstLike v p neg) = expr_sources v + expr_sources p"
| "expr_sources (AstIn v items sub neg) =
     expr_sources v + sum_list (map expr_sources items) + (case sub of None \<Rightarrow> {#} | Some s \<Rightarrow> stmt_sources s)"
| "expr_sources (AstCase wts els) =
     sum_list (map (\<lambda>(c, r). expr_sources c + expr_sources r) wts) + (case els of None \<Rightarrow> {#} | Some e \<Rightarrow> expr_sources e)"
| "expr_sources (AstCast e n p s) = expr_sources e"
| "expr_sources (AstExtract part e) = expr_sources e"
| "expr_sources (AstSubstring e s n) = expr_sources e"
| "expr_sources (AstSubquery s) = stmt_sources s"
| "expr_sources (AstExists s neg) = stmt_sources s"
| "stmt_sources (AstSelect items paths alias join derived w keys having order limit) =
     (case join of
        Some j \<Rightarrow> join_sources j
      | None \<Rightarrow> (case derived of Some d \<Rightarrow> stmt_sources d | None \<Rightarrow> {#paths#})) +
     sum_list (map (\<lambda>(e, a). expr_sources e) items) + (case w of None \<Rightarrow> {#} | Some e \<Rightarrow> expr_sources e) +
     sum_list (map expr_sources keys) + (case having of None \<Rightarrow> {#} | Some e \<Rightarrow> expr_sources e) +
     sum_list (map (\<lambda>(e, a). expr_sources e) order)"
| "join_sources (AstJoin paths alias steps) = {#paths#} + sum_list (map step_sources steps)"
| "step_sources (AstStep paths alias cond jt derived) =
     (case derived of None \<Rightarrow> {#paths#} | Some d \<Rightarrow> stmt_sources d) + expr_sources cond"

definition used :: "PlaceholderSource list \<Rightarrow> bool list \<Rightarrow> string list multiset" where
  "used S c = mset (map (\<lambda>(s, b). src_paths s) (filter snd (zip S c)))"

text \<open>
  A conversion consumes the sources of its result, of which \<open>B\<close> were consumed by earlier steps.
\<close>

definition accounts ::
  "PlaceholderSource list \<Rightarrow> string list multiset \<Rightarrow> ('a \<Rightarrow> string list multiset) \<Rightarrow> 'a conv \<Rightarrow> bool" where
  "accounts S B src m \<longleftrightarrow> (\<forall>c x c'. length c = length S \<longrightarrow> m c = Inr (x, c') \<longrightarrow>
     length c' = length S \<and> used S c' + B = used S c + src x)"

lemma accounts_ret: "src x = B \<Longrightarrow> accounts S B src (retC x)"
  by (simp add: accounts_def retC_def)

lemma accounts_bind:
  assumes "accounts S {#} src m" "\<And>x. accounts S (B + src x) src' (f x)"
  shows "accounts S B src' (bindC m f)"
  unfolding accounts_def
proof (intro allI impI)
  fix c y c'
  assume c: "length c = length S" "bindC m f c = Inr (y, c')"
  then obtain x c1 where x: "m c = Inr (x, c1)" "f x c1 = Inr (y, c')" by (auto simp: bindC_def bindR_eq_Inr)
  have 1: "length c1 = length S" "used S c1 = used S c + src x" using assms(1) c(1) x(1) by (auto simp: accounts_def)
  then have 2: "length c' = length S" "used S c' + (B + src x) = used S c1 + src' y"
    using assms(2)[of x] x(2) by (auto simp: accounts_def)
  then have "used S c' + B + src x = used S c + src' y + src x" unfolding 1(2) by (simp add: ac_simps)
  with 2(1) show "length c' = length S \<and> used S c' + B = used S c + src' y" by simp
qed

text \<open>The same when the first step's result contains what was consumed before.\<close>

lemma accounts_bind_over:
  assumes "accounts S B src m" "\<And>x. accounts S (src x) src' (f x)"
  shows "accounts S B src' (bindC m f)"
  unfolding accounts_def
proof (intro allI impI)
  fix c y c'
  assume c: "length c = length S" "bindC m f c = Inr (y, c')"
  then obtain x c1 where x: "m c = Inr (x, c1)" "f x c1 = Inr (y, c')" by (auto simp: bindC_def bindR_eq_Inr)
  have 1: "length c1 = length S" "used S c1 + B = used S c + src x" using assms(1) c(1) x(1) by (auto simp: accounts_def)
  then have 2: "length c' = length S" "used S c' + src x = used S c1 + src' y"
    using assms(2)[of x] x(2) by (auto simp: accounts_def)
  then have "used S c' + B + src x = used S c1 + B + src' y" by (simp add: ac_simps)
  then have "used S c' + B + src x = used S c + src' y + src x" unfolding 1(2) by (simp add: ac_simps)
  with 2(1) show "length c' = length S \<and> used S c' + B = used S c + src' y" by simp
qed

lemma accounts_fail: "accounts S B src (unsupported w)" "accounts S B src (\<lambda>c. Inl e)"
  by (simp_all add: accounts_def unsupported_def)

lemma accounts_lift: "accounts S {#} (\<lambda>x. {#}) (liftC r)"
  by (auto simp: accounts_def liftC_def bindR_eq_Inr)

lemma accounts_map:
  "(\<And>x. x \<in> set xs \<Longrightarrow> accounts S {#} src (f x)) \<Longrightarrow> accounts S {#} (\<lambda>ys. sum_list (map src ys)) (mapC f xs)"
proof (induction xs)
  case (Cons x xs)
  have "accounts S {#} src (f x)" "accounts S {#} (\<lambda>ys. sum_list (map src ys)) (mapC f xs)" using Cons by auto
  then show ?case by (auto intro!: accounts_bind accounts_ret)
qed (simp add: accounts_ret)

lemma accounts_through: "(\<And>x. p = Some x \<Longrightarrow> accounts S {#} src (f x)) \<Longrightarrow> accounts S {#} src (through f p)"
  by (auto simp: through_def accounts_fail split: option.split)

definition parts_account :: "PlaceholderSource list \<Rightarrow> nat \<Rightarrow> expr_conv \<Rightarrow> select_conv \<Rightarrow> bool" where
  "parts_account S n f g \<longleftrightarrow> (\<forall>x. size x < n \<longrightarrow> accounts S {#} expr_sources (f x)) \<and>
     (\<forall>s. size s < n \<longrightarrow> accounts S {#} stmt_sources (g s))"

lemma parts_accountD:
  assumes "parts_account S (size e) f g"
  shows "h_expr e = Some x \<Longrightarrow> accounts S {#} expr_sources (f x)" "h_expr2 e = Some x \<Longrightarrow> accounts S {#} expr_sources (f x)"
    "h_list e = Some xs \<Longrightarrow> x \<in> set xs \<Longrightarrow> accounts S {#} expr_sources (f x)"
    "h_select e = Some s \<Longrightarrow> accounts S {#} stmt_sources (g s)"
  using assms by (auto simp: parts_account_def h_sizes)

lemma parts_account_mono: "parts_account S n f g \<Longrightarrow> m \<le> n \<Longrightarrow> parts_account S m f g"
  by (simp add: parts_account_def)

lemmas accounts_intros = accounts_bind[where src = expr_sources] accounts_bind[where src = stmt_sources]
  accounts_ret accounts_fail accounts_through

lemma convert_in_accounts:
  assumes "parts_account S (size e) f g"
  shows "accounts S {#} expr_sources (convert_in f g e b)"
  unfolding convert_in_def using parts_accountD[OF assms]
  by (auto split: option.split intro!: accounts_intros accounts_bind[OF accounts_map[where src = expr_sources]])

lemma convert_branch_accounts:
  assumes "parts_account S (size e) f g" "h_list e = Some xs" "x \<in> set xs"
  shows "accounts S {#} (\<lambda>(c, r). expr_sources c + expr_sources r) (convert_branch f (h_expr e) x)"
proof -
  have "parts_account S (size x) f g" by (rule parts_account_mono[OF assms(1)]) (use h_sizes(3)[OF assms(2,3)] in simp)
  note p = parts_accountD(1,2)[OF this] parts_accountD(1)[OF assms(1)]
  have cond: "accounts S (expr_sources w) expr_sources
      (case h_expr e of Some y \<Rightarrow> bindC (f y) (\<lambda>v. retC (AstBinary AEq v w)) | None \<Rightarrow> retC w)" for w
    using p(3) by (auto split: option.split intro!: accounts_intros)
  have tail: "accounts S (expr_sources c) (\<lambda>(c, r). expr_sources c + expr_sources r)
      (bindC (through f (h_expr2 x)) (\<lambda>t. retC (c, t)))" for c
    using p(2) by (auto intro!: accounts_intros)
  have "accounts S ({#} + expr_sources w) (\<lambda>(c, r). expr_sources c + expr_sources r)
      (bindC (case h_expr e of Some y \<Rightarrow> bindC (f y) (\<lambda>v. retC (AstBinary AEq v w)) | None \<Rightarrow> retC w)
        (\<lambda>c. bindC (through f (h_expr2 x)) (\<lambda>t. retC (c, t))))" for w
    unfolding add_0 by (rule accounts_bind_over[OF cond tail])
  then show ?thesis unfolding convert_branch_def
    using p(1) by (auto simp: accounts_fail intro!: accounts_bind[OF accounts_through])
qed

lemma convert_case_accounts:
  assumes "parts_account S (size e) f g"
  shows "accounts S {#} expr_sources (convert_case f e)"
proof -
  have "accounts S {#} (\<lambda>ys. sum_list (map (\<lambda>(c, r). expr_sources c + expr_sources r) ys)) (mapC (convert_branch f (h_expr e)) xs)"
    if "h_list e = Some xs" for xs
    using convert_branch_accounts[OF assms that] by (intro accounts_map) auto
  then show ?thesis unfolding convert_case_def using parts_accountD(2)[OF assms]
    by (auto simp del: mapC.simps split: option.split list.split intro!: accounts_intros accounts_bind)
qed

lemma convert_exists_accounts:
  "parts_account S (size e) f g \<Longrightarrow> accounts S {#} expr_sources (convert_exists g e b)"
  unfolding convert_exists_def using parts_accountD(4)[of S e f g] by (auto split: option.split intro!: accounts_intros)

lemma convert_pair_accounts:
  assumes "parts_account S (size e) f g" "\<And>a b. expr_sources (k a b) = expr_sources a + expr_sources b"
  shows "accounts S {#} expr_sources (convert_pair f e m k)"
  unfolding convert_pair_def using parts_accountD[OF assms(1)] assms(2)
  by (auto split: option.split intro!: accounts_intros)

lemma convert_between_accounts:
  "parts_account S (size e) f g \<Longrightarrow> accounts S {#} expr_sources (convert_between f e)"
  unfolding convert_between_def using parts_accountD[of S e f g]
  by (auto split: option.split list.split intro!: accounts_intros)

lemma convert_not_accounts:
  assumes "parts_account S (size e) f g"
  shows "accounts S {#} expr_sources (convert_not f g e)"
proof (cases "h_expr e")
  case (Some x)
  have i: "parts_account S (size x) f g" by (rule parts_account_mono[OF assms]) (use h_sizes(1)[OF Some] in simp)
  show ?thesis using Some parts_accountD[OF assms] parts_accountD[OF i] convert_in_accounts[OF i] convert_exists_accounts[OF i]
    by (auto simp: convert_not_def intro!: accounts_intros)
qed (simp add: convert_not_def accounts_fail)

lemma convert_operator_accounts:
  assumes "parts_account S (size e) f g"
  shows "accounts S {#} expr_sources (convert_operator f g e)"
proof -
  have un: "accounts S {#} expr_sources (bindC (through f (h_expr e)) (\<lambda>a. retC (AstUnary op a)))" for op
    using parts_accountD(1)[OF assms] by (auto intro!: accounts_intros)
  have bin: "accounts S {#} expr_sources (convert_binary f e)"
    unfolding convert_binary_def
    by (auto simp: accounts_fail split: option.split intro!: convert_pair_accounts[OF assms])
  have like: "accounts S {#} expr_sources (convert_pair f e m (\<lambda>v p. AstLike v p b))" for m b
    by (rule convert_pair_accounts[OF assms]) simp
  show ?thesis unfolding convert_operator_def
    using un bin like convert_in_accounts[OF assms] convert_case_accounts[OF assms] convert_exists_accounts[OF assms]
      convert_between_accounts[OF assms] convert_not_accounts[OF assms]
    by (cases "h_op e") (simp_all add: accounts_fail)
qed

lemma convert_function_accounts:
  assumes "parts_account S (size e) f g"
  shows "accounts S {#} expr_sources (convert_function f e)"
proof -
  have one: "accounts S {#} expr_sources (one_argument f e n a)" for n a
    unfolding one_argument_def using parts_accountD(3)[OF assms]
    by (auto split: option.split list.split intro!: accounts_intros)
  have "accounts S {#} expr_sources (convert_substring f e n)" for n
    unfolding convert_substring_def using parts_accountD(3)[OF assms]
    by (auto split: option.split list.split intro!: accounts_intros)
  moreover have "accounts S {#} expr_sources (convert_count f e)"
    unfolding convert_count_def using one by (auto intro: accounts_fail accounts_ret)
  ultimately show ?thesis unfolding convert_function_def Let_def using one
    by (auto simp: accounts_fail split: option.split)
qed

lemma convert_literal_accounts: "accounts S {#} expr_sources (convert_literal e)"
  unfolding convert_literal_def
  by (auto split: hExprType.split option.split intro!: accounts_ret accounts_fail accounts_bind[OF accounts_lift])

lemma convert_node_accounts:
  assumes "parts_account S (size e) f g"
  shows "accounts S {#} expr_sources (convert_node f g e)"
proof -
  have "accounts S {#} expr_sources (convert_cast f e)"
    unfolding convert_cast_def using parts_accountD(1)[OF assms]
    by (auto split: option.split prod.split intro!: accounts_intros)
  moreover have "accounts S {#} expr_sources (convert_extract f e)"
    unfolding convert_extract_def using parts_accountD(1)[OF assms] by (auto split: option.split intro!: accounts_intros)
  moreover have "accounts S {#} expr_sources (case h_select e of
      None \<Rightarrow> unsupported ''malformed subquery expression'' | Some s \<Rightarrow> bindC (g s) (\<lambda>stmt. retC (AstSubquery stmt)))"
    using parts_accountD(4)[OF assms] by (auto split: option.split intro!: accounts_intros)
  moreover have "accounts S {#} expr_sources (case h_name e of
      None \<Rightarrow> unsupported ''column reference with no name'' | Some n \<Rightarrow> retC (AstColumnRef n (h_table e)))"
    by (auto split: option.split intro!: accounts_ret accounts_fail)
  ultimately show ?thesis unfolding convert_node_def
    using convert_operator_accounts[OF assms] convert_function_accounts[OF assms] convert_literal_accounts
    by (cases "h_type e") (simp_all add: accounts_fail accounts_ret)
qed

lemma find_source_found: "find_source n S = Some i \<Longrightarrow> i < length S"
  by (induction S arbitrary: i) (auto split: if_splits)

lemma used_update:
  "length c = length S \<Longrightarrow> i < length S \<Longrightarrow> \<not> c ! i \<Longrightarrow> used S (c[i := True]) = used S c + {#src_paths (S ! i)#}"
proof (induction S arbitrary: c i)
  case (Cons s S)
  then obtain b c0 where c: "c = b # c0" by (cases c) auto
  show ?case
  proof (cases i)
    case 0
    then show ?thesis using Cons.prems c by (simp add: used_def)
  next
    case (Suc j)
    then have "used S (c0[j := True]) = used S c0 + {#src_paths (S ! j)#}" using Cons c by simp
    then show ?thesis using Suc c by (simp add: used_def)
  qed
qed simp

lemma consume_accounts: "accounts S {#} (\<lambda>paths. {#paths#}) (find_and_consume_source S n)"
  unfolding accounts_def find_and_consume_source_def
  by (auto simp: unsupported_def used_update find_source_found split: option.splits if_splits)

lemma join_source_accounts: "accounts S {#} (\<lambda>(paths, alias). {#paths#}) (convert_join_source S t)"
  unfolding convert_join_source_def
  by (auto split: option.split hTableType.split intro!: accounts_fail accounts_ret accounts_bind[OF consume_accounts])

lemma flatten_accounts:
  "(\<And>x. size x < size t \<Longrightarrow> accounts S {#} expr_sources (f x)) \<Longrightarrow> accounts S {#} join_sources (flatten_join_chain f S t)"
proof (induction t rule: measure_induct_rule[of size])
  case (less t)
  show ?case
  proof (cases "\<exists>j l x jt. t_join t = Some j \<and> j_left j = Some l \<and> j_condition j = Some x \<and> convert_join_type (j_type j) = Some jt")
    case True
    then obtain j l x jt where j: "t_join t = Some j" "j_left j = Some l" "j_condition j = Some x" "convert_join_type (j_type j) = Some jt"
      by blast
    let ?first = "if t_type l = kTableJoin then flatten_join_chain f S l
        else bindC (convert_join_source S (Some l)) (\<lambda>(paths, alias). retC (AstJoin paths alias []))"
    have "accounts S {#} join_sources (flatten_join_chain f S l)"
      by (rule less.IH[OF size_join_left[OF j(1,2)]]) (use less.prems size_join_left[OF j(1,2)] in simp)
    then have first: "accounts S {#} join_sources ?first"
      by (auto intro!: accounts_bind[OF join_source_accounts] accounts_ret)
    have cond: "accounts S {#} expr_sources (f x)" using less.prems j_sizes(1)[OF j(1,3)] by simp
    have last: "accounts S (join_sources clause + {#paths#}) join_sources (bindC (f x) (\<lambda>c.
        retC (AstJoin (first_paths clause) (first_alias clause) (join_steps clause @ [AstStep paths al c jt None]))))"
      for clause paths al
      by (rule accounts_bind[OF cond], rule accounts_ret) (cases clause, simp add: ac_simps)
    have "accounts S ({#} + join_sources clause) join_sources (bindC (convert_join_source S (j_right j)) (\<lambda>(paths, al).
        bindC (f x) (\<lambda>c.
        retC (AstJoin (first_paths clause) (first_alias clause) (join_steps clause @ [AstStep paths al c jt None])))))" for clause
      by (rule accounts_bind[OF join_source_accounts]) (use last in \<open>auto split: prod.split\<close>)
    from accounts_bind[OF first this]
    show ?thesis
      by (subst flatten_join_chain.simps) (simp add: j accounts_fail)
  next
    case False
    then show ?thesis
      by (subst flatten_join_chain.simps) (auto simp: accounts_fail split: option.split)
  qed
qed

definition from_sources :: "from_parts \<Rightarrow> string list multiset" where
  "from_sources = (\<lambda>(paths, al, join, derived).
     case join of
       Some j \<Rightarrow> join_sources j
     | None \<Rightarrow> (case derived of Some d \<Rightarrow> stmt_sources d | None \<Rightarrow> {#paths#}))"

lemma from_accounts:
  assumes "parts_account S (size s) f g"
  shows "accounts S {#} from_sources (convert_from f g S (s_from s))"
proof (cases "s_from s")
  case (Some t)
  have chain: "accounts S {#} join_sources (flatten_join_chain f S t)"
    using assms s_sizes(1)[OF Some] by (intro flatten_accounts) (simp add: parts_account_def)
  have "accounts S {#} stmt_sources (g x)" if "t_select t = Some x" for x
    using assms s_sizes(1)[OF Some] j_sizes(2)[OF that] by (simp add: parts_account_def)
  then show ?thesis unfolding convert_from_def Some
    by (auto simp: from_sources_def split: option.split hTableType.split
        intro!: accounts_fail accounts_ret accounts_bind[OF consume_accounts] accounts_bind[OF chain] accounts_bind[where src = stmt_sources])
qed (simp add: convert_from_def accounts_fail)

definition opt_sources :: "AstExpr option \<Rightarrow> string list multiset" where
  "opt_sources w = (case w of None \<Rightarrow> {#} | Some e \<Rightarrow> expr_sources e)"

lemma optional_accounts:
  "(\<And>e. p = Some e \<Longrightarrow> accounts S {#} expr_sources (f e)) \<Longrightarrow> accounts S {#} opt_sources (optional f p)"
  by (auto simp: optional_def opt_sources_def split: option.split intro!: accounts_intros)

lemma statement_accounts:
  assumes "parts_account S (size s) f g"
  shows "accounts S {#} stmt_sources (convert_statement f g S s)"
proof -
  have e: "accounts S {#} expr_sources (f x)" if "size x < size s" for x using assms that by (simp add: parts_account_def)
  have one: "accounts S {#} (\<lambda>(a, b). expr_sources a) (bindC m (\<lambda>a. retC (a, b)))" if "accounts S {#} expr_sources m" for m and b :: 'b
    using that by (auto intro!: accounts_intros)
  have items: "accounts S {#} (\<lambda>ys. sum_list (map (\<lambda>(a, b). expr_sources a) ys)) (convert_items f (s_list s))"
    unfolding convert_items_def using e s_sizes(2)[of s]
    by (auto simp del: mapC.simps split: option.split list.split intro!: accounts_fail accounts_map one)
  have group: "accounts S {#} (\<lambda>(keys, h). sum_list (map expr_sources keys) + opt_sources h) (convert_group f (s_group s))"
    unfolding convert_group_def using e s_sizes(4,5)[of s]
    by (auto simp: opt_sources_def split: option.split intro!: accounts_ret accounts_bind[OF accounts_map[where src = expr_sources]]
        accounts_bind[OF optional_accounts])
  have order: "accounts S {#} (\<lambda>ys. sum_list (map (\<lambda>(a, b). expr_sources a) ys)) (convert_order f (s_order s))"
    unfolding convert_order_def using e s_sizes(6)[of s]
    by (auto split: option.split prod.split intro!: accounts_ret accounts_map one accounts_through)
  have wh: "accounts S {#} opt_sources (optional f (s_where s))"
    using e s_sizes(3)[of s] by (intro optional_accounts) auto
  have limit: "accounts S {#} (\<lambda>l. {#}) (convert_limit (s_limit s))"
    unfolding convert_limit_def by (auto split: option.split intro!: accounts_ret accounts_fail)
  show ?thesis
    unfolding convert_statement_def
    by (auto simp: accounts_fail from_sources_def opt_sources_def ac_simps split: prod.split
        intro!: accounts_bind[OF from_accounts[OF assms]] accounts_bind[OF items] accounts_bind[OF group] accounts_bind[OF order]
          accounts_bind[OF wh] accounts_bind[OF limit] accounts_ret)
qed

lemma convert_accounts:
  "accounts S {#} expr_sources (convert_expr S e)" "accounts S {#} stmt_sources (convert_select_statement S s)"
proof (induction S e and S s rule: convert_expr_convert_select_statement.induct)
  case (1 S e)
  then show ?case unfolding convert_expr.simps[of S e] by (intro convert_node_accounts) (simp add: parts_account_def)
next
  case (2 S s)
  then show ?case unfolding convert_select_statement.simps[of S s] by (intro statement_accounts) (simp add: parts_account_def)
qed

lemma used_ends:
  "used S (replicate (length S) False) = {#}" "length c = length S \<Longrightarrow> list_all id c \<Longrightarrow> used S c = mset (map src_paths S)"
proof -
  show "used S (replicate (length S) False) = {#}" by (induction S) (simp_all add: used_def)
  show "length c = length S \<Longrightarrow> list_all id c \<Longrightarrow> used S c = mset (map src_paths S)"
  proof (induction S arbitrary: c)
    case (Cons s S)
    then show ?case by (cases c) (auto simp: used_def)
  qed (simp add: used_def)
qed

section \<open>Properties\<close>

text \<open>
  C16. Whatever the grammar makes of a query, the statement that is returned reads every data source
  of the text exactly once, subqueries and derived tables included, and no other.
\<close>

theorem parse_sql_sources:
  assumes "parse_sql hsql sql = Inr stmt"
  shows "\<exists>p. preprocess_from_read_parquet sql = Inr p \<and> stmt_sources stmt = mset (map src_paths (pre_sources p))"
proof -
  from assms obtain p where p: "preprocess_from_read_parquet sql = Inr p"
    by (auto simp: parse_sql_def bindR_eq_Inr)
  with assms obtain s c where c: "convert_select_statement (pre_sources p) s (replicate (length (pre_sources p)) False) = Inr (stmt, c)"
    "list_all id c"
    by (auto simp: parse_sql_def bindR_eq_Inr Let_def split: hResult.splits hStatement.splits if_splits)
  from convert_accounts(2)[of "pre_sources p" s, unfolded accounts_def, rule_format, OF _ c(1)]
  have "length c = length (pre_sources p)" "used (pre_sources p) c = stmt_sources stmt" by (auto simp: used_ends(1))
  with used_ends(2)[OF this(1) c(2)] p show ?thesis by auto
qed

text \<open>The trees the grammar makes of expressions without subqueries.\<close>

definition h_node :: "hExprType \<Rightarrow> hOperatorType \<Rightarrow> hExpr option \<Rightarrow> hExpr option \<Rightarrow> hExpr list option \<Rightarrow> hExpr" where
  "h_node ty op x y l =
     HExpr ty x y l None None None None (f64_of_int 0) 0 False op False False (hUNKNOWN, 0, 0) kDatetimeOther"

definition h_call :: "string \<Rightarrow> bool \<Rightarrow> hExpr list \<Rightarrow> hExpr" where
  "h_call name dist args =
     HExpr kExprFunctionRef None None (Some args) None (Some name) None None (f64_of_int 0) 0 False kOpOther dist False
       (hUNKNOWN, 0, 0) kDatetimeOther"

definition h_literal :: "hExprType \<Rightarrow> f64 \<Rightarrow> int \<Rightarrow> bool \<Rightarrow> string option \<Rightarrow> hExpr" where
  "h_literal ty d i b name =
     HExpr ty None None None None name None None d i b kOpOther False False (hUNKNOWN, 0, 0) kDatetimeOther"

fun h_operator :: "AstBinaryOp \<Rightarrow> hOperatorType" where
  "h_operator AAdd = kOpPlus" | "h_operator ASubtract = kOpMinus" | "h_operator AMultiply = kOpAsterisk"
| "h_operator ADivide = kOpSlash" | "h_operator AEq = kOpEquals" | "h_operator ANotEq = kOpNotEquals"
| "h_operator ALt = kOpLess" | "h_operator ALtEq = kOpLessEq" | "h_operator AGt = kOpGreater"
| "h_operator AGtEq = kOpGreaterEq" | "h_operator AAnd = kOpAnd" | "h_operator AOr = kOpOr"

definition cast_types :: "(string \<times> hDataType) list" where
  "cast_types = [(''BIGINT'', hBIGINT), (''INT'', hINT), (''BOOLEAN'', hBOOLEAN), (''DOUBLE'', hDOUBLE), (''FLOAT'', hFLOAT),
     (''DATE'', hDATE), (''DATETIME'', hDATETIME), (''VARCHAR'', hVARCHAR), (''DECIMAL'', hDECIMAL)]"

fun call_name :: "AggregateFunction \<Rightarrow> string" where
  "call_name AggSum = ''SUM''" | "call_name AggMin = ''MIN''" | "call_name AggMax = ''MAX''" | "call_name AggAvg = ''AVG''"
| "call_name _ = ''COUNT''"

fun h_part :: "DatePart \<Rightarrow> hDatetimeField" where
  "h_part Year = kDatetimeYear" | "h_part Month = kDatetimeMonth" | "h_part Day = kDatetimeDay"

fun tree_of_literal :: "ast_literal \<Rightarrow> hExpr" where
  "tree_of_literal (LitInteger i) = h_literal kExprLiteralInt (f64_of_int 0) i False None"
| "tree_of_literal (LitBoolean b) = h_literal kExprLiteralInt (f64_of_int 0) (if b then 1 else 0) True None"
| "tree_of_literal (LitFloat d) = h_literal kExprLiteralFloat d 0 False None"
| "tree_of_literal (LitString s) = h_literal kExprLiteralString (f64_of_int 0) 0 False (Some s)"
| "tree_of_literal _ = h_literal kExprLiteralNull (f64_of_int 0) 0 False None"

fun tree_of :: "AstExpr \<Rightarrow> hExpr" where
  "tree_of (AstColumnRef n t) =
     HExpr kExprColumnRef None None None None (Some n) t None (f64_of_int 0) 0 False kOpOther False False (hUNKNOWN, 0, 0) kDatetimeOther"
| "tree_of (AstLiteral l) = tree_of_literal l"
| "tree_of (AstBinary op l r) = h_node kExprOperator (h_operator op) (Some (tree_of l)) (Some (tree_of r)) None"
| "tree_of (AstUnary ANot e) = h_node kExprOperator kOpNot (Some (tree_of e)) None None"
| "tree_of (AstUnary ANegate e) = h_node kExprOperator kOpUnaryMinus (Some (tree_of e)) None None"
| "tree_of (AstUnary AIsNull e) = h_node kExprOperator kOpIsNull (Some (tree_of e)) None None"
| "tree_of (AstUnary AIsNotNull e) =
     h_node kExprOperator kOpNot (Some (h_node kExprOperator kOpIsNull (Some (tree_of e)) None None)) None None"
| "tree_of (AstBetween v l u) = h_node kExprOperator kOpBetween (Some (tree_of v)) None (Some [tree_of l, tree_of u])"
| "tree_of (AstAggregate f None) = h_call ''COUNT'' False [h_node kExprStar kOpOther None None None]"
| "tree_of (AstAggregate f (Some e)) = h_call (call_name f) (f = AggCountDistinct) [tree_of e]"
| "tree_of (AstLike v p neg) = h_node kExprOperator (if neg then kOpNotLike else kOpLike) (Some (tree_of v)) (Some (tree_of p)) None"
| "tree_of (AstIn v items sub neg) =
     (let t = h_node kExprOperator kOpIn (Some (tree_of v)) None (Some (map tree_of items))
      in if neg then h_node kExprOperator kOpNot (Some t) None None else t)"
| "tree_of (AstCase wts els) =
     h_node kExprOperator kOpCase None (case els of None \<Rightarrow> None | Some e \<Rightarrow> Some (tree_of e))
       (Some (map (\<lambda>(c, r). h_node kExprOperator kOpCaseListElement (Some (tree_of c)) (Some (tree_of r)) None) wts))"
| "tree_of (AstCast e n p s) =
     HExpr kExprCast (Some (tree_of e)) None None None None None None (f64_of_int 0) 0 False kOpOther False False
       (the (map_of cast_types n), p, s) kDatetimeOther"
| "tree_of (AstExtract part e) =
     HExpr kExprExtract (Some (tree_of e)) None None None None None None (f64_of_int 0) 0 False kOpOther False False
       (hUNKNOWN, 0, 0) (h_part part)"
| "tree_of (AstSubstring e s n) =
     h_call ''SUBSTRING'' False [tree_of e, tree_of_literal (LitInteger s), tree_of_literal (LitInteger n)]"
| "tree_of _ = h_node kExprStar kOpOther None None None"

text \<open>
  Expressions the grammar can express in one way: no subquery, no date literal (a text that is
  checked), and no NOT where there is a negated form.
\<close>

fun negatable :: "AstExpr \<Rightarrow> bool" where
  "negatable (AstUnary AIsNull e) \<longleftrightarrow> True"
| "negatable (AstIn v items sub neg) \<longleftrightarrow> \<not> neg"
| "negatable _ \<longleftrightarrow> False"

fun expressible :: "AstExpr \<Rightarrow> bool" where
  "expressible (AstColumnRef n t) \<longleftrightarrow> True"
| "expressible AstStar \<longleftrightarrow> True"
| "expressible (AstLiteral l) \<longleftrightarrow> (case l of LitDate d \<Rightarrow> False | _ \<Rightarrow> True)"
| "expressible (AstBinary op l r) \<longleftrightarrow> expressible l \<and> expressible r"
| "expressible (AstUnary op e) \<longleftrightarrow> expressible e \<and> (op = ANot \<longrightarrow> \<not> negatable e)"
| "expressible (AstBetween v l u) \<longleftrightarrow> expressible v \<and> expressible l \<and> expressible u"
| "expressible (AstAggregate f arg) \<longleftrightarrow>
     (case arg of None \<Rightarrow> f = AggCountStar
      | Some e \<Rightarrow> f \<noteq> AggCountStar \<and> expressible e \<and> (f \<in> {AggCount, AggCountDistinct} \<longrightarrow> e \<noteq> AstStar))"
| "expressible (AstLike v p neg) \<longleftrightarrow> expressible v \<and> expressible p"
| "expressible (AstIn v items sub neg) \<longleftrightarrow> sub = None \<and> expressible v \<and> list_all expressible items"
| "expressible (AstCase wts els) \<longleftrightarrow> wts \<noteq> [] \<and> list_all (\<lambda>(c, r). expressible c \<and> expressible r) wts \<and>
     (case els of None \<Rightarrow> True | Some e \<Rightarrow> expressible e)"
| "expressible (AstCast e n p s) \<longleftrightarrow> expressible e \<and> n \<in> set (map fst cast_types)"
| "expressible (AstExtract part e) \<longleftrightarrow> expressible e"
| "expressible (AstSubstring e s n) \<longleftrightarrow> expressible e"
| "expressible _ \<longleftrightarrow> False"

lemma mapC_ret: "(\<And>x. x \<in> set xs \<Longrightarrow> f (g x) = retC x) \<Longrightarrow> mapC f (map g xs) = retC xs"
  by (induction xs) auto

lemma literal_tree [simp]:
  "h_type (tree_of_literal l) \<noteq> kExprOperator" "h_type (tree_of_literal l) \<noteq> kExprStar"
  by (cases l; simp add: h_literal_def)+

lemma operator_tree:
  "expressible e \<Longrightarrow> \<not> negatable e \<Longrightarrow> \<not> is_operator (Some (tree_of e)) kOpIsNull \<and> \<not> is_operator (Some (tree_of e)) kOpIn \<and>
     \<not> is_operator (Some (tree_of e)) kOpExists"
  by (cases e rule: tree_of.cases)
    (auto simp: is_operator_def h_node_def h_call_def h_literal_def Let_def elim: h_operator.elims tree_of_literal.elims)

lemma star_tree: "h_type (tree_of e) = kExprStar \<Longrightarrow> expressible e \<Longrightarrow> e = AstStar"
  by (cases e rule: tree_of.cases)
    (auto simp: h_node_def h_call_def h_literal_def Let_def split: if_splits elim: tree_of_literal.elims)

lemmas convert_defs = convert_node_def convert_operator_def convert_between_def convert_pair_def convert_not_def
  convert_in_def convert_function_def convert_count_def one_argument_def convert_substring_def convert_cast_def
  convert_extract_def convert_literal_def through_def aggregate_called_def h_node_def h_call_def h_literal_def

lemma to_binary_h_operator: "to_binary_op (h_operator op) = Some op"
  by (cases op) simp_all

lemma convert_binary_tree:
  assumes "convert_expr S l = retC a" "convert_expr S r = retC b"
  shows "convert_expr S (h_node kExprOperator (h_operator op) (Some l) (Some r) None) = retC (AstBinary op a b)"
proof -
  have "convert_operator f g (h_node kExprOperator (h_operator op) (Some l) (Some r) None)
      = convert_binary f (h_node kExprOperator (h_operator op) (Some l) (Some r) None)" for f g
    by (cases op) (simp_all add: convert_operator_def h_node_def)
  then show ?thesis
    by (subst convert_expr.simps)
      (simp add: convert_node_def convert_binary_def convert_pair_def h_node_def to_binary_h_operator assms)
qed

lemma convert_call_tree:
  assumes "convert_expr S (tree_of e) = retC e" "f \<noteq> AggCountStar" "f \<in> {AggCount, AggCountDistinct} \<Longrightarrow> h_type (tree_of e) \<noteq> kExprStar"
  shows "convert_expr S (h_call (call_name f) (f = AggCountDistinct) [tree_of e]) = retC (AstAggregate f (Some e))"
  using assms by (subst convert_expr.simps) (cases f; simp add: convert_defs to_upper_def)

lemma convert_case_tree:
  assumes "wts \<noteq> []" "\<And>c r. (c, r) \<in> set wts \<Longrightarrow> convert_expr S (tree_of c) = retC c \<and> convert_expr S (tree_of r) = retC r"
    and "\<And>e. els = Some e \<Longrightarrow> convert_expr S (tree_of e) = retC e"
  shows "convert_expr S (tree_of (AstCase wts els)) = retC (AstCase wts els)"
proof -
  let ?el = "\<lambda>(c, r). h_node kExprOperator kOpCaseListElement (Some (tree_of c)) (Some (tree_of r)) None"
  have b: "convert_branch (convert_expr S) None (?el w) = retC w" if "w \<in> set wts" for w
    using assms(2)[of "fst w" "snd w"] that by (cases w) (simp add: convert_branch_def h_node_def through_def)
  have "mapC (convert_branch (convert_expr S) None) (map ?el wts) = retC wts" by (rule mapC_ret) (rule b)
  moreover obtain x xs where "map ?el wts = x # xs" using assms(1) by (cases wts) auto
  ultimately show ?thesis using assms(3)
    by (subst convert_expr.simps) (cases els; simp add: convert_node_def convert_operator_def convert_case_def h_node_def)
qed

lemma convert_tree: "expressible e \<Longrightarrow> convert_expr S (tree_of e) = retC e"
proof (induction e rule: tree_of.induct)
  case (2 l)
  then show ?case by (subst convert_expr.simps) (cases l; simp add: convert_defs)
next
  case (3 op l r)
  then show ?case by (simp add: convert_binary_tree)
next
  case (4 e)
  then show ?case using operator_tree[of e] by (subst convert_expr.simps) (simp add: convert_defs)
next
  case (9 f)
  then show ?case by (subst convert_expr.simps) (simp add: convert_defs to_upper_def)
next
  case (10 f e)
  then show ?case using star_tree[of e] by (auto intro!: convert_call_tree)
next
  case (12 v items sub neg)
  have "mapC (convert_expr S) (map tree_of items) = retC items"
    using 12 by (intro mapC_ret) (simp add: list_all_iff)
  then show ?case using 12 by (subst convert_expr.simps) (simp add: convert_defs is_operator_def Let_def)
next
  case (13 wts els)
  show ?case
  proof (rule convert_case_tree)
    show "convert_expr S (tree_of c) = retC c \<and> convert_expr S (tree_of r) = retC r" if "(c, r) \<in> set wts" for c r
      using 13 that by (fastforce simp: list_all_iff)
  qed (use 13 in auto)
next
  case (14 e n p s)
  then have "to_cast_type_name (the (map_of cast_types n)) = Some n" by (auto simp: cast_types_def)
  then show ?case using 14 by (subst convert_expr.simps) (simp add: convert_defs)
next
  case (15 part e)
  then show ?case by (subst convert_expr.simps) (cases part; simp add: convert_defs)
next
  case (16 e s n)
  then show ?case by (subst convert_expr.simps) (simp add: convert_defs to_upper_def)
qed (subst convert_expr.simps; simp add: convert_defs is_operator_def)+

text \<open>
  C17. The conversion loses nothing: the tree the grammar makes of an expression without subqueries is
  converted back to that expression, whatever sources there are, and no source is consumed. NOT
  IN, NOT LIKE and IS NOT NULL come back as their negated forms.
\<close>

theorem convert_expr_roundtrip:
  assumes "expressible e"
  shows "convert_expr S (tree_of e) c = Inr (e, c)"
  using convert_tree[OF assms] by (simp add: retC_def)

text \<open>\<open>CASE WHEN a NOT IN (1, 2) THEN SUM(b + 1) ELSE NULL END\<close>\<close>

definition demo_case :: AstExpr where
  "demo_case =
     AstCase [(AstIn (AstColumnRef ''a'' None) [AstLiteral (LitInteger 1), AstLiteral (LitInteger 2)] None True,
               AstAggregate AggSum (Some (AstBinary AAdd (AstColumnRef ''b'' None) (AstLiteral (LitInteger 1)))))]
             (Some (AstLiteral LitNull))"

theorem convert_expr_roundtrip_witness: "convert_expr [] (tree_of demo_case) [] = Inr (demo_case, [])"
proof -
  have "expressible demo_case" by code_simp
  from convert_expr_roundtrip[OF this] show ?thesis .
qed

text \<open>Statements over the \<open>i\<close>-th source: its columns, and a filter.\<close>

definition column_tree :: "string \<Rightarrow> hExpr" where "column_tree n = tree_of (AstColumnRef n None)"

definition select_tree :: "hExpr list \<Rightarrow> nat \<Rightarrow> hExpr option \<Rightarrow> hSelect" where
  "select_tree items i w =
     HSelect False False False (Some (HTable kTableName (Some (placeholder_name i)) None None None)) (Some items) w None None None"

definition in_subquery :: hSelect where
  "in_subquery =
     select_tree [column_tree ''a''] 0 (Some
       (HExpr kExprOperator (Some (column_tree ''k'')) None None (Some (select_tree [column_tree ''k''] 1 None)) None None None
          (f64_of_int 0) 0 False kOpIn False False (hUNKNOWN, 0, 0) kDatetimeOther))"

definition two_sources :: string where
  "two_sources = ''SELECT a FROM read_parquet('' @ quoted ''x'' @ '') WHERE k IN (SELECT k FROM read_parquet('' @ quoted ''y'' @ ''))''"

theorem parse_sql_sources_witness:
  "\<exists>stmt. parse_sql (\<lambda>_. Parsed [StmtSelect in_subquery]) two_sources = Inr stmt \<and>
     stmt_sources stmt = {#[''x''], [''y'']#}"
proof -
  have "case parse_sql (\<lambda>_. Parsed [StmtSelect in_subquery]) two_sources of Inl _ \<Rightarrow> False | Inr _ \<Rightarrow> True" by code_simp
  then obtain stmt where s: "parse_sql (\<lambda>_. Parsed [StmtSelect in_subquery]) two_sources = Inr stmt" by (auto split: sum.splits)
  have "case preprocess_from_read_parquet two_sources of Inl _ \<Rightarrow> False | Inr p \<Rightarrow> map src_paths (pre_sources p) = [[''x''], [''y'']]"
    by code_simp
  with parse_sql_sources[OF s] s show ?thesis by auto
qed

text \<open>
  A simple CASE over a scalar subquery, \<open>CASE (SELECT ...) WHEN 1 THEN 10 WHEN 2 THEN 20 END\<close>, cannot
  be parsed: the operand is converted once per branch, and the second time its source is taken.
\<close>

definition case_subquery :: hSelect where
  "case_subquery =
     (let lit = (\<lambda>i. tree_of_literal (LitInteger i));
          branch = (\<lambda>i. h_node kExprOperator kOpCaseListElement (Some (lit i)) (Some (lit (10 * i))) None);
          operand = HExpr kExprSelect None None None (Some (select_tree [column_tree ''k''] 1 None)) None None None
                      (f64_of_int 0) 0 False kOpOther False False (hUNKNOWN, 0, 0) kDatetimeOther
      in select_tree [h_node kExprOperator kOpCase (Some operand) None (Some [branch 1, branch 2])] 0 None)"

theorem simple_case_over_subquery:
  "parse_sql (\<lambda>_. Parsed [StmtSelect case_subquery]) two_sources =
     Inl (SqlError (''unsupported SQL construct: internal error: a read_parquet(...)/read_iceberg(...)/read_delta(...) source ''
       @ ''was referenced by more than one FROM/JOIN clause''))"
  by code_simp

end
