(* ===== verification/Spec2Isabelle.thy ===== *)
theory Spec2Isabelle
  imports Iceberg QueryPlan ObjectCache Acero SqlParser
begin

text \<open>
  KernelLake, a SQL engine over Parquet files: a verification library of its query path.

  \<^bold>\<open>The program.\<close> A query is parsed (\<^verbatim>\<open>src/sql\<close>), its subqueries are replaced or turned into joins
  (\<^verbatim>\<open>subquery_resolver.cpp\<close>), it is bound to schemas and types (\<^verbatim>\<open>src/planner/binder.cpp\<close>), turned
  into a logical plan (\<^verbatim>\<open>logical_planner.cpp\<close>), optimised (\<^verbatim>\<open>src/optimizer/optimizer.cpp\<close>), joined
  with file metadata into a physical plan (\<^verbatim>\<open>src/io\<close>) and executed on Arrow's Acero
  (\<^verbatim>\<open>src/execution_cpu\<close>) or on a GPU (\<^verbatim>\<open>src/execution_gpu\<close>); \<^verbatim>\<open>src/api/query_engine.cpp\<close> drives
  it. Tables come from Parquet files in object stores (\<^verbatim>\<open>src/storage\<close>), from Hive-style
  directories, or from Iceberg, Delta and Unity Catalog metadata.

  \<^bold>\<open>Theories, in the order of the code.\<close>
  \<^item> \<open>Prelude\<close>: errors as values (one constructor per exception class), sequencing and checked
    reads, machine integers with their wrap-around, decimal rendering.
  \<^item> \<open>F64\<close>: \<open>double\<close> as a 64-bit pattern with exact rounding; conversion from \<open>int64_t\<close> is
    monotone, and injective up to $2^{53}$.
  \<^item> \<open>KTypes\<close>: \<^verbatim>\<open>types/schema\<close>, join types, partition columns and the Arrow adapters.
  \<^item> \<open>Dates\<close>: \<^verbatim>\<open>common/date_util.cpp\<close> and the calendar of \<^verbatim>\<open>iceberg/partition_pruning.cpp\<close>,
    with the closed form of the Gregorian calendar as specification.
  \<^item> \<open>Expr\<close>: the expression tree, its two renderings, and the typing discipline \<open>wt\<close> the later
    stages rely on.
  \<^item> \<open>Compute\<close>, \<open>RefKernel\<close>: \<^verbatim>\<open>execution_cpu/expression_compiler_cpu.cpp\<close> against \<open>eval\<close>, SQL's
    meaning of an expression. Arrow's kernel registry is the parameter \<open>K\<close>; the locales
    \<open>arrow_logic\<close> and \<open>arrow_kernels\<close> state what is relied on and \<open>ref_kernel\<close> interprets them.
  \<^item> \<open>SqlText\<close>, \<open>SqlParser\<close>: \<^verbatim>\<open>sql/parser.cpp\<close>: the limits on a statement's text, the table sources
    replaced by placeholder names, the conversion of the SQL grammar's tree into the syntax tree of
    \<^verbatim>\<open>sql/ast.hpp\<close>, and \<open>parse_sql\<close>; the grammar (the hsql library) is a parameter.
  \<^item> \<open>Binder\<close>, \<open>BindQuery\<close>: \<^verbatim>\<open>planner/binder.cpp\<close>, from the syntax tree of \<^verbatim>\<open>sql/ast.hpp\<close> to a
    \<open>BoundQuery\<close>: name resolution over joined sources, types and casts, clauses, and the keys,
    prefilters and residual predicates of join steps.
  \<^item> \<open>LogicalPlan\<close>, \<open>LogicalPlanner\<close>: plan nodes, schemas, EXPLAIN text, \<open>exec_plan\<close>, the relational
    meaning of a plan over the parameter record \<open>engine\<close> (files, sort, aggregates, key equality),
    and \<^verbatim>\<open>logical_planner.cpp\<close> against \<open>run_query\<close>, the meaning of a bound query.
  \<^item> \<open>Simplify\<close>, \<open>Rewrite\<close>, \<open>Annotate\<close>: \<open>simplify_expression\<close>, \<open>rewrite_plan\<close> (predicate pushdown
    through joins, filter merging, LIMIT pushdown), \<open>annotate_scan\<close> and \<open>optimize\<close>; the locales
    \<open>query_engine\<close> and \<open>natural_sort\<close> with their reference instances.
  \<^item> \<open>Subquery\<close>, \<open>QueryPlan\<close>: \<^verbatim>\<open>sql/subquery_resolver.cpp\<close> and the planning functions of
    \<^verbatim>\<open>api/query_engine.cpp\<close>: EXISTS to semi and anti joins, decorrelation, scalar and IN subqueries
    evaluated and replaced by literals, derived tables.
  \<^item> \<open>Pruning\<close>: Parquet statistics and row-group pruning; the locale \<open>pruner\<close> is the contract of
    every pruning rule, the locale \<open>arrow_compare\<close> connects it with the filter that is executed.
  \<^item> \<open>TableResolution\<close>, \<open>Iceberg\<close>: file discovery, Hive-style partition directories,
    \<open>resolve_table\<close>; Iceberg schema translation, partition transforms and pruning, position
    deletes, \<open>resolve_iceberg_table\<close>.
  \<^item> \<open>ObjectStores\<close>, \<open>ObjectCache\<close>: URI schemes, the wildcard matcher, listing local and remote
    directories; the NVMe object cache as a state machine over its files, and the store registry.
  \<^item> \<open>PhysicalPlan\<close>, \<open>PhysicalExec\<close>, \<open>PhysicalTotal\<close>: \<^verbatim>\<open>io/physical_planner.cpp\<close> and
    \<^verbatim>\<open>planner/physical_plan.cpp\<close>; \<open>returns\<close> and \<open>p_returns\<close> are the row lists a plan may return when
    scans, joins and aggregates deliver rows in any order; the locale \<open>bag_engine\<close>.
  \<^item> \<open>ScanReader\<close>, \<open>Acero\<close>: \<^verbatim>\<open>execution_cpu/acero_query_executor.cpp\<close>: the lazy reader over the
    fragments of a scan, and the translation of physical plans into Acero declarations, whose
    meaning is \<open>d_returns\<close>; the locale \<open>acero_engine\<close> states what Acero is relied on for.

  \<^bold>\<open>What is shown.\<close>
  \<^item> Parsing: every source the text names is read exactly once and put back where its placeholder
    stood, the limits are exact, and an expression written as a grammar tree is converted back to
    itself.
  \<^item> Binding: what binds is well typed and reads only columns of its sources; the key extracted
    from an ON condition joins the same rows. Planning: a bound query's plan returns the rows the
    query means, also for join chains, and the literals that replace a subquery are the rows of its
    own plan.
  \<^item> Optimising keeps every query's rows, their order, and the names and types of the columns
    (\<open>rewrite_plan_sound\<close>), also when scans deliver only the annotated columns
    (\<open>optimized_query_sound\<close>). Simplification and compilation keep the value of an expression.
  \<^item> Physical plans return only rows their logical plans may return, and so does the CPU backend
    (\<open>build_physical_plan_refines\<close>, \<open>translate_refines\<close>, \<open>cpu_execution_refines\<close>); the streaming
    scan reads what reading every fragment would. On annotated plans over base tables the planner
    throws no internal error.
  \<^item> Row-group and partition pruning lose no row within the stated bounds. A resolved table is
    consistent; a dropped Iceberg file has no live row unless a position is listed twice.
  \<^item> Reads through the object cache return the object's bytes, its counters are exact, and a sweep
    ends within the budget; the wildcard matcher decides the meaning of its pattern.
  \<^item> Dates and partition paths round-trip.
  \<^item> Where the code does less than it means to, a theorem computes the case: for pruning
    \<open>pruning_loses_large_integers\<close>, \<open>pruning_loses_nan\<close>, \<open>pruning_misreads_integer_decimals\<close>; for
    pushdown \<open>pushdown_drops_casts\<close>, \<open>pushdown_through_renaming\<close>, \<open>pushdown_below_limit\<close>; for plans
    \<open>optimize_fails_on_derived_table\<close>, \<open>grouped_order_by_out_of_range\<close>,
    \<open>elided_projection_reads_wrong_column\<close>, \<open>star_group_by_reads_wrong_column\<close>,
    \<open>dedup_confuses_doubles\<close>, \<open>count_subquery_loses_rows\<close>, \<open>limit_needs_order\<close>; for parsing
    \<open>source_in_comment\<close>, \<open>simple_case_over_subquery\<close>; for storage
    \<open>iceberg_duplicate_deletes\<close>, \<open>cache_collision\<close>, \<open>glob_asterisk_in_name\<close>.

  \<^bold>\<open>Loops and bounds.\<close> Every loop but one is a total function. The restarts of \<open>rewrite_plan\<close> end by a
  measure on height and stacked filters, the scans of \<open>rewrite_sources\<close> by the text left, conversion by
  the size of the grammar's tree, nested planning by the depth of the statement, the copy
  loop of the cache by the bytes left, the scan reader by the fragments left and the batches of the
  open one. The backtracking loop of \<open>glob_match\<close> is a partial function, shown to return on every
  input. The month loop of \<open>civil_from_days\<close>, unbounded in the source, stops after December, which is
  shown unreachable. Indices are \<open>nat\<close>; \<open>size_t\<close> arithmetic that may wrap (\<open>shift_columns\<close>) and casts
  to \<open>int\<close> are written out.

  \<^bold>\<open>Not modelled.\<close> Arrow, Acero, cuDF, Parquet, Avro, HTTP and JSON libraries and the SQL grammar
  (parameters where the code relies on them); Delta and
  Unity Catalog metadata; GPU operators, memory and streams, the Flight SQL server, command line,
  configuration files, tracing and metrics, whose effects are I/O or calls of those libraries.
\<close>

section \<open>The query path\<close>

lemma planned_produces_rows: "build_logical_plan rtl q s parts = Inr p \<Longrightarrow> produces_rows p"
  by (auto simp: build_logical_plan_def finish_produces_rows split: if_splits)

text \<open>
  C7. The whole path from a parsed statement to the optimised plan: a statement that binds is
  planned, and whatever plan the optimizer makes of it returns the rows the statement means, also
  when the scans deliver only the columns it marked as required.
\<close>

theorem optimized_query_sound:
  assumes "query_engine E" "natural_sort E" "bind_query stmt s = Inr q" "stmt_ok stmt" "planner_ok stmt q"
    and "list_all (\<lambda>r. length r = length s) (e_data E (from_paths stmt))"
  shows "\<exists>p. build_logical_plan rtl q s parts = Inr p \<and>
    exec_plan E (rewrite_plan p) = run_query E (e_data E (from_paths stmt)) q \<and>
    (case optimize p of
       Inl _ \<Rightarrow> True
     | Inr p' \<Rightarrow> exec_narrow E p' = run_query E (e_data E (from_paths stmt)) q)"
proof -
  from planned_query[OF assms(3-6)] obtain p where p: "build_logical_plan rtl q s parts = Inr p"
    "exec_plan E p = run_query E (e_data E (from_paths stmt)) q" "plan_wf E p" by blast
  have "exec_plan E (rewrite_plan p) = exec_plan E p"
    using query_engine.rewrite_refines[OF assms(1) p(3)] by (simp add: refines_def)
  moreover have "exec_narrow E p' = exec_plan E p" if "optimize p = Inr p'" for p'
    using optimize_exact[OF assms(1,2) p(3) planned_produces_rows[OF p(1)] that] .
  ultimately show ?thesis using p(1,2) by (auto split: sum.split)
qed

text \<open>The grouped query of the planner's example, through the optimizer.\<close>

theorem optimized_query_sound_witness:
  "\<exists>q p p'. bind_query demo_stmt [int_field ''k'', int_field ''v''] = Inr q \<and>
     build_logical_plan True q [int_field ''k'', int_field ''v''] [] = Inr p \<and> optimize p = Inr p' \<and>
     exec_narrow (ref_engine sales_data) p' = [[int64_datum 1, int64_datum 17]]"
proof -
  let ?s = "[int_field ''k'', int_field ''v'']" and ?E = "ref_engine sales_data"
  have "case bind_query demo_stmt ?s of Inl _ \<Rightarrow> False
      | Inr q \<Rightarrow> planner_ok demo_stmt q \<and> run_query ?E (e_data ?E (from_paths demo_stmt)) q = [[int64_datum 1, int64_datum 17]] \<and>
          (case build_logical_plan True q ?s [] of Inl _ \<Rightarrow> False
           | Inr p \<Rightarrow> (case optimize p of Inl _ \<Rightarrow> False | Inr _ \<Rightarrow> True))" by code_simp
  then obtain q p p' where q: "bind_query demo_stmt ?s = Inr q" "planner_ok demo_stmt q"
    "run_query ?E (e_data ?E (from_paths demo_stmt)) q = [[int64_datum 1, int64_datum 17]]"
    "build_logical_plan True q ?s [] = Inr p" "optimize p = Inr p'" by (auto split: sum.splits)
  have "stmt_ok demo_stmt"
    by (simp add: stmt_ok_def demo_stmt_def in_int64_def int64_min_def int64_max_def)
  moreover have "list_all (\<lambda>r. length r = length ?s) (e_data ?E (from_paths demo_stmt))"
    by (simp add: ref_engine_def sales_data_def)
  ultimately show ?thesis
    using optimized_query_sound[OF refq.query_engine_axioms[of sales_data] refs.natural_sort_axioms[of sales_data]
        q(1) _ q(2), of True "[]"] q by auto
qed


section \<open>Execution on the CPU\<close>

text \<open>
  C2. From the logical plan to the rows of the CPU backend: what \<open>execute_physical_plan_cpu\<close>
  returns for the physical plan that was built, the logical plan may return. The scans read the
  files through the streaming reader, whose rows are assumed to be those of the tables; what Acero
  returns for a tree of declarations is assumed to be what its nodes say.
\<close>

theorem cpu_execution_refines:
  assumes "bag_engine E" "acero_engine E A" "boundaries_ok store extra p" "plan_wf E p" "\<not> over_scan p"
    and "build_physical_plan store extra p = Inr pp" "reads_scans E (scan_rows owned bytes) store extra p"
    and "p_typed A owned bytes pp" "\<forall>d rows. to_table d = Inr rows \<longrightarrow> d_returns E A d rows"
    and "execute_physical_plan_cpu initialized to_table owned bytes pp = Inr rows"
  shows "returns E p rows"
proof -
  from assms(10) obtain d where d: "translate owned bytes pp = Inr d"
    "(case to_table d of Inl status \<Rightarrow> Inl (ExecutionError (''CPU execution backend failed: '' @ status)) | Inr r \<Rightarrow> Inr r) = Inr rows"
    by (auto simp only: execute_physical_plan_cpu_def bindR_eq_Inr)
  then have "to_table d = Inr rows" by (cases "to_table d") simp_all
  with assms(9) have "d_returns E A d rows" by blast
  from acero_rows[OF assms(2,8) d(1) this] show ?thesis
    by (rule physical_rows[OF assms(1,3,4,7,5,6)])
qed

text \<open>The join whose sides are exchanged, over files that hold the two tables.\<close>

definition table_file :: "string list \<Rightarrow> row \<Rightarrow> ParquetFile" where
  "table_file names row =
     \<lparr>pq_schema = Inr (map (\<lambda>n. \<lparr>aname = n, atype = AInt64, anullable = True\<rparr>) names),
      pq_batches = (\<lambda>groups cols. Inr [Inr [map (\<lambda>i. row ! i) cols]])\<rparr>"

definition table_bytes :: ByteStore where
  "table_bytes path =
     Opened (if take 1 path = ''s'' then table_file [''k'', ''v''] [int64_datum 2, int64_datum 20]
             else table_file [''a'', ''b'', ''c''] [int64_datum 9, int64_datum 2, int64_datum 7])"

lemma swapped_typed:
  assumes "build_physical_plan table_store None swapped_plan = Inr pp"
  shows "p_typed ref_acero (\<lambda>n. None) table_bytes pp \<and> p_plain pp \<and> p_runs (\<lambda>n. None) table_bytes pp"
proof -
  let ?own = "\<lambda>n :: ParquetScanNode. None :: ByteStore option" and ?ts = "[AInt64, AInt64]"
  have "case build_physical_plan table_store None swapped_plan of
      Inr (PResult (PProjection (PJoin (PScan a) (PScan b) lk rk Inner None cm est) items)) \<Rightarrow>
        items = [table_item ''c'' 3, table_item ''v'' 1] \<and> lk = 0 \<and> rk = 0 \<and>
        scan_ok ?own table_bytes a \<and> scan_ok ?own table_bytes b \<and> readable ?own table_bytes a \<and> readable ?own table_bytes b \<and>
        p_types (PScan a) = ?ts \<and> p_types (PScan b) = ?ts
    | _ \<Rightarrow> False" by code_simp
  then obtain a b cm est where p: "pp = PResult (PProjection (PJoin (PScan a) (PScan b) 0 0 Inner None cm est)
      [table_item ''c'' 3, table_item ''v'' 1])"
    "scan_ok ?own table_bytes a" "scan_ok ?own table_bytes b" "readable ?own table_bytes a" "readable ?own table_bytes b"
    "p_types (PScan a) = ?ts" "p_types (PScan b) = ?ts"
    using assms by (auto split: sum.splits pplan.splits JoinType.splits option.splits)
  have "expr_ok ref_acero (?ts @ ?ts) (nexpr (table_item ''c'' 3))" "expr_ok ref_acero (?ts @ ?ts) (nexpr (table_item ''v'' 1))"
    by code_simp+
  then show ?thesis using p(2-5) unfolding p(1) by (simp add: p_types_join p(6,7))
qed

theorem cpu_execution_refines_witness:
  "\<exists>pp to_table rows. build_physical_plan table_store None swapped_plan = Inr pp \<and>
     execute_physical_plan_cpu None to_table (\<lambda>n. None) table_bytes pp = Inr rows \<and>
     returns (ref_engine table_data) swapped_plan rows"
proof -
  let ?own = "\<lambda>n :: ParquetScanNode. None :: ByteStore option" and ?E = "ref_engine table_data"
  have "case build_physical_plan table_store None swapped_plan of Inl _ \<Rightarrow> False
      | Inr pp \<Rightarrow> (case translate ?own table_bytes pp of Inl _ \<Rightarrow> False | Inr _ \<Rightarrow> True)" by code_simp
  then obtain pp d where pp: "build_physical_plan table_store None swapped_plan = Inr pp" "translate ?own table_bytes pp = Inr d"
    by (auto split: sum.splits)
  note t = swapped_typed[OF pp(1)]
  obtain rows where rows: "d_returns ?E ref_acero d rows"
    using translate_runs[OF _ translate_resolves[OF _ pp(2)] pp(2)] t by blast
  define to_table where "to_table = (\<lambda>d'. if d' = d then Inr rows else Inl ''not run'' :: string + row list)"
  have exec: "execute_physical_plan_cpu None to_table ?own table_bytes pp = Inr rows"
    by (simp add: execute_physical_plan_cpu_def ensure_compute_initialized_def pp(2) to_table_def)
  have "case convert_scan table_store None (table_scan ''t'' [''a'', ''b'', ''c''] [''b'', ''c'']) of
      Inr (PScan n) \<Rightarrow> scan_rows ?own table_bytes n = read_scan ?E (table_scan ''t'' [''a'', ''b'', ''c''] [''b'', ''c'']) n | _ \<Rightarrow> False"
    "case convert_scan table_store None (table_scan ''s'' [''k'', ''v''] [''k'', ''v'']) of
      Inr (PScan n) \<Rightarrow> scan_rows ?own table_bytes n = read_scan ?E (table_scan ''s'' [''k'', ''v''] [''k'', ''v'']) n | _ \<Rightarrow> False"
    by code_simp+
  then have reads: "reads_scans ?E (scan_rows ?own table_bytes) table_store None swapped_plan"
    by (auto simp: reads_scans_def swapped_plan_def split: sum.splits pplan.splits)
  have ok: "boundaries_ok table_store None swapped_plan" by code_simp
  have wf: "plan_wf ?E swapped_plan"
    by (simp add: swapped_plan_def table_scan_def table_item_def ref_engine_def table_data_def)
  have "returns ?E swapped_plan rows"
    by (rule cpu_execution_refines[OF refb.bag_engine_axioms refa.acero_engine_axioms ok wf _ pp(1) reads conjunct1[OF t] _ exec])
      (use rows in \<open>auto simp: swapped_plan_def to_table_def split: if_splits\<close>)
  with pp(1) exec show ?thesis by blast
qed

end
